(* ===== verification/Prelude.thy ===== *)
theory Prelude
  imports Main "HOL-Library.Word"
begin

unbundle bit_operations_syntax

text \<open>
  What every component shares: the machine types of the Win32 build (\<open>char\<close> is a byte,
  \<open>int\<close>, \<open>long\<close> and \<open>size_t\<close> have 32 bits), C memory copies, byte-order conversions, C
  strings, and the simplification collections the component theories extend.
\<close>

type_synonym byte = "8 word"
type_synonym u16 = "16 word"
type_synonym u32 = "32 word"
type_synonym bytes = "byte list"

named_theorems inv_intros \<open>introduction rules for well-formedness invariants\<close>
named_theorems length_simps \<open>lengths of the buffers the operations return\<close>


section \<open>Memory copies\<close>

text \<open>\<open>memcpy(&dst[off], src, strlen src)\<close> and \<open>memset(&dst[off], 0, n)\<close> on a buffer held as
  a list; the caller keeps \<open>off + n \<le> length dst\<close>.\<close>

definition memcpy_at :: "'a list \<Rightarrow> nat \<Rightarrow> 'a list \<Rightarrow> 'a list" where
  "memcpy_at dst off src = take off dst @ src @ drop (off + length src) dst"

lemma length_memcpy_at [length_simps]:
  "off + length src \<le> length dst \<Longrightarrow> length (memcpy_at dst off src) = length dst"
  by (simp add: memcpy_at_def)

lemma take_memcpy_at:
  "off + length src \<le> length dst \<Longrightarrow> n = off + length src \<Longrightarrow>
   take n (memcpy_at dst off src) = take off dst @ src"
  by (cases src) (simp_all add: memcpy_at_def min_absorb2)

lemma memcpy_at_full:
  "off + length src = length dst \<Longrightarrow> memcpy_at dst off src = take off dst @ src"
  by (simp add: memcpy_at_def)

lemma memcpy_at_0: "memcpy_at dst 0 src = src @ drop (length src) dst"
  by (simp add: memcpy_at_def)


lemma memcpy_at_memcpy_at:
  assumes "off + length xs + length ys \<le> length dst" "off' = off + length xs"
  shows "memcpy_at (memcpy_at dst off xs) off' ys = memcpy_at dst off (xs @ ys)"
  using assms by (simp add: memcpy_at_def min_absorb2 add.commute add.left_commute)

lemma list_update_memcpy_at: "i < length xs \<Longrightarrow> xs[i := x] = memcpy_at xs i [x]"
  by (simp add: memcpy_at_def upd_conv_take_nth_drop)


section \<open>Little-endian numbers\<close>

lemma unat_byte_less: "unat (b :: byte) < 256"
  using unsigned_less [of b, where ?'a = nat] by simp

fun le_val :: "bytes \<Rightarrow> nat" where
  "le_val [] = 0"
| "le_val (b # bs) = unat b + 256 * le_val bs"

fun le_bytes :: "nat \<Rightarrow> nat \<Rightarrow> bytes" where
  "le_bytes 0 v = []"
| "le_bytes (Suc n) v = of_nat v # le_bytes n (v div 256)"

lemma le_bytes_numeral:
  "le_bytes (numeral k) v = of_nat v # le_bytes (pred_numeral k) (v div 256)"
  by (simp only: numeral_eq_Suc [of k] le_bytes.simps)

lemma length_le_bytes [simp]: "length (le_bytes n v) = n"
  by (induction n arbitrary: v) auto

lemma le_val_le_bytes: "le_val (le_bytes n v) = v mod 256 ^ n"
proof (induction n arbitrary: v)
  case (Suc n)
  have "v mod (256 * 256 ^ n) = 256 * (v div 256 mod 256 ^ n) + v mod 256"
    by (rule mod_mult2_eq)
  with Suc show ?case
    by (simp add: unat_of_nat)
qed simp

lemma le_bytes_le_val: "length bs = n \<Longrightarrow> le_bytes n (le_val bs) = bs"
proof (induction bs arbitrary: n)
  case (Cons b bs)
  have b: "unat b < 256"
    by (rule unat_byte_less)
  have 1: "(of_nat (unat b + 256 * le_val bs) :: byte) = b"
  proof -
    have "unat (of_nat (unat b + 256 * le_val bs) :: byte) = unat b"
      using b by (simp add: unat_of_nat del: of_nat_add of_nat_mult)
    then show ?thesis by (rule unsigned_word_eqI)
  qed
  from b have 2: "(unat b + 256 * le_val bs) div 256 = le_val bs"
    by simp
  from Cons.prems obtain m where "n = Suc m" "length bs = m" by (cases n) auto
  with Cons.IH [of m] 1 2 show ?case
    by (simp del: of_nat_add of_nat_mult)
qed simp

lemma le_val_less: "le_val bs < 256 ^ length bs"
proof (induction bs)
  case (Cons b bs)
  have "unat b < 256" by (rule unat_byte_less)
  with Cons show ?case by simp
qed simp

lemma le_val_append: "le_val (xs @ ys) = le_val xs + 256 ^ length xs * le_val ys"
  by (induction xs) (simp_all add: algebra_simps)


lemma byte_or_shift: "ucast (b :: byte) OR push_bit 8 w = ucast b + 256 * (w :: 'a::len word)"
proof -
  have "ucast b + push_bit 8 w = ucast b OR push_bit 8 w"
    by (rule disjunctive_add) (auto simp: bit_simps dest: bit_imp_le_length)
  then show ?thesis by (simp add: push_bit_eq_mult mult.commute)
qed

lemma of_nat_le_val_Cons:
  "(of_nat (le_val (b # bs)) :: 'a::len word) = ucast b OR push_bit 8 (of_nat (le_val bs))"
  by (simp add: byte_or_shift)


lemma le_bytes_add: "le_bytes (a + b) v = le_bytes a v @ le_bytes b (v div 256 ^ a)"
  by (induction a arbitrary: v) (simp_all add: div_mult2_eq)

lemma le_bytes_mod: "le_bytes n (v mod 256 ^ n) = le_bytes n v"
  using le_bytes_le_val [of "le_bytes n v" n] by (simp add: le_val_le_bytes)


section \<open>Masks\<close>

lemma unat_and_mask: "unat (w AND mask n :: 'a::len word) = unat w mod 2 ^ n"
  unfolding take_bit_eq_mask [symmetric] unsigned_take_bit_eq by (simp add: take_bit_eq_mod)

lemma and_plus_and_not: "(w AND NOT m) + (w AND m) = (w :: 'a::len word)"
proof -
  have "(w AND NOT m) + (w AND m) = (w AND NOT m) OR (w AND m)"
    by (rule disjunctive_add) (auto simp: bit_simps)
  also have "\<dots> = w" by (rule bit_word_eqI) (auto simp: bit_simps)
  finally show ?thesis .
qed

lemma unat_and_not_mask: "unat (w AND NOT (mask n) :: 'a::len word) = unat w - unat w mod 2 ^ n"
proof -
  have "w AND NOT (mask n) = w - (w AND mask n)"
    using and_plus_and_not [of w "mask n"] by (simp add: eq_diff_eq)
  moreover have "w AND mask n \<le> w"
    by (simp add: word_le_nat_alt unat_and_mask)
  ultimately show ?thesis by (simp add: unat_sub unat_and_mask)
qed

lemma unat_drop_bit_div: "unat (drop_bit n w :: 'a::len word) = unat w div 2 ^ n"
  unfolding unsigned_drop_bit_eq by (simp add: drop_bit_eq_div take_bit_nat_eq_self)


section \<open>C strings\<close>

text \<open>What \<open>strlen\<close>, \<open>sprintf("%s")\<close> and a \<open>char *\<close> parameter see of a byte string: the
  bytes before the first NUL.\<close>

definition c_str :: "bytes \<Rightarrow> bytes" where
  "c_str bs = takeWhile (\<lambda>b. b \<noteq> 0) bs"

lemma c_str_id: "0 \<notin> set bs \<Longrightarrow> c_str bs = bs"
  unfolding c_str_def by (induction bs) auto

lemma c_str_no_nul: "0 \<notin> set (c_str bs)"
  by (auto simp: c_str_def dest: set_takeWhileD)

lemma c_str_idem [simp]: "c_str (c_str bs) = c_str bs"
  by (simp add: c_str_id c_str_no_nul)

lemma length_c_str_le: "length (c_str bs) \<le> length bs"
  by (simp add: c_str_def length_takeWhile_le)

definition lit :: "string \<Rightarrow> bytes" where
  "lit s = map (\<lambda>c. of_char c) s"

lemma lit_simps [simp]: "lit [] = []" "lit (c # cs) = of_char c # lit cs"
  by (simp_all add: lit_def)

lemma length_lit [simp]: "length (lit s) = length s"
  by (simp add: lit_def)

lemma lit_append [simp]: "lit (s @ t) = lit s @ lit t"
  by (simp add: lit_def)

end
