(* ===== verification/Md5.thy ===== *)
theory Md5
  imports Prelude
begin

text \<open>
  The MD5 code of md5.c and md5.h: the context record, the \<open>STEP\<close> macro and the 64 steps of
  \<open>body\<close>, the block loop, and \<open>MD5_Init\<close>, \<open>MD5_Update\<close>, \<open>MD5_Final\<close>. \<open>MD5_u32plus\<close> and
  \<open>unsigned long\<close> are 32-bit words. Where the C would read or write past the end of a buffer
  the model returns \<open>None\<close>; that this never happens is part of what \<open>Md5_Rfc\<close> proves.
\<close>

record MD5_CTX =
  ctx_lo :: u32
  ctx_hi :: u32
  ctx_a :: u32
  ctx_b :: u32
  ctx_c :: u32
  ctx_d :: u32
  ctx_buffer :: bytes
  ctx_block :: "u32 list"


section \<open>The basic functions and the step\<close>

definition MD5_F :: "u32 \<Rightarrow> u32 \<Rightarrow> u32 \<Rightarrow> u32" where
  "MD5_F x y z = z XOR (x AND (y XOR z))"

definition MD5_G :: "u32 \<Rightarrow> u32 \<Rightarrow> u32 \<Rightarrow> u32" where
  "MD5_G x y z = y XOR (z AND (x XOR y))"

definition MD5_H :: "u32 \<Rightarrow> u32 \<Rightarrow> u32 \<Rightarrow> u32" where
  "MD5_H x y z = x XOR y XOR z"

definition MD5_I :: "u32 \<Rightarrow> u32 \<Rightarrow> u32 \<Rightarrow> u32" where
  "MD5_I x y z = y XOR (x OR NOT z)"

definition STEP :: "(u32 \<Rightarrow> u32 \<Rightarrow> u32 \<Rightarrow> u32) \<Rightarrow> u32 \<Rightarrow> u32 \<Rightarrow> u32 \<Rightarrow> u32 \<Rightarrow> u32 \<Rightarrow> u32 \<Rightarrow> nat \<Rightarrow> u32" where
  "STEP f a b c d x t s =
    (let a1 = a + (f b c d + x + t);
         a2 = push_bit s a1 OR drop_bit (32 - s) (a1 AND 0xffffffff)
     in a2 + b)"

text \<open>\<open>SET\<close> reads four bytes of the input and stores them in \<open>ctx->block\<close>; \<open>GET\<close> reads
  \<open>ctx->block\<close> (the branch of the macros for a compiler that defines none of \<open>__i386__\<close>,
  \<open>__x86_64__\<close>, \<open>__vax__\<close>, which is the one the Visual C++ project builds).\<close>

datatype md5_operand = SET nat | GET nat

definition SET_word :: "bytes \<Rightarrow> nat \<Rightarrow> u32" where
  "SET_word ptr n =
     ucast (ptr ! (n * 4)) OR push_bit 8 (ucast (ptr ! (n * 4 + 1))) OR
     push_bit 16 (ucast (ptr ! (n * 4 + 2))) OR push_bit 24 (ucast (ptr ! (n * 4 + 3)))"

fun operand_value :: "bytes \<Rightarrow> u32 list \<Rightarrow> md5_operand \<Rightarrow> u32 \<times> u32 list" where
  "operand_value ptr block (SET n) = (let v = SET_word ptr n in (v, block[n := v]))"
| "operand_value ptr block (GET n) = (block ! n, block)"

datatype md5_reg = RA | RB | RC | RD

type_synonym md5_regs = "md5_reg \<Rightarrow> u32"

type_synonym md5_op =
  "(u32 \<Rightarrow> u32 \<Rightarrow> u32 \<Rightarrow> u32) \<times> md5_reg \<times> md5_reg \<times> md5_reg \<times> md5_reg \<times> md5_operand \<times> u32 \<times> nat"

text \<open>One \<open>STEP(f, a, b, c, d, x, t, s)\<close> line of \<open>body\<close>; the registers are its macro arguments.\<close>

fun md5_step :: "bytes \<Rightarrow> md5_op \<Rightarrow> md5_regs \<times> u32 list \<Rightarrow> md5_regs \<times> u32 list" where
  "md5_step ptr (f, ra, rb, rc, rd, x, t, s) (r, block) =
    (let (v, block') = operand_value ptr block x
     in (r(ra := STEP f (r ra) (r rb) (r rc) (r rd) v t s), block'))"

definition md5_round1 :: "md5_op list" where
  "md5_round1 = [
   (MD5_F, RA, RB, RC, RD, SET 0, 0xd76aa478, 7),
   (MD5_F, RD, RA, RB, RC, SET 1, 0xe8c7b756, 12),
   (MD5_F, RC, RD, RA, RB, SET 2, 0x242070db, 17),
   (MD5_F, RB, RC, RD, RA, SET 3, 0xc1bdceee, 22),
   (MD5_F, RA, RB, RC, RD, SET 4, 0xf57c0faf, 7),
   (MD5_F, RD, RA, RB, RC, SET 5, 0x4787c62a, 12),
   (MD5_F, RC, RD, RA, RB, SET 6, 0xa8304613, 17),
   (MD5_F, RB, RC, RD, RA, SET 7, 0xfd469501, 22),
   (MD5_F, RA, RB, RC, RD, SET 8, 0x698098d8, 7),
   (MD5_F, RD, RA, RB, RC, SET 9, 0x8b44f7af, 12),
   (MD5_F, RC, RD, RA, RB, SET 10, 0xffff5bb1, 17),
   (MD5_F, RB, RC, RD, RA, SET 11, 0x895cd7be, 22),
   (MD5_F, RA, RB, RC, RD, SET 12, 0x6b901122, 7),
   (MD5_F, RD, RA, RB, RC, SET 13, 0xfd987193, 12),
   (MD5_F, RC, RD, RA, RB, SET 14, 0xa679438e, 17),
   (MD5_F, RB, RC, RD, RA, SET 15, 0x49b40821, 22)]"

definition md5_round2 :: "md5_op list" where
  "md5_round2 = [
   (MD5_G, RA, RB, RC, RD, GET 1, 0xf61e2562, 5),
   (MD5_G, RD, RA, RB, RC, GET 6, 0xc040b340, 9),
   (MD5_G, RC, RD, RA, RB, GET 11, 0x265e5a51, 14),
   (MD5_G, RB, RC, RD, RA, GET 0, 0xe9b6c7aa, 20),
   (MD5_G, RA, RB, RC, RD, GET 5, 0xd62f105d, 5),
   (MD5_G, RD, RA, RB, RC, GET 10, 0x02441453, 9),
   (MD5_G, RC, RD, RA, RB, GET 15, 0xd8a1e681, 14),
   (MD5_G, RB, RC, RD, RA, GET 4, 0xe7d3fbc8, 20),
   (MD5_G, RA, RB, RC, RD, GET 9, 0x21e1cde6, 5),
   (MD5_G, RD, RA, RB, RC, GET 14, 0xc33707d6, 9),
   (MD5_G, RC, RD, RA, RB, GET 3, 0xf4d50d87, 14),
   (MD5_G, RB, RC, RD, RA, GET 8, 0x455a14ed, 20),
   (MD5_G, RA, RB, RC, RD, GET 13, 0xa9e3e905, 5),
   (MD5_G, RD, RA, RB, RC, GET 2, 0xfcefa3f8, 9),
   (MD5_G, RC, RD, RA, RB, GET 7, 0x676f02d9, 14),
   (MD5_G, RB, RC, RD, RA, GET 12, 0x8d2a4c8a, 20)]"

definition md5_round3 :: "md5_op list" where
  "md5_round3 = [
   (MD5_H, RA, RB, RC, RD, GET 5, 0xfffa3942, 4),
   (MD5_H, RD, RA, RB, RC, GET 8, 0x8771f681, 11),
   (MD5_H, RC, RD, RA, RB, GET 11, 0x6d9d6122, 16),
   (MD5_H, RB, RC, RD, RA, GET 14, 0xfde5380c, 23),
   (MD5_H, RA, RB, RC, RD, GET 1, 0xa4beea44, 4),
   (MD5_H, RD, RA, RB, RC, GET 4, 0x4bdecfa9, 11),
   (MD5_H, RC, RD, RA, RB, GET 7, 0xf6bb4b60, 16),
   (MD5_H, RB, RC, RD, RA, GET 10, 0xbebfbc70, 23),
   (MD5_H, RA, RB, RC, RD, GET 13, 0x289b7ec6, 4),
   (MD5_H, RD, RA, RB, RC, GET 0, 0xeaa127fa, 11),
   (MD5_H, RC, RD, RA, RB, GET 3, 0xd4ef3085, 16),
   (MD5_H, RB, RC, RD, RA, GET 6, 0x04881d05, 23),
   (MD5_H, RA, RB, RC, RD, GET 9, 0xd9d4d039, 4),
   (MD5_H, RD, RA, RB, RC, GET 12, 0xe6db99e5, 11),
   (MD5_H, RC, RD, RA, RB, GET 15, 0x1fa27cf8, 16),
   (MD5_H, RB, RC, RD, RA, GET 2, 0xc4ac5665, 23)]"

definition md5_round4 :: "md5_op list" where
  "md5_round4 = [
   (MD5_I, RA, RB, RC, RD, GET 0, 0xf4292244, 6),
   (MD5_I, RD, RA, RB, RC, GET 7, 0x432aff97, 10),
   (MD5_I, RC, RD, RA, RB, GET 14, 0xab9423a7, 15),
   (MD5_I, RB, RC, RD, RA, GET 5, 0xfc93a039, 21),
   (MD5_I, RA, RB, RC, RD, GET 12, 0x655b59c3, 6),
   (MD5_I, RD, RA, RB, RC, GET 3, 0x8f0ccc92, 10),
   (MD5_I, RC, RD, RA, RB, GET 10, 0xffeff47d, 15),
   (MD5_I, RB, RC, RD, RA, GET 1, 0x85845dd1, 21),
   (MD5_I, RA, RB, RC, RD, GET 8, 0x6fa87e4f, 6),
   (MD5_I, RD, RA, RB, RC, GET 15, 0xfe2ce6e0, 10),
   (MD5_I, RC, RD, RA, RB, GET 6, 0xa3014314, 15),
   (MD5_I, RB, RC, RD, RA, GET 13, 0x4e0811a1, 21),
   (MD5_I, RA, RB, RC, RD, GET 4, 0xf7537e82, 6),
   (MD5_I, RD, RA, RB, RC, GET 11, 0xbd3af235, 10),
   (MD5_I, RC, RD, RA, RB, GET 2, 0x2ad7d2bb, 15),
   (MD5_I, RB, RC, RD, RA, GET 9, 0xeb86d391, 21)]"

definition md5_steps :: "md5_op list" where
  "md5_steps = md5_round1 @ md5_round2 @ md5_round3 @ md5_round4"


section \<open>The block loop and the interface\<close>

text \<open>One pass of the \<open>do\<close> loop: save the registers, run the steps, add the saved values.\<close>

definition body_block :: "bytes \<Rightarrow> md5_regs \<times> u32 list \<Rightarrow> md5_regs \<times> u32 list" where
  "body_block ptr st =
    (let (r', block') = fold (md5_step ptr) md5_steps st
     in (\<lambda>q. r' q + fst st q, block'))"

text \<open>\<open>do { ... ptr += 64; } while (size -= 64)\<close>: the condition is the new value of \<open>size\<close>.\<close>

function body_loop :: "md5_regs \<times> u32 list \<Rightarrow> bytes \<Rightarrow> u32 \<Rightarrow> ((md5_regs \<times> u32 list) \<times> bytes) option" where
  "body_loop st ptr sz =
    (if length ptr < 64 then None
     else let st' = body_block ptr st; ptr' = drop 64 ptr; sz' = sz - 64
          in if sz' = 0 then Some (st', ptr') else body_loop st' ptr' sz')"
  by pat_completeness auto
termination
  by (relation "measure (\<lambda>(st, ptr, sz). length ptr)") auto

declare body_loop.simps [simp del]

fun md5_load :: "MD5_CTX \<Rightarrow> md5_regs" where
  "md5_load ctx RA = ctx_a ctx"
| "md5_load ctx RB = ctx_b ctx"
| "md5_load ctx RC = ctx_c ctx"
| "md5_load ctx RD = ctx_d ctx"

definition body :: "MD5_CTX \<Rightarrow> bytes \<Rightarrow> u32 \<Rightarrow> (MD5_CTX \<times> bytes) option" where
  "body ctx data sz =
    (case body_loop (md5_load ctx, ctx_block ctx) data sz of
       None \<Rightarrow> None
     | Some ((r, block), ptr) \<Rightarrow>
         Some (ctx\<lparr>ctx_a := r RA, ctx_b := r RB, ctx_c := r RC, ctx_d := r RD, ctx_block := block\<rparr>, ptr))"

text \<open>\<open>MD5_Init\<close> leaves \<open>buffer\<close> and \<open>block\<close> as they are.\<close>

definition MD5_Init :: "MD5_CTX \<Rightarrow> MD5_CTX" where
  "MD5_Init ctx = ctx\<lparr>ctx_a := 0x67452301, ctx_b := 0xefcdab89, ctx_c := 0x98badcfe,
                      ctx_d := 0x10325476, ctx_lo := 0, ctx_hi := 0\<rparr>"

text \<open>The bit counters: \<open>lo\<close> holds the low 29 bits of the byte count, \<open>hi\<close> the rest.\<close>

definition md5_count :: "MD5_CTX \<Rightarrow> u32 \<Rightarrow> MD5_CTX" where
  "md5_count ctx sz =
    (let saved_lo = ctx_lo ctx;
         lo = (saved_lo + sz) AND 0x1fffffff;
         hi = (if lo < saved_lo then ctx_hi ctx + 1 else ctx_hi ctx)
     in ctx\<lparr>ctx_lo := lo, ctx_hi := hi + drop_bit 29 sz\<rparr>)"

text \<open>The last part of \<open>MD5_Update\<close>: whole blocks from the caller's data, the rest buffered.\<close>

definition md5_update_rest :: "MD5_CTX \<Rightarrow> bytes \<Rightarrow> u32 \<Rightarrow> MD5_CTX option" where
  "md5_update_rest ctx data sz =
    (case (if sz \<ge> 64
           then map_option (\<lambda>(ctx', data'). (ctx', data', sz AND 0x3f)) (body ctx data (sz AND NOT 0x3f))
           else Some (ctx, data, sz)) of
       None \<Rightarrow> None
     | Some (ctx', data', sz') \<Rightarrow>
         Some (ctx'\<lparr>ctx_buffer := memcpy_at (ctx_buffer ctx') 0 (take (unat sz') data')\<rparr>))"

definition MD5_Update :: "MD5_CTX \<Rightarrow> bytes \<Rightarrow> u32 \<Rightarrow> MD5_CTX option" where
  "MD5_Update ctx data sz =
    (let ctx1 = md5_count ctx sz;
         used = ctx_lo ctx AND 0x3f
     in if used \<noteq> 0 then
          let free = 64 - used
          in if sz < free then
               Some (ctx1\<lparr>ctx_buffer := memcpy_at (ctx_buffer ctx1) (unat used) (take (unat sz) data)\<rparr>)
             else
               let ctx2 = ctx1\<lparr>ctx_buffer := memcpy_at (ctx_buffer ctx1) (unat used) (take (unat free) data)\<rparr>
               in (case body ctx2 (ctx_buffer ctx2) 64 of
                     None \<Rightarrow> None
                   | Some (ctx3, _) \<Rightarrow> md5_update_rest ctx3 (drop (unat free) data) (sz - free))
        else md5_update_rest ctx1 data sz)"

text \<open>A 32-bit register as its four bytes: \<open>x, x >> 8, x >> 16, x >> 24\<close>, each cut to a byte.\<close>

definition word_out :: "u32 \<Rightarrow> bytes" where
  "word_out w = [ucast w, ucast (drop_bit 8 w), ucast (drop_bit 16 w), ucast (drop_bit 24 w)]"

definition md5_zero :: MD5_CTX where
  "md5_zero = \<lparr>ctx_lo = 0, ctx_hi = 0, ctx_a = 0, ctx_b = 0, ctx_c = 0, ctx_d = 0,
               ctx_buffer = replicate 64 0, ctx_block = replicate 16 0\<rparr>"

text \<open>\<open>MD5_Final\<close>: the digest and the context after \<open>memset(ctx, 0, sizeof *ctx)\<close>.\<close>

definition MD5_Final :: "MD5_CTX \<Rightarrow> (bytes \<times> MD5_CTX) option" where
  "MD5_Final ctx =
    (let used0 = ctx_lo ctx AND 0x3f;
         ctx1 = ctx\<lparr>ctx_buffer := (ctx_buffer ctx)[unat used0 := 0x80]\<rparr>;
         used = unat used0 + 1;
         free = 64 - used
     in case (if free < 8
              then let ctx2 = ctx1\<lparr>ctx_buffer := memcpy_at (ctx_buffer ctx1) used (replicate free 0)\<rparr>
                   in map_option (\<lambda>(ctx3, _). (ctx3, 0, 64)) (body ctx2 (ctx_buffer ctx2) 64)
              else Some (ctx1, used, free)) of
          None \<Rightarrow> None
        | Some (ctx4, used', free') \<Rightarrow>
            let ctx5 = ctx4\<lparr>ctx_buffer := memcpy_at (ctx_buffer ctx4) used' (replicate (free' - 8) 0),
                            ctx_lo := push_bit 3 (ctx_lo ctx4)\<rparr>;
                ctx6 = ctx5\<lparr>ctx_buffer := memcpy_at (ctx_buffer ctx5) 56
                                            (word_out (ctx_lo ctx5) @ word_out (ctx_hi ctx5))\<rparr>
            in case body ctx6 (ctx_buffer ctx6) 64 of
                 None \<Rightarrow> None
               | Some (ctx7, _) \<Rightarrow>
                   Some (word_out (ctx_a ctx7) @ word_out (ctx_b ctx7) @
                         word_out (ctx_c ctx7) @ word_out (ctx_d ctx7), md5_zero))"

text \<open>The calls a user makes: initialise, feed the chunks in order, finish. The sz argument is
  the chunk's length as an \<open>unsigned long\<close>.\<close>

fun md5_updates :: "MD5_CTX \<Rightarrow> bytes list \<Rightarrow> MD5_CTX option" where
  "md5_updates ctx [] = Some ctx"
| "md5_updates ctx (m # ms) =
    (case MD5_Update ctx m (of_nat (length m)) of None \<Rightarrow> None | Some ctx' \<Rightarrow> md5_updates ctx' ms)"

definition md5_run :: "MD5_CTX \<Rightarrow> bytes list \<Rightarrow> bytes option" where
  "md5_run ctx ms =
    (case md5_updates (MD5_Init ctx) ms of
       None \<Rightarrow> None
     | Some ctx' \<Rightarrow> map_option fst (MD5_Final ctx'))"

end
