(* ===== verification/Md5_Rfc.thy ===== *)
theory Md5_Rfc
  imports Md5
begin

text \<open>
  RFC 1321 written as its text has it (padding, little-endian words, one generic operation with
  the tables \<open>k\<close>, \<open>s\<close>, \<open>T\<close>), and the proof that md5.c computes it: the optimised \<open>F\<close> and \<open>G\<close>,
  the 64 unrolled steps with their register renaming and the streaming buffer give, for every
  way of cutting a message into chunks, the RFC's digest of the whole message.
\<close>


section \<open>The digest of RFC 1321\<close>

definition rfc_F :: "u32 \<Rightarrow> u32 \<Rightarrow> u32 \<Rightarrow> u32" where
  "rfc_F x y z = (x AND y) OR (NOT x AND z)"

definition rfc_G :: "u32 \<Rightarrow> u32 \<Rightarrow> u32 \<Rightarrow> u32" where
  "rfc_G x y z = (x AND z) OR (y AND NOT z)"

definition rfc_f :: "nat \<Rightarrow> u32 \<Rightarrow> u32 \<Rightarrow> u32 \<Rightarrow> u32" where
  "rfc_f i x y z =
    (if i < 16 then rfc_F x y z
     else if i < 32 then rfc_G x y z
     else if i < 48 then x XOR y XOR z
     else y XOR (x OR NOT z))"

definition rfc_k :: "nat \<Rightarrow> nat" where
  "rfc_k i =
    (if i < 16 then i
     else if i < 32 then (5 * i + 1) mod 16
     else if i < 48 then (3 * i + 5) mod 16
     else (7 * i) mod 16)"

definition rfc_s :: "nat \<Rightarrow> nat" where
  "rfc_s i = [[7, 12, 17, 22], [5, 9, 14, 20], [4, 11, 16, 23], [6, 10, 15, 21]] ! (i div 16) ! (i mod 4)"

definition rfc_T :: "u32 list" where
  "rfc_T =
   [
    0xd76aa478, 0xe8c7b756, 0x242070db, 0xc1bdceee, 0xf57c0faf, 0x4787c62a, 0xa8304613, 
    0xfd469501, 0x698098d8, 0x8b44f7af, 0xffff5bb1, 0x895cd7be, 0x6b901122, 0xfd987193, 
    0xa679438e, 0x49b40821, 0xf61e2562, 0xc040b340, 0x265e5a51, 0xe9b6c7aa, 0xd62f105d, 
    0x02441453, 0xd8a1e681, 0xe7d3fbc8, 0x21e1cde6, 0xc33707d6, 0xf4d50d87, 0x455a14ed, 
    0xa9e3e905, 0xfcefa3f8, 0x676f02d9, 0x8d2a4c8a, 0xfffa3942, 0x8771f681, 0x6d9d6122, 
    0xfde5380c, 0xa4beea44, 0x4bdecfa9, 0xf6bb4b60, 0xbebfbc70, 0x289b7ec6, 0xeaa127fa, 
    0xd4ef3085, 0x04881d05, 0xd9d4d039, 0xe6db99e5, 0x1fa27cf8, 0xc4ac5665, 0xf4292244, 
    0x432aff97, 0xab9423a7, 0xfc93a039, 0x655b59c3, 0x8f0ccc92, 0xffeff47d, 0x85845dd1, 
    0x6fa87e4f, 0xfe2ce6e0, 0xa3014314, 0x4e0811a1, 0xf7537e82, 0xbd3af235, 0x2ad7d2bb, 
    0xeb86d391]"

type_synonym rfc_regs = "u32 \<times> u32 \<times> u32 \<times> u32"

fun rfc_op :: "u32 list \<Rightarrow> nat \<Rightarrow> rfc_regs \<Rightarrow> rfc_regs" where
  "rfc_op X i (A, B, C, D) =
    (D, B + word_rotl (rfc_s i) (A + rfc_f i B C D + X ! rfc_k i + rfc_T ! i), B, C)"

definition rfc_words :: "bytes \<Rightarrow> u32 list" where
  "rfc_words block = map (\<lambda>i. of_nat (le_val (take 4 (drop (4 * i) block)))) [0..<16]"

fun rfc_block :: "rfc_regs \<Rightarrow> bytes \<Rightarrow> rfc_regs" where
  "rfc_block (A, B, C, D) block =
    (case fold (rfc_op (rfc_words block)) [0..<64] (A, B, C, D) of
       (a, b, c, d) \<Rightarrow> (A + a, B + b, C + c, D + d))"

fun rfc_blocks :: "nat \<Rightarrow> rfc_regs \<Rightarrow> bytes \<Rightarrow> rfc_regs" where
  "rfc_blocks 0 r bs = r"
| "rfc_blocks (Suc n) r bs = rfc_blocks n (rfc_block r (take 64 bs)) (drop 64 bs)"

definition rfc_init :: rfc_regs where
  "rfc_init = (0x67452301, 0xefcdab89, 0x98badcfe, 0x10325476)"

text \<open>Padding to 56 modulo 64 bytes, then the bit length as 64 bits, low byte first.\<close>

definition rfc_pad :: "bytes \<Rightarrow> bytes" where
  "rfc_pad m = m @ [0x80] @ replicate ((119 - length m mod 64) mod 64) 0 @ le_bytes 8 (8 * length m)"

fun rfc_output :: "rfc_regs \<Rightarrow> bytes" where
  "rfc_output (A, B, C, D) =
    le_bytes 4 (unat A) @ le_bytes 4 (unat B) @ le_bytes 4 (unat C) @ le_bytes 4 (unat D)"

definition rfc_md5 :: "bytes \<Rightarrow> bytes" where
  "rfc_md5 m = (let p = rfc_pad m in rfc_output (rfc_blocks (length p div 64) rfc_init p))"


section \<open>The basic functions\<close>

lemma MD5_F_rfc: "MD5_F = rfc_F"
  unfolding MD5_F_def rfc_F_def
  by (intro ext bit_word_eqI) (auto simp: bit_simps)

lemma MD5_G_rfc: "MD5_G = rfc_G"
  unfolding MD5_G_def rfc_G_def
  by (intro ext bit_word_eqI) (auto simp: bit_simps)

lemma word_rotl_shifts:
  fixes w :: u32
  assumes "0 < s" "s < 32"
  shows "word_rotl s w = push_bit s w OR drop_bit (32 - s) w"
proof (rule bit_word_eqI)
  fix n assume "n < LENGTH(32)"
  then have n: "n < 32" by simp
  show "bit (word_rotl s w) n \<longleftrightarrow> bit (push_bit s w OR drop_bit (32 - s) w) n"
  proof (cases "s \<le> n")
    case True
    with assms n have "(n + (32 - s)) mod 32 = n - s"
      by (simp add: mod_if)
    moreover have "\<not> bit w (32 - s + n)"
      using True assms by (simp add: bit_imp_le_length impossible_bit)
    ultimately show ?thesis
      using True assms n by (simp add: bit_word_rotl_iff bit_simps)
  next
    case False
    with assms have "(n + (32 - s)) mod 32 = 32 - s + n" by simp
    moreover have "bit (word_rotl s w) n = bit w ((n + (32 - s)) mod 32)"
      using assms n by (simp add: bit_word_rotl_iff)
    moreover have "bit (push_bit s w OR drop_bit (32 - s) w) n = bit w (32 - s + n)"
      using False n by (simp add: bit_or_iff bit_push_bit_iff bit_drop_bit_eq)
    ultimately show ?thesis by simp
  qed
qed

lemma and_mask32: "(w :: u32) AND 0xffffffff = w"
proof -
  have "(0xffffffff :: u32) = - 1" by simp
  then show ?thesis by (simp only:) simp
qed

lemma STEP_rotl:
  assumes "0 < s" "s < 32"
  shows "STEP f a b c d x t s = b + word_rotl s (a + f b c d + x + t)"
  using assms by (simp add: STEP_def Let_def word_rotl_shifts and_mask32 ac_simps)

lemma rfc_s_bounds: "i < 64 \<Longrightarrow> 0 < rfc_s i \<and> rfc_s i < 32"
proof -
  assume "i < 64"
  then have "i div 16 \<in> {0, 1, 2, 3}" and "i mod 4 \<in> {0, 1, 2, 3}" by auto
  then show ?thesis by (auto simp: rfc_s_def)
qed


section \<open>The unrolled steps\<close>

text \<open>Step \<open>i\<close> of \<open>body\<close> names its registers rotated by \<open>i\<close>; \<open>view i\<close> reads them back in
  the RFC's order.\<close>

definition step_regs :: "nat \<Rightarrow> md5_reg \<times> md5_reg \<times> md5_reg \<times> md5_reg" where
  "step_regs i =
    [(RA, RB, RC, RD), (RD, RA, RB, RC), (RC, RD, RA, RB), (RB, RC, RD, RA)] ! (i mod 4)"

definition view :: "nat \<Rightarrow> md5_regs \<Rightarrow> rfc_regs" where
  "view i r = (case step_regs i of (ra, rb, rc, rd) \<Rightarrow> (r ra, r rb, r rc, r rd))"

definition rfc_entry :: "nat \<Rightarrow> md5_op" where
  "rfc_entry i =
    (case step_regs i of (ra, rb, rc, rd) \<Rightarrow>
       (rfc_f i, ra, rb, rc, rd, if i < 16 then SET (rfc_k i) else GET (rfc_k i), rfc_T ! i, rfc_s i))"

lemma rfc_f_cases:
  "i < 16 \<Longrightarrow> rfc_f i = MD5_F"
  "16 \<le> i \<Longrightarrow> i < 32 \<Longrightarrow> rfc_f i = MD5_G"
  "32 \<le> i \<Longrightarrow> i < 48 \<Longrightarrow> rfc_f i = MD5_H"
  "48 \<le> i \<Longrightarrow> rfc_f i = MD5_I"
  by (intro ext, simp add: rfc_f_def MD5_F_rfc MD5_G_rfc MD5_H_def MD5_I_def)+

lemma upt_rounds:
  "[0..<16] = [0, 1, 2, 3, 4, 5, 6, 7, 8, 9, 10, 11, 12, 13, 14, 15]"
  "[16..<32] = [16, 17, 18, 19, 20, 21, 22, 23, 24, 25, 26, 27, 28, 29, 30, 31]"
  "[32..<48] = [32, 33, 34, 35, 36, 37, 38, 39, 40, 41, 42, 43, 44, 45, 46, 47]"
  "[48..<64] = [48, 49, 50, 51, 52, 53, 54, 55, 56, 57, 58, 59, 60, 61, 62, 63]"
  by (simp_all add: upt_rec)

lemma md5_steps_table: "md5_steps = map rfc_entry [0..<64]"
proof -
  have "md5_round1 = map rfc_entry [0..<16]"
    by (simp add: md5_round1_def rfc_entry_def step_regs_def rfc_f_cases rfc_k_def rfc_T_def rfc_s_def
        upt_rounds)
  moreover have "md5_round2 = map rfc_entry [16..<32]"
    by (simp add: md5_round2_def rfc_entry_def step_regs_def rfc_f_cases rfc_k_def rfc_T_def rfc_s_def
        upt_rounds)
  moreover have "md5_round3 = map rfc_entry [32..<48]"
    by (simp add: md5_round3_def rfc_entry_def step_regs_def rfc_f_cases rfc_k_def rfc_T_def rfc_s_def
        upt_rounds)
  moreover have "md5_round4 = map rfc_entry [48..<64]"
    by (simp add: md5_round4_def rfc_entry_def step_regs_def rfc_f_cases rfc_k_def rfc_T_def rfc_s_def
        upt_rounds)
  moreover have "[0..<64] = [0..<16] @ [16..<32] @ [32..<48] @ [48..<64]"
    using upt_add_eq_append [of 0 16 48] upt_add_eq_append [of 16 32 32] upt_add_eq_append [of 32 48 16]
    by simp
  ultimately show ?thesis by (simp add: md5_steps_def)
qed

lemma step_regs_cases:
  obtains "step_regs i = (RA, RB, RC, RD)" "step_regs (Suc i) = (RD, RA, RB, RC)"
  | "step_regs i = (RD, RA, RB, RC)" "step_regs (Suc i) = (RC, RD, RA, RB)"
  | "step_regs i = (RC, RD, RA, RB)" "step_regs (Suc i) = (RB, RC, RD, RA)"
  | "step_regs i = (RB, RC, RD, RA)" "step_regs (Suc i) = (RA, RB, RC, RD)"
proof -
  have "i mod 4 = 0 \<and> Suc i mod 4 = 1 \<or> i mod 4 = 1 \<and> Suc i mod 4 = 2 \<or>
        i mod 4 = 2 \<and> Suc i mod 4 = 3 \<or> i mod 4 = 3 \<and> Suc i mod 4 = 0"
    by presburger
  with that show thesis
    unfolding step_regs_def by (elim disjE) simp_all
qed

text \<open>What \<open>SET\<close> and \<open>GET\<close> yield in step \<open>i\<close>, and the block after it.\<close>

definition block_ok :: "nat \<Rightarrow> u32 list \<Rightarrow> u32 list \<Rightarrow> bool" where
  "block_ok i X block \<longleftrightarrow> length block = 16 \<and> (\<forall>j < min i 16. block ! j = X ! j)"

lemma rfc_k_less: "rfc_k i < 16" if "i < 64"
  using that by (auto simp: rfc_k_def)

lemma SET_word_rfc:
  assumes "length ptr \<ge> 64" "n < 16"
  shows "SET_word ptr n = rfc_words (take 64 ptr) ! n"
proof -
  have "take 4 (drop (4 * n) (take 64 ptr)) =
        [ptr ! (n * 4), ptr ! (n * 4 + 1), ptr ! (n * 4 + 2), ptr ! (n * 4 + 3)]"
    using assms by (intro nth_equalityI) (auto simp: less_Suc_eq numeral_eq_Suc mult.commute)
  then have "rfc_words (take 64 ptr) ! n = of_nat (le_val
      [ptr ! (n * 4), ptr ! (n * 4 + 1), ptr ! (n * 4 + 2), ptr ! (n * 4 + 3)])"
    using assms(2) by (simp add: rfc_words_def)
  also have "\<dots> = SET_word ptr n"
    by (simp only: of_nat_le_val_Cons)
      (simp add: SET_word_def push_bit_or or.assoc)
  finally show ?thesis by (rule sym)
qed

lemma operand_entry:
  assumes "i < 64" "length ptr \<ge> 64" "X = rfc_words (take 64 ptr)" "block_ok i X block"
    "operand_value ptr block (if i < 16 then SET (rfc_k i) else GET (rfc_k i)) = (v, block')"
  shows "v = X ! rfc_k i" "block_ok (Suc i) X block'"
  using assms rfc_k_less [of i]
  by (auto simp: block_ok_def Let_def SET_word_rfc rfc_k_def less_Suc_eq nth_list_update min_def split: if_splits)

lemma md5_step_entry:
  assumes i: "i < 64" and ptr: "length ptr \<ge> 64" and X: "X = rfc_words (take 64 ptr)"
    and blk: "block_ok i X block" and st: "md5_step ptr (rfc_entry i) (r, block) = (r', block')"
  shows "view (Suc i) r' = rfc_op X i (view i r)" "block_ok (Suc i) X block'"
proof -
  obtain v block1
    where op: "operand_value ptr block (if i < 16 then SET (rfc_k i) else GET (rfc_k i)) = (v, block1)"
    by (metis surj_pair)
  note val = operand_entry [OF i ptr X blk op]
  note rot = STEP_rotl [OF rfc_s_bounds [OF i, THEN conjunct1] rfc_s_bounds [OF i, THEN conjunct2]]
  show "view (Suc i) r' = rfc_op X i (view i r)"
    by (cases i rule: step_regs_cases) (use st op val(1) in \<open>auto simp: rfc_entry_def view_def rot\<close>)
  show "block_ok (Suc i) X block'"
    by (cases i rule: step_regs_cases) (use st op val(2) in \<open>auto simp: rfc_entry_def\<close>)
qed

lemma md5_steps_run:
  assumes ptr: "length ptr \<ge> 64" and X: "X = rfc_words (take 64 ptr)" and blk: "length block = 16"
    and n: "n \<le> 64" and run: "fold (md5_step ptr) (map rfc_entry [0..<n]) (r, block) = (r', block')"
  shows "view n r' = fold (rfc_op X) [0..<n] (view 0 r) \<and> block_ok n X block'"
  using n run
proof (induction n arbitrary: r' block')
  case 0
  then show ?case using blk by (simp add: block_ok_def)
next
  case (Suc n)
  obtain r1 b1 where mid: "fold (md5_step ptr) (map rfc_entry [0..<n]) (r, block) = (r1, b1)"
    by (metis surj_pair)
  with Suc.IH Suc.prems(1) have IH: "view n r1 = fold (rfc_op X) [0..<n] (view 0 r)" "block_ok n X b1"
    by simp_all
  from Suc.prems(2) mid have "md5_step ptr (rfc_entry n) (r1, b1) = (r', block')" by simp
  with md5_step_entry [OF _ ptr X IH(2)] Suc.prems(1) IH(1) show ?case by simp
qed


section \<open>The block loop\<close>

definition regs_of :: "md5_regs \<Rightarrow> rfc_regs" where
  "regs_of r = (r RA, r RB, r RC, r RD)"

lemma view_regs_of: "view 0 r = regs_of r" "view 64 r = regs_of r"
  by (simp_all add: view_def step_regs_def regs_of_def)

lemma body_block_rfc:
  assumes "length ptr \<ge> 64" "length block = 16" "body_block ptr (r, block) = (r', block')"
  shows "regs_of r' = rfc_block (regs_of r) (take 64 ptr)" "length block' = 16"
proof -
  obtain r1 b1 where run: "fold (md5_step ptr) (map rfc_entry [0..<64]) (r, block) = (r1, b1)"
    by (metis surj_pair)
  with md5_steps_run [OF assms(1) refl assms(2) order_refl]
  have "fold (rfc_op (rfc_words (take 64 ptr))) [0..<64] (r RA, r RB, r RC, r RD) = (r1 RA, r1 RB, r1 RC, r1 RD)"
    and b1: "length b1 = 16"
    by (simp_all add: view_regs_of block_ok_def regs_of_def)
  moreover from run assms(3) have "r' = (\<lambda>q. r1 q + r q)" and "block' = b1"
    by (simp_all add: body_block_def md5_steps_table)
  ultimately show "regs_of r' = rfc_block (regs_of r) (take 64 ptr)" and "length block' = 16"
    by (simp_all add: regs_of_def add.commute)
qed

lemma rfc_blocks_append: "64 * n \<le> length bs \<Longrightarrow> rfc_blocks n r (bs @ xs) = rfc_blocks n r bs"
  by (induction n arbitrary: r bs) simp_all

lemma rfc_blocks_add: "rfc_blocks (m + n) r bs = rfc_blocks n (rfc_blocks m r bs) (drop (64 * m) bs)"
  by (induction m arbitrary: r bs) (simp_all add: add.commute)

text \<open>A size of \<open>n\<close> whole blocks, \<open>n\<close> from 1 to \<open>2^26 - 1\<close>, makes exactly \<open>n\<close> passes.\<close>

lemma body_loop_rfc:
  assumes "0 < n" "64 * n < 2 ^ 32" "64 * n \<le> length ptr" "length block = 16"
  shows "\<exists>r' block'. body_loop (r, block) ptr (of_nat (64 * n)) = Some ((r', block'), drop (64 * n) ptr) \<and>
           regs_of r' = rfc_blocks n (regs_of r) ptr \<and> length block' = 16"
  using assms
proof (induction n arbitrary: r block ptr)
  case (Suc n)
  obtain r1 b1 where one: "body_block ptr (r, block) = (r1, b1)"
    by (metis surj_pair)
  from Suc.prems have len: "length ptr \<ge> 64" by simp
  note first = body_block_rfc [OF len Suc.prems(4) one]
  have sz: "(of_nat (64 * Suc n) :: u32) - 64 = of_nat (64 * n)" by simp
  show ?case
  proof (cases "n = 0")
    case True
    with len one first sz show ?thesis by (simp add: body_loop.simps)
  next
    case False
    with Suc.prems(2) have "unat (of_nat (64 * n) :: u32) \<noteq> 0"
      by (simp add: unat_of_nat del: of_nat_mult)
    then have "(of_nat (64 * n) :: u32) \<noteq> 0" by auto
    then have "body_loop (r, block) ptr (of_nat (64 * Suc n)) = body_loop (r1, b1) (drop 64 ptr) (of_nat (64 * n))"
      using len one by (subst body_loop.simps) (simp add: Let_def sz del: of_nat_mult of_nat_Suc)
    moreover have "\<exists>r' block'. body_loop (r1, b1) (drop 64 ptr) (of_nat (64 * n)) =
        Some ((r', block'), drop (64 * n) (drop 64 ptr)) \<and>
        regs_of r' = rfc_blocks n (regs_of r1) (drop 64 ptr) \<and> length block' = 16"
      using Suc.IH [of "drop 64 ptr" b1 r1] Suc.prems False first(2) by simp
    ultimately show ?thesis using first(1) by (simp add: add.commute)
  qed
qed simp

definition ctx_regs :: "MD5_CTX \<Rightarrow> rfc_regs" where
  "ctx_regs ctx = (ctx_a ctx, ctx_b ctx, ctx_c ctx, ctx_d ctx)"

lemma regs_of_md5_load [simp]: "regs_of (md5_load ctx) = ctx_regs ctx"
  by (simp add: regs_of_def ctx_regs_def)

lemma body_rfc:
  assumes "0 < n" "64 * n < 2 ^ 32" "64 * n \<le> length data" "length (ctx_block ctx) = 16"
  obtains ctx' where "body ctx data (of_nat (64 * n)) = Some (ctx', drop (64 * n) data)"
    "ctx_regs ctx' = rfc_blocks n (ctx_regs ctx) data" "length (ctx_block ctx') = 16"
    "ctx_buffer ctx' = ctx_buffer ctx" "ctx_lo ctx' = ctx_lo ctx" "ctx_hi ctx' = ctx_hi ctx"
proof -
  from body_loop_rfc [OF assms] obtain r' block'
    where loop: "body_loop (md5_load ctx, ctx_block ctx) data (of_nat (64 * n)) =
        Some ((r', block'), drop (64 * n) data)"
      and r': "regs_of r' = rfc_blocks n (ctx_regs ctx) data" and "length block' = 16"
    by fastforce
  moreover from r' have "(r' RA, r' RB, r' RC, r' RD) = rfc_blocks n (ctx_regs ctx) data"
    by (simp add: regs_of_def)
  ultimately show thesis
    using that by (simp add: body_def ctx_regs_def del: of_nat_mult)
qed

lemma body_one_rfc:
  assumes "length data = 64" "length (ctx_block ctx) = 16"
  obtains ctx' where "body ctx data 64 = Some (ctx', [])"
    "ctx_regs ctx' = rfc_block (ctx_regs ctx) data" "length (ctx_block ctx') = 16"
    "ctx_buffer ctx' = ctx_buffer ctx" "ctx_lo ctx' = ctx_lo ctx" "ctx_hi ctx' = ctx_hi ctx"
  using body_rfc [of 1 data ctx] assms by auto


section \<open>The streaming buffer\<close>

text \<open>The context after the bytes \<open>m\<close>: the registers have absorbed the whole blocks of \<open>m\<close>, the
  buffer starts with the rest, \<open>hi : lo\<close> is the byte count modulo \<open>2^61\<close>.\<close>

definition buf_inv :: "MD5_CTX \<Rightarrow> bytes \<Rightarrow> bool" where
  "buf_inv ctx m \<longleftrightarrow>
     length (ctx_buffer ctx) = 64 \<and> length (ctx_block ctx) = 16 \<and>
     ctx_regs ctx = rfc_blocks (length m div 64) rfc_init m \<and>
     take (length m mod 64) (ctx_buffer ctx) = drop (64 * (length m div 64)) m"

definition count_inv :: "MD5_CTX \<Rightarrow> bytes \<Rightarrow> bool" where
  "count_inv ctx m \<longleftrightarrow>
     ctx_lo ctx = of_nat (length m mod 2 ^ 29) \<and> ctx_hi ctx = of_nat (length m div 2 ^ 29)"

lemma mask_consts: "(0x3f :: u32) = mask 6" "(0x1fffffff :: u32) = mask 29"
  by (simp_all add: mask_eq_exp_minus_1)

lemma buf_inv_cong:
  "buf_inv (ctx\<lparr>ctx_lo := x, ctx_hi := y\<rparr>) m = buf_inv ctx m"
  by (simp add: buf_inv_def ctx_regs_def)

lemma div_add_carry:
  fixes a b k :: nat
  assumes "0 < k"
  shows "(a + b) div k = a div k + b div k + (if (a mod k + b) mod k < a mod k then 1 else 0)"
proof -
  let ?s = "a mod k + b mod k"
  have lt: "a mod k < k" "b mod k < k" using assms by simp_all
  then have s: "?s - k < k" by linarith
  have "(a + b) div k = a div k + b div k + ?s div k"
    by (rule div_add1_eq)
  moreover have "(a mod k + b) mod k = ?s mod k" by (simp add: mod_simps)
  moreover have "?s div k = (if ?s < k then 0 else 1)" and "?s mod k = (if ?s < k then ?s else ?s - k)"
    using s assms by (simp_all add: not_less le_div_geq le_mod_geq)
  moreover have "k \<le> ?s \<Longrightarrow> ?s - k < a mod k" "?s < k \<Longrightarrow> \<not> ?s < a mod k"
    using lt by linarith+
  ultimately show ?thesis by (auto simp: not_less)
qed

lemma md5_count_inv:
  assumes "count_inv ctx m" "length data < 2 ^ 32"
  shows "count_inv (md5_count ctx (of_nat (length data))) (m @ data)"
proof -
  let ?l = "length m mod 2 ^ 29" and ?h = "length m div 2 ^ 29" and ?n = "length data"
  have lo: "unat ((of_nat ?l + of_nat ?n) AND mask 29 :: u32) = (?l + ?n) mod 2 ^ 29"
    using assms(2) by (simp add: unat_and_mask unat_word_ariths unat_of_nat mod_mod_cancel)
  have lo': "(of_nat ?l + of_nat ?n) AND mask 29 = (of_nat ((?l + ?n) mod 2 ^ 29) :: u32)"
    by (rule unsigned_word_eqI [where ?'a = nat]) (simp add: lo [simplified] unat_of_nat)
  have l: "unat (of_nat ?l :: u32) = ?l" by (simp add: unat_of_nat)
  have less: "((of_nat ?l + of_nat ?n) AND mask 29 :: u32) < of_nat ?l \<longleftrightarrow> (?l + ?n) mod 2 ^ 29 < ?l"
    by (simp only: word_less_nat_alt lo l)
  have shift: "drop_bit 29 (of_nat ?n :: u32) = of_nat (?n div 2 ^ 29)"
    using assms(2) by (intro unsigned_word_eqI [where ?'a = nat]) (simp add: unat_drop_bit_div unat_of_nat)
  have carry: "(length m + ?n) div 2 ^ 29 = ?h + ?n div 2 ^ 29 + (if (?l + ?n) mod 2 ^ 29 < ?l then 1 else 0)"
  proof -
    show ?thesis by (rule div_add_carry) simp
  qed
  have low: "(length m + ?n) mod 2 ^ 29 = (?l + ?n) mod 2 ^ 29" by (simp add: mod_simps)
  from assms(1) have ctx: "ctx_lo ctx = of_nat ?l" "ctx_hi ctx = of_nat ?h"
    unfolding count_inv_def by blast+
  have "ctx_lo (md5_count ctx (of_nat ?n)) = of_nat (length (m @ data) mod 2 ^ 29)"
    unfolding md5_count_def Let_def mask_consts ctx length_append low
    by (simp only: lo') simp
  moreover have "ctx_hi (md5_count ctx (of_nat ?n)) = of_nat (length (m @ data) div 2 ^ 29)"
    unfolding md5_count_def Let_def mask_consts ctx length_append carry less shift
    by (cases "(?l + ?n) mod 2 ^ 29 < ?l") simp_all
  ultimately show ?thesis unfolding count_inv_def by (rule conjI)
qed


lemma unat_and_63: "unat (w AND 0x3f :: u32) = unat w mod 64"
  unfolding mask_consts using unat_and_mask [of w 6] by simp

lemma unat_and_not_63: "unat (w AND NOT 0x3f :: u32) = 64 * (unat w div 64)"
  unfolding mask_consts using unat_and_not_mask [of w 6] by (simp add: minus_mod_eq_mult_div)

lemma and_not_63_blocks:
  "n < 2 ^ 32 \<Longrightarrow> (of_nat n AND NOT 0x3f :: u32) = of_nat (64 * (n div 64))"
  by (rule unsigned_word_eqI [where ?'a = nat])
    (subst unat_and_not_63, simp add: unat_of_nat mod_less del: of_nat_mult)

lemma rfc_blocks_extend:
  assumes "length m mod 64 = 0" "64 * q \<le> length data"
  shows "rfc_blocks q (rfc_blocks (length m div 64) rfc_init m) data =
    rfc_blocks (length m div 64 + q) rfc_init (m @ data)"
proof -
  from assms(1) have m: "64 * (length m div 64) = length m" by auto
  then show ?thesis by (simp add: rfc_blocks_add rfc_blocks_append)
qed

lemma md5_update_rest_inv:
  assumes inv: "buf_inv ctx m" and m: "length m mod 64 = 0" and n: "length data < 2 ^ 32"
  shows "\<exists>ctx'. md5_update_rest ctx data (of_nat (length data)) = Some ctx' \<and> buf_inv ctx' (m @ data) \<and>
    ctx_lo ctx' = ctx_lo ctx \<and> ctx_hi ctx' = ctx_hi ctx"
proof -
  let ?n = "length data" let ?q = "?n div 64"
  have sz: "unat (of_nat ?n :: u32) = ?n" using n by (simp add: unat_of_nat)
  have qn: "64 * ?q \<le> ?n" and qr: "?n - 64 * ?q = ?n mod 64"
    by (simp_all add: minus_mult_div_eq_mod)
  from m obtain k where k: "length m = 64 * k" by (auto elim: dvdE)
  then have len: "length m div 64 = k" "(length m + ?n) div 64 = k + ?q" "(length m + ?n) mod 64 = ?n mod 64"
    by simp_all
  have rest: "drop (64 * (k + ?q)) (m @ data) = drop (64 * ?q) data"
    using k by (simp add: distrib_left)
  have buf: "take (?n mod 64) (memcpy_at buffer 0 (drop (64 * ?q) data)) = drop (64 * ?q) data"
    "length (memcpy_at buffer 0 (drop (64 * ?q) data)) = 64" if "length buffer = 64" for buffer
  proof -
    have "?n mod 64 < 64" by simp
    then show "take (?n mod 64) (memcpy_at buffer 0 (drop (64 * ?q) data)) = drop (64 * ?q) data"
      and "length (memcpy_at buffer 0 (drop (64 * ?q) data)) = 64"
      using that qr by (simp_all add: memcpy_at_0)
  qed
  show ?thesis
  proof (cases "64 \<le> ?n")
    case True
    then have "0 < ?q" by auto
    moreover have "64 * ?q < 2 ^ 32" using qn n by linarith
    ultimately obtain ctx1 where b: "body ctx data (of_nat (64 * ?q)) = Some (ctx1, drop (64 * ?q) data)"
      "ctx_regs ctx1 = rfc_blocks ?q (ctx_regs ctx) data" "length (ctx_block ctx1) = 16"
      "ctx_buffer ctx1 = ctx_buffer ctx" "ctx_lo ctx1 = ctx_lo ctx" "ctx_hi ctx1 = ctx_hi ctx"
      using body_rfc [OF _ _ qn] inv unfolding buf_inv_def by metis
    from True sz have "(64 :: u32) \<le> of_nat ?n" by (simp add: word_le_nat_alt)
    then have "md5_update_rest ctx data (of_nat ?n) =
        Some (ctx1\<lparr>ctx_buffer := memcpy_at (ctx_buffer ctx) 0 (take (?n mod 64) (drop (64 * ?q) data))\<rparr>)"
      unfolding md5_update_rest_def and_not_63_blocks [OF n] b(1) by (simp add: b(4) unat_and_63 sz)
    moreover have "take (?n mod 64) (drop (64 * ?q) data) = drop (64 * ?q) data"
      using qr by (simp del: minus_mult_div_eq_mod)
    ultimately show ?thesis
      using inv b buf [of "ctx_buffer ctx"] rfc_blocks_extend [OF m qn, unfolded len] rest
      by (simp add: buf_inv_def len ctx_regs_def)
  next
    case False
    then have "?q = 0" "?n mod 64 = ?n" by simp_all
    moreover from False sz have "\<not> (64 :: u32) \<le> of_nat ?n" by (simp add: word_le_nat_alt)
    ultimately show ?thesis
      using inv buf [of "ctx_buffer ctx"] rfc_blocks_extend [OF m qn, unfolded len] rest
      by (simp add: md5_update_rest_def sz buf_inv_def len ctx_regs_def)
  qed
qed


lemma block_decomp:
  obtains k u where "(n :: nat) = 64 * k + u" "u < 64" "n div 64 = k" "n mod 64 = u"
proof
  show "n = 64 * (n div 64) + n mod 64" by simp
qed simp_all

lemma block_div_mod: "r < 64 \<Longrightarrow> (64 * k + r) div 64 = k \<and> (64 * k + r) mod 64 = (r :: nat)"
  by simp

text \<open>A partly filled buffer: more bytes that leave it partly filled, or the bytes that fill it.\<close>

lemma buf_inv_fill_part:
  assumes "buf_inv ctx m" "length m mod 64 + length data < 64"
  shows "buf_inv (ctx\<lparr>ctx_buffer := memcpy_at (ctx_buffer ctx) (length m mod 64) data\<rparr>) (m @ data)"
proof -
  obtain k u where k: "length m = 64 * k + u" "u < 64" "length m div 64 = k" "length m mod 64 = u"
    by (rule block_decomp)
  have "(length m + length data) div 64 = k" "(length m + length data) mod 64 = u + length data"
    using assms(2) block_div_mod [of "u + length data" k] unfolding k(4) by (simp_all add: k(1) add.assoc)
  then show ?thesis
    using assms k by (simp add: buf_inv_def take_memcpy_at length_memcpy_at rfc_blocks_append ctx_regs_def)
qed

lemma buf_inv_fill_block:
  assumes inv: "buf_inv ctx m" and len: "length m mod 64 + length data = 64"
    and buf: "buffer = memcpy_at (ctx_buffer ctx) (length m mod 64) data"
  obtains ctx' where "body (ctx\<lparr>ctx_buffer := buffer\<rparr>) buffer 64 = Some (ctx', [])"
    "buf_inv ctx' (m @ data)" "ctx_lo ctx' = ctx_lo ctx" "ctx_hi ctx' = ctx_hi ctx" "ctx_buffer ctx' = buffer"
proof -
  obtain k u where k: "length m = 64 * k + u" "u < 64" "length m div 64 = k" "length m mod 64 = u"
    by (rule block_decomp)
  let ?k = "length m div 64"
  have full: "buffer = drop (64 * ?k) m @ data" "length buffer = 64"
    using inv len k by (auto simp: buf buf_inv_def memcpy_at_full length_memcpy_at)
  have sum: "length m + length data = 64 * Suc ?k" using k len by simp
  then have div: "(length m + length data) div 64 = Suc ?k" "(length m + length data) mod 64 = 0"
    by (simp_all del: mult_Suc_right)
  have blocks: "rfc_block (rfc_blocks ?k rfc_init m) buffer = rfc_blocks (Suc ?k) rfc_init (m @ data)"
    using rfc_blocks_add [of ?k 1 rfc_init "m @ data"] k full by (simp add: rfc_blocks_append)
  have regs: "ctx_regs (ctx\<lparr>ctx_buffer := buffer\<rparr>) = rfc_blocks ?k rfc_init m"
    using inv by (simp add: buf_inv_def ctx_regs_def)
  obtain ctx' where b: "body (ctx\<lparr>ctx_buffer := buffer\<rparr>) buffer 64 = Some (ctx', [])"
    "ctx_regs ctx' = rfc_block (ctx_regs (ctx\<lparr>ctx_buffer := buffer\<rparr>)) buffer"
    "length (ctx_block ctx') = 16" "ctx_buffer ctx' = buffer" "ctx_lo ctx' = ctx_lo ctx" "ctx_hi ctx' = ctx_hi ctx"
    using body_one_rfc [OF full(2), of "ctx\<lparr>ctx_buffer := buffer\<rparr>"] inv by (auto simp: buf_inv_def)
  moreover have "buf_inv ctx' (m @ data)"
    unfolding buf_inv_def using b full(2) regs blocks sum by (simp add: div del: rfc_blocks.simps mult_Suc_right)
  ultimately show thesis using that by blast
qed

lemma used_of_count:
  assumes "count_inv ctx m"
  shows "unat (ctx_lo ctx AND 0x3f) = length m mod 64"
proof -
  have "unat (ctx_lo ctx) = length m mod 2 ^ 29"
    using assms by (simp add: count_inv_def unat_of_nat)
  then show ?thesis by (simp add: unat_and_63 mod_mod_cancel)
qed

definition ctx_inv :: "MD5_CTX \<Rightarrow> bytes \<Rightarrow> bool" where
  "ctx_inv ctx m \<longleftrightarrow> buf_inv ctx m \<and> count_inv ctx m"

lemma md5_count_fields [simp]:
  "buf_inv (md5_count ctx n) m = buf_inv ctx m" "ctx_buffer (md5_count ctx n) = ctx_buffer ctx"
  by (simp_all add: md5_count_def Let_def buf_inv_def ctx_regs_def)

lemma count_inv_cong:
  "ctx_lo ctx' = ctx_lo ctx \<Longrightarrow> ctx_hi ctx' = ctx_hi ctx \<Longrightarrow> count_inv ctx' m = count_inv ctx m"
  by (simp add: count_inv_def)

lemma MD5_Update_inv:
  assumes inv: "ctx_inv ctx m" and n: "length data < 2 ^ 32"
  shows "\<exists>ctx'. MD5_Update ctx data (of_nat (length data)) = Some ctx' \<and> ctx_inv ctx' (m @ data)"
proof -
  let ?n = "length data" let ?u = "length m mod 64" and ?used = "ctx_lo ctx AND 0x3f"
  define ctx1 where "ctx1 = md5_count ctx (of_nat ?n)"
  have b1: "buf_inv ctx1 m" and c1: "count_inv ctx1 (m @ data)"
    using inv md5_count_inv [OF _ n] by (simp_all add: ctx_inv_def ctx1_def)
  have used: "unat ?used = ?u" using inv by (simp add: ctx_inv_def used_of_count)
  have sz: "unat (of_nat ?n :: u32) = ?n" using n by (simp add: unat_of_nat)
  have u: "?u < 64" by simp
  have free: "unat (64 - ?used) = 64 - ?u"
    using u used by (subst unat_sub) (simp_all add: word_le_nat_alt)
  have upd: "MD5_Update ctx data (of_nat ?n) =
    (if ?used \<noteq> 0 then
       if of_nat ?n < 64 - ?used then
         Some (ctx1\<lparr>ctx_buffer := memcpy_at (ctx_buffer ctx1) ?u (take ?n data)\<rparr>)
       else
         (let buffer = memcpy_at (ctx_buffer ctx1) ?u (take (64 - ?u) data)
          in case body (ctx1\<lparr>ctx_buffer := buffer\<rparr>) buffer 64 of
               None \<Rightarrow> None
             | Some (ctx3, _) \<Rightarrow> md5_update_rest ctx3 (drop (64 - ?u) data) (of_nat ?n - (64 - ?used)))
     else md5_update_rest ctx1 data (of_nat ?n))"
    unfolding MD5_Update_def Let_def ctx1_def [symmetric] used free sz by simp
  consider "?used = 0" | "?used \<noteq> 0" "?n < 64 - ?u" | "?used \<noteq> 0" "64 - ?u \<le> ?n" by linarith
  then show ?thesis
  proof cases
    case 1
    with used have "?u = 0" by simp
    from md5_update_rest_inv [OF b1 this n] obtain ctx'
      where "md5_update_rest ctx1 data (of_nat ?n) = Some ctx'" "buf_inv ctx' (m @ data)"
        "ctx_lo ctx' = ctx_lo ctx1" "ctx_hi ctx' = ctx_hi ctx1" by blast
    with upd 1 c1 count_inv_cong [of ctx' ctx1 "m @ data"] show ?thesis
      by (simp add: ctx_inv_def)
  next
    case 2
    then have "of_nat ?n < 64 - ?used" by (simp add: word_less_nat_alt free sz)
    with upd 2 have "MD5_Update ctx data (of_nat ?n) = Some (ctx1\<lparr>ctx_buffer := memcpy_at (ctx_buffer ctx1) ?u data\<rparr>)"
      by simp
    moreover have "?u + ?n < 64" using 2(2) by linarith
    ultimately show ?thesis
      using buf_inv_fill_part [OF b1] c1 by (simp add: ctx_inv_def count_inv_def)
  next
    case 3
    let ?buffer = "memcpy_at (ctx_buffer ctx1) ?u (take (64 - ?u) data)" and ?rest = "drop (64 - ?u) data"
    have "?u + length (take (64 - ?u) data) = 64" using 3(2) u by simp
    from buf_inv_fill_block [OF b1 this refl] obtain ctx3
      where b: "body (ctx1\<lparr>ctx_buffer := ?buffer\<rparr>) ?buffer 64 = Some (ctx3, [])"
        "buf_inv ctx3 (m @ take (64 - ?u) data)" "ctx_lo ctx3 = ctx_lo ctx1" "ctx_hi ctx3 = ctx_hi ctx1"
      by metis
    have "\<not> of_nat ?n < 64 - ?used" using 3(2) by (simp add: word_less_nat_alt free sz)
    moreover have "of_nat ?n - (64 - ?used) = (of_nat (length ?rest) :: u32)"
    proof -
      have "(of_nat (length ?rest) :: u32) = of_nat ?n - of_nat (unat (64 - ?used))"
        unfolding free length_drop using 3(2) by (rule of_nat_diff)
      then show ?thesis by simp
    qed
    ultimately have "MD5_Update ctx data (of_nat ?n) = md5_update_rest ctx3 ?rest (of_nat (length ?rest))"
      using upd 3(1) b(1) by (simp add: Let_def)
    moreover have "length (m @ take (64 - ?u) data) mod 64 = 0"
    proof -
      obtain k v where "length m = 64 * k + v" "v < 64" "length m mod 64 = v" by (rule block_decomp)
      then have "length (m @ take (64 - ?u) data) = 64 * Suc k" using 3(2) by simp
      then show ?thesis by (simp only: mod_mult_self1_is_0)
    qed
    moreover have "length ?rest < 2 ^ 32" using n by simp
    ultimately obtain ctx' where "MD5_Update ctx data (of_nat ?n) = Some ctx'"
      "buf_inv ctx' ((m @ take (64 - ?u) data) @ ?rest)" "ctx_lo ctx' = ctx_lo ctx3" "ctx_hi ctx' = ctx_hi ctx3"
      using md5_update_rest_inv [OF b(2), of ?rest] by metis
    with b(3,4) c1 count_inv_cong [of ctx' ctx1 "m @ data"] show ?thesis
      by (simp add: ctx_inv_def)
  qed
qed


section \<open>The final block\<close>

lemma of_nat_unat_div:
  "(ucast (w :: u32) :: byte) = of_nat (unat w)"
  "(ucast (drop_bit n w) :: byte) = of_nat (unat w div 2 ^ n)"
  by (simp_all flip: unat_drop_bit_div)

lemma word_out_le_bytes: "word_out w = le_bytes 4 (unat w)"
proof -
  have four: "(4 :: nat) = Suc (Suc (Suc (Suc 0)))" by simp
  have "le_bytes 4 v = [of_nat v, of_nat (v div 256), of_nat (v div 65536), of_nat (v div 16777216)]" for v
    unfolding four by (simp flip: div_mult2_eq)
  then show ?thesis by (simp only: word_out_def of_nat_unat_div(2)) simp
qed

lemma length_bytes_out:
  assumes "count_inv ctx m"
  shows "word_out (push_bit 3 (ctx_lo ctx)) @ word_out (ctx_hi ctx) = le_bytes 8 (8 * length m)"
proof -
  let ?n = "length m"
  have "?n mod 2 ^ 29 < 2 ^ 29" by simp
  then have "unat (push_bit 3 (ctx_lo ctx)) = 8 * (?n mod 2 ^ 29)"
    using assms by (simp add: count_inv_def push_bit_eq_mult unat_word_ariths unat_of_nat mult.commute mod_less)
  also have "\<dots> = (8 * ?n) mod 256 ^ 4"
    using mult_mod_right [of 8 ?n "2 ^ 29"] by simp
  finally have lo: "word_out (push_bit 3 (ctx_lo ctx)) = le_bytes 4 (8 * ?n)"
    by (simp only: word_out_le_bytes le_bytes_mod)
  have "unat (ctx_hi ctx) = (?n div 2 ^ 29) mod 256 ^ 4"
    using assms by (simp add: count_inv_def unat_of_nat)
  moreover have "?n div 2 ^ 29 = (8 * ?n) div 256 ^ 4"
    using div_mult_mult1 [of 8 ?n "2 ^ 29"] by simp
  ultimately have hi: "word_out (ctx_hi ctx) = le_bytes 4 ((8 * ?n) div 256 ^ 4)"
    by (simp only: word_out_le_bytes le_bytes_mod)
  show ?thesis
    using le_bytes_add [of 4 4 "8 * ?n"] by (simp add: lo hi)
qed

lemma rfc_output_regs:
  "rfc_output (ctx_regs ctx) =
     word_out (ctx_a ctx) @ word_out (ctx_b ctx) @ word_out (ctx_c ctx) @ word_out (ctx_d ctx)"
  by (simp add: ctx_regs_def word_out_le_bytes)

lemma buf_inv_lo: "buf_inv (ctx\<lparr>ctx_lo := x\<rparr>) m = buf_inv ctx m"
  by (simp add: buf_inv_def ctx_regs_def)

lemma MD5_Final_rfc:
  assumes inv: "ctx_inv ctx m"
  shows "MD5_Final ctx = Some (rfc_md5 m, md5_zero)"
proof -
  define u where mod_u: "u = length m mod 64"
  let ?len = "le_bytes 8 (8 * length m)"
  have used: "unat (ctx_lo ctx AND 0x3f) = u"
    and buf: "buf_inv ctx m" and blen: "length (ctx_buffer ctx) = 64" and cnt: "count_inv ctx m"
    using inv by (simp_all add: ctx_inv_def used_of_count buf_inv_def mod_u)
  have u: "u < 64" by (simp add: mod_u)
  have first: "(ctx_buffer ctx)[u := 0x80] = memcpy_at (ctx_buffer ctx) u [0x80]"
    using u by (simp add: list_update_memcpy_at blen)
  have digest: "rfc_output (ctx_regs ctx') = rfc_md5 m" if "buf_inv ctx' (rfc_pad m)" for ctx'
    using that by (simp add: buf_inv_def rfc_md5_def Let_def)
  show ?thesis
  proof (cases "u < 56")
    case True
    let ?tail = "[0x80] @ replicate (55 - u) 0 @ ?len"
    let ?B = "memcpy_at (ctx_buffer ctx) u ?tail"
    have "119 - u = 55 - u + 64" using True by simp
    then have "(119 - u) mod 64 = 55 - u" by (simp only: mod_add_self2) simp
    then have pad: "m @ ?tail = rfc_pad m" by (simp add: rfc_pad_def flip: mod_u)
    have "length m mod 64 + length ?tail = 64" using True by (simp flip: mod_u)
    from buf_inv_fill_block [OF _ this refl, of "ctx\<lparr>ctx_lo := push_bit 3 (ctx_lo ctx)\<rparr>"] buf
    obtain ctx7 where b: "body (ctx\<lparr>ctx_lo := push_bit 3 (ctx_lo ctx), ctx_buffer := ?B\<rparr>) ?B 64 = Some (ctx7, [])"
      "buf_inv ctx7 (rfc_pad m)"
      unfolding pad mod_u [symmetric] by (auto simp: buf_inv_lo)
    have "memcpy_at (memcpy_at (memcpy_at (ctx_buffer ctx) u [0x80]) (u + 1) (replicate (55 - u) 0)) 56 ?len = ?B"
      using True by (simp add: memcpy_at_memcpy_at blen)
    moreover have "\<not> 63 - u < 8" "63 - u - 8 = 55 - u" using True by linarith+
    ultimately show ?thesis
      using True b digest [OF b(2)] length_bytes_out [OF cnt]
      by (simp add: MD5_Final_def Let_def used first rfc_output_regs)
  next
    case False
    let ?tail1 = "[0x80] @ replicate (63 - u) 0" and ?tail2 = "replicate 56 0 @ ?len"
    let ?B1 = "memcpy_at (ctx_buffer ctx) u ?tail1"
    have pad: "(m @ ?tail1) @ ?tail2 = rfc_pad m"
    proof -
      have "(119 - u) mod 64 = 63 - u + 56" using False u by simp
      then have "replicate ((119 - u) mod 64) 0 = (replicate (63 - u) 0 @ replicate 56 0 :: bytes)"
        by (simp only: replicate_add)
      then show ?thesis unfolding rfc_pad_def mod_u [symmetric] by simp
    qed
    have "length m mod 64 + length ?tail1 = 64" using u by (simp flip: mod_u)
    from buf_inv_fill_block [OF buf this refl]
    obtain ctx4 where b1: "body (ctx\<lparr>ctx_buffer := ?B1\<rparr>) ?B1 64 = Some (ctx4, [])"
      "buf_inv ctx4 (m @ ?tail1)" "ctx_lo ctx4 = ctx_lo ctx" "ctx_hi ctx4 = ctx_hi ctx" "ctx_buffer ctx4 = ?B1"
      unfolding mod_u [symmetric] by metis
    let ?B2 = "memcpy_at ?B1 0 ?tail2"
    have lens: "length ?B1 = 64" "length (m @ ?tail1) mod 64 = 0"
    proof -
      obtain k v where "length m = 64 * k + v" "v < 64" "length m mod 64 = v" by (rule block_decomp)
      then have "length (m @ ?tail1) = 64 * Suc k" using u by (simp add: mod_u)
      then show "length (m @ ?tail1) mod 64 = 0" by (simp only: mod_mult_self1_is_0)
      show "length ?B1 = 64" using u by (simp add: length_memcpy_at blen)
    qed
    have "length (m @ ?tail1) mod 64 + length ?tail2 = 64" by (simp only: lens(2)) simp
    from buf_inv_fill_block [OF _ this refl, of "ctx4\<lparr>ctx_lo := push_bit 3 (ctx_lo ctx)\<rparr>"] b1
    obtain ctx7 where b2: "body (ctx4\<lparr>ctx_lo := push_bit 3 (ctx_lo ctx), ctx_buffer := ?B2\<rparr>) ?B2 64 = Some (ctx7, [])"
      "buf_inv ctx7 (rfc_pad m)"
      unfolding pad lens(2) by (auto simp: buf_inv_lo)
    have "memcpy_at (memcpy_at (ctx_buffer ctx) u [0x80]) (u + 1) (replicate (63 - u) 0) = ?B1"
      using u by (simp add: memcpy_at_memcpy_at blen)
    moreover have "memcpy_at (memcpy_at ?B1 0 (replicate 56 0)) 56 ?len = ?B2"
      using lens(1) by (simp add: memcpy_at_memcpy_at)
    moreover have "63 - u < 8" using False by linarith
    ultimately show ?thesis
      using False b1 b2 digest [OF b2(2)] length_bytes_out [OF cnt]
      by (simp add: MD5_Final_def Let_def used first rfc_output_regs)
  qed
qed


section \<open>Correctness\<close>

lemma MD5_Init_inv:
  "length (ctx_buffer ctx) = 64 \<Longrightarrow> length (ctx_block ctx) = 16 \<Longrightarrow> ctx_inv (MD5_Init ctx) []"
  by (simp add: ctx_inv_def buf_inv_def count_inv_def MD5_Init_def ctx_regs_def rfc_init_def)

lemma md5_updates_inv:
  "ctx_inv ctx m \<Longrightarrow> \<forall>c \<in> set ms. length c < 2 ^ 32 \<Longrightarrow>
   \<exists>ctx'. md5_updates ctx ms = Some ctx' \<and> ctx_inv ctx' (m @ concat ms)"
proof (induction ms arbitrary: ctx m)
  case (Cons c ms)
  from Cons.prems obtain ctx1
    where "MD5_Update ctx c (of_nat (length c)) = Some ctx1" "ctx_inv ctx1 (m @ c)"
    using MD5_Update_inv by force
  with Cons.IH [of ctx1 "m @ c"] Cons.prems(2) show ?case by auto
qed simp

lemma md5_run_correct:
  assumes "length (ctx_buffer ctx) = 64" "length (ctx_block ctx) = 16" "\<forall>m \<in> set ms. length m < 2 ^ 32"
  shows "md5_run ctx ms = Some (rfc_md5 (concat ms))"
proof -
  from md5_updates_inv [OF MD5_Init_inv [OF assms(1,2)] assms(3)]
  obtain ctx' where "md5_updates (MD5_Init ctx) ms = Some ctx'" "ctx_inv ctx' (concat ms)" by auto
  with MD5_Final_rfc [of ctx' "concat ms"] show ?thesis by (auto simp: md5_run_def)
qed

text \<open>C6: \<open>MD5_Init\<close>, any number of \<open>MD5_Update\<close> calls and \<open>MD5_Final\<close>, from any context,
  compute the MD5 of RFC 1321 of the concatenated data, however it was cut into calls. No call
  reads past its data (the model's result would be \<open>None\<close>), and total lengths beyond the 61
  bits of the byte count wrap as the RFC asks.\<close>

theorem md5_run_rfc:
  assumes "length (ctx_buffer ctx) = 64" "length (ctx_block ctx) = 16" "\<forall>m \<in> set ms. length m < 2 ^ 32"
  shows "md5_run ctx ms = Some (rfc_md5 (concat ms))"
  using assms by (rule md5_run_correct)

theorem md5_run_rfc_witness:
  "md5_run md5_zero [lit ''a'', lit ''bc''] = Some (rfc_md5 (lit ''abc''))"
  using md5_run_rfc [of md5_zero "[lit ''a'', lit ''bc'']"] by (simp add: md5_zero_def)

end
