(* ===== verification/LuaApi.thy ===== *)
theory LuaApi
  imports Complex_Main Prelude
begin

text \<open>
  The part of the Lua C API the modules call: values, the argument checks of lauxlib, and the
  C conversions of a \<open>lua_Number\<close>. LuaJIT itself is not in the repository: its coercions
  between numbers and strings, and the length of the longest string it makes, are the parameter
  \<open>vm\<close>. A \<open>lua_Number\<close> (a C \<open>double\<close>) is
  its real value; rounding, infinities and NaN are not modelled. An argument error, which
  leaves the C function by \<open>longjmp\<close>, is \<open>Inl\<close>; so are the ways in which the server itself can
  die: a failed \<open>ASSERT\<close>, a use of freed memory, other undefined behaviour.
\<close>

datatype lua_value =
  LNil | LBool bool | LNum real | LStr bytes | LTable "(lua_value \<times> lua_value) list"
  | LUserdata nat | LFunction nat

datatype lua_error =
    ArgError nat bytes | TypeError nat bytes | RunError bytes
  | Aborted | UseAfterFree nat | Undefined bytes

record lua_vm =
  num2str :: "real \<Rightarrow> bytes"
  str2num :: "bytes \<Rightarrow> real option"
  max_str :: nat

text \<open>An instance to run examples on: no coercions, and LuaJIT's limit, which refuses strings of
  \<open>0x7fffff00\<close> bytes and more.\<close>

definition plain_vm :: lua_vm where
  "plain_vm = \<lparr>num2str = (\<lambda>_. []), str2num = (\<lambda>_. None), max_str = 2147483391\<rparr>"

type_synonym 'a lua = "lua_error + 'a"

definition lua_bind :: "'a lua \<Rightarrow> ('a \<Rightarrow> 'b lua) \<Rightarrow> 'b lua" where
  "lua_bind m f = (case m of Inl e \<Rightarrow> Inl e | Inr x \<Rightarrow> f x)"

lemma lua_bind_simps [simp]:
  "lua_bind (Inl e) f = Inl e" "lua_bind (Inr x) f = f x"
  by (simp_all add: lua_bind_def)

lemma lua_bind_Inr_iff: "lua_bind m f = Inr y \<longleftrightarrow> (\<exists>x. m = Inr x \<and> f x = Inr y)"
  by (cases m) auto


section \<open>Arguments\<close>

definition lua_arg :: "lua_value list \<Rightarrow> nat \<Rightarrow> lua_value option" where
  "lua_arg args n = (if 1 \<le> n \<and> n \<le> length args then Some (args ! (n - 1)) else None)"

text \<open>\<open>lua_isnoneornil\<close>: no such argument, or \<open>nil\<close>.\<close>

definition lua_isnoneornil :: "lua_value list \<Rightarrow> nat \<Rightarrow> bool" where
  "lua_isnoneornil args n \<longleftrightarrow> lua_arg args n \<in> {None, Some LNil}"

fun value_tostring :: "lua_vm \<Rightarrow> lua_value \<Rightarrow> bytes option" where
  "value_tostring vm (LStr s) = Some s"
| "value_tostring vm (LNum x) = Some (num2str vm x)"
| "value_tostring vm _ = None"

fun value_tonumber :: "lua_vm \<Rightarrow> lua_value \<Rightarrow> real option" where
  "value_tonumber vm (LNum x) = Some x"
| "value_tonumber vm (LStr s) = str2num vm s"
| "value_tonumber vm _ = None"

definition lua_tostring :: "lua_vm \<Rightarrow> lua_value list \<Rightarrow> nat \<Rightarrow> bytes option" where
  "lua_tostring vm args n = Option.bind (lua_arg args n) (value_tostring vm)"

definition lua_tonumber_opt :: "lua_vm \<Rightarrow> lua_value list \<Rightarrow> nat \<Rightarrow> real option" where
  "lua_tonumber_opt vm args n = Option.bind (lua_arg args n) (value_tonumber vm)"

definition lua_isnumber :: "lua_vm \<Rightarrow> lua_value list \<Rightarrow> nat \<Rightarrow> bool" where
  "lua_isnumber vm args n \<longleftrightarrow> lua_tonumber_opt vm args n \<noteq> None"

definition lua_isstring :: "lua_vm \<Rightarrow> lua_value list \<Rightarrow> nat \<Rightarrow> bool" where
  "lua_isstring vm args n \<longleftrightarrow> lua_tostring vm args n \<noteq> None"

text \<open>\<open>lua_tonumber\<close> yields 0 for a value that is no number.\<close>

definition lua_tonumber :: "lua_vm \<Rightarrow> lua_value list \<Rightarrow> nat \<Rightarrow> real" where
  "lua_tonumber vm args n = (case lua_tonumber_opt vm args n of Some x \<Rightarrow> x | None \<Rightarrow> 0)"

definition luaL_checklstring :: "lua_vm \<Rightarrow> lua_value list \<Rightarrow> nat \<Rightarrow> bytes lua" where
  "luaL_checklstring vm args n =
    (case lua_tostring vm args n of Some s \<Rightarrow> Inr s | None \<Rightarrow> Inl (TypeError n (lit ''string'')))"

definition luaL_checkstring :: "lua_vm \<Rightarrow> lua_value list \<Rightarrow> nat \<Rightarrow> bytes lua" where
  "luaL_checkstring vm args n = lua_bind (luaL_checklstring vm args n) (\<lambda>s. Inr (c_str s))"

text \<open>\<open>luaL_optlstring\<close> with a \<open>NULL\<close> default: \<open>None\<close> is the null pointer.\<close>

definition luaL_optlstring :: "lua_vm \<Rightarrow> lua_value list \<Rightarrow> nat \<Rightarrow> bytes option lua" where
  "luaL_optlstring vm args n =
    (if lua_isnoneornil args n then Inr None
     else lua_bind (luaL_checklstring vm args n) (\<lambda>s. Inr (Some s)))"

definition luaL_optstring :: "lua_vm \<Rightarrow> lua_value list \<Rightarrow> nat \<Rightarrow> bytes \<Rightarrow> bytes lua" where
  "luaL_optstring vm args n d =
    (if lua_isnoneornil args n then Inr d else luaL_checkstring vm args n)"

definition luaL_checknumber :: "lua_vm \<Rightarrow> lua_value list \<Rightarrow> nat \<Rightarrow> real lua" where
  "luaL_checknumber vm args n =
    (case lua_tonumber_opt vm args n of Some x \<Rightarrow> Inr x | None \<Rightarrow> Inl (TypeError n (lit ''number'')))"

definition luaL_optnumber :: "lua_vm \<Rightarrow> lua_value list \<Rightarrow> nat \<Rightarrow> real \<Rightarrow> real lua" where
  "luaL_optnumber vm args n d =
    (if lua_isnoneornil args n then Inr d else luaL_checknumber vm args n)"

definition value_toboolean :: "lua_value \<Rightarrow> bool" where
  "value_toboolean v \<longleftrightarrow> v \<notin> {LNil, LBool False}"

definition lua_toboolean :: "lua_value list \<Rightarrow> nat \<Rightarrow> bool" where
  "lua_toboolean args n = (case lua_arg args n of None \<Rightarrow> False | Some v \<Rightarrow> value_toboolean v)"

text \<open>Raw table access by key, as an association list whose first entry for a key counts.\<close>

fun lua_gettable :: "lua_value \<Rightarrow> lua_value \<Rightarrow> lua_value" where
  "lua_gettable (LTable kvs) k = (case map_of kvs k of Some v \<Rightarrow> v | None \<Rightarrow> LNil)"
| "lua_gettable _ k = LNil"

lemmas lua_arg_simps =
  lua_arg_def lua_isnoneornil_def lua_tostring_def lua_tonumber_opt_def lua_isnumber_def
  lua_isstring_def lua_tonumber_def luaL_checklstring_def luaL_checkstring_def
  luaL_optlstring_def luaL_optstring_def luaL_checknumber_def luaL_optnumber_def
  lua_toboolean_def value_toboolean_def


section \<open>C conversions\<close>

text \<open>\<open>(int) d\<close>: truncation towards zero; out of range the x86 conversion yields \<open>INT_MIN\<close>.\<close>

definition trunc_real :: "real \<Rightarrow> int" where
  "trunc_real x = (if 0 \<le> x then \<lfloor>x\<rfloor> else \<lceil>x\<rceil>)"

definition c_int :: "real \<Rightarrow> int" where
  "c_int x = (let i = trunc_real x in if - (2 ^ 31) \<le> i \<and> i < 2 ^ 31 then i else - (2 ^ 31))"

text \<open>\<open>(size_t) d\<close> and \<open>(unsigned short) d\<close>: the low bits of the truncated value.\<close>

definition c_size :: "real \<Rightarrow> nat" where
  "c_size x = nat (trunc_real x mod 2 ^ 32)"

definition c_ushort :: "real \<Rightarrow> nat" where
  "c_ushort x = nat (trunc_real x mod 2 ^ 16)"

lemma trunc_real_of_int [simp]: "trunc_real (of_int i) = i"
  by (simp add: trunc_real_def)

lemma trunc_real_of_nat [simp]: "trunc_real (of_nat n) = int n"
  using trunc_real_of_int [of "int n"] by simp

lemma trunc_real_numeral [simp]:
  "trunc_real (numeral k) = numeral k" "trunc_real (- numeral k) = - numeral k"
  "trunc_real 0 = 0" "trunc_real 1 = 1" "trunc_real (- 1) = - 1"
  using trunc_real_of_int [of "- 1"] by (simp_all add: trunc_real_def)

lemma c_int_range: "- (2 ^ 31) \<le> c_int x" "c_int x < 2 ^ 31"
  by (simp_all add: c_int_def Let_def)

lemma c_int_of_int: "- (2 ^ 31) \<le> i \<Longrightarrow> i < 2 ^ 31 \<Longrightarrow> c_int (of_int i) = i"
  by (simp add: c_int_def)

lemma c_size_of_nat: "n < 2 ^ 32 \<Longrightarrow> c_size (of_nat n) = n"
  by (simp add: c_size_def)

lemma c_size_less: "c_size x < 2 ^ 32"
  by (simp add: c_size_def nat_less_iff)

end
