(* ===== verification/Filters.thy ===== *)
theory Filters
  imports LuaApi
begin

text \<open>
  The interface the filters of mime.c share. A filter is a step function on a state and an
  output buffer (\<open>luaL_Buffer\<close>, appended to). \<open>byte_filter\<close>: running it over chunks is running
  it over the whole. \<open>carry_filter\<close>: the state is the bytes not yet encoded, which the Lua side
  hands back in front of the next chunk; \<open>drive\<close> is that calling convention.
\<close>

section \<open>The filter interface\<close>

text \<open>
  ltn12 drives every filter the same way: a state, a chunk in, a chunk out and the next state.
  What makes that sound is that a step only appends to the output. Then a filter run over
  chunks writes what one run over the whole input writes.
\<close>

locale byte_filter =
  fixes step :: "byte \<Rightarrow> 's \<times> bytes \<Rightarrow> 's \<times> bytes"
  assumes step_appends:
    "step c (s, pre @ out) = (fst (step c (s, out)), pre @ snd (step c (s, out)))"
begin

definition run :: "bytes \<Rightarrow> 's \<Rightarrow> 's \<times> bytes" where
  "run input s = fold step input (s, [])"

fun run_chunks :: "bytes list \<Rightarrow> 's \<Rightarrow> 's \<times> bytes" where
  "run_chunks [] s = (s, [])"
| "run_chunks (c # cs) s =
    (let (s1, out1) = run c s; (s2, out2) = run_chunks cs s1 in (s2, out1 @ out2))"

lemma fold_appends:
  "fold step input (s, pre @ out) =
     (fst (fold step input (s, out)), pre @ snd (fold step input (s, out)))"
proof (induction input arbitrary: s out)
  case (Cons c input)
  obtain s1 o1 where st: "step c (s, out) = (s1, o1)" by fastforce
  then have "step c (s, pre @ out) = (s1, pre @ o1)" by (simp add: step_appends)
  with st Cons show ?case by simp
qed simp

lemma run_Nil [simp]: "run [] s = (s, [])"
  by (simp add: run_def)

lemma run_append:
  "run (xs @ ys) s =
     (let (s1, out1) = run xs s; (s2, out2) = run ys s1 in (s2, out1 @ out2))"
proof -
  obtain s1 out1 where "fold step xs (s, []) = (s1, out1)" by fastforce
  with fold_appends [of ys s1 out1 "[]"] show ?thesis
    by (simp add: run_def case_prod_unfold Let_def)
qed

lemma run_Cons:
  "run (c # cs) s =
     (let (s1, out1) = step c (s, []); (s2, out2) = run cs s1 in (s2, out1 @ out2))"
  using run_append [of "[c]" cs s] by (simp add: run_def)

lemma run_chunks_concat: "run_chunks cs s = run (concat cs) s"
  by (induction cs arbitrary: s) (simp_all add: run_append)

end

text \<open>A filter whose state is the unconsumed input: fed again from the start, it is back in the
  same state with nothing written.\<close>

locale carry_filter = byte_filter step
  for step :: "byte \<Rightarrow> bytes \<times> bytes \<Rightarrow> bytes \<times> bytes" +
  fixes pending :: "bytes \<Rightarrow> bool"
  assumes pending_Nil: "pending []"
    and pending_step: "pending s \<Longrightarrow> pending (fst (step c (s, [])))"
    and refeed: "pending s \<Longrightarrow> fold step s ([], []) = (s, [])"
begin

lemma pending_run: "pending s \<Longrightarrow> pending (fst (run input s))"
  by (induction input arbitrary: s) (simp_all add: run_Cons case_prod_unfold Let_def pending_step)

lemma run_carried: "pending s \<Longrightarrow> run (s @ input) [] = run input s"
  using refeed by (simp add: run_append run_def [of s] case_prod_unfold Let_def)

end


section \<open>The calling convention\<close>

definition out_bytes :: "lua_value \<Rightarrow> bytes" where
  "out_bytes v = (case v of LStr s \<Rightarrow> s | _ \<Rightarrow> [])"

text \<open>\<open>A, B = f(C, D)\<close>: the pending bytes \<open>B\<close> become the next call's \<open>C\<close>; a last call with
  \<open>D = nil\<close> flushes.\<close>

fun drive :: "(lua_value list \<Rightarrow> lua_value list lua) \<Rightarrow> lua_value \<Rightarrow> bytes list \<Rightarrow> bytes lua" where
  "drive f c [] = lua_bind (f [c, LNil]) (\<lambda>rs. Inr (out_bytes (rs ! 0)))"
| "drive f c (d # ds) =
    lua_bind (f [c, LStr d]) (\<lambda>rs.
    lua_bind (drive f (rs ! 1) ds) (\<lambda>out. Inr (out_bytes (rs ! 0) @ out)))"

text \<open>A Lua function that keeps the state of the filter, as \<open>enc\<close> writes it, in its second result, and that
  ends with \<open>flush\<close>.\<close>

context byte_filter
begin

lemma drive_state:
  assumes data: "\<And>s d. valid s \<Longrightarrow> f [enc s, LStr d] = (case run d s of (s', out) \<Rightarrow> Inr [LStr out, enc s'])"
    and last: "\<And>s. valid s \<Longrightarrow> \<exists>v. f [enc s, LNil] = Inr [flush s, v]"
    and step: "\<And>s c. valid s \<Longrightarrow> valid (fst (step c (s, [])))"
    and "valid s"
  shows "drive f (enc s) ds = (case run (concat ds) s of (s', out) \<Rightarrow> Inr (out @ out_bytes (flush s')))"
  using assms(4)
proof (induction ds arbitrary: s)
  case Nil
  with last [of s] show ?case by auto
next
  case (Cons d ds)
  obtain s1 o1 where d: "run d s = (s1, o1)" by fastforce
  have "valid s \<Longrightarrow> valid (fst (run d s))" for s
    by (induction d arbitrary: s) (auto simp: run_Cons case_prod_unfold Let_def step)
  with Cons.prems d have s1: "valid s1" by (metis fst_conv)
  with Cons.IH [OF s1] d run_append [of d "concat ds" s] Cons.prems show ?case
    by (simp add: data out_bytes_def case_prod_unfold Let_def)
qed

end

text \<open>What \<open>drive\<close> needs to know of a Lua function built on a carry filter: with data it
  returns the filter's output and the pending bytes, with \<open>nil\<close> it flushes them.\<close>

context carry_filter
begin

lemma drive_run:
  assumes data: "\<And>c d. f [LStr c, LStr d] =
      (case run (c @ d) [] of (s, out) \<Rightarrow> Inr [LStr out, LStr s])"
    and last: "\<And>c. f [LStr c, LNil] =
      (case run c [] of (s, out) \<Rightarrow> Inr [(if out @ flush s = [] then LNil else LStr (out @ flush s)), LNil])"
    and "pending s"
  shows "drive f (LStr s) ds = (case run (concat ds) s of (s', out) \<Rightarrow> Inr (out @ flush s'))"
  using assms(3)
proof (induction ds arbitrary: s)
  case Nil
  then show ?case by (simp add: last run_def [of s] refeed out_bytes_def)
next
  case (Cons d ds)
  obtain s1 o1 where d: "run d s = (s1, o1)" by fastforce
  with Cons.prems have s1: "pending s1" using pending_run [of s d] by simp
  from d Cons.prems have "run (s @ d) [] = (s1, o1)" by (simp add: run_carried)
  with Cons.IH [OF s1] d run_append [of d "concat ds" s] show ?case
    by (simp add: data out_bytes_def case_prod_unfold Let_def)
qed

end

end
