(* ===== verification/Mime_B64.thy ===== *)
theory Mime_B64
  imports Filters
begin

text \<open>
  The Base64 encoder and decoder of mime.c: the tables, the per-byte steps that collect atoms
  of three or four bytes, padding, and the Lua functions \<open>b64\<close> and \<open>unb64\<close>. Proved against the
  encoding of RFC 4648 for every way of cutting the data into chunks.
\<close>


section \<open>Tables\<close>

definition b64base :: bytes where
  "b64base = lit ''ABCDEFGHIJKLMNOPQRSTUVWXYZabcdefghijklmnopqrstuvwxyz0123456789+/''"

definition b64setup :: "bytes \<Rightarrow> bytes" where
  "b64setup unbase =
    (let unbase = fold (\<lambda>i u. u[i := 255]) [0..<256] unbase;
         unbase = fold (\<lambda>i u. u[unat (b64base ! i) := of_nat i]) [0..<64] unbase
     in unbase[61 := 0])"

text \<open>The static array after \<open>luaopen_mime_core\<close> has run \<open>b64setup\<close>.\<close>

definition b64unbase :: bytes where
  "b64unbase = b64setup (replicate 256 0)"


section \<open>Atoms\<close>

text \<open>The pending part \<open>input[0..size-1]\<close> of the \<open>atom\<close> array is the list; its length is \<open>size\<close>.\<close>

definition b64encode :: "byte \<Rightarrow> bytes \<times> bytes \<Rightarrow> bytes \<times> bytes" where
  "b64encode c st =
    (case st of (atom, buffer) \<Rightarrow>
      let input = atom @ [c] in
      if length input = 3 then
        let value = 0 + ucast (input ! 0) :: u32; value = push_bit 8 value;
            value = value + ucast (input ! 1); value = push_bit 8 value;
            value = value + ucast (input ! 2);
            code3 = b64base ! unat (value AND 0x3f); value = drop_bit 6 value;
            code2 = b64base ! unat (value AND 0x3f); value = drop_bit 6 value;
            code1 = b64base ! unat (value AND 0x3f); value = drop_bit 6 value;
            code0 = b64base ! unat value
        in ([], buffer @ [code0, code1, code2, code3])
      else (input, buffer))"

definition b64pad :: "bytes \<Rightarrow> bytes" where
  "b64pad input =
    (if length input = 1 then
       let value = push_bit 4 (ucast (input ! 0)) :: u32;
           code1 = b64base ! unat (value AND 0x3f); value = drop_bit 6 value;
           code0 = b64base ! unat value
       in [code0, code1, 61, 61]
     else if length input = 2 then
       let value = ucast (input ! 0) :: u32; value = push_bit 8 value;
           value = value OR ucast (input ! 1); value = push_bit 2 value;
           code2 = b64base ! unat (value AND 0x3f); value = drop_bit 6 value;
           code1 = b64base ! unat (value AND 0x3f); value = drop_bit 6 value;
           code0 = b64base ! unat value
       in [code0, code1, code2, 61]
     else [])"

definition b64decode :: "byte \<Rightarrow> bytes \<times> bytes \<Rightarrow> bytes \<times> bytes" where
  "b64decode c st =
    (case st of (atom, buffer) \<Rightarrow>
      if b64unbase ! unat c > 64 then (atom, buffer)
      else
        let input = atom @ [c] in
        if length input = 4 then
          let value = ucast (b64unbase ! unat (input ! 0)) :: u32; value = push_bit 6 value;
              value = value OR ucast (b64unbase ! unat (input ! 1)); value = push_bit 6 value;
              value = value OR ucast (b64unbase ! unat (input ! 2)); value = push_bit 6 value;
              value = value OR ucast (b64unbase ! unat (input ! 3));
              decoded2 = ucast (value AND 0xff); value = drop_bit 8 value;
              decoded1 = ucast (value AND 0xff); value = drop_bit 8 value;
              decoded0 = ucast value;
              valid = (if input ! 2 = 61 then 1 else if input ! 3 = 61 then 2 else 3)
          in ([], buffer @ take valid [decoded0, decoded1, decoded2])
        else (input, buffer))"


section \<open>The Lua functions\<close>

definition mime_global_b64 :: "lua_vm \<Rightarrow> lua_value list \<Rightarrow> lua_value list lua" where
  "mime_global_b64 vm args =
    lua_bind (luaL_optlstring vm args 1) (\<lambda>first.
      case first of
        None \<Rightarrow> Inr [LNil, LNil]
      | Some c \<Rightarrow>
          (let (atom, out) = fold b64encode c ([], []) in
           lua_bind (luaL_optlstring vm args 2) (\<lambda>second.
             case second of
               None \<Rightarrow>
                 (let out = out @ b64pad atom
                  in Inr [if length out = 0 then LNil else LStr out, LNil])
             | Some d \<Rightarrow>
                 (let (atom, out) = fold b64encode d (atom, out)
                  in Inr [LStr out, LStr atom]))))"

definition mime_global_unb64 :: "lua_vm \<Rightarrow> lua_value list \<Rightarrow> lua_value list lua" where
  "mime_global_unb64 vm args =
    lua_bind (luaL_optlstring vm args 1) (\<lambda>first.
      case first of
        None \<Rightarrow> Inr [LNil, LNil]
      | Some c \<Rightarrow>
          (let (atom, out) = fold b64decode c ([], []) in
           lua_bind (luaL_optlstring vm args 2) (\<lambda>second.
             case second of
               None \<Rightarrow> Inr [if length out = 0 then LNil else LStr out, LNil]
             | Some d \<Rightarrow>
                 (let (atom, out) = fold b64decode d (atom, out)
                  in Inr [LStr out, LStr atom]))))"


section \<open>Facts about the tables\<close>

lemma b64base_list: "b64base =
  [65, 66, 67, 68, 69, 70, 71, 72, 73, 74, 75, 76, 77, 78, 79, 80, 81, 82, 83, 84, 85, 86, 87,
   88, 89, 90, 97, 98, 99, 100, 101, 102, 103, 104, 105, 106, 107, 108, 109, 110, 111, 112, 113,
   114, 115, 116, 117, 118, 119, 120, 121, 122, 48, 49, 50, 51, 52, 53, 54, 55, 56, 57, 43, 47]"
  by (simp add: b64base_def)

lemma length_b64base: "length b64base = 64"
  by (simp add: b64base_list)

lemma b64unbase_list: "b64unbase =
   [255, 255, 255, 255, 255, 255, 255, 255, 255, 255, 255, 255, 255, 255, 255, 255, 255,
    255, 255, 255, 255, 255, 255, 255, 255, 255, 255, 255, 255, 255, 255, 255, 255, 255,
    255, 255, 255, 255, 255, 255, 255, 255, 255, 62, 255, 255, 255, 63, 52, 53, 54, 55, 56,
    57, 58, 59, 60, 61, 255, 255, 255, 0, 255, 255, 255, 0, 1, 2, 3, 4, 5, 6, 7, 8, 9, 10,
    11, 12, 13, 14, 15, 16, 17, 18, 19, 20, 21, 22, 23, 24, 25, 255, 255, 255, 255, 255,
    255, 26, 27, 28, 29, 30, 31, 32, 33, 34, 35, 36, 37, 38, 39, 40, 41, 42, 43, 44, 45, 46,
    47, 48, 49, 50, 51, 255, 255, 255, 255, 255, 255, 255, 255, 255, 255, 255, 255, 255,
    255, 255, 255, 255, 255, 255, 255, 255, 255, 255, 255, 255, 255, 255, 255, 255, 255,
    255, 255, 255, 255, 255, 255, 255, 255, 255, 255, 255, 255, 255, 255, 255, 255, 255,
    255, 255, 255, 255, 255, 255, 255, 255, 255, 255, 255, 255, 255, 255, 255, 255, 255,
    255, 255, 255, 255, 255, 255, 255, 255, 255, 255, 255, 255, 255, 255, 255, 255, 255,
    255, 255, 255, 255, 255, 255, 255, 255, 255, 255, 255, 255, 255, 255, 255, 255, 255,
    255, 255, 255, 255, 255, 255, 255, 255, 255, 255, 255, 255, 255, 255, 255, 255, 255,
    255, 255, 255, 255, 255, 255, 255, 255, 255, 255, 255, 255, 255, 255, 255, 255, 255, 255]"
  by code_simp

lemma b64unbase_checks:
  "list_all (\<lambda>i. b64unbase ! unat (b64base ! i) = of_nat i) [0..<64] \<and>
   b64unbase ! 61 = 0 \<and> 61 \<notin> set b64base \<and> b64unbase ! 13 = 255 \<and> b64unbase ! 10 = 255"
  unfolding b64unbase_list b64base_list by code_simp

lemma b64unbase_b64base: "i < 64 \<Longrightarrow> b64unbase ! unat (b64base ! i) = of_nat i"
  using b64unbase_checks by (simp add: list_all_iff del: upt_Suc)

lemma b64base_ne_pad: "i < 64 \<Longrightarrow> b64base ! i \<noteq> 61"
  by (metis b64unbase_checks length_b64base nth_mem)


text \<open>\<open>sextet k v\<close>: the \<open>k\<close>-th six bits of \<open>v\<close> from below.\<close>

definition sextet :: "nat \<Rightarrow> nat \<Rightarrow> nat" where
  "sextet k v = v div 64 ^ k mod 64"

lemma sextet_less [simp]: "sextet k v < 64"
  by (simp add: sextet_def)

lemma unat_u32_and_63: "unat ((w :: u32) AND 0x3f) = unat w mod 64"
  using unat_and_mask [of w 6] by (simp add: mask_eq_exp_minus_1)

lemma unat_u32_and_255: "unat ((w :: u32) AND 0xff) = unat w mod 256"
  using unat_and_mask [of w 8] by (simp add: mask_eq_exp_minus_1)

lemma unat_ucast_byte: "unat (ucast (b :: byte) :: u32) = unat b"
  by (simp add: unsigned_ucast_eq take_bit_nat_eq_self less_trans [OF unat_byte_less])

lemma unat_shift_add:
  assumes "unat (w :: u32) * 2 ^ n + unat b < 2 ^ 32"
  shows "unat (push_bit n w + ucast (b :: byte)) = unat w * 2 ^ n + unat b"
proof -
  have "push_bit n w + ucast b = (of_nat (unat w * 2 ^ n + unat b) :: u32)"
    by (simp add: push_bit_eq_mult)
  with assms show ?thesis by (simp add: unat_of_nat mod_less del: of_nat_add of_nat_mult)
qed

lemma unat_shift_or:
  assumes "unat (w :: u32) * 2 ^ n + unat b < 2 ^ 32" "unat b < 2 ^ n"
  shows "unat (push_bit n w OR ucast (b :: byte)) = unat w * 2 ^ n + unat b"
proof -
  have "push_bit n w + ucast b = push_bit n w OR ucast b"
  proof (rule disjunctive_add)
    fix m
    have "m < n" if "bit b m"
    proof -
      from that have "odd (unat b div 2 ^ m)" by (simp add: bit_unsigned_iff flip: bit_iff_odd)
      then have "\<not> unat b < 2 ^ m" by auto
      with assms(2) show ?thesis by (meson less_le_trans not_less one_le_numeral power_increasing)
    qed
    then show "\<not> bit (push_bit n w) m \<or> \<not> bit (ucast b :: u32) m"
      by (auto simp: bit_simps)
  qed
  with unat_shift_add [OF assms(1)] show ?thesis by simp
qed


section \<open>The encoding of RFC 4648\<close>

definition num3 :: "byte \<Rightarrow> byte \<Rightarrow> byte \<Rightarrow> nat" where
  "num3 x y z = (unat x * 256 + unat y) * 256 + unat z"

definition quad :: "nat \<Rightarrow> bytes" where
  "quad v = map (\<lambda>k. b64base ! sextet k v) [3, 2, 1, 0]"

fun b64_rfc :: "bytes \<Rightarrow> bytes" where
  "b64_rfc (x # y # z # m) = quad (num3 x y z) @ b64_rfc m"
| "b64_rfc [x, y] = take 3 (quad (num3 x y 0)) @ [61]"
| "b64_rfc [x] = take 2 (quad (num3 x 0 0)) @ [61, 61]"
| "b64_rfc [] = []"

lemma num3_less: "num3 x y z < 16777216"
  using unat_byte_less [of x] unat_byte_less [of y] unat_byte_less [of z] by (simp add: num3_def)

lemma quad_nths: "quad v = [b64base ! sextet 3 v, b64base ! sextet 2 v, b64base ! sextet 1 v, b64base ! sextet 0 v]"
  by (simp add: quad_def)

lemma b64encode_part: "length atom < 2 \<Longrightarrow> b64encode c (atom, out) = (atom @ [c], out)"
  by (simp add: b64encode_def Let_def)

lemma b64encode_full: "b64encode z ([x, y], out) = ([], out @ quad (num3 x y z))"
proof -
  have lt: "unat x < 256" "unat y < 256" "unat z < 256" by (simp_all add: unat_byte_less)
  let ?v = "push_bit 8 (push_bit 8 (ucast x :: u32) + ucast y) + ucast z"
  have v: "unat ?v = num3 x y z"
    using lt by (simp add: unat_shift_add unat_ucast_byte num3_def)
  show ?thesis
    using num3_less [of x y z]
    by (simp add: b64encode_def Let_def quad_nths sextet_def unat_u32_and_63 unat_drop_bit_div v
        div_mult2_eq [symmetric])
qed

lemma b64pad_rfc:
  "b64pad [] = []" "b64pad [x] = b64_rfc [x]" "b64pad [x, y] = b64_rfc [x, y]"
proof -
  have lt: "unat x < 256" "unat y < 256" by (simp_all add: unat_byte_less)
  have 1: "unat (push_bit 4 (ucast x :: u32)) = unat x * 16"
    using unat_shift_add [of "ucast x" 4 0] lt by (simp add: unat_ucast_byte)
  have 2: "unat (push_bit 2 (push_bit 8 (ucast x :: u32) OR ucast y)) = (unat x * 256 + unat y) * 4"
    using unat_shift_add [of "push_bit 8 (ucast x) OR ucast y" 2 0] lt
    by (simp add: unat_shift_or unat_ucast_byte del: push_bit_or push_bit_push_bit)
  have 3: "num3 x 0 0 = unat x * 16 * 4096" "num3 x y 0 = (unat x * 256 + unat y) * 4 * 64"
    by (simp_all add: num3_def)
  show "b64pad [] = []" by (simp add: b64pad_def)
  show "b64pad [x] = b64_rfc [x]"
    using lt by (simp add: b64pad_def Let_def quad_nths sextet_def unat_u32_and_63 unat_drop_bit_div 1 3
        div_mult2_eq [symmetric] mult.commute [of 16])
  define n where "n = unat x * 256 + unat y"
  have n: "n < 65536" using lt by (simp add: n_def)
  note 2 = 2 [folded n_def] and 3 = 3(2) [folded n_def]
  have "sextet 3 (n * 4 * 64) = n * 4 div 4096" "sextet 2 (n * 4 * 64) = n * 4 div 64 mod 64"
    "sextet 1 (n * 4 * 64) = n * 4 mod 64"
    using n by (simp_all add: sextet_def mult.commute)
  then show "b64pad [x, y] = b64_rfc [x, y]"
    by (simp add: b64pad_def Let_def quad_nths unat_u32_and_63 unat_drop_bit_div 2 3
        div_mult2_eq [symmetric] del: push_bit_or push_bit_push_bit)
qed

lemma fold_b64encode:
  "\<exists>atom out'. fold b64encode m ([], out) = (atom, out') \<and> length atom < 3 \<and> out' @ b64pad atom = out @ b64_rfc m"
proof (induction m arbitrary: out rule: b64_rfc.induct)
  case (1 x y z m)
  have "fold b64encode (x # y # z # m) ([], out) = fold b64encode m ([], out @ quad (num3 x y z))"
    by (simp add: b64encode_part b64encode_full)
  with "1.IH" [of "out @ quad (num3 x y z)"] show ?case by simp
qed (simp_all add: b64encode_part b64pad_rfc)


section \<open>Decoding\<close>

definition significant :: "bytes \<Rightarrow> bytes" where
  "significant ds = filter (\<lambda>c. \<not> b64unbase ! unat c > 64) ds"

lemma fold_b64decode_significant: "fold b64decode ds st = fold b64decode (significant ds) st"
proof (induction ds arbitrary: st)
  case (Cons c ds)
  then show ?case
    by (cases st) (simp add: significant_def, simp add: b64decode_def)
qed (simp add: significant_def)

lemma unbase_char:
  "i < 64 \<Longrightarrow> unat (b64unbase ! unat (b64base ! i)) = i"
  "i < 64 \<Longrightarrow> \<not> b64unbase ! unat (b64base ! i) > 64"
  by (simp_all add: b64unbase_b64base word_less_nat_alt unat_of_nat)

lemma unbase_pad: "b64unbase ! 61 = 0" "b64unbase ! 13 = 255" "b64unbase ! 10 = 255"
  using b64unbase_checks by blast+

lemma b64decode_part:
  "\<not> b64unbase ! unat c > 64 \<Longrightarrow> length atom < 3 \<Longrightarrow> b64decode c (atom, out) = (atom @ [c], out)"
  by (simp add: b64decode_def Let_def)

lemma b64decode_full:
  assumes "\<not> b64unbase ! unat d > 64"
    "unat (b64unbase ! unat a) = p" "unat (b64unbase ! unat b) = q"
    "unat (b64unbase ! unat c) = r" "unat (b64unbase ! unat d) = s"
    "p < 64" "q < 64" "r < 64" "s < 64" "v = ((p * 64 + q) * 64 + r) * 64 + s"
  shows "b64decode d ([a, b, c], out) =
    ([], out @ take (if c = 61 then 1 else if d = 61 then 2 else 3)
                 [of_nat (v div 65536), of_nat (v div 256), of_nat v])"
proof -
  let ?w = "push_bit 6 (push_bit 6 (push_bit 6 (ucast (b64unbase ! unat a) :: u32) OR ucast (b64unbase ! unat b)) OR
    ucast (b64unbase ! unat c)) OR ucast (b64unbase ! unat d)"
  have w: "unat ?w = v"
    using assms by (simp add: unat_shift_or unat_ucast_byte del: push_bit_or push_bit_push_bit)
  have u: "(ucast (x :: u32) :: byte) = of_nat (unat x)" for x
    by simp
  have m: "(of_nat (n mod 256) :: byte) = of_nat n" for n
    by (rule unsigned_word_eqI [where ?'a = nat]) (simp add: unat_of_nat)
  from assms(1) show ?thesis
    unfolding b64decode_def by (simp add: Let_def u w m unat_u32_and_255 unat_drop_bit_div div_mult2_eq [symmetric] del: of_nat_unat push_bit_or push_bit_push_bit)
qed


lemma digits_256:
  assumes "y < 256" "z < (256::nat)"
  shows "((x * 256 + y) * 256 + z) div 65536 = x" "((x * 256 + y) * 256 + z) div 256 mod 256 = y"
    "((x * 256 + y) * 256 + z) mod 256 = z"
proof -
  define u where "u = x * 256 + y"
  have u: "u div 256 = x" "u mod 256 = y" using assms by (simp_all add: u_def)
  have v: "(u * 256 + z) div 256 = u" "(u * 256 + z) mod 256 = z" using assms by simp_all
  have "(u * 256 + z) div (256 * 256) = x" unfolding div_mult2_eq v u ..
  then show "((x * 256 + y) * 256 + z) div 65536 = x" by (fold u_def) simp
  show "((x * 256 + y) * 256 + z) div 256 mod 256 = y" "((x * 256 + y) * 256 + z) mod 256 = z"
    by (fold u_def) (simp_all only: v u)
qed

lemma num3_bytes:
  "of_nat (num3 x y z div 65536) = x" "of_nat (num3 x y z div 256) = y" "of_nat (num3 x y z) = z"
proof -
  note d = digits_256 [OF unat_byte_less unat_byte_less, of "unat x" y z, folded num3_def]
  have w: "of_nat n = b" if "n mod 256 = unat b" for n and b :: byte
    using that by (intro unsigned_word_eqI [where ?'a = nat]) (simp add: unat_of_nat)
  show "of_nat (num3 x y z div 65536) = x" "of_nat (num3 x y z div 256) = y" "of_nat (num3 x y z) = z"
    by (rule w, simp only: d mod_less [OF unat_byte_less])+
qed

lemma sextets_sum:
  assumes "v < 16777216"
  shows "v = ((sextet 3 v * 64 + sextet 2 v) * 64 + sextet 1 v) * 64 + sextet 0 v"
proof -
  define a where "a = v div 64"
  define b where "b = a div 64"
  have "v = a * 64 + v mod 64" "a = b * 64 + a mod 64" "b = b div 64 * 64 + b mod 64"
    by (simp_all add: a_def b_def)
  moreover have "sextet 0 v = v mod 64" "sextet 1 v = a mod 64" "sextet 2 v = b mod 64"
    by (simp_all add: sextet_def a_def b_def div_mult2_eq [symmetric])
  moreover have "sextet 3 v = b div 64"
  proof -
    have "b div 64 = v div 262144" by (simp add: a_def b_def div_mult2_eq [symmetric])
    moreover from assms have "v div 262144 < 64" by (simp add: less_mult_imp_div_less)
    ultimately show ?thesis by (simp add: sextet_def)
  qed
  ultimately show ?thesis by metis
qed

text \<open>Four characters with the values of the sextets of \<open>v\<close>, the last two perhaps padding.\<close>

lemma decode_four:
  assumes "v < 16777216" "c = b64base ! sextet 1 v \<or> c = 61 \<and> sextet 1 v = 0"
    "d = b64base ! sextet 0 v \<or> d = 61 \<and> sextet 0 v = 0"
  shows "fold b64decode [b64base ! sextet 3 v, b64base ! sextet 2 v, c, d] ([], out) =
    ([], out @ take (if c = 61 then 1 else if d = 61 then 2 else 3)
                 [of_nat (v div 65536), of_nat (v div 256), of_nat v])"
proof -
  have ok: "unat (b64unbase ! unat x) = i \<and> \<not> b64unbase ! unat x > 64"
    if "x = b64base ! i \<or> x = 61 \<and> i = 0" "i < 64" for x i
    using that by (auto simp: unbase_char unbase_pad)
  note c = ok [OF assms(2) sextet_less] and d = ok [OF assms(3) sextet_less]
  have "b64decode d ([b64base ! sextet 3 v, b64base ! sextet 2 v, c], out) =
    ([], out @ take (if c = 61 then 1 else if d = 61 then 2 else 3)
                 [of_nat (v div 65536), of_nat (v div 256), of_nat v])"
    by (rule b64decode_full [OF conjunct2 [OF d] _ _ conjunct1 [OF c] conjunct1 [OF d]
          sextet_less sextet_less sextet_less sextet_less sextets_sum [OF assms(1)]])
      (simp_all add: unbase_char)
  then show ?thesis
    using c by (simp add: b64decode_part unbase_char)
qed

lemma fold_b64decode_rfc: "fold b64decode (b64_rfc m) ([], out) = ([], out @ m)"
proof (induction m arbitrary: out rule: b64_rfc.induct)
  case (1 x y z m)
  have "fold b64decode (quad (num3 x y z)) ([], out) = ([], out @ [x, y, z])"
    unfolding quad_nths by (subst decode_four) (simp_all add: num3_less b64base_ne_pad num3_bytes)
  with "1.IH" [of "out @ [x, y, z]"] show ?case by simp
next
  case (2 x y)
  have "sextet 0 (num3 x y 0) = 0" by (simp add: sextet_def num3_def)
  then have "fold b64decode (take 3 (quad (num3 x y 0)) @ [61]) ([], out) = ([], out @ [x, y])"
    using decode_four [of "num3 x y 0" "b64base ! sextet 1 (num3 x y 0)" 61 out]
    by (simp add: quad_nths num3_less b64base_ne_pad num3_bytes)
  then show ?case by simp
next
  case (3 x)
  have "sextet 1 (num3 x 0 0) = 0" "sextet 0 (num3 x 0 0) = 0" by (simp_all add: sextet_def num3_def)
  then have "fold b64decode (take 2 (quad (num3 x 0 0)) @ [61, 61]) ([], out) = ([], out @ [x])"
    using decode_four [of "num3 x 0 0" 61 61 out]
    by (simp add: quad_nths num3_less num3_bytes)
  then show ?case by simp
qed simp

interpretation b64: carry_filter b64encode "\<lambda>s. length s < 3"
proof unfold_locales
  show "length s < 3 \<Longrightarrow> fold b64encode s ([], []) = (s, [])" for s
    by (cases s rule: b64_rfc.cases) (simp_all add: b64encode_part)
qed (auto simp: b64encode_def Let_def)

interpretation unb64: carry_filter b64decode "\<lambda>s. length s < 4 \<and> significant s = s"
proof unfold_locales
  show "fold b64decode s ([], []) = (s, [])" if "length s < 4 \<and> significant s = s" for s
  proof -
    have "significant s = s \<Longrightarrow> length (t @ s) < 4 \<Longrightarrow> fold b64decode s (t, []) = (t @ s, [])" for t
    proof (induction s arbitrary: t)
      case (Cons c s)
      from Cons.prems have "\<not> b64unbase ! unat c > 64" "significant s = s"
        by (auto simp: significant_def split: if_splits dest: filter_eq_ConsD)
      with Cons.IH [of "t @ [c]"] Cons.prems(2) show ?case by (simp add: b64decode_part)
    qed simp
    from this [of "[]"] that show ?thesis by simp
  qed
qed (auto simp: b64decode_def Let_def significant_def split: if_splits)


section \<open>The calling convention\<close>

lemma b64_calls:
  "mime_global_b64 vm [LStr c, LStr d] = (case b64.run (c @ d) [] of (s, out) \<Rightarrow> Inr [LStr out, LStr s])"
  "mime_global_b64 vm [LStr c, LNil] = (case b64.run c [] of (s, out) \<Rightarrow>
     Inr [(if out @ b64pad s = [] then LNil else LStr (out @ b64pad s)), LNil])"
  by (simp_all add: mime_global_b64_def lua_arg_simps b64.run_def case_prod_unfold Let_def)

lemma unb64_calls:
  "mime_global_unb64 vm [LStr c, LStr d] = (case unb64.run (c @ d) [] of (s, out) \<Rightarrow> Inr [LStr out, LStr s])"
  "mime_global_unb64 vm [LStr c, LNil] = (case unb64.run c [] of (s, out) \<Rightarrow>
     Inr [(if out @ [] = [] then LNil else LStr (out @ [])), LNil])"
  by (simp_all add: mime_global_unb64_def lua_arg_simps unb64.run_def case_prod_unfold Let_def)


section \<open>Properties\<close>

text \<open>C9: Base64 encoding through the chunked calling convention: however the data is cut into
  chunks, the calls \<open>A, B = b64(C, D)\<close> with the pending bytes handed back in front of the next
  chunk write the RFC 4648 encoding of the whole data, padding included.\<close>

theorem b64_chunks: "drive (mime_global_b64 vm) (LStr []) cs = Inr (b64_rfc (concat cs))"
proof -
  obtain s out where "b64.run (concat cs) [] = (s, out)" "out @ b64pad s = b64_rfc (concat cs)"
    using fold_b64encode [of "concat cs" "[]"] by (auto simp: b64.run_def)
  then show ?thesis
    using b64.drive_run [of "mime_global_b64 vm" b64pad "[]" cs] by (simp add: b64_calls)
qed

text \<open>C10: Base64 decoding inverts the encoding for every chunking: chunks whose characters of the
  Base64 alphabet, other bytes such as line breaks skipped, spell the encoding of \<open>m\<close> decode
  to \<open>m\<close>.\<close>

theorem unb64_chunks:
  assumes "significant (concat ds) = b64_rfc m"
  shows "drive (mime_global_unb64 vm) (LStr []) ds = Inr m"
proof -
  have "unb64.run (concat ds) [] = ([], m)"
    unfolding unb64.run_def fold_b64decode_significant [of "concat ds"] assms by (simp add: fold_b64decode_rfc)
  then show ?thesis
    using unb64.drive_run [of "mime_global_unb64 vm" "\<lambda>_. []" "[]" ds]
    by (simp add: unb64_calls significant_def)
qed

lemma b64_rfc_example: "b64_rfc [102, 111, 111, 98] = [90, 109, 57, 118, 89, 103, 61, 61]"
  by (simp add: quad_nths num3_def sextet_def b64base_list)

lemma significant_example:
  "significant [90, 109, 57, 13, 10, 118, 89, 103, 61, 61] = [90, 109, 57, 118, 89, 103, 61, 61]"
  by (simp add: significant_def b64unbase_list)

theorem unb64_chunks_witness:
  "drive (mime_global_unb64 plain_vm) (LStr []) [[90, 109, 57, 13], [10, 118, 89, 103, 61, 61]] = Inr [102, 111, 111, 98]"
  by (rule unb64_chunks) (simp only: concat.simps append.simps append_Nil2 significant_example b64_rfc_example)

end
