(* ===== verification/Mime_Text.thy ===== *)
theory Mime_Text
  imports Filters "HOL-Library.Sublist"
begin

text \<open>
  The byte-at-a-time text filters of mime.c: \<open>wrp\<close> (line wrapping), \<open>qpwrp\<close> (soft line breaks
  for quoted-printable), \<open>eol\<close> (end-of-line conversion) and \<open>dot\<close> (SMTP dot stuffing). Each is
  one step function folded over the input; the Lua entry points add the argument handling.
  \<open>left\<close> and \<open>length\<close> are \<open>int\<close>s; the widths proved below keep them in range.
\<close>

definition CRLF :: bytes where "CRLF = [13, 10]"
definition EQCRLF :: bytes where "EQCRLF = [61, 13, 10]"


section \<open>wrp\<close>

definition wrp_step :: "int \<Rightarrow> byte \<Rightarrow> int \<times> bytes \<Rightarrow> int \<times> bytes" where
  "wrp_step len c st =
    (case st of (left, out) \<Rightarrow>
      if c = 13 then (left, out)
      else if c = 10 then (len, out @ CRLF)
      else
        let (left, out) = (if left \<le> 0 then (len, out @ CRLF) else (left, out))
        in (left - 1, out @ [c]))"

definition wrp_loop :: "int \<Rightarrow> bytes \<Rightarrow> int \<Rightarrow> int \<times> bytes" where
  "wrp_loop len input left = fold (wrp_step len) input (left, [])"

definition mime_global_wrp :: "lua_vm \<Rightarrow> lua_value list \<Rightarrow> lua_value list lua" where
  "mime_global_wrp vm args =
    lua_bind (luaL_checknumber vm args 1) (\<lambda>l.
    lua_bind (luaL_optlstring vm args 2) (\<lambda>input.
    lua_bind (luaL_optnumber vm args 3 76) (\<lambda>n.
      let left = c_int l; len = c_int n in
      case input of
        None \<Rightarrow> Inr [if left < len then LStr CRLF else LNil, LNum (of_int len)]
      | Some bs \<Rightarrow> (case wrp_loop len bs left of
          (left', out) \<Rightarrow> Inr [LStr out, LNum (of_int left')]))))"


section \<open>qpwrp\<close>

definition qpwrp_step :: "int \<Rightarrow> byte \<Rightarrow> int \<times> bytes \<Rightarrow> int \<times> bytes" where
  "qpwrp_step len c st =
    (case st of (left, out) \<Rightarrow>
      if c = 13 then (left, out)
      else if c = 10 then (len, out @ CRLF)
      else if c = 61 then
        let (left, out) = (if left \<le> 3 then (len, out @ EQCRLF) else (left, out))
        in (left - 1, out @ [c])
      else
        let (left, out) = (if left \<le> 1 then (len, out @ EQCRLF) else (left, out))
        in (left - 1, out @ [c]))"

definition qpwrp_loop :: "int \<Rightarrow> bytes \<Rightarrow> int \<Rightarrow> int \<times> bytes" where
  "qpwrp_loop len input left = fold (qpwrp_step len) input (left, [])"

definition mime_global_qpwrp :: "lua_vm \<Rightarrow> lua_value list \<Rightarrow> lua_value list lua" where
  "mime_global_qpwrp vm args =
    lua_bind (luaL_checknumber vm args 1) (\<lambda>l.
    lua_bind (luaL_optlstring vm args 2) (\<lambda>input.
    lua_bind (luaL_optnumber vm args 3 76) (\<lambda>n.
      let left = c_int l; len = c_int n in
      case input of
        None \<Rightarrow> Inr [if left < len then LStr EQCRLF else LNil, LNum (of_int len)]
      | Some bs \<Rightarrow> (case qpwrp_loop len bs left of
          (left', out) \<Rightarrow> Inr [LStr out, LNum (of_int left')]))))"


section \<open>eol\<close>

definition eolcandidate :: "int \<Rightarrow> bool" where
  "eolcandidate c \<longleftrightarrow> c = 13 \<or> c = 10"

text \<open>\<open>*input\<close> is a signed \<open>char\<close> widened to \<open>int\<close>.\<close>

definition eolprocess :: "bytes \<Rightarrow> byte \<Rightarrow> int \<times> bytes \<Rightarrow> int \<times> bytes" where
  "eolprocess marker ch st =
    (case st of (prev, out) \<Rightarrow>
      let c = sint ch in
      if eolcandidate c then
        if eolcandidate prev then
          (0, if c = prev then out @ marker else out)
        else (c, out @ marker)
      else (0, out @ [ch]))"

definition eol_loop :: "bytes \<Rightarrow> bytes \<Rightarrow> int \<Rightarrow> int \<times> bytes" where
  "eol_loop marker input ctx = fold (eolprocess marker) input (ctx, [])"

definition mime_global_eol :: "lua_vm \<Rightarrow> lua_value list \<Rightarrow> lua_value list lua" where
  "mime_global_eol vm args =
    lua_bind (luaL_checknumber vm args 1) (\<lambda>c.
    lua_bind (luaL_optlstring vm args 2) (\<lambda>input.
    lua_bind (luaL_optstring vm args 3 CRLF) (\<lambda>marker.
      case input of
        None \<Rightarrow> Inr [LNil, LNum 0]
      | Some bs \<Rightarrow> (case eol_loop marker bs (c_int c) of
          (ctx', out) \<Rightarrow> Inr [LStr out, LNum (of_int ctx')]))))"


section \<open>dot\<close>

definition dot_step :: "byte \<Rightarrow> nat \<times> bytes \<Rightarrow> nat \<times> bytes" where
  "dot_step c st =
    (case st of (state, out) \<Rightarrow>
      let out = out @ [c] in
      if c = 13 then (1, out)
      else if c = 10 then (if state = 1 then 2 else 0, out)
      else if c = 46 then (0, if state = 2 then out @ [46] else out)
      else (0, out))"

definition dot_loop :: "bytes \<Rightarrow> nat \<Rightarrow> nat \<times> bytes" where
  "dot_loop input state = fold dot_step input (state, [])"

definition mime_global_dot :: "lua_vm \<Rightarrow> lua_value list \<Rightarrow> lua_value list lua" where
  "mime_global_dot vm args =
    lua_bind (luaL_checknumber vm args 1) (\<lambda>s.
    lua_bind (luaL_optlstring vm args 2) (\<lambda>input.
      case input of
        None \<Rightarrow> Inr [LNil, LNum 2]
      | Some bs \<Rightarrow> (case dot_loop bs (c_size s) of
          (state', out) \<Rightarrow> Inr [LStr out, LNum (of_nat state')])))"


section \<open>The filters as instances\<close>

interpretation wrp: byte_filter "wrp_step len" for len
  by unfold_locales (simp add: wrp_step_def)

interpretation qpwrp: byte_filter "qpwrp_step len" for len
  by unfold_locales (simp add: qpwrp_step_def)

interpretation eol: byte_filter "eolprocess marker" for marker
  by unfold_locales (simp add: eolprocess_def Let_def)

interpretation dot: byte_filter dot_step
  by unfold_locales (simp add: dot_step_def Let_def)

lemma loop_runs:
  "wrp_loop len input left = wrp.run len input left"
  "qpwrp_loop len input left = qpwrp.run len input left"
  "eol_loop marker input ctx = eol.run marker input ctx"
  "dot_loop input state = dot.run input state"
  by (simp_all add: wrp_loop_def wrp.run_def qpwrp_loop_def qpwrp.run_def
      eol_loop_def eol.run_def dot_loop_def dot.run_def)


lemma step_pair:
  "wrp_step len c (left, out) =
    (if c = 13 then (left, out)
     else if c = 10 then (len, out @ CRLF)
     else if left \<le> 0 then (len - 1, out @ CRLF @ [c])
     else (left - 1, out @ [c]))"
  "qpwrp_step len c (left, out) =
    (if c = 13 then (left, out)
     else if c = 10 then (len, out @ CRLF)
     else if left \<le> (if c = 61 then 3 else 1) then (len - 1, out @ EQCRLF @ [c])
     else (left - 1, out @ [c]))"
  "eolprocess marker c (prev, out) =
    (if eolcandidate (sint c) then
       if eolcandidate prev then (0, if sint c = prev then out @ marker else out)
       else (sint c, out @ marker)
     else (0, out @ [c]))"
  "dot_step c (state, out) =
    (if c = 13 then (1, out @ [c])
     else if c = 10 then (if state = 1 then 2 else 0, out @ [c])
     else if c = 46 then (0, if state = 2 then out @ [c, c] else out @ [c])
     else (0, out @ [c]))"
  by (simp_all add: wrp_step_def qpwrp_step_def eolprocess_def dot_step_def Let_def)


section \<open>Line widths\<close>

text \<open>The widths of the CRLF-separated lines of a text whose first line already has \<open>k\<close>
  columns; the last entry is the unfinished line.\<close>

fun widths :: "nat \<Rightarrow> bytes \<Rightarrow> nat list" where
  "widths k [] = [k]"
| "widths k (b # bs) = (if b = 13 \<and> bs \<noteq> [] \<and> hd bs = 10 then k # widths 0 (tl bs) else widths (Suc k) bs)"

lemma widths_nonempty [simp]: "widths k bs \<noteq> []"
  by (induction k bs rule: widths.induct) auto

lemma widths_CRLF [simp]: "widths k (CRLF @ bs) = k # widths 0 bs"
  by (simp add: CRLF_def)

lemma widths_EQCRLF [simp]: "widths k (EQCRLF @ bs) = Suc k # widths 0 bs"
  by (simp add: EQCRLF_def)

lemma widths_plain [simp]: "c \<noteq> 13 \<Longrightarrow> widths k (c # bs) = widths (Suc k) bs"
  by simp

declare widths.simps(2) [simp del]

definition fits :: "int \<Rightarrow> int \<Rightarrow> bytes \<Rightarrow> int \<Rightarrow> bool" where
  "fits len left out left' \<longleftrightarrow>
     (\<forall>w \<in> set (widths (nat (len - left)) out). int w \<le> len) \<and>
     int (last (widths (nat (len - left)) out)) = len - left'"

lemma fits_simps [simp]:
  "left \<le> len \<Longrightarrow> fits len left [] left' \<longleftrightarrow> 0 \<le> left \<and> left' = left"
  "0 \<le> left \<Longrightarrow> left \<le> len \<Longrightarrow> fits len left (CRLF @ out) left' \<longleftrightarrow> fits len len out left'"
  "1 \<le> left \<Longrightarrow> left \<le> len \<Longrightarrow> fits len left (EQCRLF @ out) left' \<longleftrightarrow> fits len len out left'"
  "c \<noteq> 13 \<Longrightarrow> left \<le> len \<Longrightarrow> fits len left (c # out) left' \<longleftrightarrow> fits len (left - 1) out left'"
  by (auto simp: fits_def nat_diff_distrib' Suc_nat_eq_nat_zadd1 algebra_simps)

lemma wrp_run_fits:
  "0 < len \<Longrightarrow> 0 \<le> left \<Longrightarrow> left \<le> len \<Longrightarrow> wrp.run len bs left = (left', out) \<Longrightarrow>
   fits len left out left' \<and> 0 \<le> left' \<and> left' \<le> len"
proof (induction bs arbitrary: left out)
  case (Cons c bs)
  obtain l1 o1 where st: "wrp_step len c (left, []) = (l1, o1)" by fastforce
  with Cons.prems(4) obtain o2 where r: "wrp.run len bs l1 = (left', o2)" "out = o1 @ o2"
    by (auto simp: wrp.run_Cons split: prod.splits)
  from st Cons.prems have l1: "0 \<le> l1" "l1 \<le> len"
    by (auto simp: step_pair split: if_splits)
  show ?case
    using Cons.IH [OF Cons.prems(1) l1 r(1)] st r(2) Cons.prems(1-3)
    by (auto simp: step_pair split: if_splits)
qed simp

lemma qpwrp_run_fits:
  "2 \<le> len \<Longrightarrow> 1 \<le> left \<Longrightarrow> left \<le> len \<Longrightarrow> qpwrp.run len bs left = (left', out) \<Longrightarrow>
   fits len left out left' \<and> 1 \<le> left' \<and> left' \<le> len"
proof (induction bs arbitrary: left out)
  case (Cons c bs)
  obtain l1 o1 where st: "qpwrp_step len c (left, []) = (l1, o1)" by fastforce
  with Cons.prems(4) obtain o2 where r: "qpwrp.run len bs l1 = (left', o2)" "out = o1 @ o2"
    by (auto simp: qpwrp.run_Cons split: prod.splits)
  from st Cons.prems have l1: "1 \<le> l1" "l1 \<le> len"
    by (auto simp: step_pair split: if_splits)
  show ?case
    using Cons.IH [OF Cons.prems(1) l1 r(1)] st r(2) Cons.prems(1-3)
    by (auto simp: step_pair split: if_splits)
qed simp


section \<open>What wrp writes\<close>

fun join_lines :: "bytes \<Rightarrow> bytes list \<Rightarrow> bytes" where
  "join_lines sep [] = []"
| "join_lines sep [l] = l"
| "join_lines sep (l # m # ls) = l @ sep @ join_lines sep (m # ls)"

text \<open>The lines of a text, which end at LF; CR is dropped.\<close>

fun lf_lines :: "bytes \<Rightarrow> bytes list" where
  "lf_lines [] = [[]]"
| "lf_lines (c # bs) =
    (if c = 10 then [] # lf_lines bs
     else if c = 13 then lf_lines bs
     else (c # hd (lf_lines bs)) # tl (lf_lines bs))"

text \<open>A line in pieces of \<open>n\<close> bytes, the first of \<open>k\<close>.\<close>

function pieces :: "nat \<Rightarrow> nat \<Rightarrow> bytes \<Rightarrow> bytes list" where
  "pieces k n l = (if length l \<le> k \<or> n = 0 then [l] else take k l # pieces n n (drop k l))"
  by pat_completeness auto
termination by (relation "measure (\<lambda>(k, n, l). 2 * length l + (if k = 0 then 1 else 0))") auto

declare pieces.simps [simp del]

definition wrapped :: "nat \<Rightarrow> nat \<Rightarrow> bytes \<Rightarrow> bytes list" where
  "wrapped k n bs = pieces k n (hd (lf_lines bs)) @ concat (map (pieces n n) (tl (lf_lines bs)))"

lemma pieces_Nil [simp]: "pieces k n [] = [[]]"
  by (simp add: pieces.simps)

lemma pieces_nonempty [simp]: "pieces k n l \<noteq> []"
  by (simp add: pieces.simps)

lemma pieces_Cons:
  "0 < k \<Longrightarrow> pieces k n (c # l) = (c # hd (pieces (k - 1) n l)) # tl (pieces (k - 1) n l)"
  by (cases k) (simp_all add: pieces.simps [of _ n "c # l"] pieces.simps [of _ n l])

lemma pieces_full: "0 < n \<Longrightarrow> pieces 0 n (c # l) = [] # pieces n n (c # l)"
  by (subst pieces.simps) simp

lemma pieces_width: "0 < n \<Longrightarrow> k \<le> n \<Longrightarrow> p \<in> set (pieces k n l) \<Longrightarrow> length p \<le> n"
proof (induction k n l rule: pieces.induct)
  case (1 k n l)
  then show ?case by (auto simp: pieces.simps [of k n l] split: if_splits)
qed

lemma lf_lines_nonempty [simp]: "lf_lines bs \<noteq> []"
  by (induction bs) auto

lemma wrapped_nonempty [simp]: "wrapped k n bs \<noteq> []"
  by (simp add: wrapped_def)

lemma wrapped_simps:
  "wrapped k n [] = [[]]"
  "wrapped k n (13 # bs) = wrapped k n bs"
  "wrapped k n (10 # bs) = [] # wrapped n n bs"
  "c \<noteq> 13 \<Longrightarrow> c \<noteq> 10 \<Longrightarrow> 0 < k \<Longrightarrow>
    wrapped k n (c # bs) = (c # hd (wrapped (k - 1) n bs)) # tl (wrapped (k - 1) n bs)"
  "c \<noteq> 13 \<Longrightarrow> c \<noteq> 10 \<Longrightarrow> 0 < n \<Longrightarrow> wrapped 0 n (c # bs) = [] # wrapped n n (c # bs)"
  by (simp_all add: wrapped_def pieces_Cons pieces_full)
    (cases "lf_lines bs"; simp)

lemma join_lines_simps:
  "ls \<noteq> [] \<Longrightarrow> join_lines sep (l # ls) = l @ sep @ join_lines sep ls"
  "ls \<noteq> [] \<Longrightarrow> join_lines sep ((c # hd ls) # tl ls) = c # join_lines sep ls"
  by (cases ls; simp) (cases ls; cases "tl ls"; simp)

lemma wrapped_width: "0 < n \<Longrightarrow> k \<le> n \<Longrightarrow> p \<in> set (wrapped k n bs) \<Longrightarrow> length p \<le> n"
  using pieces_width [of n] by (auto simp: wrapped_def)

text \<open>The free columns on the last line.\<close>

definition free :: "nat \<Rightarrow> nat \<Rightarrow> bytes list \<Rightarrow> int" where
  "free k n ls = int (if length ls = 1 then k else n) - int (length (last ls))"

lemma free_simps:
  "ls \<noteq> [] \<Longrightarrow> free k n (l # ls) = free n n ls"
  "ls \<noteq> [] \<Longrightarrow> 0 < k \<Longrightarrow> free k n ((c # hd ls) # tl ls) = free (k - 1) n ls"
  "free k n [[]] = int k"
  by (cases ls; simp add: free_def)+

lemma wrp_run_wrapped:
  "0 < n \<Longrightarrow> wrp.run (int n) bs (int k) = (free k n (wrapped k n bs), join_lines CRLF (wrapped k n bs))"
proof (induction bs arbitrary: k)
  case Nil
  then show ?case by (simp add: wrapped_simps free_simps)
next
  case (Cons c bs)
  consider "c = 13" | "c = 10" | "c \<noteq> 13" "c \<noteq> 10" "k = 0" | "c \<noteq> 13" "c \<noteq> 10" "0 < k" by auto
  then show ?case
  proof cases
    case 3
    with Cons show ?thesis
      using Cons.IH [of "n - 1"]
      by (simp add: wrp.run_Cons step_pair wrapped_simps join_lines_simps free_simps of_nat_diff)
  next
    case 4
    with Cons show ?thesis
      using Cons.IH [of "k - 1"]
      by (simp add: wrp.run_Cons step_pair wrapped_simps join_lines_simps free_simps of_nat_diff)
  qed (use Cons in \<open>simp_all add: wrp.run_Cons step_pair wrapped_simps join_lines_simps free_simps CRLF_def\<close>)
qed


section \<open>End-of-line conversion\<close>

definition no_eol :: "bytes \<Rightarrow> bool" where
  "no_eol l \<longleftrightarrow> 13 \<notin> set l \<and> 10 \<notin> set l"

lemma eolcandidate_byte: "eolcandidate (sint (c :: byte)) \<longleftrightarrow> c = 13 \<or> c = 10"
proof -
  have "sint c = sint (13 :: byte) \<longleftrightarrow> c = 13" "sint c = sint (10 :: byte) \<longleftrightarrow> c = 10"
    by (metis signed_word_eqI)+
  then show ?thesis by (simp add: eolcandidate_def)
qed

lemma eol_line: "no_eol l \<Longrightarrow> eol.run marker l ctx = (if l = [] then ctx else 0, l)"
  by (induction l arbitrary: ctx)
    (auto simp: eol.run_Cons step_pair eolcandidate_byte no_eol_def)

lemma eol_pair:
  "eol.run marker [13, 10] 0 = (0, marker)" "eol.run marker [10, 13] 0 = (0, marker)"
  by (simp_all add: eol.run_Cons step_pair eolcandidate_def)

lemma eol_single:
  "ctx \<in> {0, 13} \<Longrightarrow> eol.run marker [13] ctx = (if ctx = 0 then 13 else 0, marker)"
  "ctx \<in> {0, 10} \<Longrightarrow> eol.run marker [10] ctx = (if ctx = 0 then 10 else 0, marker)"
  by (auto simp: eol.run_Cons step_pair eolcandidate_def)

lemma eol_uniform_single:
  assumes "c = 13 \<or> c = 10" "\<forall>l \<in> set ls. no_eol l" "ctx \<in> {0, sint c}"
  shows "snd (eol.run marker (join_lines [c] ls) ctx) = join_lines marker ls"
  using assms
proof (induction "[c]" ls arbitrary: ctx rule: join_lines.induct)
  case (3 l m ls)
  let ?s = "if l = [] then ctx else 0"
  have sep: "eol.run marker [c] ?s = (if ?s = 0 then sint c else 0, marker)"
    using 3(2,4) eol_single [of ?s marker] by auto
  have "(if ?s = 0 then sint c else 0) \<in> {0, sint c}" by auto
  from 3(1) [OF 3(2) _ this] 3(3) sep eol_line [of l marker ctx] show ?case
    unfolding join_lines.simps eol.run_append by (simp add: case_prod_unfold Let_def)
qed (auto simp: eol_line)

lemma eol_uniform_pair:
  assumes "eol.run marker sep 0 = (0, marker)" "\<forall>l \<in> set ls. no_eol l"
  shows "snd (eol.run marker (join_lines sep ls) 0) = join_lines marker ls"
  using assms
proof (induction sep ls rule: join_lines.induct)
  case (3 sep l m ls)
  then have "eol.run marker sep (if l = [] then 0 else 0) = (0, marker)" by simp
  with 3 eol_line [of l marker 0] show ?case
    unfolding join_lines.simps eol.run_append by (simp add: case_prod_unfold Let_def)
qed (auto simp: eol_line)


section \<open>Dot stuffing\<close>

text \<open>RFC 5321, 4.5.2: the lines of a text end at CRLF. The sender puts a dot before a line that starts
  with one; the receiver drops the first dot of a line, and a line of a single dot ends the text.\<close>

fun crlf_lines :: "bytes \<Rightarrow> bytes list" where
  "crlf_lines [] = [[]]"
| "crlf_lines (c # bs) =
    (if c = 13 \<and> bs \<noteq> [] \<and> hd bs = 10 then [] # crlf_lines (tl bs)
     else (c # hd (crlf_lines bs)) # tl (crlf_lines bs))"

definition stuff_line :: "bytes \<Rightarrow> bytes" where
  "stuff_line l = (if l \<noteq> [] \<and> hd l = 46 then 46 # l else l)"

definition unstuff_line :: "bytes \<Rightarrow> bytes" where
  "unstuff_line l = (if l \<noteq> [] \<and> hd l = 46 then tl l else l)"

definition stuffed :: "bytes \<Rightarrow> bytes" where
  "stuffed bs = join_lines CRLF (map stuff_line (crlf_lines bs))"

definition undot :: "bytes \<Rightarrow> bytes" where
  "undot bs = join_lines CRLF (map unstuff_line (crlf_lines bs))"

lemma crlf_lines_nonempty [simp]: "crlf_lines bs \<noteq> []"
  by (induction bs rule: crlf_lines.induct) auto

text \<open>The text from inside a line on: its first line is not stuffed.\<close>

definition stuffed_inside :: "bytes \<Rightarrow> bytes" where
  "stuffed_inside bs = join_lines CRLF (hd (crlf_lines bs) # map stuff_line (tl (crlf_lines bs)))"

lemma join_lines_line: "join_lines sep ((p @ l) # ls) = p @ join_lines sep (l # ls)"
  by (cases ls) simp_all

lemma stuffed_inside_simps:
  "stuffed_inside [] = []"
  "stuffed_inside (13 # 10 # bs) = 13 # 10 # stuffed bs"
  "\<not> (c = 13 \<and> bs \<noteq> [] \<and> hd bs = 10) \<Longrightarrow> stuffed_inside (c # bs) = c # stuffed_inside bs"
proof -
  show "\<not> (c = 13 \<and> bs \<noteq> [] \<and> hd bs = 10) \<Longrightarrow> stuffed_inside (c # bs) = c # stuffed_inside bs"
    using join_lines_line [of CRLF "[c]"] by (simp only: stuffed_inside_def crlf_lines.simps) simp
qed (simp_all add: stuffed_inside_def stuffed_def join_lines_simps CRLF_def)

lemma stuffed_simps:
  "stuffed [] = []"
  "stuffed (13 # 10 # bs) = 13 # 10 # stuffed bs"
  "\<not> (c = 13 \<and> bs \<noteq> [] \<and> hd bs = 10) \<Longrightarrow> stuffed (c # bs) = (if c = 46 then [46, 46] else [c]) @ stuffed_inside bs"
proof -
  show "\<not> (c = 13 \<and> bs \<noteq> [] \<and> hd bs = 10) \<Longrightarrow> stuffed (c # bs) = (if c = 46 then [46, 46] else [c]) @ stuffed_inside bs"
    using join_lines_line [of CRLF "[46, 46]" "hd (crlf_lines bs)"] join_lines_line [of CRLF "[c]" "hd (crlf_lines bs)"]
    by (simp only: stuffed_inside_def stuffed_def crlf_lines.simps) (simp add: stuff_line_def)
qed (simp_all add: stuffed_def join_lines_simps CRLF_def stuff_line_def)

text \<open>State 1: after a CR.\<close>

definition stuffed_from :: "nat \<Rightarrow> bytes \<Rightarrow> bytes" where
  "stuffed_from state bs =
    (if state = 2 then stuffed bs
     else if state = 1 \<and> bs \<noteq> [] \<and> hd bs = 10 then 10 # stuffed (tl bs)
     else stuffed_inside bs)"

lemma stuffed_from_Cons:
  "stuffed_from 0 (13 # bs) = 13 # stuffed_from 1 bs"
  "stuffed_from 1 (13 # bs) = 13 # stuffed_from 1 bs"
  "stuffed_from 2 (13 # bs) = 13 # stuffed_from 1 bs"
  "stuffed_from 1 (10 # bs) = 10 # stuffed_from 2 bs"
  "stuffed_from 0 (10 # bs) = 10 # stuffed_from 0 bs"
  "stuffed_from 2 (10 # bs) = 10 # stuffed_from 0 bs"
  "c \<noteq> 13 \<Longrightarrow> c \<noteq> 10 \<Longrightarrow> state \<noteq> 2 \<Longrightarrow> stuffed_from state (c # bs) = c # stuffed_from 0 bs"
  "stuffed_from 2 (46 # bs) = 46 # 46 # stuffed_from 0 bs"
  "c \<noteq> 13 \<Longrightarrow> c \<noteq> 10 \<Longrightarrow> c \<noteq> 46 \<Longrightarrow> stuffed_from 2 (c # bs) = c # stuffed_from 0 bs"
  by (cases bs; auto simp: stuffed_from_def stuffed_simps stuffed_inside_simps)+

lemma dot_run_stuffed: "state \<le> 2 \<Longrightarrow> snd (dot.run bs state) = stuffed_from state bs"
proof (induction bs arbitrary: state)
  case (Cons c bs)
  have run: "snd (dot.run (c # bs) state) =
      snd (dot_step c (state, [])) @ stuffed_from (fst (dot_step c (state, []))) bs"
    using Cons.IH [of "fst (dot_step c (state, []))"] by (simp add: dot.run_Cons step_pair case_prod_unfold Let_def)
  consider "state = 0" | "state = 1" | "state = 2" using Cons.prems by linarith
  then show ?case
    unfolding run
    by cases (cases "c = 13"; cases "c = 10"; cases "c = 46"; simp add: step_pair stuffed_from_Cons del: One_nat_def)+
qed (auto simp: stuffed_from_def stuffed_simps stuffed_inside_simps)

text \<open>Lines without a CRLF in them are found again.\<close>

definition no_crlf :: "bytes \<Rightarrow> bool" where
  "no_crlf l \<longleftrightarrow> \<not> sublist CRLF l"

lemma no_crlf_simps [simp]:
  "no_crlf []" "no_crlf (c # l) \<longleftrightarrow> \<not> (c = 13 \<and> l \<noteq> [] \<and> hd l = 10) \<and> no_crlf l"
  by (cases l; auto simp: no_crlf_def CRLF_def sublist_Cons_right)+

lemma crlf_lines_no_crlf: "\<forall>l \<in> set (crlf_lines bs). no_crlf l"
proof (induction bs rule: crlf_lines.induct)
  case (2 c bs)
  show ?case
  proof (cases "c = 13 \<and> bs \<noteq> [] \<and> hd bs = 10")
    case True
    with 2(1) show ?thesis by simp
  next
    case False
    have "hd (crlf_lines bs) = [] \<or> bs \<noteq> [] \<and> hd (hd (crlf_lines bs)) = hd bs"
      by (cases bs) auto
    moreover have "no_crlf (hd (crlf_lines bs))" using 2(2) [OF False] by simp
    ultimately have "no_crlf (c # hd (crlf_lines bs))" using False by auto
    moreover have "\<forall>l \<in> set (tl (crlf_lines bs)). no_crlf l"
      using 2(2) [OF False] by (cases "crlf_lines bs") simp_all
    ultimately show ?thesis using False by auto
  qed
qed simp

lemma crlf_lines_join_line:
  "no_crlf l \<Longrightarrow> crlf_lines (l @ CRLF @ bs) = l # crlf_lines bs" "no_crlf l \<Longrightarrow> crlf_lines l = [l]"
  by (induction l) (auto simp: CRLF_def hd_append split: if_splits)

lemma crlf_lines_join:
  "\<forall>l \<in> set ls. no_crlf l \<Longrightarrow> ls \<noteq> [] \<Longrightarrow> crlf_lines (join_lines CRLF ls) = ls"
  by (induction CRLF ls rule: join_lines.induct) (simp_all add: crlf_lines_join_line)

lemma join_crlf_lines: "join_lines CRLF (crlf_lines bs) = bs"
proof (induction bs rule: crlf_lines.induct)
  case (2 c bs)
  then show ?case by (cases bs) (auto simp: join_lines_simps CRLF_def)
qed simp

lemma stuff_line_simps:
  "unstuff_line (stuff_line l) = l" "stuff_line l \<noteq> [46]" "no_crlf (stuff_line l) \<longleftrightarrow> no_crlf l"
  by (auto simp: stuff_line_def unstuff_line_def)

lemma crlf_lines_stuffed: "crlf_lines (stuffed bs) = map stuff_line (crlf_lines bs)"
  unfolding stuffed_def by (rule crlf_lines_join) (use crlf_lines_no_crlf in \<open>auto simp: stuff_line_simps\<close>)

lemma undot_stuffed: "undot (stuffed bs) = bs"
  by (simp add: undot_def crlf_lines_stuffed o_def stuff_line_simps join_crlf_lines)


section \<open>Properties\<close>



text \<open>The soft line breaks of \<open>qpwrp\<close> keep every line of the output, the \<open>=\<close> that marks a
  soft break included, within \<open>len\<close> columns, and leave at least one column free.\<close>

theorem qpwrp_lines:
  assumes "2 \<le> len" "1 \<le> left" "left \<le> len" "qpwrp_loop len bs left = (left', out)"
  shows "fits len left out left' \<and> 1 \<le> left' \<and> left' \<le> len"
  using qpwrp_run_fits [OF assms(1-3)] assms(4) unfolding loop_runs by blast

theorem qpwrp_lines_witness: "fits 4 4 [97, 98, 61, 13, 10, 61, 48, 48, 61, 13, 10, 99] 3"
proof -
  have "qpwrp_loop 4 [97, 98, 61, 48, 48, 99] 4 = (3, [97, 98, 61, 13, 10, 61, 48, 48, 61, 13, 10, 99])"
    by (simp add: qpwrp_loop_def qpwrp_step_def EQCRLF_def)
  from qpwrp_lines [OF _ _ _ this] show ?thesis by simp
qed

text \<open>C40: \<open>eol\<close>, called chunk by chunk, converts a text whose lines all end the same way, by CRLF, LF, CR or
  LFCR, into the same lines joined by the marker, empty lines included, wherever the chunks end: also
  between the two bytes of a line end.\<close>

theorem eol_uniform:
  assumes "sep \<in> {[13, 10], [10], [13], [10, 13]}" "\<forall>l \<in> set ls. no_eol l" "concat ds = join_lines sep ls"
  shows "drive (\<lambda>args. mime_global_eol vm (args @ [LStr marker])) (LNum 0) ds = Inr (join_lines (c_str marker) ls)"
proof -
  let ?f = "\<lambda>args. mime_global_eol vm (args @ [LStr marker])" and ?m = "c_str marker"
  let ?valid = "\<lambda>s :: int. s \<in> {0, 10, 13}"
  have c: "c_int (of_int s) = s" if "?valid s" for s using that by (intro c_int_of_int) auto
  have data: "?f [LNum (of_int s), LStr d] = (case eol.run ?m d s of (s', out) \<Rightarrow> Inr [LStr out, LNum (of_int s')])"
    if "?valid s" for s d
    using c [OF that] by (simp add: mime_global_eol_def lua_arg_simps lua_arg_def loop_runs eval_nat_numeral)
  have last: "?f [LNum (of_int s), LNil] = Inr [LNil, LNum 0]" for s
    by (simp add: mime_global_eol_def lua_arg_simps lua_arg_def)
  have step: "?valid (fst (eolprocess ?m b (s, [])))" if "?valid s" for s b
    using that eolcandidate_byte [of b] by (auto simp: step_pair)
  have "snd (eol.run ?m (concat ds) 0) = join_lines ?m ls"
  proof -
    from assms(1) consider "sep = [13, 10]" | "sep = [10]" | "sep = [13]" | "sep = [10, 13]" by auto
    then show ?thesis
      unfolding assms(3) using assms(2)
      by cases (simp_all only: eol_uniform_pair eol_pair, simp_all add: eol_uniform_single)
  qed
  with eol.drive_state [where enc = "\<lambda>s. LNum (of_int s)" and valid = ?valid and f = ?f and s = 0 and ds = ds
      and flush = "\<lambda>_. LNil" and marker = ?m] data last step
  show ?thesis by (simp add: out_bytes_def case_prod_unfold)
qed

theorem eol_uniform_witness:
  "drive (\<lambda>args. mime_global_eol plain_vm (args @ [LStr [10]])) (LNum 0) [[97, 13], [10, 13, 10, 98]] = Inr [97, 10, 10, 98]"
  using eol_uniform [of "[13, 10]" "[[97], [], [98]]" "[[97, 13], [10, 13, 10, 98]]" plain_vm "[10]"]
  by (simp add: no_eol_def c_str_def)

text \<open>The comment above \<open>eolprocess\<close> counts LF followed by a different end-of-line byte as one
  line end; after two equal line ends the code has forgotten the second, so CR CR LF gives
  three markers where CR and CR LF are two.\<close>

theorem eol_mixed_triple:
  "eol_loop marker [13, 13, 10] 0 = (10, marker @ marker @ marker) \<and>
   eol_loop marker [10, 13, 10] 0 = (10, marker @ marker)"
  by (simp add: eol_loop_def step_pair eolcandidate_def)

text \<open>C38: \<open>dot\<close>, called chunk by chunk, is the dot stuffing of RFC 5321: every line that starts with a dot gets
  another one, a line being what CRLF ends, and nothing else changes. So no line of the output is the single
  dot that would end a message, and a receiver that drops the first dot of every line has the text back.\<close>

theorem dot_stuffing:
  "\<exists>out. drive (mime_global_dot vm) (LNum 2) ds = Inr out \<and>
    crlf_lines out = map stuff_line (crlf_lines (concat ds)) \<and> [46] \<notin> set (crlf_lines out) \<and> undot out = concat ds"
proof -
  have c: "c_size (of_nat s) = s" if "s \<le> 2" for s using that by (intro c_size_of_nat) simp
  have data: "mime_global_dot vm [LNum (of_nat s), LStr d] =
      (case dot.run d s of (s', out) \<Rightarrow> Inr [LStr out, LNum (of_nat s')])" if "s \<le> 2" for s d
    using c [OF that] by (simp add: mime_global_dot_def lua_arg_simps lua_arg_def loop_runs)
  have last: "mime_global_dot vm [LNum (of_nat s), LNil] = Inr [LNil, LNum 2]" for s
    by (simp add: mime_global_dot_def lua_arg_simps lua_arg_def)
  have step: "fst (dot_step b (s, [])) \<le> 2" for s b by (simp add: step_pair)
  have "drive (mime_global_dot vm) (LNum 2) ds = Inr (stuffed (concat ds))"
    using dot.drive_state [where enc = "\<lambda>s. LNum (of_nat s)" and valid = "\<lambda>s. s \<le> 2" and f = "mime_global_dot vm" and s = 2
        and ds = ds and flush = "\<lambda>_. LNil"] data last step dot_run_stuffed [of 2 "concat ds"]
    by (simp add: out_bytes_def case_prod_unfold stuffed_from_def)
  moreover have "[46] \<notin> set (map stuff_line ls)" for ls using stuff_line_simps(2) by fastforce
  ultimately show ?thesis by (simp add: crlf_lines_stuffed undot_stuffed)
qed

end
