(* ===== verification/Mime_Qp.thy ===== *)
theory Mime_Qp
  imports Mime_Text
begin

text \<open>
  The quoted-printable encoder and decoder of mime.c: the character classes, the per-byte steps
  with their atoms of up to three bytes, padding, and the Lua functions \<open>qp\<close> and \<open>unqp\<close>. Proved:
  decoding inverts encoding for every chunking, and the encoder's output is well-formed.
\<close>


section \<open>Tables\<close>

datatype qp_class = QP_PLAIN | QP_QUOTED | QP_CR | QP_IF_LAST

definition qpbase :: bytes where
  "qpbase = lit ''0123456789ABCDEF''"

definition qpsetup :: "qp_class list \<Rightarrow> bytes \<Rightarrow> qp_class list \<times> bytes" where
  "qpsetup cl unbase =
    (let cl = fold (\<lambda>i cl. cl[i := QP_QUOTED]) [0..<256] cl;
         cl = fold (\<lambda>i cl. cl[i := QP_PLAIN]) [33..<61] cl;
         cl = fold (\<lambda>i cl. cl[i := QP_PLAIN]) [62..<127] cl;
         cl = cl[9 := QP_IF_LAST]; cl = cl[32 := QP_IF_LAST]; cl = cl[13 := QP_CR];
         unbase = fold (\<lambda>i u. u[i := 255]) [0..<256] unbase;
         unbase = unbase[48 := 0, 49 := 1, 50 := 2, 51 := 3, 52 := 4, 53 := 5, 54 := 6, 55 := 7,
           56 := 8, 57 := 9, 65 := 10, 97 := 10, 66 := 11, 98 := 11, 67 := 12, 99 := 12,
           68 := 13, 100 := 13, 69 := 14, 101 := 14, 70 := 15, 102 := 15]
     in (cl, unbase))"

text \<open>The static arrays after \<open>luaopen_mime_core\<close> has run \<open>qpsetup\<close>.\<close>

definition qp_tables :: "qp_class list \<times> bytes" where
  "qp_tables = qpsetup (replicate 256 QP_PLAIN) (replicate 256 0)"

definition qpclass :: "byte \<Rightarrow> qp_class" where
  "qpclass c = fst qp_tables ! unat c"

definition qpunbase :: "byte \<Rightarrow> byte" where
  "qpunbase c = snd qp_tables ! unat c"


section \<open>Encoding\<close>

definition qpquote :: "byte \<Rightarrow> bytes" where
  "qpquote c = [61, qpbase ! unat (drop_bit 4 c), qpbase ! unat (c AND 0x0F)]"

text \<open>The \<open>while\<close> loop of \<open>qpencode\<close>; the list is \<open>input[0..size-1]\<close>.\<close>

fun qpencode_loop :: "bytes \<Rightarrow> bytes \<Rightarrow> bytes \<Rightarrow> bytes \<times> bytes" where
  "qpencode_loop marker [] buffer = ([], buffer)"
| "qpencode_loop marker (x # rest) buffer =
    (let input = x # rest in
     case qpclass x of
       QP_CR \<Rightarrow>
         if length input < 2 then (input, buffer)
         else if input ! 1 = 10 then ([], buffer @ marker)
         else qpencode_loop marker rest (buffer @ qpquote x)
     | QP_IF_LAST \<Rightarrow>
         if length input < 3 then (input, buffer)
         else if input ! 1 = 13 \<and> input ! 2 = 10 then ([], buffer @ qpquote x @ marker)
         else qpencode_loop marker rest (buffer @ [x])
     | QP_QUOTED \<Rightarrow> qpencode_loop marker rest (buffer @ qpquote x)
     | QP_PLAIN \<Rightarrow> qpencode_loop marker rest (buffer @ [x]))"

definition qpencode :: "bytes \<Rightarrow> byte \<Rightarrow> bytes \<times> bytes \<Rightarrow> bytes \<times> bytes" where
  "qpencode marker c st = (case st of (atom, buffer) \<Rightarrow> qpencode_loop marker (atom @ [c]) buffer)"

definition qppad :: "bytes \<Rightarrow> bytes" where
  "qppad input =
    concat (map (\<lambda>x. if qpclass x = QP_PLAIN then [x] else qpquote x) input) @
    (if length input > 0 then EQCRLF else [])"


section \<open>Decoding\<close>

definition qpdecode :: "byte \<Rightarrow> bytes \<times> bytes \<Rightarrow> bytes \<times> bytes" where
  "qpdecode c st =
    (case st of (atom, buffer) \<Rightarrow>
      let input = atom @ [c] in
      if input ! 0 = 61 then
        if length input < 3 then (input, buffer)
        else if input ! 1 = 13 \<and> input ! 2 = 10 then ([], buffer)
        else
          let c = qpunbase (input ! 1); d = qpunbase (input ! 2) in
          if c > 15 \<or> d > 15 then ([], buffer @ take 3 input)
          else ([], buffer @ [push_bit 4 c + d])
      else if input ! 0 = 13 then
        if length input < 2 then (input, buffer)
        else ([], if input ! 1 = 10 then buffer @ take 2 input else buffer)
      else ([], if input ! 0 = 9 \<or> (input ! 0 > 31 \<and> input ! 0 < 127)
                then buffer @ [input ! 0] else buffer))"


section \<open>The Lua functions\<close>

text \<open>\<open>if (!(*lua_tostring(L, -1))) lua_pushnil(L)\<close>: an output whose first byte is NUL counts as
  empty.\<close>

definition push_or_nil :: "bytes \<Rightarrow> lua_value" where
  "push_or_nil out = (if c_str out = [] then LNil else LStr out)"

definition mime_global_qp :: "lua_vm \<Rightarrow> lua_value list \<Rightarrow> lua_value list lua" where
  "mime_global_qp vm args =
    lua_bind (luaL_optlstring vm args 1) (\<lambda>first.
    lua_bind (luaL_optstring vm args 3 CRLF) (\<lambda>marker.
      case first of
        None \<Rightarrow> Inr [LNil, LNil]
      | Some c \<Rightarrow>
          (let (atom, out) = fold (qpencode marker) c ([], []) in
           lua_bind (luaL_optlstring vm args 2) (\<lambda>second.
             case second of
               None \<Rightarrow> Inr [push_or_nil (out @ qppad atom), LNil]
             | Some d \<Rightarrow>
                 (let (atom, out) = fold (qpencode marker) d (atom, out)
                  in Inr [LStr out, LStr atom])))))"

definition mime_global_unqp :: "lua_vm \<Rightarrow> lua_value list \<Rightarrow> lua_value list lua" where
  "mime_global_unqp vm args =
    lua_bind (luaL_optlstring vm args 1) (\<lambda>first.
      case first of
        None \<Rightarrow> Inr [LNil, LNil]
      | Some c \<Rightarrow>
          (let (atom, out) = fold qpdecode c ([], []) in
           lua_bind (luaL_optlstring vm args 2) (\<lambda>second.
             case second of
               None \<Rightarrow> Inr [push_or_nil out, LNil]
             | Some d \<Rightarrow>
                 (let (atom, out) = fold qpdecode d (atom, out)
                  in Inr [LStr out, LStr atom]))))"


section \<open>Facts about the tables\<close>

lemma qp_tables_lists: "qp_tables = (
     [QP_QUOTED, QP_QUOTED, QP_QUOTED, QP_QUOTED, QP_QUOTED, QP_QUOTED, QP_QUOTED,
      QP_QUOTED, QP_QUOTED, QP_IF_LAST, QP_QUOTED, QP_QUOTED, QP_QUOTED, QP_CR, QP_QUOTED,
      QP_QUOTED, QP_QUOTED, QP_QUOTED, QP_QUOTED, QP_QUOTED, QP_QUOTED, QP_QUOTED,
      QP_QUOTED, QP_QUOTED, QP_QUOTED, QP_QUOTED, QP_QUOTED, QP_QUOTED, QP_QUOTED,
      QP_QUOTED, QP_QUOTED, QP_QUOTED, QP_IF_LAST, QP_PLAIN, QP_PLAIN, QP_PLAIN, QP_PLAIN,
      QP_PLAIN, QP_PLAIN, QP_PLAIN, QP_PLAIN, QP_PLAIN, QP_PLAIN, QP_PLAIN, QP_PLAIN,
      QP_PLAIN, QP_PLAIN, QP_PLAIN, QP_PLAIN, QP_PLAIN, QP_PLAIN, QP_PLAIN, QP_PLAIN,
      QP_PLAIN, QP_PLAIN, QP_PLAIN, QP_PLAIN, QP_PLAIN, QP_PLAIN, QP_PLAIN, QP_PLAIN,
      QP_QUOTED, QP_PLAIN, QP_PLAIN, QP_PLAIN, QP_PLAIN, QP_PLAIN, QP_PLAIN, QP_PLAIN,
      QP_PLAIN, QP_PLAIN, QP_PLAIN, QP_PLAIN, QP_PLAIN, QP_PLAIN, QP_PLAIN, QP_PLAIN,
      QP_PLAIN, QP_PLAIN, QP_PLAIN, QP_PLAIN, QP_PLAIN, QP_PLAIN, QP_PLAIN, QP_PLAIN,
      QP_PLAIN, QP_PLAIN, QP_PLAIN, QP_PLAIN, QP_PLAIN, QP_PLAIN, QP_PLAIN, QP_PLAIN,
      QP_PLAIN, QP_PLAIN, QP_PLAIN, QP_PLAIN, QP_PLAIN, QP_PLAIN, QP_PLAIN, QP_PLAIN,
      QP_PLAIN, QP_PLAIN, QP_PLAIN, QP_PLAIN, QP_PLAIN, QP_PLAIN, QP_PLAIN, QP_PLAIN,
      QP_PLAIN, QP_PLAIN, QP_PLAIN, QP_PLAIN, QP_PLAIN, QP_PLAIN, QP_PLAIN, QP_PLAIN,
      QP_PLAIN, QP_PLAIN, QP_PLAIN, QP_PLAIN, QP_PLAIN, QP_PLAIN, QP_PLAIN, QP_PLAIN,
      QP_PLAIN, QP_PLAIN, QP_QUOTED, QP_QUOTED, QP_QUOTED, QP_QUOTED, QP_QUOTED, QP_QUOTED,
      QP_QUOTED, QP_QUOTED, QP_QUOTED, QP_QUOTED, QP_QUOTED, QP_QUOTED, QP_QUOTED,
      QP_QUOTED, QP_QUOTED, QP_QUOTED, QP_QUOTED, QP_QUOTED, QP_QUOTED, QP_QUOTED,
      QP_QUOTED, QP_QUOTED, QP_QUOTED, QP_QUOTED, QP_QUOTED, QP_QUOTED, QP_QUOTED,
      QP_QUOTED, QP_QUOTED, QP_QUOTED, QP_QUOTED, QP_QUOTED, QP_QUOTED, QP_QUOTED,
      QP_QUOTED, QP_QUOTED, QP_QUOTED, QP_QUOTED, QP_QUOTED, QP_QUOTED, QP_QUOTED,
      QP_QUOTED, QP_QUOTED, QP_QUOTED, QP_QUOTED, QP_QUOTED, QP_QUOTED, QP_QUOTED,
      QP_QUOTED, QP_QUOTED, QP_QUOTED, QP_QUOTED, QP_QUOTED, QP_QUOTED, QP_QUOTED,
      QP_QUOTED, QP_QUOTED, QP_QUOTED, QP_QUOTED, QP_QUOTED, QP_QUOTED, QP_QUOTED,
      QP_QUOTED, QP_QUOTED, QP_QUOTED, QP_QUOTED, QP_QUOTED, QP_QUOTED, QP_QUOTED,
      QP_QUOTED, QP_QUOTED, QP_QUOTED, QP_QUOTED, QP_QUOTED, QP_QUOTED, QP_QUOTED,
      QP_QUOTED, QP_QUOTED, QP_QUOTED, QP_QUOTED, QP_QUOTED, QP_QUOTED, QP_QUOTED,
      QP_QUOTED, QP_QUOTED, QP_QUOTED, QP_QUOTED, QP_QUOTED, QP_QUOTED, QP_QUOTED,
      QP_QUOTED, QP_QUOTED, QP_QUOTED, QP_QUOTED, QP_QUOTED, QP_QUOTED, QP_QUOTED,
      QP_QUOTED, QP_QUOTED, QP_QUOTED, QP_QUOTED, QP_QUOTED, QP_QUOTED, QP_QUOTED,
      QP_QUOTED, QP_QUOTED, QP_QUOTED, QP_QUOTED, QP_QUOTED, QP_QUOTED, QP_QUOTED,
      QP_QUOTED, QP_QUOTED, QP_QUOTED, QP_QUOTED, QP_QUOTED, QP_QUOTED, QP_QUOTED,
      QP_QUOTED, QP_QUOTED, QP_QUOTED, QP_QUOTED, QP_QUOTED, QP_QUOTED, QP_QUOTED,
      QP_QUOTED, QP_QUOTED, QP_QUOTED, QP_QUOTED],
     [255, 255, 255, 255, 255, 255, 255, 255, 255, 255, 255, 255, 255, 255, 255, 255, 255,
      255, 255, 255, 255, 255, 255, 255, 255, 255, 255, 255, 255, 255, 255, 255, 255, 255,
      255, 255, 255, 255, 255, 255, 255, 255, 255, 255, 255, 255, 255, 255, 0, 1, 2, 3, 4,
      5, 6, 7, 8, 9, 255, 255, 255, 255, 255, 255, 255, 10, 11, 12, 13, 14, 15, 255, 255,
      255, 255, 255, 255, 255, 255, 255, 255, 255, 255, 255, 255, 255, 255, 255, 255, 255,
      255, 255, 255, 255, 255, 255, 255, 10, 11, 12, 13, 14, 15, 255, 255, 255, 255, 255,
      255, 255, 255, 255, 255, 255, 255, 255, 255, 255, 255, 255, 255, 255, 255, 255, 255,
      255, 255, 255, 255, 255, 255, 255, 255, 255, 255, 255, 255, 255, 255, 255, 255, 255,
      255, 255, 255, 255, 255, 255, 255, 255, 255, 255, 255, 255, 255, 255, 255, 255, 255,
      255, 255, 255, 255, 255, 255, 255, 255, 255, 255, 255, 255, 255, 255, 255, 255, 255,
      255, 255, 255, 255, 255, 255, 255, 255, 255, 255, 255, 255, 255, 255, 255, 255, 255,
      255, 255, 255, 255, 255, 255, 255, 255, 255, 255, 255, 255, 255, 255, 255, 255, 255,
      255, 255, 255, 255, 255, 255, 255, 255, 255, 255, 255, 255, 255, 255, 255, 255, 255,
      255, 255, 255, 255, 255, 255, 255, 255, 255, 255, 255, 255, 255, 255, 255, 255, 255,
      255, 255, 255, 255, 255, 255, 255, 255, 255, 255, 255, 255])"
  by code_simp

lemma qp_tables_checks:
  "list_all (\<lambda>i. fst qp_tables ! i =
      (if i = 13 then QP_CR else if i = 9 \<or> i = 32 then QP_IF_LAST
       else if 33 \<le> i \<and> i < 127 \<and> i \<noteq> 61 then QP_PLAIN else QP_QUOTED)) [0..<256] \<and>
   list_all (\<lambda>i. snd qp_tables ! unat (qpbase ! i) = of_nat i \<and> 
     48 \<le> qpbase ! i \<and> qpbase ! i < 71 \<and> qpbase ! i \<noteq> 61) [0..<16]"
  unfolding qp_tables_lists qpbase_def by code_simp

lemma byte_eq_iff: "x = (y :: byte) \<longleftrightarrow> unat x = unat y"
  by (auto intro: unsigned_word_eqI)

lemma qpclass_cases:
  "qpclass x =
    (if x = 13 then QP_CR else if x = 9 \<or> x = 32 then QP_IF_LAST
     else if 33 \<le> x \<and> x < 127 \<and> x \<noteq> 61 then QP_PLAIN else QP_QUOTED)"
  using conjunct1 [OF qp_tables_checks] unat_byte_less [of x]
  by (simp add: qpclass_def list_all_iff byte_eq_iff word_le_nat_alt word_less_nat_alt del: upt_Suc)

lemma qpbase_facts:
  assumes "i < 16"
  shows "qpunbase (qpbase ! i) = of_nat i" "48 \<le> qpbase ! i" "qpbase ! i < 71" "qpbase ! i \<noteq> 61"
  using assms conjunct2 [OF qp_tables_checks] by (simp_all add: qpunbase_def list_all_iff del: upt_Suc)

lemma nibbles:
  "unat (drop_bit 4 (x :: byte)) < 16" "unat (x AND 0x0F) < 16"
  "push_bit 4 (of_nat (unat (drop_bit 4 x))) + of_nat (unat (x AND 0x0F)) = x"
proof -
  have lo: "unat (x AND 0x0F) = unat x mod 16"
    using unat_and_mask [of x 4] by (simp add: mask_eq_exp_minus_1)
  have hi: "unat (drop_bit 4 x) = unat x div 16" by (simp add: unat_drop_bit_div)
  show "unat (drop_bit 4 x) < 16" "unat (x AND 0x0F) < 16"
    using unat_byte_less [of x] by (simp_all add: lo hi)
  have "push_bit 4 (of_nat (unat x div 16)) + of_nat (unat x mod 16) =
      (of_nat (unat x div 16 * 16 + unat x mod 16) :: byte)"
    by (simp only: push_bit_eq_mult of_nat_add of_nat_mult) simp
  also have "\<dots> = x" unfolding div_mult_mod_eq by simp
  finally show "push_bit 4 (of_nat (unat (drop_bit 4 x))) + of_nat (unat (x AND 0x0F)) = x"
    unfolding lo hi .
qed


section \<open>A reference encoder\<close>

text \<open>The same encoding by lookahead over the whole text, with CRLF as the marker.\<close>

fun qp_ref :: "bytes \<Rightarrow> bytes" where
  "qp_ref [] = []"
| "qp_ref (x # m) =
    (case qpclass x of
       QP_PLAIN \<Rightarrow> x # qp_ref m
     | QP_QUOTED \<Rightarrow> qpquote x @ qp_ref m
     | QP_CR \<Rightarrow>
         (case m of [] \<Rightarrow> qppad [x] | y # m' \<Rightarrow> if y = 10 then CRLF @ qp_ref m' else qpquote x @ qp_ref m)
     | QP_IF_LAST \<Rightarrow>
         (case m of [] \<Rightarrow> qppad [x] | [y] \<Rightarrow> qppad [x, y]
          | y # z # m' \<Rightarrow> if y = 13 \<and> z = 10 then qpquote x @ CRLF @ qp_ref m' else x # qp_ref m))"

definition qp_pending :: "bytes \<Rightarrow> bool" where
  "qp_pending s \<longleftrightarrow> s = [] \<or> s = [13] \<or> (\<exists>x. qpclass x = QP_IF_LAST \<and> (s = [x] \<or> (\<exists>y. s = [x, y])))"

lemma qpencode_loop_ref:
  assumes "length t \<le> 2 \<or> length t = 3 \<and> qpclass (hd t) = QP_IF_LAST"
    "qpencode_loop CRLF t out = (s1, out1)"
  shows "qp_pending s1 \<and> out1 @ qp_ref (s1 @ m) = out @ qp_ref (t @ m)"
  using assms
proof (induction CRLF t out rule: qpencode_loop.induct)
  case (1 out)
  then show ?case by (simp add: qp_pending_def)
next
  case (2 x rest out)
  have cr: "x = 13" if "qpclass x = QP_CR"
    using that by (simp add: qpclass_cases split: if_splits)
  show ?case
  proof (cases "qpclass x")
    case QP_PLAIN
    with 2 show ?thesis by simp
  next
    case QP_QUOTED
    with 2 show ?thesis by simp
  next
    case QP_CR
    have ref: "qp_ref (x # r) = (case r of [] \<Rightarrow> qppad [x] | y # m' \<Rightarrow>
        if y = 10 then CRLF @ qp_ref m' else qpquote x @ qp_ref r)" for r
      using QP_CR by simp
    with 2 QP_CR cr [OF QP_CR] show ?thesis
      by (cases rest) (auto simp: qp_pending_def ref simp del: qp_ref.simps(2) split: if_splits)
  next
    case QP_IF_LAST
    consider "rest = []" | y where "rest = [y]" | y z where "rest = [y, z]"
      using 2(5) by (cases rest; cases "tl rest"; cases "tl (tl rest)") auto
    then show ?thesis
      using 2 QP_IF_LAST by cases (auto simp: qp_pending_def split: if_splits cong: qp_class.case_cong)
  qed
qed

lemma qpencode_step:
  assumes "qp_pending s" "qpencode CRLF c (s, out) = (s1, out1)"
  shows "qp_pending s1 \<and> out1 @ qp_ref (s1 @ m) = out @ qp_ref (s @ c # m)"
  using assms qpencode_loop_ref [of "s @ [c]" out s1 out1 m]
  by (auto simp: qp_pending_def qpencode_def)

lemma qppad_ref: "qp_pending s \<Longrightarrow> qppad s = qp_ref s"
  by (auto simp: qp_pending_def qppad_def qpclass_cases [of 13])

lemma fold_qpencode:
  assumes "qp_pending s" "fold (qpencode CRLF) m (s, out) = (s', out')"
  shows "qp_pending s' \<and> out' @ qppad s' = out @ qp_ref (s @ m)"
  using assms
proof (induction m arbitrary: s out)
  case (Cons c m)
  obtain s1 out1 where st: "qpencode CRLF c (s, out) = (s1, out1)" by fastforce
  from qpencode_step [OF Cons.prems(1) st, of m] Cons.IH [of s1 out1] Cons.prems(2) st show ?case by simp
qed (simp add: qppad_ref)


section \<open>Decoding the encoded text\<close>

lemma qpdecode_pieces:
  "fold qpdecode (qpquote x) ([], out) = ([], out @ [x])"
  "fold qpdecode CRLF ([], out) = ([], out @ CRLF)"
  "fold qpdecode EQCRLF ([], out) = ([], out)"
  "qpdecode 10 (qpdecode 13 ([], out)) = ([], out @ [13, 10])"
proof -
  have "drop_bit 4 x \<le> 15" "x AND 0x0F \<le> 15"
    using nibbles(1,2) [of x] by (simp_all add: word_le_nat_alt)
  moreover have "48 \<le> p \<Longrightarrow> p \<noteq> 13 \<and> p \<noteq> 10" for p :: byte
    by (auto simp: word_le_nat_alt)
  ultimately show "fold qpdecode (qpquote x) ([], out) = ([], out @ [x])"
    using qpbase_facts [OF nibbles(1) [of x]] qpbase_facts [OF nibbles(2) [of x]] nibbles(3) [of x]
    by (simp add: qpquote_def qpdecode_def Let_def not_less)
qed (simp_all add: CRLF_def EQCRLF_def qpdecode_def)

lemma qpdecode_plain:
  "x = 9 \<or> x = 32 \<or> 33 \<le> x \<and> x < 127 \<and> x \<noteq> 61 \<Longrightarrow> qpdecode x ([], out) = ([], out @ [x])"
  by (auto simp: qpdecode_def Let_def word_less_nat_alt word_le_nat_alt)

lemma qpdecode_pad: "fold qpdecode (qppad s) ([], out) = ([], out @ s)"
proof -
  have "fold qpdecode (concat (map (\<lambda>x. if qpclass x = QP_PLAIN then [x] else qpquote x) s)) ([], out) = ([], out @ s)"
    by (induction s arbitrary: out) (auto simp: qpdecode_pieces qpclass_cases qpdecode_plain split: if_splits)
  then show ?thesis by (simp add: qppad_def qpdecode_pieces)
qed

lemma fold_qpdecode_ref: "fold qpdecode (qp_ref m) ([], out) = ([], out @ m)"
proof (induction m arbitrary: out rule: qp_ref.induct)
  case (2 x m)
  show ?case
  proof (cases "qpclass x")
    case QP_PLAIN
    with 2 have "qpdecode x ([], out) = ([], out @ [x])"
      by (auto intro: qpdecode_plain simp: qpclass_cases split: if_splits)
    with 2 QP_PLAIN show ?thesis by simp
  next
    case QP_QUOTED
    with 2 show ?thesis by (simp add: qpdecode_pieces)
  next
    case QP_CR
    then have "x = 13" by (simp add: qpclass_cases split: if_splits)
    with 2 QP_CR show ?thesis
      by (auto simp: qpdecode_pieces qpdecode_pad CRLF_def split: list.split)
  next
    case QP_IF_LAST
    then have "qpdecode x ([], out) = ([], out @ [x])"
      by (auto intro: qpdecode_plain simp: qpclass_cases split: if_splits)
    with 2 QP_IF_LAST show ?thesis
      by (auto simp: qpdecode_pieces qpdecode_pad CRLF_def split: list.split)
  qed
qed simp


section \<open>Instances of the filter interface\<close>

lemma qpencode_loop_appends:
  "qpencode_loop marker t (pre @ out) =
    (fst (qpencode_loop marker t out), pre @ snd (qpencode_loop marker t out))"
proof (induction marker t out rule: qpencode_loop.induct)
  case (2 marker x rest out)
  then show ?case by (cases "qpclass x") (auto simp: Let_def)
qed simp

interpretation qp: carry_filter "qpencode CRLF" qp_pending
proof unfold_locales
  show "qpencode CRLF c (s, pre @ out) = (fst (qpencode CRLF c (s, out)), pre @ snd (qpencode CRLF c (s, out)))"
    for c s pre out by (simp add: qpencode_def qpencode_loop_appends)
  show "qp_pending []" by (simp add: qp_pending_def)
  show "qp_pending s \<Longrightarrow> qp_pending (fst (qpencode CRLF c (s, [])))" for s c
    using qpencode_step [of s c "[]"] by (metis prod.collapse)
  show "qp_pending s \<Longrightarrow> fold (qpencode CRLF) s ([], []) = (s, [])" for s
    by (auto simp: qp_pending_def qpencode_def qpclass_cases [of 13])
qed

definition unqp_pending :: "bytes \<Rightarrow> bool" where
  "unqp_pending s \<longleftrightarrow> s = [] \<or> s = [13] \<or> s = [61] \<or> (\<exists>x. s = [61, x])"

interpretation unqp: carry_filter qpdecode unqp_pending
proof unfold_locales
  show "qpdecode c (s, pre @ out) = (fst (qpdecode c (s, out)), pre @ snd (qpdecode c (s, out)))" for c s pre out
    unfolding qpdecode_def Let_def prod.case
    by (intro prod_eqI)
      (simp_all only: fst_conv snd_conv append_assoc if_distrib [of fst] if_distrib [of snd] if_distrib [of "(@) pre"])
  show "unqp_pending []" by (simp add: unqp_pending_def)
  show "unqp_pending (fst (qpdecode c (s, [])))" if "unqp_pending s" for s c
  proof -
    from that consider "s = []" | "s = [13]" | "s = [61]" | x where "s = [61, x]"
      by (auto simp: unqp_pending_def)
    then show ?thesis by cases (simp_all add: qpdecode_def Let_def unqp_pending_def)
  qed
  show "unqp_pending s \<Longrightarrow> fold qpdecode s ([], []) = (s, [])" for s
    by (auto simp: unqp_pending_def qpdecode_def)
qed


section \<open>Well-formed quoted-printable\<close>

text \<open>RFC 2045, 6.7, rules (1) to (4): an equals sign starts an octet in two upper-case hexadecimal digits, or
  a soft line break; other printable characters stand for themselves; spaces and tabs too, but not at the end of a line
  or of the text; line breaks are CRLF. The length of lines, rule (5), is the business of \<open>qpwrp\<close>.\<close>

definition upper_hex :: "byte \<Rightarrow> bool" where
  "upper_hex p \<longleftrightarrow> 48 \<le> p \<and> p \<le> 57 \<or> 65 \<le> p \<and> p \<le> 70"

fun qp_text :: "bytes \<Rightarrow> bool" where
  "qp_text [] = True"
| "qp_text (b # bs) \<longleftrightarrow>
    (if b = 61 then
       (case bs of p # q # rest \<Rightarrow> (upper_hex p \<and> upper_hex q \<or> p = 13 \<and> q = 10) \<and> qp_text rest | _ \<Rightarrow> False)
     else if b = 13 then (case bs of q # rest \<Rightarrow> q = 10 \<and> qp_text rest | [] \<Rightarrow> False)
     else if b = 9 \<or> b = 32 then bs \<noteq> [] \<and> hd bs \<noteq> 13 \<and> qp_text bs
     else 33 \<le> b \<and> b \<le> 126 \<and> qp_text bs)"

lemma qpbase_upper: "i < 16 \<Longrightarrow> upper_hex (qpbase ! i)"
proof -
  have "\<forall>i \<in> set [0..<16]. upper_hex (qpbase ! i)" by code_simp
  then show "i < 16 \<Longrightarrow> upper_hex (qpbase ! i)" by simp
qed

lemma qp_text_pieces:
  "qp_text (qpquote x @ ys) \<longleftrightarrow> qp_text ys"
  "qp_text (CRLF @ ys) \<longleftrightarrow> qp_text ys"
  "qp_text (EQCRLF @ ys) \<longleftrightarrow> qp_text ys"
  using qpbase_upper [OF nibbles(1) [of x]] qpbase_upper [OF nibbles(2) [of x]]
  by (simp_all add: qpquote_def CRLF_def EQCRLF_def)

lemma qp_text_plain: "qpclass x = QP_PLAIN \<Longrightarrow> qp_text (x # ys) \<longleftrightarrow> qp_text ys"
  by (auto simp: qpclass_cases word_le_nat_alt word_less_nat_alt split: if_splits)

lemma qp_text_pad: "qp_text (qppad s)"
proof -
  have "qp_text (concat (map (\<lambda>x. if qpclass x = QP_PLAIN then [x] else qpquote x) s) @ EQCRLF)"
    using qp_text_pieces(3) [of "[]"] by (induction s) (simp_all add: qp_text_pieces qp_text_plain del: qp_text.simps(2))
  then show ?thesis by (simp add: qppad_def)
qed

lemma hd_qp_ref:
  "qp_ref m \<noteq> [] \<Longrightarrow> hd (qp_ref m) \<noteq> 10 \<and> (hd (qp_ref m) = 13 \<longrightarrow> take 2 m = [13, 10])"
proof (cases m)
  case (Cons x m')
  have "hd (qpquote y @ ys) = 61" for y ys by (simp add: qpquote_def)
  moreover have "hd (qppad (y # ys)) \<noteq> 10 \<and> hd (qppad (y # ys)) \<noteq> 13" for y ys
    by (auto simp: qppad_def qpquote_def qpclass_cases)
  ultimately show ?thesis
    unfolding Cons using qpclass_cases [of x]
    by (auto simp: CRLF_def split: list.split qp_class.split if_splits)
qed simp

lemma qp_ref_nonempty: "qp_ref (x # m) \<noteq> []"
  by (simp add: qpquote_def qppad_def CRLF_def split: list.split qp_class.split)

lemma qp_text_ref: "qp_text (qp_ref m)"
proof (induction m rule: qp_ref.induct)
  case (2 x m)
  show ?case
  proof (cases "qpclass x")
    case QP_PLAIN
    with 2(1) show ?thesis by (simp add: qp_text_plain del: qp_text.simps(2))
  next
    case QP_QUOTED
    with 2(2) show ?thesis by (simp add: qp_text_pieces del: qp_text.simps(2))
  next
    case QP_CR
    then have "qp_ref (x # m) = (case m of [] \<Rightarrow> qppad [x] | y # m' \<Rightarrow>
        if y = 10 then CRLF @ qp_ref m' else qpquote x @ qp_ref m)" by simp
    with 2(3,4) QP_CR qp_text_pad show ?thesis
      by (auto simp: qp_text_pieces simp del: qp_text.simps(2) qp_ref.simps split: list.split)
  next
    case QP_IF_LAST
    then have x: "x = 9 \<or> x = 32" by (simp add: qpclass_cases split: if_splits)
    from QP_IF_LAST have ref: "qp_ref (x # m) =
      (case m of [] \<Rightarrow> qppad [x] | [y] \<Rightarrow> qppad [x, y]
       | y # z # m' \<Rightarrow> if y = 13 \<and> z = 10 then qpquote x @ CRLF @ qp_ref m' else x # qp_ref m)" by simp
    consider "m = []" | y where "m = [y]" | m' where "m = 13 # 10 # m'"
      | y z m' where "m = y # z # m'" "\<not> (y = 13 \<and> z = 10)"
      by (metis list.exhaust)
    then show ?thesis
    proof cases
      case 3
      with 2(5) [OF QP_IF_LAST] show ?thesis
        unfolding ref by (simp add: qp_text_pieces del: qp_ref.simps qp_text.simps(2))
    next
      case 4
      with 2(6) [OF QP_IF_LAST] hd_qp_ref [of m] qp_ref_nonempty [of y "z # m'"] x show ?thesis
        unfolding ref by (auto simp del: qp_ref.simps)
    qed (unfold ref, simp_all add: qp_text_pad)
  qed
qed simp


section \<open>The calling convention\<close>

lemma qpencode_no_nul: "c_str (out @ qppad s) = [] \<Longrightarrow> qp_text (out @ qppad s) \<Longrightarrow> out @ qppad s = []"
  by (cases "out @ qppad s") (auto simp: c_str_def word_le_nat_alt split: if_splits)

lemma qp_calls:
  "mime_global_qp vm [LStr c, LStr d] = (case qp.run (c @ d) [] of (s, out) \<Rightarrow> Inr [LStr out, LStr s])"
  "mime_global_qp vm [LStr c, LNil] = (case qp.run c [] of (s, out) \<Rightarrow>
     Inr [(if out @ qppad s = [] then LNil else LStr (out @ qppad s)), LNil])"
proof -
  show "mime_global_qp vm [LStr c, LStr d] = (case qp.run (c @ d) [] of (s, out) \<Rightarrow> Inr [LStr out, LStr s])"
    by (simp add: mime_global_qp_def lua_arg_simps qp.run_def case_prod_unfold Let_def)
  obtain s out where r: "qp.run c [] = (s, out)" by fastforce
  then have "out @ qppad s = qp_ref c"
    using fold_qpencode [of "[]" c "[]" s out] by (simp add: qp.run_def qp_pending_def)
  with qp_text_ref [of c] qpencode_no_nul [of out s]
  have "push_or_nil (out @ qppad s) = (if out @ qppad s = [] then LNil else LStr (out @ qppad s))"
    by (auto simp: push_or_nil_def c_str_def)
  with r show "mime_global_qp vm [LStr c, LNil] = (case qp.run c [] of (s, out) \<Rightarrow>
     Inr [(if out @ qppad s = [] then LNil else LStr (out @ qppad s)), LNil])"
    by (simp add: mime_global_qp_def lua_arg_simps qp.run_def)
qed

lemma qp_drive: "drive (mime_global_qp vm) (LStr []) cs = Inr (qp_ref (concat cs))"
proof -
  obtain s out where "qp.run (concat cs) [] = (s, out)" by fastforce
  then show ?thesis
    using fold_qpencode [of "[]" "concat cs" "[]" s out]
      qp.drive_run [of "mime_global_qp vm" qppad "[]" cs, OF qp_calls qp.pending_Nil]
    by (simp add: qp.run_def qp_pending_def)
qed

lemma unqp_data:
  "mime_global_unqp vm [LStr c, LStr d] = (case unqp.run (c @ d) [] of (s, out) \<Rightarrow> Inr [LStr out, LStr s])"
  by (simp add: mime_global_unqp_def lua_arg_simps unqp.run_def case_prod_unfold Let_def)

text \<open>The bytes handed to the last call are a pending atom, which writes nothing and is
  dropped.\<close>

lemma unqp_drive:
  "unqp_pending s \<Longrightarrow>
   drive (mime_global_unqp vm) (LStr s) ds = Inr (snd (unqp.run (concat ds) s))"
proof (induction ds arbitrary: s)
  case Nil
  then show ?case
    by (simp add: mime_global_unqp_def lua_arg_simps unqp.refeed push_or_nil_def c_str_def out_bytes_def)
next
  case (Cons d ds)
  obtain s1 o1 where d: "unqp.run d s = (s1, o1)" by fastforce
  with Cons.prems have s1: "unqp_pending s1" using unqp.pending_run [of s d] by simp
  from d Cons.prems have "unqp.run (s @ d) [] = (s1, o1)" by (simp add: unqp.run_carried)
  with Cons.IH [OF s1] d unqp.run_append [of d "concat ds" s] show ?case
    by (simp add: unqp_data out_bytes_def case_prod_unfold Let_def)
qed


section \<open>Properties\<close>

text \<open>C8: quoted-printable round trip. For all data and every way of cutting it into chunks for
  \<open>qp\<close>, and every way of cutting the encoded text into chunks for \<open>unqp\<close>, decoding gives the
  data back; and the encoded text is well-formed by rules (1) to (4) of RFC 2045, 6.7: every equals sign starts two
  upper-case hexadecimal digits or a soft line break, other characters are printable, line breaks are CRLF, and
  no space or tab is left at the end of a line or of the text. \<open>qp\<close> does not limit the length of lines.\<close>

theorem qp_roundtrip:
  "\<exists>text. drive (mime_global_qp vm) (LStr []) cs = Inr text \<and> qp_text text \<and>
     (\<forall>ds. concat ds = text \<longrightarrow> drive (mime_global_unqp vm) (LStr []) ds = Inr (concat cs))"
  using qp_drive [of vm cs] qp_text_ref [of "concat cs"] unqp_drive [OF unqp.pending_Nil, of vm]
    fold_qpdecode_ref [of "concat cs" "[]"]
  by (simp add: unqp.run_def)

theorem qp_roundtrip_witness:
  "drive (mime_global_unqp plain_vm) (LStr []) [[97], [61, 50, 48], [61, 13, 10]] = Inr [97, 32]"
proof -
  have enc: "drive (mime_global_qp plain_vm) (LStr []) [[97, 32]] = Inr [97, 61, 50, 48, 61, 13, 10]"
    unfolding qp_drive by (simp add: qpclass_cases qppad_def qpquote_def qpbase_def EQCRLF_def drop_bit_eq_div)
  from qp_roundtrip [of plain_vm "[[97, 32]]"] show ?thesis unfolding enc by (auto simp del: drive.simps)
qed

text \<open>What \<open>unqp\<close> decodes in a single closing call is lost when it starts with NUL: the test
  \<open>!(*lua_tostring(L, -1))\<close>, meant for an empty result, reads the first byte. \<open>unb64\<close> tests the
  length instead.\<close>

theorem unqp_drops_nul:
  "mime_global_unqp vm [LStr (lit ''=00abc'')] = Inr [LNil, LNil] \<and>
   fold qpdecode (lit ''=00abc'') ([], []) = ([], [0, 97, 98, 99])"
proof -
  have "qpunbase 48 = 0" using qpbase_facts(1) [of 0] by (simp add: qpbase_def)
  then have "fold qpdecode (lit ''=00abc'') ([], []) = ([], [0, 97, 98, 99])"
    by (simp add: qpdecode_def)
  then show ?thesis
    by (simp add: mime_global_unqp_def lua_arg_simps push_or_nil_def c_str_def del: lit_simps)
qed

end
