(* ===== verification/Lpack.thy ===== *)
theory Lpack
  imports LuaApi
begin

text \<open>
  lpack.c, the binary \<open>pack\<close> and \<open>unpack\<close> of Lua strings: byte order, the format codes with
  their repeat counts, numbers of every C width and strings with length prefixes. Offsets and
  counts keep their 32 bits, and a read outside the string (its terminating NUL included) is
  the outcome \<open>Oob\<close>; a string longer than the interpreter makes is an error before anything is
  read. The bytes of a \<open>float\<close> or \<open>double\<close> are a parameter.
\<close>


section \<open>C types\<close>

datatype c_type = TChar | TUChar | TShort | TUShort | TInt | TUInt | TLong | TULong | TSize | TFloat | TDouble

record float_abi =
  enc_float :: "real \<Rightarrow> bytes"
  dec_float :: "bytes \<Rightarrow> real"
  enc_double :: "real \<Rightarrow> bytes"
  dec_double :: "bytes \<Rightarrow> real"

text \<open>An instance to run examples on: no floating-point values.\<close>

definition no_floats :: float_abi where
  "no_floats = \<lparr>enc_float = (\<lambda>_. []), dec_float = (\<lambda>_. 0), enc_double = (\<lambda>_. []), dec_double = (\<lambda>_. 0)\<rparr>"

fun sizeof :: "c_type \<Rightarrow> nat" where
  "sizeof TChar = 1" | "sizeof TUChar = 1" | "sizeof TShort = 2" | "sizeof TUShort = 2"
| "sizeof TInt = 4" | "sizeof TUInt = 4" | "sizeof TLong = 4" | "sizeof TULong = 4"
| "sizeof TSize = 4" | "sizeof TFloat = 4" | "sizeof TDouble = 8"

definition int_bytes :: "nat \<Rightarrow> int \<Rightarrow> bytes" where
  "int_bytes n k = le_bytes n (nat (k mod 256 ^ n))"

definition signed_val :: "bytes \<Rightarrow> int" where
  "signed_val bs = (let v = int (le_val bs) in if 2 * v < 256 ^ length bs then v else v - 256 ^ length bs)"

text \<open>\<open>T a = (T) x\<close>: the bytes of \<open>a\<close>. The narrow types convert through \<open>int\<close>.\<close>

fun cast_bytes :: "float_abi \<Rightarrow> c_type \<Rightarrow> real \<Rightarrow> bytes" where
  "cast_bytes abi TFloat x = enc_float abi x"
| "cast_bytes abi TDouble x = enc_double abi x"
| "cast_bytes abi TUInt x = int_bytes 4 (int (c_size x))"
| "cast_bytes abi TULong x = int_bytes 4 (int (c_size x))"
| "cast_bytes abi TSize x = int_bytes 4 (int (c_size x))"
| "cast_bytes abi T x = int_bytes (sizeof T) (c_int x)"

text \<open>\<open>(lua_Number) a\<close> for an \<open>a\<close> with these bytes.\<close>

fun value_of :: "float_abi \<Rightarrow> c_type \<Rightarrow> bytes \<Rightarrow> real" where
  "value_of abi TFloat bs = dec_float abi bs"
| "value_of abi TDouble bs = dec_double abi bs"
| "value_of abi TChar bs = of_int (signed_val bs)"
| "value_of abi TShort bs = of_int (signed_val bs)"
| "value_of abi TInt bs = of_int (signed_val bs)"
| "value_of abi TLong bs = of_int (signed_val bs)"
| "value_of abi T bs = of_nat (le_val bs)"


section \<open>Format codes\<close>

definition number_type :: "byte \<Rightarrow> c_type option" where
  "number_type c =
    (if c = of_char CHR ''n'' then Some TDouble else if c = of_char CHR ''d'' then Some TDouble
     else if c = of_char CHR ''f'' then Some TFloat else if c = of_char CHR ''c'' then Some TChar
     else if c = of_char CHR ''b'' then Some TUChar else if c = of_char CHR ''h'' then Some TShort
     else if c = of_char CHR ''H'' then Some TUShort else if c = of_char CHR ''i'' then Some TInt
     else if c = of_char CHR ''I'' then Some TUInt else if c = of_char CHR ''l'' then Some TLong
     else if c = of_char CHR ''L'' then Some TULong else None)"

definition string_type :: "byte \<Rightarrow> c_type option" where
  "string_type c =
    (if c = of_char CHR ''p'' then Some TUChar else if c = of_char CHR ''P'' then Some TUShort
     else if c = of_char CHR ''a'' then Some TSize else None)"

abbreviation OP_ZSTRING :: byte where "OP_ZSTRING \<equiv> 122"
abbreviation OP_STRING :: byte where "OP_STRING \<equiv> 65"
abbreviation OP_LITTLEENDIAN :: byte where "OP_LITTLEENDIAN \<equiv> 60"
abbreviation OP_BIGENDIAN :: byte where "OP_BIGENDIAN \<equiv> 62"
abbreviation OP_NATIVE :: byte where "OP_NATIVE \<equiv> 61"

definition is_endian :: "byte \<Rightarrow> bool" where
  "is_endian c \<longleftrightarrow> c = OP_LITTLEENDIAN \<or> c = OP_BIGENDIAN \<or> c = OP_NATIVE"

definition is_blank :: "byte \<Rightarrow> bool" where
  "is_blank c \<longleftrightarrow> c = 32 \<or> c = 44"

definition badcode :: "byte \<Rightarrow> lua_error" where
  "badcode c = ArgError 1 (lit ''bad code `'' @ [c, 39])"

text \<open>\<open>e = *(char*)&x\<close> is 1 on the little-endian target.\<close>

definition doendian :: "byte \<Rightarrow> bool" where
  "doendian c =
    (let e = True in
     if c = OP_LITTLEENDIAN then \<not> e
     else if c = OP_BIGENDIAN then e
     else if c = OP_NATIVE then False
     else False)"

fun doswap_loop :: "nat \<Rightarrow> nat \<Rightarrow> nat \<Rightarrow> bytes \<Rightarrow> bytes" where
  "doswap_loop 0 i j a = a"
| "doswap_loop (Suc n) i j a =
    (let t = a ! i; a = a[i := a ! j]; a = a[j := t] in doswap_loop n (i + 1) (j - 1) a)"

definition doswap :: "bool \<Rightarrow> bytes \<Rightarrow> bytes" where
  "doswap swap a = (if swap then doswap_loop (length a div 2) 0 (length a - 1) a else a)"

definition isdigit :: "byte \<Rightarrow> bool" where
  "isdigit c \<longleftrightarrow> 48 \<le> c \<and> c \<le> 57"

fun digits_loop :: "bytes \<Rightarrow> u32 \<Rightarrow> u32 \<times> bytes" where
  "digits_loop [] N = (N, [])"
| "digits_loop (d # f) N =
    (if isdigit d then digits_loop f (10 * N + (ucast d - 48)) else (N, d # f))"

text \<open>\<open>int N = 1; if (isdigit(*f)) ...\<close>\<close>

definition count_prefix :: "bytes \<Rightarrow> u32 \<times> bool \<times> bytes" where
  "count_prefix f =
    (if f \<noteq> [] \<and> isdigit (hd f)
     then (case digits_loop f 0 of (N, rest) \<Rightarrow> (N, True, rest))
     else (1, False, f))"

lemma digits_loop_length: "length (snd (digits_loop f N)) \<le> length f"
  by (induction f N rule: digits_loop.induct) auto

lemma count_prefix_length: "count_prefix f = (N, counted, rest) \<Longrightarrow> length rest \<le> length f"
  using digits_loop_length [of f 0] by (auto simp: count_prefix_def split: if_splits prod.splits)


section \<open>Packing\<close>

type_synonym pack_state = "nat \<times> bool \<times> bytes"

definition pack_op :: "lua_vm \<Rightarrow> float_abi \<Rightarrow> lua_value list \<Rightarrow> byte \<Rightarrow> pack_state \<Rightarrow> pack_state lua" where
  "pack_op vm abi args c st =
    (case st of (i, swap, b) \<Rightarrow>
      if is_endian c then Inr (i, doendian c, b)
      else if c = OP_STRING \<or> c = OP_ZSTRING then
        lua_bind (luaL_checklstring vm args i) (\<lambda>a.
          Inr (i + 1, swap, b @ a @ (if c = OP_ZSTRING then [0] else [])))
      else case string_type c of
        Some T \<Rightarrow>
          lua_bind (luaL_checklstring vm args i) (\<lambda>a.
            Inr (i + 1, swap, b @ doswap swap (int_bytes (sizeof T) (int (length a))) @ a))
      | None \<Rightarrow>
        (case number_type c of
           Some T \<Rightarrow>
             lua_bind (luaL_checknumber vm args i) (\<lambda>x.
               Inr (i + 1, swap, b @ doswap swap (cast_bytes abi T x)))
         | None \<Rightarrow> if is_blank c then Inr (i, swap, b) else Inl (badcode c)))"

text \<open>\<open>while (N--) switch (c)\<close>, where a byte order sets \<open>N\<close> to 0.\<close>

fun pack_times :: "lua_vm \<Rightarrow> float_abi \<Rightarrow> lua_value list \<Rightarrow> byte \<Rightarrow> nat \<Rightarrow> pack_state \<Rightarrow> pack_state lua" where
  "pack_times vm abi args c 0 st = Inr st"
| "pack_times vm abi args c (Suc N) st =
    lua_bind (pack_op vm abi args c st) (\<lambda>st.
      if is_endian c then Inr st else pack_times vm abi args c N st)"

function pack_loop :: "lua_vm \<Rightarrow> float_abi \<Rightarrow> lua_value list \<Rightarrow> bytes \<Rightarrow> pack_state \<Rightarrow> pack_state lua" where
  "pack_loop vm abi args [] st = Inr st"
| "pack_loop vm abi args (c # f) st =
    (case count_prefix f of (N, counted, rest) \<Rightarrow>
      lua_bind (pack_times vm abi args c (unat N) st) (\<lambda>st. pack_loop vm abi args rest st))"
  by pat_completeness auto
termination
  by (relation "measure (\<lambda>(vm, abi, args, f, st). length f)") (auto dest!: count_prefix_length [OF sym])

definition l_pack :: "lua_vm \<Rightarrow> float_abi \<Rightarrow> lua_value list \<Rightarrow> lua_value list lua" where
  "l_pack vm abi args =
    lua_bind (luaL_checkstring vm args 1) (\<lambda>f.
    lua_bind (pack_loop vm abi args f (2, False, [])) (\<lambda>(i, swap, b). Inr [LStr b]))"


section \<open>Unpacking\<close>

text \<open>\<open>s + i\<close> read for \<open>n\<close> bytes. A Lua string has a NUL behind its last byte.\<close>

definition read_at :: "bytes \<Rightarrow> u32 \<Rightarrow> nat \<Rightarrow> bytes option" where
  "read_at s i n =
    (if n = 0 then Some []
     else if unat i + n \<le> length s + 1 then Some (take n (drop (unat i) (s @ [0]))) else None)"

type_synonym unpack_state = "u32 \<times> bool \<times> lua_value list"

datatype unpack_result = Next bool unpack_state | Done unpack_state | Err lua_error | Oob

text \<open>\<open>lua_pushlstring(L,s+i,n)\<close>: the interpreter refuses a string that is too long before it reads it.\<close>

definition push_lstring :: "lua_vm \<Rightarrow> bytes \<Rightarrow> u32 \<Rightarrow> nat \<Rightarrow> (bytes \<Rightarrow> unpack_result) \<Rightarrow> unpack_result" where
  "push_lstring vm s i n k =
    (if n > max_str vm then Err (RunError (lit ''string length overflow''))
     else case read_at s i n of None \<Rightarrow> Oob | Some a \<Rightarrow> k a)"

text \<open>One turn of the \<open>switch\<close>; \<open>N\<close> is the count after the decrement of \<open>while (N--)\<close>, and
  \<open>Next True\<close> is a turn that sets it to 0. \<open>strlen\<close> reads from \<open>s+i\<close> to the next NUL. A comparison with \<open>len\<close>, a \<open>size_t\<close>, is unsigned.\<close>

definition unpack_op :: "lua_vm \<Rightarrow> float_abi \<Rightarrow> bytes \<Rightarrow> byte \<Rightarrow> nat \<Rightarrow> unpack_state \<Rightarrow> unpack_result" where
  "unpack_op vm abi s c N st =
    (case st of (i, swap, out) \<Rightarrow>
      let len = of_nat (length s) :: u32 in
      if is_endian c then Next True (i, doendian c, out)
      else if c = OP_STRING then
        let N = of_nat (N + 1) :: u32 in
        if i + N > len then Done st
        else push_lstring vm s i (unat N) (\<lambda>a. Next True (i + N, swap, out @ [LStr a]))
      else if c = OP_ZSTRING then
        if i \<ge> len then Done st
        else (case read_at s i 1 of
                None \<Rightarrow> Oob
              | Some _ \<Rightarrow>
                let l = length (c_str (drop (unat i) s))
                in push_lstring vm s i l (\<lambda>a. Next False (i + of_nat l + 1, swap, out @ [LStr a])))
      else case string_type c of
        Some T \<Rightarrow>
          let m = of_nat (sizeof T) in
          if i + m > len then Done st
          else (case read_at s i (sizeof T) of
                  None \<Rightarrow> Oob
                | Some lb \<Rightarrow>
                  let l = of_nat (le_val (doswap swap lb)) :: u32 in
                  if i + m + l > len then Done st
                  else push_lstring vm s (i + m) (unat l)
                         (\<lambda>a. Next False (i + m + l, swap, out @ [LStr a])))
      | None \<Rightarrow>
        (case number_type c of
           Some T \<Rightarrow>
             let m = of_nat (sizeof T) in
             if i + m > len then Done st
             else (case read_at s i (sizeof T) of
                     None \<Rightarrow> Oob
                   | Some ab \<Rightarrow> Next False (i + m, swap, out @ [LNum (value_of abi T (doswap swap ab))]))
         | None \<Rightarrow> if is_blank c then Next False st else Err (badcode c)))"

fun unpack_times :: "lua_vm \<Rightarrow> float_abi \<Rightarrow> bytes \<Rightarrow> byte \<Rightarrow> nat \<Rightarrow> unpack_state \<Rightarrow> unpack_result" where
  "unpack_times vm abi s c 0 st = Next False st"
| "unpack_times vm abi s c (Suc N) st =
    (case unpack_op vm abi s c N st of
       Next stop st' \<Rightarrow> if stop then Next False st' else unpack_times vm abi s c N st'
     | r \<Rightarrow> r)"

function unpack_loop :: "lua_vm \<Rightarrow> float_abi \<Rightarrow> bytes \<Rightarrow> bytes \<Rightarrow> unpack_state \<Rightarrow> unpack_result" where
  "unpack_loop vm abi s [] st = Done st"
| "unpack_loop vm abi s (c # f) st =
    (case count_prefix f of (N, counted, rest) \<Rightarrow>
      let st = (case st of (i, swap, out) \<Rightarrow>
                 if counted \<and> N = 0 \<and> c = OP_STRING then (i, swap, out @ [LStr []]) else st) in
      case unpack_times vm abi s c (unat N) st of
        Next _ st' \<Rightarrow> unpack_loop vm abi s rest st'
      | r \<Rightarrow> r)"
  by pat_completeness auto
termination
  by (relation "measure (\<lambda>(vm, abi, s, f, st). length f)") (auto dest!: count_prefix_length [OF sym])

text \<open>\<open>None\<close>: a read outside the string.\<close>

definition l_unpack :: "lua_vm \<Rightarrow> float_abi \<Rightarrow> lua_value list \<Rightarrow> lua_value list lua option" where
  "l_unpack vm abi args =
    (case lua_bind (luaL_checklstring vm args 1) (\<lambda>s.
          lua_bind (luaL_checkstring vm args 2) (\<lambda>f.
          lua_bind (luaL_optnumber vm args 3 1) (\<lambda>init. Inr (s, f, init)))) of
       Inl e \<Rightarrow> Some (Inl e)
     | Inr (s, f, init) \<Rightarrow>
         (case unpack_loop vm abi s f (of_int (c_int (init - 1)), False, []) of
            Next _ _ \<Rightarrow> None
          | Oob \<Rightarrow> None
          | Err e \<Rightarrow> Some (Inl e)
          | Done (i, swap, out) \<Rightarrow> Some (Inr (LNum (of_int (sint (i + 1))) # out))))"


section \<open>Byte order and casts\<close>

lemma doswap_loop_rev:
  "length a div 2 = n \<Longrightarrow> length p = i \<Longrightarrow> j = i + length a - 1 \<Longrightarrow>
   doswap_loop n i j (p @ a @ q) = p @ rev a @ q"
proof (induction n arbitrary: a i j p q)
  case 0
  then show ?case by (cases a; cases "tl a") auto
next
  case (Suc n)
  then obtain x b y where a: "a = x # b @ [y]"
    by (cases a; cases "tl a" rule: rev_cases) auto
  have j: "j = Suc (length p + length b)" using Suc.prems a by simp
  have "((p @ a @ q)[i := y])[j := x] = (p @ [y]) @ b @ ([x] @ q)"
    using Suc.prems(2) by (simp add: a j list_update_append)
  moreover have "(p @ a @ q) ! i = x" "(p @ a @ q) ! j = y"
    using Suc.prems(2) by (simp_all add: a j nth_append)
  moreover have "doswap_loop n (i + 1) (j - 1) ((p @ [y]) @ b @ ([x] @ q)) = (p @ [y]) @ rev b @ ([x] @ q)"
    using Suc.prems by (intro Suc.IH) (auto simp: a)
  ultimately show ?case by (simp add: a Let_def)
qed

lemma doswap_rev: "doswap swap a = (if swap then rev a else a)"
  using doswap_loop_rev [of a "length a div 2" "[]" 0 "length a - 1" "[]"] by (simp add: doswap_def)

lemma doswap_doswap [simp]: "doswap swap (doswap swap a) = a"
  by (simp add: doswap_rev)

lemma length_doswap [simp]: "length (doswap swap a) = length a"
  by (simp add: doswap_rev)

lemma length_int_bytes [simp]: "length (int_bytes n k) = n"
  by (simp add: int_bytes_def)

lemma le_val_int_bytes: "int (le_val (int_bytes n k)) = k mod 256 ^ n"
proof -
  have "0 \<le> k mod 256 ^ n" "k mod 256 ^ n < 256 ^ n" by simp_all
  then have "nat (k mod 256 ^ n) mod 256 ^ n = nat (k mod 256 ^ n)"
    by (simp add: nat_less_iff)
  then show ?thesis by (simp add: int_bytes_def le_val_le_bytes)
qed

lemma le_val_int_bytes_nat: "m < 256 ^ n \<Longrightarrow> le_val (int_bytes n (int m)) = m"
  using le_val_int_bytes [of n "int m"] by (simp flip: of_nat_power of_nat_mod)

lemma signed_val_int_bytes:
  "- (256 ^ n) \<le> 2 * k \<Longrightarrow> 2 * k < 256 ^ n \<Longrightarrow> signed_val (int_bytes n k) = k"
proof -
  assume k: "- (256 ^ n) \<le> 2 * k" "2 * k < 256 ^ n"
  have "k mod 256 ^ n = (if 0 \<le> k then k else k + 256 ^ n)"
  proof (cases "0 \<le> k")
    case False
    with k have "(k + 256 ^ n) mod 256 ^ n = k + 256 ^ n" by (intro mod_pos_pos_trivial) auto
    with False show ?thesis by simp
  qed (use k in simp)
  with k show ?thesis by (auto simp: signed_val_def le_val_int_bytes Let_def)
qed


section \<open>What a code can carry\<close>

fun number_fits :: "float_abi \<Rightarrow> c_type \<Rightarrow> real \<Rightarrow> bool" where
  "number_fits abi TFloat x \<longleftrightarrow> length (enc_float abi x) = 4 \<and> dec_float abi (enc_float abi x) = x"
| "number_fits abi TDouble x \<longleftrightarrow> length (enc_double abi x) = 8 \<and> dec_double abi (enc_double abi x) = x"
| "number_fits abi T x \<longleftrightarrow>
    (\<exists>k. x = of_int k \<and>
      (if T = TChar then - 128 \<le> k \<and> k < 128
       else if T = TUChar then 0 \<le> k \<and> k < 256
       else if T = TShort then - 32768 \<le> k \<and> k < 32768
       else if T = TUShort then 0 \<le> k \<and> k < 65536
       else if T = TInt \<or> T = TLong then - (2 ^ 31) \<le> k \<and> k < 2 ^ 31
       else 0 \<le> k \<and> k < 2 ^ 32))"

definition code_fits :: "float_abi \<Rightarrow> byte \<Rightarrow> lua_value \<Rightarrow> bool" where
  "code_fits abi c v =
    (case v of
       LStr a \<Rightarrow> c = OP_ZSTRING \<and> 0 \<notin> set a \<or>
         (case string_type c of Some T \<Rightarrow> length a < 256 ^ sizeof T | None \<Rightarrow> False)
     | LNum x \<Rightarrow> (case number_type c of Some T \<Rightarrow> number_fits abi T x | None \<Rightarrow> False)
     | _ \<Rightarrow> False)"

text \<open>A format without repeat counts and without \<open>A\<close>, and values that fit its codes in order.\<close>

fun packable :: "float_abi \<Rightarrow> bytes \<Rightarrow> lua_value list \<Rightarrow> bool" where
  "packable abi [] vs \<longleftrightarrow> vs = []"
| "packable abi (c # f) vs \<longleftrightarrow>
    (if is_endian c \<or> is_blank c then packable abi f vs
     else case vs of [] \<Rightarrow> False | v # vs' \<Rightarrow> code_fits abi c v \<and> packable abi f vs')"

lemma number_fits_cast:
  assumes "number_fits abi T x"
  shows "length (cast_bytes abi T x) = sizeof T" "value_of abi T (cast_bytes abi T x) = x"
proof -
  have u: "0 \<le> k \<Longrightarrow> k < 2 ^ 32 \<Longrightarrow> c_size (of_int k) = nat k" for k
    by (simp add: c_size_def)
  have i: "- (2 ^ 31) \<le> k \<Longrightarrow> k < 2 ^ 31 \<Longrightarrow> c_int (of_int k) = k" for k
    by (rule c_int_of_int)
  have n: "0 \<le> k \<Longrightarrow> k < 256 ^ n \<Longrightarrow> (of_nat (le_val (int_bytes n k)) :: real) = of_int k" for k n
    by (metis le_val_int_bytes mod_pos_pos_trivial of_int_of_nat_eq)
  show "length (cast_bytes abi T x) = sizeof T" using assms by (cases T) auto
  show "value_of abi T (cast_bytes abi T x) = x"
  proof (cases "T = TFloat \<or> T = TDouble")
    case False
    then obtain k where x: "x = of_int k" using assms by (cases T) auto
    have s: "- (256 ^ n) \<le> 2 * k \<Longrightarrow> 2 * k < 256 ^ n \<Longrightarrow>
        (of_int (signed_val (int_bytes n k)) :: real) = of_int k" for n
      by (simp only: signed_val_int_bytes)
    show ?thesis
      using assms False unfolding x
      by (cases T) (use i [of k] u [of k] n [of k 1] n [of k 2] n [of k 4] s [of 1] s [of 2] s [of 4] in simp_all)
  qed (use assms in auto)
qed

lemma code_chars:
  "string_type c = Some T \<Longrightarrow> c \<in> {112, 80, 97} \<and> T \<in> {TUChar, TUShort, TSize}"
  "number_type c = Some T \<Longrightarrow> c \<in> {110, 100, 102, 99, 98, 104, 72, 105, 73, 108, 76}"
  by (auto simp: string_type_def number_type_def split: if_splits)

lemma packable_char:
  assumes "packable abi (c # f) vs"
  shows "\<not> isdigit c \<and> c \<noteq> 0 \<and> c \<noteq> OP_STRING"
proof -
  have "is_endian c \<or> is_blank c \<or> c = OP_ZSTRING \<or> string_type c \<noteq> None \<or> number_type c \<noteq> None"
    using assms by (auto simp: code_fits_def split: if_splits list.splits lua_value.splits option.splits)
  then have "c \<in> {60, 62, 61, 32, 44, 122, 112, 80, 97, 110, 100, 102, 99, 98, 104, 72, 105, 73, 108, 76}"
    using code_chars [of c] by (auto simp: is_endian_def is_blank_def)
  then show ?thesis by (auto simp: isdigit_def word_le_nat_alt)
qed

lemma packable_prefix: "packable abi f vs \<Longrightarrow> count_prefix f = (1, False, f)"
  using packable_char by (cases f) (auto simp: count_prefix_def)

lemma packable_no_nul: "packable abi f vs \<Longrightarrow> 0 \<notin> set f"
proof (induction f arbitrary: vs)
  case (Cons c f)
  with packable_char [OF Cons.prems] show ?case by (auto split: if_splits list.splits)
qed simp


section \<open>Round trip\<close>

lemma u32_sum: "a + b < 2 ^ 32 \<Longrightarrow> unat (of_nat a + of_nat b :: u32) = a + b"
  by (simp add: unat_of_nat flip: of_nat_add)

lemma u32_not_greater: "a \<le> b \<Longrightarrow> b < 2 ^ 32 \<Longrightarrow> \<not> of_nat a > (of_nat b :: u32)"
  by (simp add: word_less_nat_alt unat_of_nat)

lemma read_at_middle:
  assumes "length (b @ e @ post) < 2 ^ 32" "n = length e"
  shows "read_at (b @ e @ post) (of_nat (length b)) n = Some e"
  using assms by (simp add: read_at_def unat_of_nat)

text \<open>The bytes one code writes for a value.\<close>

definition item_bytes :: "float_abi \<Rightarrow> bool \<Rightarrow> byte \<Rightarrow> lua_value \<Rightarrow> bytes" where
  "item_bytes abi swap c v =
    (case v of
       LStr a \<Rightarrow> (case string_type c of
                    Some T \<Rightarrow> doswap swap (int_bytes (sizeof T) (int (length a))) @ a
                  | None \<Rightarrow> a @ [0])
     | LNum x \<Rightarrow> (case number_type c of Some T \<Rightarrow> doswap swap (cast_bytes abi T x) | None \<Rightarrow> [])
     | _ \<Rightarrow> [])"

lemma code_fits_cases:
  assumes "code_fits abi c v" "\<not> (is_endian c \<or> is_blank c)"
  obtains (z) a where "v = LStr a" "c = OP_ZSTRING" "0 \<notin> set a"
    | (str) a T where "v = LStr a" "string_type c = Some T" "length a < 256 ^ sizeof T" "c \<noteq> OP_STRING" "c \<noteq> OP_ZSTRING"
    | (num) x T where "v = LNum x" "number_type c = Some T" "string_type c = None" "number_fits abi T x"
        "c \<noteq> OP_STRING" "c \<noteq> OP_ZSTRING"
proof -
  have "number_type c = Some T \<Longrightarrow> string_type c = None \<and> c \<noteq> OP_STRING \<and> c \<noteq> OP_ZSTRING" for T
    using code_chars(2) [of c T] by (auto simp: string_type_def)
  moreover have "string_type c = Some T \<Longrightarrow> c \<noteq> OP_STRING \<and> c \<noteq> OP_ZSTRING" for T
    using code_chars(1) [of c T] by auto
  ultimately show thesis
    using assms z str num by (auto simp: code_fits_def split: lua_value.splits option.splits)
qed

lemma string_type_z: "string_type 122 = None"
  by (simp add: string_type_def)

lemma pack_op_item:
  assumes "code_fits abi c v" "\<not> (is_endian c \<or> is_blank c)" "lua_arg args i = Some v"
  shows "pack_op vm abi args c (i, swap, b) = Inr (i + 1, swap, b @ item_bytes abi swap c v)"
  using assms(1,2)
  by (cases rule: code_fits_cases)
    (use assms(2,3) in \<open>auto simp: pack_op_def item_bytes_def string_type_z luaL_checklstring_def
       lua_tostring_def luaL_checknumber_def lua_tonumber_opt_def\<close>)

lemma unpack_op_item:
  assumes "code_fits abi c v" "\<not> (is_endian c \<or> is_blank c)"
    and s: "s = b @ item_bytes abi swap c v @ post" "length s < 2 ^ 31" "length s \<le> max_str vm"
  shows "unpack_op vm abi s c N (of_nat (length b), swap, out) =
    Next False (of_nat (length b + length (item_bytes abi swap c v)), swap, out @ [v])"
  using assms(1,2)
proof (cases rule: code_fits_cases)
  case (z a)
  have "length b < length s" using s(1) z by (simp add: item_bytes_def string_type_z)
  with s(2) have "unat (of_nat (length b) :: u32) = length b" "of_nat (length b) < (of_nat (length s) :: u32)"
    by (simp_all add: unat_of_nat word_less_nat_alt)
  moreover have "c_str (a @ 0 # post) = a" using z(3) by (induction a) (auto simp: c_str_def)
  moreover have "read_at s (of_nat (length b)) (length a) = Some a"
    using read_at_middle [of b a "0 # post" "length a"] s z(1,2) by (simp add: item_bytes_def string_type_z)
  moreover have "\<exists>x. read_at s (of_nat (length b)) 1 = Some x"
    using \<open>length b < length s\<close> s(2) by (simp add: read_at_def unat_of_nat)
  ultimately show ?thesis
    using z assms(2) s by (auto simp: unpack_op_def Let_def push_lstring_def item_bytes_def string_type_z not_le)
next
  case (str a T)
  let ?lb = "doswap swap (int_bytes (sizeof T) (int (length a)))"
  have s': "s = b @ ?lb @ a @ post" using s str by (simp add: item_bytes_def)
  have "le_val (doswap swap ?lb) = length a" using str by (simp add: le_val_int_bytes_nat)
  moreover have "read_at s (of_nat (length b)) (sizeof T) = Some ?lb"
    unfolding s' by (rule read_at_middle) (use s(2) s' in auto)
  moreover have "read_at s (of_nat (length b + sizeof T)) (unat (of_nat (length a) :: u32)) = Some a"
    using read_at_middle [of "b @ ?lb" a post "length a"] s(2) by (simp add: s' unat_of_nat)
  moreover have "\<not> of_nat (length b + sizeof T) > (of_nat (length s) :: u32)"
    "\<not> of_nat (length b + sizeof T + length a) > (of_nat (length s) :: u32)"
    using s(2) s' by (intro u32_not_greater; simp)+
  moreover have "unat (of_nat (length a) :: u32) = length a" "length a \<le> max_str vm" using s(2,3) s' by (simp_all add: unat_of_nat)
  ultimately show ?thesis
    using str assms(2) by (simp add: unpack_op_def push_lstring_def Let_def item_bytes_def add.assoc)
next
  case (num x T)
  let ?e = "doswap swap (cast_bytes abi T x)"
  note fit = number_fits_cast [OF num(4)]
  have s': "s = b @ ?e @ post" using s num by (simp add: item_bytes_def)
  have "read_at s (of_nat (length b)) (sizeof T) = Some ?e"
    unfolding s' by (rule read_at_middle) (use s(2) s' fit in auto)
  moreover have "\<not> of_nat (length b + sizeof T) > (of_nat (length s) :: u32)"
    using s(2) s' fit by (intro u32_not_greater; simp)
  ultimately show ?thesis
    using num assms(2) fit by (simp add: unpack_op_def Let_def item_bytes_def)
qed

lemma blank_op:
  "is_blank c \<Longrightarrow> \<not> is_endian c \<Longrightarrow> pack_op vm abi args c st = Inr st"
  "is_blank c \<Longrightarrow> \<not> is_endian c \<Longrightarrow> unpack_op vm abi s c N st' = Next False st'"
  by (auto simp: is_blank_def pack_op_def unpack_op_def string_type_def number_type_def Let_def
      split: prod.split)

lemma endian_op:
  "is_endian c \<Longrightarrow> pack_op vm abi args c (i, swap, b) = Inr (i, doendian c, b)"
  "is_endian c \<Longrightarrow> unpack_op vm abi s c N (p, swap, out) = Next True (p, doendian c, out)"
  by (simp_all add: pack_op_def unpack_op_def)

lemma pack_unpack_loop:
  assumes "packable abi f vs" "1 \<le> i" "drop (i - 1) args = vs"
  shows "\<exists>e swap'. pack_loop vm abi args f (i, swap, b) = Inr (i + length vs, swap', b @ e) \<and>
    (\<forall>post out. length (b @ e @ post) < 2 ^ 31 \<longrightarrow> length (b @ e @ post) \<le> max_str vm \<longrightarrow>
      unpack_loop vm abi (b @ e @ post) f (of_nat (length b), swap, out) =
        Done (of_nat (length b + length e), swap', out @ vs))"
  using assms
proof (induction f arbitrary: vs i swap b)
  case (Cons c f)
  show ?case
  proof (cases "is_endian c \<or> is_blank c")
    case True
    then have f: "packable abi f vs" using Cons.prems(1) by simp
    note IH = Cons.IH [OF f Cons.prems(2,3)] and pre = packable_prefix [OF f]
    show ?thesis
    proof (cases "is_endian c")
      case True
      with IH [of "doendian c" b] pre show ?thesis by (simp add: endian_op)
    next
      case False
      with IH [of swap b] pre True show ?thesis by (simp add: blank_op)
    qed
  next
    case False
    with Cons.prems(1) obtain v vs' where vs: "vs = v # vs'" "code_fits abi c v" "packable abi f vs'"
      by (auto split: list.splits)
    let ?e = "item_bytes abi swap c v"
    have arg: "lua_arg args i = Some v" "drop i args = vs'"
    proof -
      have "i - 1 < length args" using Cons.prems(3) vs(1) by (cases "i - 1 < length args") auto
      with Cons.prems(2,3) vs(1) show "lua_arg args i = Some v" "drop i args = vs'"
        by (auto simp: lua_arg_def hd_drop_conv_nth [symmetric] drop_Suc [symmetric] tl_drop [symmetric] Suc_diff_1)
          (metis One_nat_def Suc_le_D diff_Suc_1 drop_Suc list.sel(3) tl_drop)
    qed
    from Cons.IH [OF vs(3), of "i + 1" swap "b @ ?e"] arg(2) obtain e swap' where
      IH: "pack_loop vm abi args f (i + 1, swap, b @ ?e) = Inr (i + 1 + length vs', swap', (b @ ?e) @ e)"
        "\<And>post out. length ((b @ ?e) @ e @ post) < 2 ^ 31 \<Longrightarrow> length ((b @ ?e) @ e @ post) \<le> max_str vm \<Longrightarrow>
          unpack_loop vm abi ((b @ ?e) @ e @ post) f (of_nat (length (b @ ?e)), swap, out) =
            Done (of_nat (length (b @ ?e) + length e), swap', out @ vs')"
      by auto
    have "pack_loop vm abi args (c # f) (i, swap, b) = Inr (i + length vs, swap', b @ (?e @ e))"
      using IH(1) False by (simp add: packable_prefix [OF vs(3)] pack_op_item [OF vs(2) False arg(1)] vs(1))
    moreover have "unpack_loop vm abi (b @ (?e @ e) @ post) (c # f) (of_nat (length b), swap, out) =
        Done (of_nat (length b + length (?e @ e)), swap', out @ vs)"
      if len: "length (b @ (?e @ e) @ post) < 2 ^ 31" "length (b @ (?e @ e) @ post) \<le> max_str vm" for post out
    proof -
      have "unpack_op vm abi (b @ (?e @ e) @ post) c 0 (of_nat (length b), swap, out) =
          Next False (of_nat (length (b @ ?e)), swap, out @ [v])"
        using unpack_op_item [OF vs(2) False, of _ b swap "e @ post"] len by simp
      with IH(2) [of post "out @ [v]"] len show ?thesis
        by (simp add: packable_prefix [OF vs(3)] vs(1) add.assoc)
    qed
    ultimately show ?thesis by blast
  qed
qed (auto intro!: exI [of _ "[]"])


section \<open>Reads stay inside the string\<close>

text \<open>The offset after any operation is in range again.\<close>

fun in_range :: "unpack_result \<Rightarrow> bool" where
  "in_range (Next _ (i, _)) \<longleftrightarrow> unat i < 2 ^ 31"
| "in_range (Done _) = True"
| "in_range (Err _) = True"
| "in_range Oob = False"

lemma unat_add_small: "unat (i :: u32) < 2 ^ 31 \<Longrightarrow> n \<le> 2 ^ 31 \<Longrightarrow> unat (i + of_nat n) = unat i + n"
  by (simp add: unat_word_ariths unat_of_nat)

lemma not_greater_le:
  "\<not> (w :: u32) > of_nat (length s) \<Longrightarrow> length s < 2 ^ 31 \<Longrightarrow> unat w \<le> length s"
  by (simp add: word_less_nat_alt unat_of_nat)

lemma read_in_range:
  assumes "unat i < 2 ^ 31" "n \<le> 2 ^ 31" "\<not> i + of_nat n > of_nat (length s)" "length s < 2 ^ 31"
  shows "read_at s i n \<noteq> None" "unat (i + of_nat n) < 2 ^ 31"
  using not_greater_le [OF assms(3,4)] unat_add_small [OF assms(1,2)] assms(4)
  by (auto simp: read_at_def)

lemma sint_u32: "n < 2 ^ 31 \<Longrightarrow> sint (of_nat n :: u32) = int n"
  by (simp add: signed_of_nat signed_take_bit_int_eq_self)

lemma push_in_range:
  assumes "max_str vm < 2 ^ 31" "unat i < 2 ^ 31" "\<not> i + of_nat n > of_nat (length s)" "length s < 2 ^ 31"
    "in_range (k (take n (drop (unat i) (s @ [0]))))" "n \<le> max_str vm"
  shows "in_range (push_lstring vm s i n k)"
proof -
  have "read_at s i n \<noteq> None" by (rule read_in_range [OF assms(2) _ assms(3,4)]) (use assms(1,6) in simp)
  then have "read_at s i n = Some (take n (drop (unat i) (s @ [0])))" by (auto simp: read_at_def split: if_splits)
  with assms(5) show ?thesis by (simp add: push_lstring_def)
qed

lemma unpack_op_in_range:
  assumes "length s + 1 < 2 ^ 31" "max_str vm < 2 ^ 31" "unat i < 2 ^ 31"
  shows "in_range (unpack_op vm abi s c N (i, swap, out))"
proof -
  have s: "length s < 2 ^ 31" using assms(1) by simp
  have sz: "sizeof T \<le> 2 ^ 31" for T by (cases T) auto
  have push: "in_range (push_lstring vm s j (unat w) (\<lambda>a. Next b (j + w, swap, out @ [LStr a])))"
    if "unat j < 2 ^ 31" "\<not> j + w > of_nat (length s)" for b j and w :: u32
  proof (cases "unat w \<le> max_str vm")
    case True
    then have "unat (j + w) < 2 ^ 31"
      using read_in_range(2) [OF that(1), of "unat w" s] that(2) s assms(2) by simp
    with True that s assms(2) show ?thesis by (intro push_in_range) simp_all
  qed (simp add: push_lstring_def)
  consider (endian) "is_endian c" | (str) "\<not> is_endian c" "c = OP_STRING" | (z) "\<not> is_endian c" "c = OP_ZSTRING"
    | (pre) T where "\<not> is_endian c" "c \<noteq> OP_STRING" "c \<noteq> OP_ZSTRING" "string_type c = Some T"
    | (num) T where "\<not> is_endian c" "c \<noteq> OP_STRING" "c \<noteq> OP_ZSTRING" "string_type c = None" "number_type c = Some T"
    | (none) "\<not> is_endian c" "c \<noteq> OP_STRING" "c \<noteq> OP_ZSTRING" "string_type c = None" "number_type c = None"
    by (cases "string_type c"; cases "number_type c") auto
  then show ?thesis
  proof cases
    case str
    then show ?thesis using push [OF assms(3), of "of_nat (N + 1)"] by (simp add: unpack_op_def Let_def)
  next
    case z
    show ?thesis
    proof (cases "i \<ge> of_nat (length s)")
      case False
      then have i: "unat i < length s" using s by (simp add: not_le word_less_nat_alt unat_of_nat)
      let ?l = "length (c_str (drop (unat i) s))"
      have l: "unat i + (?l + 1) \<le> length s + 1" using length_c_str_le [of "drop (unat i) s"] i by simp
      have "in_range (push_lstring vm s i n (\<lambda>a. Next False (i + of_nat n + 1, swap, out @ [LStr a])))"
        if "unat i + (n + 1) \<le> length s + 1" for n
      proof -
        have "unat (i + of_nat (n + 1)) < 2 ^ 31"
          using that assms(1) by (subst unat_add_small) (use assms(1,3) in auto)
        then have "unat (i + of_nat n + 1) < 2 ^ 31" by (simp add: ac_simps)
        then show ?thesis using that by (cases n) (simp_all add: push_lstring_def read_at_def)
      qed
      from this [OF l] have
        "in_range (push_lstring vm s i ?l (\<lambda>a. Next False (i + of_nat ?l + 1, swap, out @ [LStr a])))" .
      moreover have "\<exists>x. read_at s i 1 = Some x" using i by (simp add: read_at_def)
      ultimately show ?thesis using False z by (auto simp: unpack_op_def Let_def)
    qed (use z in \<open>simp add: unpack_op_def\<close>)
  next
    case pre
    show ?thesis
    proof (cases "i + of_nat (sizeof T) > of_nat (length s)")
      case False
      obtain lb where lb: "read_at s i (sizeof T) = Some lb" "unat (i + of_nat (sizeof T)) < 2 ^ 31"
        using read_in_range [OF assms(3) sz False s] by auto
      show ?thesis
        using pre False lb(1) push [OF lb(2), of "of_nat (le_val (doswap swap lb))" False]
        by (simp add: unpack_op_def Let_def)
    qed (use pre in \<open>simp add: unpack_op_def Let_def\<close>)
  next
    case num
    then show ?thesis
      using read_in_range [OF assms(3) sz [of T] _ s]
      by (cases "i + of_nat (sizeof T) > of_nat (length s)") (auto simp: unpack_op_def Let_def split: option.split)
  qed (use assms(3) in \<open>auto simp: unpack_op_def Let_def\<close>)
qed

lemma unpack_times_in_range:
  "length s + 1 < 2 ^ 31 \<Longrightarrow> max_str vm < 2 ^ 31 \<Longrightarrow> unat i < 2 ^ 31 \<Longrightarrow>
   in_range (unpack_times vm abi s c N (i, swap, out))"
proof (induction N arbitrary: i swap out)
  case (Suc N)
  then have "in_range (unpack_op vm abi s c N (i, swap, out))" by (intro unpack_op_in_range) auto
  with Suc show ?case
    by (cases "unpack_op vm abi s c N (i, swap, out)") auto
qed simp

lemma unpack_loop_in_range:
  "length s + 1 < 2 ^ 31 \<Longrightarrow> max_str vm < 2 ^ 31 \<Longrightarrow> unat i < 2 ^ 31 \<Longrightarrow>
   \<exists>st e. unpack_loop vm abi s f (i, swap, out) \<in> {Done st, Err e}"
proof (induction f arbitrary: i swap out rule: length_induct)
  case (1 f)
  show ?case
  proof (cases f)
    case (Cons c g)
    obtain N counted rest where pre: "count_prefix g = (N, counted, rest)" using prod_cases3 by blast
    let ?out = "if counted \<and> N = 0 \<and> c = OP_STRING then out @ [LStr []] else out"
    have ok: "in_range (unpack_times vm abi s c (unat N) (i, swap, ?out))"
      by (rule unpack_times_in_range) (use 1 in auto)
    show ?thesis
    proof (cases "unpack_times vm abi s c (unat N) (i, swap, ?out)")
      case (Next stop st)
      obtain i' swap' out' where st: "st = (i', swap', out')" by (rule prod_cases3)
      have "length rest < length f" using count_prefix_length [OF pre] Cons by simp
      with 1 ok Next st have "\<exists>st e. unpack_loop vm abi s rest (i', swap', out') \<in> {Done st, Err e}" by simp
      with Next pre st Cons show ?thesis by (auto simp: Let_def)
    qed (use ok pre Cons in \<open>auto simp: Let_def\<close>)
  qed simp
qed


text \<open>Starting \<open>j\<close> bytes before the string.\<close>

lemma first_read_before:
  assumes "length s < 2 ^ 31" "number_type c = Some T \<or> string_type c = Some T" "- (2 ^ 31) \<le> k" "k < 0"
  shows "unpack_op vm abi s c N (of_int k, swap, out) =
    (if 0 \<le> k + int (sizeof T) \<and> k + int (sizeof T) \<le> int (length s) then Oob else Done (of_int k, swap, out))"
proof -
  have c: "\<not> is_endian c" "c \<noteq> OP_STRING" "c \<noteq> OP_ZSTRING"
    using assms(2) code_chars [of c] by (auto simp: is_endian_def)
  have sz: "0 < sizeof T" "sizeof T \<le> 8" by (cases T; simp)+
  have shifted: "unat (of_int x :: u32) = (if 0 \<le> x then nat x else nat (x + 2 ^ 32))"
    if "- (2 ^ 31) \<le> x" "x < 8" for x
  proof -
    have "x mod 2 ^ 32 = (if 0 \<le> x then x else x + 2 ^ 32)"
      using that mod_pos_pos_trivial [of x "2 ^ 32"] mod_pos_pos_trivial [of "x + 2 ^ 32" "2 ^ 32"] by simp
    then show ?thesis using that by (simp add: unsigned_of_int take_bit_eq_mod)
  qed
  have "of_int k + of_nat (sizeof T) = (of_int (k + int (sizeof T)) :: u32)" by simp
  then have *: "of_int k + of_nat (sizeof T) > (of_nat (length s) :: u32) \<longleftrightarrow>
      \<not> (0 \<le> k + int (sizeof T) \<and> k + int (sizeof T) \<le> int (length s))"
    using shifted [of "k + int (sizeof T)"] assms(1,3,4) sz by (auto simp: word_less_nat_alt unat_of_nat)
  have "read_at s (of_int k) (sizeof T) = None" using shifted [of k] assms(1,3,4) sz by (simp add: read_at_def)
  moreover have "number_type c = Some T \<Longrightarrow> string_type c = None"
    using code_chars(2) [of c T] by (auto simp: string_type_def)
  ultimately show ?thesis using * c assms(2) by (auto simp: unpack_op_def Let_def)
qed


section \<open>Properties\<close>

text \<open>C14: \<open>unpack\<close> inverts \<open>pack\<close>. For every format of codes, byte orders and blanks, and
  values that fit the codes, \<open>pack\<close> succeeds, and \<open>unpack\<close> on its result, whatever bytes
  follow in a string of a length the interpreter allows, returns the position behind it and the
  same values.\<close>

theorem pack_unpack:
  assumes "packable abi f vs"
  shows "\<exists>bs. l_pack vm abi (LStr f # vs) = Inr [LStr bs] \<and>
    (\<forall>post. length (bs @ post) < 2 ^ 31 - 1 \<and> length (bs @ post) \<le> max_str vm \<longrightarrow>
       l_unpack vm abi [LStr (bs @ post), LStr f] = Some (Inr (LNum (of_nat (length bs + 1)) # vs)))"
proof -
  have f: "c_str f = f" using packable_no_nul [OF assms] by (rule c_str_id)
  from pack_unpack_loop [OF assms, of 2 "LStr f # vs" vm False "[]"] obtain e swap' where
    e: "pack_loop vm abi (LStr f # vs) f (2, False, []) = Inr (2 + length vs, swap', e)"
      "\<And>post out. length (e @ post) < 2 ^ 31 \<Longrightarrow> length (e @ post) \<le> max_str vm \<Longrightarrow>
        unpack_loop vm abi (e @ post) f (0, False, []) = Done (of_nat (length e), swap', vs)"
    by auto
  have "l_unpack vm abi [LStr (e @ post), LStr f] = Some (Inr (LNum (of_nat (length e + 1)) # vs))"
    if "length (e @ post) < 2 ^ 31 - 1" "length (e @ post) \<le> max_str vm" for post
  proof -
    have "sint (of_nat (length e) + 1 :: u32) = int (length e + 1)"
      using that sint_u32 [of "length e + 1"] by (simp add: add.commute)
    then show ?thesis using that e(2) [of post]
      by (simp add: l_unpack_def lua_arg_simps f c_int_def Let_def del: of_int_sint)
  qed
  then show ?thesis using e(1) by (auto simp: l_pack_def lua_arg_simps f)
qed

theorem pack_unpack_witness:
  "l_unpack plain_vm no_floats [LStr [200, 2, 1, 97, 98, 0, 7], LStr (lit ''>b,Hz'')] =
     Some (Inr [LNum 7, LNum 200, LNum 513, LStr (lit ''ab'')])"
proof -
  have "packable no_floats (lit ''>b,Hz'') [LNum 200, LNum 513, LStr (lit ''ab'')]"
    by (simp add: is_endian_def is_blank_def code_fits_def number_type_def string_type_def)
  moreover have "l_pack plain_vm no_floats [LStr (lit ''>b,Hz''), LNum 200, LNum 513, LStr (lit ''ab'')] =
      Inr [LStr [200, 2, 1, 97, 98, 0]]"
    by (simp add: l_pack_def lua_arg_simps c_str_def count_prefix_def isdigit_def word_le_nat_alt pack_op_def
        is_endian_def is_blank_def doendian_def number_type_def string_type_def doswap_rev int_bytes_def c_int_def
        le_bytes_numeral)
  moreover have "7 \<le> max_str plain_vm" by (simp add: plain_vm_def)
  ultimately show ?thesis
    using pack_unpack [of no_floats "lit ''>b,Hz''" "[LNum 200, LNum 513, LStr (lit ''ab'')]" plain_vm] by force
qed

text \<open>C23: from a start position that is not before the string, \<open>unpack\<close> never reads outside the
  string, whatever the bytes, the format, its repeat counts and its length prefixes are - those
  that wrap the checks included, since the interpreter refuses to make a string that long before
  it reads it: it returns or raises an error. The string is one the interpreter could make, and
  LuaJIT's limit is below \<open>2^31 - 1\<close>.\<close>

theorem unpack_in_bounds:
  assumes "length s \<le> max_str vm" "max_str vm + 1 < 2 ^ 31" "0 \<le> c_int (init - 1)"
  shows "\<exists>r. l_unpack vm abi [LStr s, LStr f, LNum init] = Some r"
proof -
  obtain n where n: "c_int (init - 1) = int n" using assms(3) by (metis nonneg_int_cases)
  with c_int_range(2) [of "init - 1"] have "unat (of_int (c_int (init - 1)) :: u32) < 2 ^ 31"
    by (simp add: unat_of_nat)
  moreover have "length s + 1 < 2 ^ 31" "max_str vm < 2 ^ 31" using assms(1,2) by linarith+
  ultimately show ?thesis
    using unpack_loop_in_range [of s vm "of_int (c_int (init - 1))" abi "c_str f" False "[]"]
    by (auto simp: l_unpack_def lua_arg_simps)
qed

text \<open>A length prefix and a repeat count that wrap the checks.\<close>

theorem unpack_in_bounds_witness:
  "\<exists>r q. l_unpack plain_vm no_floats [LStr [255, 255, 255, 255], LStr (lit ''a''), LNum 1] = Some r \<and>
     l_unpack plain_vm no_floats [LStr [3, 97, 1, 2, 7], LStr (lit ''iA4294967295''), LNum 1] = Some q"
proof -
  have "\<exists>r. l_unpack plain_vm no_floats [LStr [255, 255, 255, 255], LStr (lit ''a''), LNum 1] = Some r"
    "\<exists>r. l_unpack plain_vm no_floats [LStr [3, 97, 1, 2, 7], LStr (lit ''iA4294967295''), LNum 1] = Some r"
    by (rule unpack_in_bounds; simp add: plain_vm_def c_int_def)+
  then show ?thesis by blast
qed

text \<open>C24: a start position before the string is not checked. For every format that begins with a code
  for a number or a length-prefixed string (with any repeat count but 0): if the first field would end
  within the string, or just before its first byte, \<open>unpack\<close> reads memory before the string; from any
  other such position it stops at once, with the position and no values.\<close>

theorem unpack_before_string:
  assumes "length s < 2 ^ 31" "c_str f = c # rest" "number_type c = Some T \<or> string_type c = Some T"
    "fst (count_prefix rest) \<noteq> 0" "c_int (init - 1) < 0"
  shows "l_unpack vm abi [LStr s, LStr f, LNum init] =
    (if 0 \<le> c_int (init - 1) + int (sizeof T) \<and> c_int (init - 1) + int (sizeof T) \<le> int (length s) then None
     else Some (Inr [LNum (of_int (c_int (init - 1) + 1))]))"
proof -
  let ?k = "c_int (init - 1)"
  obtain N counted f' where pre: "count_prefix rest = (N, counted, f')" using prod_cases3 by blast
  with assms(4) obtain n where n: "unat N = Suc n" by (cases "unat N") (auto simp: unat_eq_zero)
  have "c \<noteq> OP_STRING" using assms(3) code_chars [of c] by auto
  with first_read_before [OF assms(1,3) c_int_range(1) assms(5), of vm abi n False "[]"] pre n
  have "unpack_loop vm abi s (c # rest) (of_int ?k, False, []) =
      (if 0 \<le> ?k + int (sizeof T) \<and> ?k + int (sizeof T) \<le> int (length s) then Oob else Done (of_int ?k, False, []))"
    by (simp add: Let_def)
  moreover have "sint (of_int ?k + 1 :: u32) = ?k + 1"
  proof -
    have "of_int ?k + 1 = (of_int (?k + 1) :: u32)" by simp
    then show ?thesis using c_int_range(1) [of "init - 1"] assms(5)
      by (simp only: signed_of_int) (simp add: signed_take_bit_int_eq_self)
  qed
  ultimately show ?thesis by (simp add: l_unpack_def lua_arg_simps assms(2) del: of_int_sint)
qed

theorem unpack_before_string_witness:
  "l_unpack plain_vm no_floats [LStr [7], LStr (lit ''b''), LNum 0] = None \<and>
   l_unpack plain_vm no_floats [LStr [7], LStr (lit ''I''), LNum 0] = Some (Inr [LNum 0])"
  using unpack_before_string [of "[7]" "lit ''b''" "of_char CHR ''b''" "[]" TUChar 0 plain_vm no_floats]
    unpack_before_string [of "[7]" "lit ''I''" "of_char CHR ''I''" "[]" TUInt 0 plain_vm no_floats]
  by (simp add: c_str_def c_int_def count_prefix_def number_type_def string_type_def)

end
