(* ===== verification/Sys.thy ===== *)
theory Sys
  imports LuaApi
begin

text \<open>
  What the socket modules see of the system, and the way their functions are sequenced. The
  operating system is a script: the answers it will give to the calls, in order, and the
  readings of its clock. Every call takes the next answer and is logged with it. A function is
  a step on the state (\<open>act\<close>): \<open>None\<close> when the script ends before the function returns, that is,
  the call is still blocked; otherwise a Lua error or a result, and the state it leaves. All
  statements quantify over the script.
\<close>

type_synonym t_socket = u32

abbreviation SOCKET_INVALID :: t_socket where "SOCKET_INVALID \<equiv> - 1"


section \<open>Calls and answers\<close>

record addrinfo =
  ai_family :: int
  ai_socktype :: int
  ai_protocol :: int
  ai_flags :: int
  ai_addr :: bytes

record hostent =
  h_name :: bytes
  h_aliases :: "bytes list"
  h_addr_list :: "bytes list"

text \<open>The return value, what \<open>WSAGetLastError\<close> or \<open>errno\<close> then says, and the memory the call
  writes: bytes, an address, the descriptor sets of \<open>select\<close>, resolver results.\<close>

record sysres =
  sr_ret :: int
  sr_err :: int
  sr_data :: bytes
  sr_addr :: bytes
  sr_rfds :: "t_socket list"
  sr_wfds :: "t_socket list"
  sr_efds :: "t_socket list"
  sr_info :: "addrinfo list"
  sr_host :: "hostent option"

text \<open>The calls from \<open>CPoll\<close> on are those of POSIX systems only.\<close>

datatype call =
    CSelect "t_socket list" "t_socket list" "t_socket list" "(int \<times> int) option"
  | CSend t_socket bytes
  | CSendto t_socket bytes bytes
  | CRecv t_socket nat
  | CRecvfrom t_socket nat
  | CConnect t_socket bytes
  | CBind t_socket bytes
  | CListen t_socket int
  | CAccept t_socket
  | CSocket int int int
  | CClose t_socket
  | CShutdown t_socket int
  | CIoctl t_socket nat
  | CSleep int
  | CSetsockopt t_socket int int bytes
  | CGetsockopt t_socket int int
  | CGetpeername t_socket
  | CGetsockname t_socket
  | CGetaddrinfo "bytes option" "bytes option" addrinfo
  | CGetnameinfo bytes
  | CGethostbyaddr bytes
  | CGethostbyname bytes
  | CGethostname
  | CStartup
  | CCleanup
  | CPoll t_socket nat int
  | CRead t_socket nat
  | CWrite t_socket bytes
  | CFcntl t_socket int int
  | COpen bytes int
  | CSignal int int
  | CNanosleep int int

text \<open>A clock reading is a \<open>FILETIME\<close>: the low and the high word.\<close>

record sys =
  clock :: "(u32 \<times> u32) list"
  answers :: "sysres list"
  trace :: "(call \<times> sysres) list"


section \<open>Sequencing\<close>

type_synonym ('s, 'a) act = "'s \<Rightarrow> ((lua_error + 'a) \<times> 's) option"

definition act_return :: "'a \<Rightarrow> ('s, 'a) act" where
  "act_return x s = Some (Inr x, s)"

definition act_bind :: "('s, 'a) act \<Rightarrow> ('a \<Rightarrow> ('s, 'b) act) \<Rightarrow> ('s, 'b) act" where
  "act_bind m f s =
    (case m s of
       None \<Rightarrow> None
     | Some (Inl e, s') \<Rightarrow> Some (Inl e, s')
     | Some (Inr x, s') \<Rightarrow> f x s')"

definition act_lua :: "'a lua \<Rightarrow> ('s, 'a) act" where
  "act_lua r s = Some (r, s)"

definition act_error :: "lua_error \<Rightarrow> ('s, 'a) act" where
  "act_error e s = Some (Inl e, s)"

definition act_get :: "('s \<Rightarrow> 'a) \<Rightarrow> ('s, 'a) act" where
  "act_get f s = Some (Inr (f s), s)"

definition act_put :: "('s \<Rightarrow> 's) \<Rightarrow> ('s, unit) act" where
  "act_put f s = Some (Inr (), f s)"

lemma act_simps [simp]:
  "act_return x s = Some (Inr x, s)"
  "act_lua r s = Some (r, s)"
  "act_error e s = Some (Inl e, s)"
  "act_get f s = Some (Inr (f s), s)"
  "act_put g s = Some (Inr (), g s)"
  by (simp_all add: act_return_def act_lua_def act_error_def act_get_def act_put_def)

lemma act_bind_simps [simp]:
  "m s = None \<Longrightarrow> act_bind m f s = None"
  "m s = Some (Inl e, s') \<Longrightarrow> act_bind m f s = Some (Inl e, s')"
  "m s = Some (Inr x, s') \<Longrightarrow> act_bind m f s = f x s'"
  by (simp_all add: act_bind_def)

lemma act_bind_Some_iff:
  "act_bind m f s = Some (r, s') \<longleftrightarrow>
    (\<exists>x s1. m s = Some (Inr x, s1) \<and> f x s1 = Some (r, s')) \<or> (\<exists>e. m s = Some (Inl e, s') \<and> r = Inl e)"
  by (auto simp: act_bind_def split: option.splits sum.splits)

lemma act_bind_return [simp]: "act_bind m act_return s = m s"
  by (auto simp: act_bind_def split: option.split sum.split)

lemma act_bind_assoc: "act_bind (act_bind m f) g s = act_bind m (\<lambda>x. act_bind (f x) g) s"
  by (auto simp: act_bind_def split: option.split sum.split)


section \<open>System calls\<close>

definition syscall :: "call \<Rightarrow> ('m sys_scheme, sysres) act" where
  "syscall c s =
    (case answers s of
       [] \<Rightarrow> None
     | r # rs \<Rightarrow> Some (Inr r, s\<lparr>answers := rs, trace := trace s @ [(c, r)]\<rparr>))"

definition read_clock :: "('m sys_scheme, u32 \<times> u32) act" where
  "read_clock s =
    (case clock s of [] \<Rightarrow> None | t # ts \<Rightarrow> Some (Inr t, s\<lparr>clock := ts\<rparr>))"

lemma syscall_Some:
  "syscall c s = Some (r, s') \<longleftrightarrow>
    (\<exists>a rs. answers s = a # rs \<and> r = Inr a \<and> s' = s\<lparr>answers := rs, trace := trace s @ [(c, a)]\<rparr>)"
  by (auto simp: syscall_def split: list.split)

lemma read_clock_Some:
  "read_clock s = Some (r, s') \<longleftrightarrow> (\<exists>t ts. clock s = t # ts \<and> r = Inr t \<and> s' = s\<lparr>clock := ts\<rparr>)"
  by (auto simp: read_clock_def split: list.split)


section \<open>Runs\<close>

text \<open>A run takes answers off the script and appends the calls it made to the trace.\<close>

definition ran :: "'m sys_scheme \<Rightarrow> 'm sys_scheme \<Rightarrow> (call \<times> sysres) list \<Rightarrow> bool" where
  "ran s s' cs \<longleftrightarrow> trace s' = trace s @ cs \<and> answers s = map snd cs @ answers s'"

lemma ran_refl [simp]: "ran s s []"
  by (simp add: ran_def)

lemma ran_trans: "ran s s1 cs \<Longrightarrow> ran s1 s2 ds \<Longrightarrow> ran s s2 (cs @ ds)"
  by (simp add: ran_def)

lemma ran_unique: "ran s s' cs \<Longrightarrow> ran s s' ds \<Longrightarrow> cs = ds"
  by (simp add: ran_def)

lemma ran_length: "ran s s' cs \<Longrightarrow> length (answers s) = length cs + length (answers s')"
  by (simp add: ran_def)

lemma syscall_ran: "syscall c s = Some (r, s') \<Longrightarrow> \<exists>a. r = Inr a \<and> ran s s' [(c, a)]"
  by (auto simp: syscall_Some ran_def)

text \<open>What Winsock and POSIX document of the transfer calls: on success \<open>send\<close> accepts between one and
  all of the bytes offered, \<open>recv\<close> delivers at most the bytes asked for, as many as it says;
  otherwise the result is \<open>SOCKET_ERROR\<close> and an error code is set.\<close>

definition send_ok :: "bytes \<Rightarrow> sysres \<Rightarrow> bool" where
  "send_ok d r \<longleftrightarrow>
    0 < sr_ret r \<and> sr_ret r \<le> int (length d) \<or> sr_ret r = 0 \<and> d = [] \<or> sr_ret r = - 1 \<and> 0 < sr_err r"

definition recv_ok :: "nat \<Rightarrow> sysres \<Rightarrow> bool" where
  "recv_ok n r \<longleftrightarrow>
    0 \<le> sr_ret r \<and> sr_ret r \<le> int n \<and> int (length (sr_data r)) = sr_ret r \<or> sr_ret r = - 1 \<and> 0 < sr_err r"

fun call_ok :: "call \<times> sysres \<Rightarrow> bool" where
  "call_ok (CSend k d, r) \<longleftrightarrow> send_ok d r"
| "call_ok (CSendto k d a, r) \<longleftrightarrow> send_ok d r"
| "call_ok (CRecv k n, r) \<longleftrightarrow> recv_ok n r"
| "call_ok (CRecvfrom k n, r) \<longleftrightarrow> recv_ok n r"
| "call_ok (CRead k n, r) \<longleftrightarrow> recv_ok n r"
| "call_ok (CWrite k d, r) \<longleftrightarrow> send_ok d r"
| "call_ok _ \<longleftrightarrow> True"

text \<open>The bytes a stream of calls put into the kernel, and took out of it.\<close>

fun accepted :: "(call \<times> sysres) list \<Rightarrow> bytes" where
  "accepted [] = []"
| "accepted ((c, r) # cs) =
    (case c of CSend k d \<Rightarrow> take (nat (sr_ret r)) d | CWrite k d \<Rightarrow> take (nat (sr_ret r)) d | _ \<Rightarrow> []) @ accepted cs"

fun delivered :: "(call \<times> sysres) list \<Rightarrow> bytes" where
  "delivered [] = []"
| "delivered ((c, r) # cs) =
    (case c of CRecv k n \<Rightarrow> take (nat (sr_ret r)) (sr_data r) | CRead k n \<Rightarrow> take (nat (sr_ret r)) (sr_data r)
     | _ \<Rightarrow> []) @ delivered cs"

lemma accepted_append [simp]: "accepted (cs @ ds) = accepted cs @ accepted ds"
  by (induction cs rule: accepted.induct) auto

lemma delivered_append [simp]: "delivered (cs @ ds) = delivered cs @ delivered ds"
  by (induction cs rule: delivered.induct) auto

end
