(* ===== verification/Timeout.thy ===== *)
theory Timeout
  imports Sys
begin

text \<open>
  timeout.c: the time limits of an object, a block limit per system call and a total limit per
  operation, negative meaning none; the clock; and how long the next call may wait. Times are
  real numbers of seconds.
\<close>

text \<open>The structure \<open>t_timeout\<close> of the object an operation works on is part of its state.\<close>

record tm_sys = sys +
  tm_block :: real
  tm_total :: real
  tm_start :: real


section \<open>Operations\<close>

definition timeout_init :: "real \<Rightarrow> real \<Rightarrow> ('m tm_sys_scheme, unit) act" where
  "timeout_init blk tot = act_put (\<lambda>s. s\<lparr>tm_block := blk, tm_total := tot\<rparr>)"

definition filetime_seconds :: "u32 \<times> u32 \<Rightarrow> real" where
  "filetime_seconds ft =
    (case ft of (low, high) \<Rightarrow>
      let t = of_nat (unat low) / 10 ^ 7 + of_nat (unat high) * (4294967296 / 10 ^ 7)
      in t - 11644473600)"

definition timeout_gettime :: "('m sys_scheme, real) act" where
  "timeout_gettime = act_bind read_clock (\<lambda>ft. act_return (filetime_seconds ft))"

definition timeout_get :: "('m tm_sys_scheme, real) act" where
  "timeout_get s =
    (if tm_block s < 0 \<and> tm_total s < 0 then act_return (- 1) s
     else if tm_block s < 0 then
       act_bind timeout_gettime (\<lambda>now.
         let t = tm_total s - now + tm_start s in act_return (max t 0)) s
     else if tm_total s < 0 then act_return (tm_block s) s
     else
       act_bind timeout_gettime (\<lambda>now.
         let t = tm_total s - now + tm_start s in act_return (min (tm_block s) (max t 0))) s)"

definition timeout_getstart :: "('m tm_sys_scheme, real) act" where
  "timeout_getstart = act_get tm_start"

definition timeout_getretry :: "('m tm_sys_scheme, real) act" where
  "timeout_getretry s =
    (if tm_block s < 0 \<and> tm_total s < 0 then act_return (- 1) s
     else if tm_block s < 0 then
       act_bind timeout_gettime (\<lambda>now.
         let t = tm_total s - now + tm_start s in act_return (max t 0)) s
     else if tm_total s < 0 then
       act_bind timeout_gettime (\<lambda>now.
         let t = tm_block s - now + tm_start s in act_return (max t 0)) s
     else
       act_bind timeout_gettime (\<lambda>now.
         let t = tm_total s - now + tm_start s in act_return (min (tm_block s) (max t 0))) s)"

definition timeout_markstart :: "('m tm_sys_scheme, unit) act" where
  "timeout_markstart = act_bind timeout_gettime (\<lambda>now. act_put (\<lambda>s. s\<lparr>tm_start := now\<rparr>))"

text \<open>The macro \<open>timeout_iszero\<close>: only the block limit counts.\<close>

definition timeout_iszero :: "'m tm_sys_scheme \<Rightarrow> bool" where
  "timeout_iszero s \<longleftrightarrow> tm_block s = 0"

definition timeout_meth_settimeout :: "lua_vm \<Rightarrow> lua_value list \<Rightarrow> ('m tm_sys_scheme, lua_value list) act" where
  "timeout_meth_settimeout vm args =
    act_bind (act_lua (luaL_optnumber vm args 2 (- 1))) (\<lambda>t.
    act_bind (act_lua (luaL_optstring vm args 3 (lit ''b''))) (\<lambda>mode.
      let c = (if mode = [] then 0 else hd mode) in
      act_bind
        (if c = of_char CHR ''b'' then act_put (\<lambda>s. s\<lparr>tm_block := t\<rparr>)
         else if c = of_char CHR ''r'' \<or> c = of_char CHR ''t'' then act_put (\<lambda>s. s\<lparr>tm_total := t\<rparr>)
         else act_error (ArgError 3 (lit ''invalid timeout mode'')))
        (\<lambda>_. act_return [LNum 1])))"

definition timeout_lua_gettime :: "('m sys_scheme, lua_value list) act" where
  "timeout_lua_gettime = act_bind timeout_gettime (\<lambda>t. act_return [LNum t])"

definition DBL_MAX :: real where
  "DBL_MAX = (2 - 1 / 2 ^ 52) * 2 ^ 1023"

definition timeout_lua_sleep :: "lua_vm \<Rightarrow> lua_value list \<Rightarrow> ('m sys_scheme, lua_value list) act" where
  "timeout_lua_sleep vm args =
    act_bind (act_lua (luaL_checknumber vm args 1)) (\<lambda>n.
      let n = (if n < 0 then 0 else n);
          n = (if n < DBL_MAX / 1000 then n * 1000 else n);
          n = (if n > 2147483647 then 2147483647 else n)
      in act_bind (syscall (CSleep (c_int n))) (\<lambda>_. act_return []))"


section \<open>Facts\<close>

lemma timeout_gettime_Some:
  "timeout_gettime s = Some (r, s') \<longleftrightarrow>
    (\<exists>t ts. clock s = t # ts \<and> r = Inr (filetime_seconds t) \<and> s' = s\<lparr>clock := ts\<rparr>)"
  by (auto simp: timeout_gettime_def act_bind_Some_iff read_clock_Some)

text \<open>The limit the two timeouts set at the time \<open>now\<close>.\<close>

definition time_left :: "'m tm_sys_scheme \<Rightarrow> real \<Rightarrow> real" where
  "time_left s now = max (tm_total s - (now - tm_start s)) 0"

lemma timeout_get_Some:
  assumes "timeout_get s = Some (r, s')"
  obtains t where "r = Inr t" "answers s' = answers s" "trace s' = trace s" "sys.more s' = sys.more s" "tm_sys.more s' = tm_sys.more s"
    "tm_block s < 0 \<Longrightarrow> tm_total s < 0 \<Longrightarrow> t = - 1"
    "\<not> (tm_block s < 0 \<and> tm_total s < 0) \<Longrightarrow> 0 \<le> t"
    "0 \<le> tm_block s \<Longrightarrow> t \<le> tm_block s"
    "0 \<le> tm_total s \<Longrightarrow> \<exists>ft. clock s = ft # clock s' \<and> t \<le> time_left s (filetime_seconds ft)"
    "tm_total s < 0 \<Longrightarrow> clock s' = clock s"
  using assms unfolding timeout_get_def
  by (fastforce split: if_splits simp: act_bind_Some_iff timeout_gettime_Some Let_def time_left_def)

lemma timeout_get_no_error: "timeout_get s \<noteq> Some (Inl e, s')"
  by (auto elim: timeout_get_Some)

text \<open>A run of an operation on a socket: it keeps the limits and the object behind them, and when
  there is a limit every wait it asked of the kernel has one, at most the block limit.\<close>

definition timeval_of :: "real \<Rightarrow> int \<times> int" where
  "timeval_of t = (let sec = c_int t in (sec, c_int ((t - of_int sec) * 10 ^ 6)))"

text \<open>The milliseconds \<open>poll\<close> is given: a double cast to \<open>int\<close>, \<open>-1\<close> for none.\<close>

definition poll_ms :: "real \<Rightarrow> int" where
  "poll_ms t = (let ms = c_int (t * 1000) in if ms \<ge> 0 then ms else - 1)"

definition wait_ok :: "'m tm_sys_scheme \<Rightarrow> call \<Rightarrow> bool" where
  "wait_ok s c \<longleftrightarrow>
    (case c of
       CSelect r w e tv \<Rightarrow>
         if tm_block s < 0 \<and> tm_total s < 0 then tv = None
         else (\<exists>t \<ge> 0. tv = Some (timeval_of t) \<and> (0 \<le> tm_block s \<longrightarrow> t \<le> tm_block s))
     | CPoll k events ms \<Rightarrow>
         if tm_block s < 0 \<and> tm_total s < 0 then ms = - 1
         else (\<exists>t \<ge> 0. ms = poll_ms t \<and> (0 \<le> tm_block s \<and> 0 \<le> tm_total s \<longrightarrow> t \<le> tm_block s))
     | _ \<Rightarrow> True)"

definition went :: "'m tm_sys_scheme \<Rightarrow> 'm tm_sys_scheme \<Rightarrow> (call \<times> sysres) list \<Rightarrow> bool" where
  "went s s' cs \<longleftrightarrow>
    ran s s' cs \<and> tm_block s' = tm_block s \<and> tm_total s' = tm_total s \<and> tm_start s' = tm_start s \<and>
    tm_sys.more s' = tm_sys.more s \<and> (\<forall>x \<in> set cs. wait_ok s (fst x))"

lemma went_refl [simp]: "went s s []"
  by (simp add: went_def)

lemma went_trans: "went s s1 cs \<Longrightarrow> went s1 s2 ds \<Longrightarrow> went s s2 (cs @ ds)"
  by (auto simp: went_def wait_ok_def dest: ran_trans split: call.splits)

lemma went_ran: "went s s' cs \<Longrightarrow> ran s s' cs"
  by (simp add: went_def)

lemma went_more: "went s s' cs \<Longrightarrow> tm_sys.more s' = tm_sys.more s"
  by (simp add: went_def)

lemma went_length: "went s s' cs \<Longrightarrow> length (answers s) = length cs + length (answers s')"
  by (simp add: went_def ran_length)

lemma syscall_went:
  "syscall c s = Some (r, s') \<Longrightarrow> wait_ok s c \<Longrightarrow> \<exists>a. r = Inr a \<and> went s s' [(c, a)]"
  by (auto simp: syscall_Some went_def ran_def)

lemma timeout_get_went: "timeout_get s = Some (r, s') \<Longrightarrow> went s s' []"
  unfolding timeout_get_def went_def ran_def
  by (auto split: if_splits simp: act_bind_Some_iff timeout_gettime_Some Let_def)


lemma timeout_getretry_Some:
  assumes "timeout_getretry s = Some (r, s')"
  obtains t where "r = Inr t" "went s s' []"
    "tm_block s < 0 \<Longrightarrow> tm_total s < 0 \<Longrightarrow> t = - 1"
    "\<not> (tm_block s < 0 \<and> tm_total s < 0) \<Longrightarrow> 0 \<le> t"
    "0 \<le> tm_block s \<Longrightarrow> 0 \<le> tm_total s \<Longrightarrow> t \<le> tm_block s"
  using assms unfolding timeout_getretry_def went_def ran_def
  by (fastforce split: if_splits simp: act_bind_Some_iff timeout_gettime_Some Let_def)

lemma timeout_getretry_no_error: "timeout_getretry s \<noteq> Some (Inl e, s')"
  by (auto elim: timeout_getretry_Some)


section \<open>Properties\<close>

text \<open>What \<open>timeout_get\<close> answers is negative, no limit, exactly when neither limit is set;
  otherwise it is not more than the block limit and not more than what is left of the total
  limit at the time it reads, and it never goes below zero.\<close>

theorem timeout_get_limits:
  assumes "timeout_get s = Some (Inr t, s')"
  shows "(t < 0 \<longleftrightarrow> tm_block s < 0 \<and> tm_total s < 0) \<and>
    (0 \<le> tm_block s \<longrightarrow> t \<le> tm_block s) \<and>
    (0 \<le> tm_total s \<longrightarrow> t \<le> time_left s (filetime_seconds (hd (clock s)))) \<and>
    answers s' = answers s"
  using assms by (rule timeout_get_Some) (fastforce simp: not_less)

theorem timeout_get_limits_witness:
  "\<exists>t s'. timeout_get \<lparr>clock = [(20000000, 0)], answers = [], trace = [], tm_block = 5, tm_total = 3, tm_start = - 11644473600\<rparr> =
     Some (Inr t, s') \<and> t \<le> 1"
proof -
  let ?s = "\<lparr>clock = [(20000000, 0)], answers = [], trace = [], tm_block = 5, tm_total = 3, tm_start = - 11644473600\<rparr>"
  obtain t s' where "timeout_get ?s = Some (Inr t, s')"
    by (simp add: timeout_get_def act_bind_def timeout_gettime_def read_clock_def Let_def)
  with timeout_get_limits [OF this] show ?thesis
    by (auto simp: time_left_def filetime_seconds_def Let_def)
qed

end
