(* ===== verification/Io.thy ===== *)
theory Io
  imports Timeout
begin

text \<open>
  luasocket_io.c: the driver interface \<open>t_io\<close> through which the buffered reader and writer use a
  transport. The locale \<open>stream_io\<close> states what a driver promises; the buffer's properties are
  proved from it, and the Winsock layer is its instance.
\<close>

abbreviation IO_DONE :: int where "IO_DONE \<equiv> 0"
abbreviation IO_TIMEOUT :: int where "IO_TIMEOUT \<equiv> - 1"
abbreviation IO_CLOSED :: int where "IO_CLOSED \<equiv> - 2"
abbreviation IO_UNKNOWN :: int where "IO_UNKNOWN \<equiv> - 3"

text \<open>\<open>send(ctx, data, count, &sent, tm)\<close> returns the code and \<open>sent\<close>; \<open>recv\<close> the code and the
  bytes it wrote to the front of the buffer. The context is part of the functions.\<close>

record 's t_io =
  io_send :: "bytes \<Rightarrow> ('s, int \<times> nat) act"
  io_recv :: "nat \<Rightarrow> ('s, int \<times> bytes) act"
  io_error :: "int \<Rightarrow> bytes option"

definition io_init ::
  "(bytes \<Rightarrow> ('s, int \<times> nat) act) \<Rightarrow> (nat \<Rightarrow> ('s, int \<times> bytes) act) \<Rightarrow> (int \<Rightarrow> bytes option) \<Rightarrow> 's t_io" where
  "io_init snd_fun rcv_fun err_fun = \<lparr>io_send = snd_fun, io_recv = rcv_fun, io_error = err_fun\<rparr>"

text \<open>\<open>NULL\<close> is \<open>None\<close>.\<close>

definition io_strerror :: "int \<Rightarrow> bytes option" where
  "io_strerror err =
    (if err = IO_DONE then None
     else if err = IO_CLOSED then Some (lit ''closed'')
     else if err = IO_TIMEOUT then Some (lit ''timeout'')
     else Some (lit ''unknown error''))"


section \<open>What a driver promises\<close>

text \<open>
  For every call that returns, with the kernel answering as documented: \<open>send\<close> reports how much
  of the front of the data the kernel took, which is something exactly when the code is
  \<open>IO_DONE\<close>; \<open>recv\<close> hands over what the kernel delivered, at most what was asked, again something
  exactly when \<open>IO_DONE\<close>. Neither touches the rest of the object.
\<close>

locale stream_io =
  fixes io :: "'m tm_sys_scheme t_io"
  assumes send_law: "io_send io d s = Some (r, s') \<Longrightarrow>
      \<exists>err n cs. r = Inr (err, n) \<and> went s s' cs \<and>
        (d \<noteq> [] \<longrightarrow> list_all call_ok cs \<longrightarrow>
          n \<le> length d \<and> accepted cs = take n d \<and> delivered cs = [] \<and> (err = IO_DONE \<longleftrightarrow> 0 < n))"
    and recv_law: "io_recv io k s = Some (q, s') \<Longrightarrow>
      \<exists>err bs cs. q = Inr (err, bs) \<and> went s s' cs \<and>
        (0 < k \<longrightarrow> list_all call_ok cs \<longrightarrow>
          length bs \<le> k \<and> delivered cs = bs \<and> accepted cs = [] \<and> (err = IO_DONE \<longleftrightarrow> bs \<noteq> []))"
    and error_law: "io_error io err = None \<longleftrightarrow> err = IO_DONE"

end
