(* ===== verification/WSocket.thy ===== *)
theory WSocket
  imports Io
begin

text \<open>
  wsocket.c, the Winsock layer: waiting for a descriptor within the time limits, and every
  socket operation as a loop of system calls and waits. An operation that changes \<open>*ps\<close> returns
  the new descriptor. Time spent inside a call is the clock's business, so a loop ends when a
  call succeeds, fails for good, or the wait times out.
\<close>


section \<open>Constants of winsock2.h\<close>

abbreviation WSAEINTR :: int where "WSAEINTR \<equiv> 10004"
abbreviation WSAEACCES :: int where "WSAEACCES \<equiv> 10013"
abbreviation WSAEWOULDBLOCK :: int where "WSAEWOULDBLOCK \<equiv> 10035"
abbreviation WSAEINPROGRESS :: int where "WSAEINPROGRESS \<equiv> 10036"
abbreviation WSAEADDRINUSE :: int where "WSAEADDRINUSE \<equiv> 10048"
abbreviation WSAECONNABORTED :: int where "WSAECONNABORTED \<equiv> 10053"
abbreviation WSAECONNRESET :: int where "WSAECONNRESET \<equiv> 10054"
abbreviation WSAEISCONN :: int where "WSAEISCONN \<equiv> 10056"
abbreviation WSAETIMEDOUT :: int where "WSAETIMEDOUT \<equiv> 10060"
abbreviation WSAECONNREFUSED :: int where "WSAECONNREFUSED \<equiv> 10061"
abbreviation WSAHOST_NOT_FOUND :: int where "WSAHOST_NOT_FOUND \<equiv> 11001"

abbreviation SOL_SOCKET :: int where "SOL_SOCKET \<equiv> 0xffff"
abbreviation SO_ERROR :: int where "SO_ERROR \<equiv> 0x1007"


section \<open>Waiting\<close>

text \<open>\<open>WAITFD_R\<close>, \<open>WAITFD_W\<close> and \<open>WAITFD_C\<close> are the values of \<open>sw\<close> in use; \<open>WAITFD_C\<close> shares a bit
  with \<open>WAITFD_W\<close>, so a writer waits for exceptions too.\<close>

datatype waitfd = WAITFD_R | WAITFD_W | WAITFD_C

definition waitfd_bits :: "waitfd \<Rightarrow> nat" where
  "waitfd_bits sw = (case sw of WAITFD_R \<Rightarrow> 1 | WAITFD_W \<Rightarrow> 2 | WAITFD_C \<Rightarrow> 6)"

definition socket_waitfd :: "t_socket \<Rightarrow> waitfd \<Rightarrow> ('m tm_sys_scheme, int) act" where
  "socket_waitfd ps sw s =
    (if timeout_iszero s then act_return IO_TIMEOUT s
     else
       let rp = (if waitfd_bits sw AND 1 \<noteq> 0 then [ps] else []);
           wp = (if waitfd_bits sw AND 2 \<noteq> 0 then [ps] else []);
           ep = (if waitfd_bits sw AND 6 \<noteq> 0 then [ps] else [])
       in act_bind timeout_get (\<lambda>t.
          let tp = (if t \<ge> 0 then Some (timeval_of t) else None) in
          act_bind (syscall (CSelect rp wp ep tp)) (\<lambda>r.
            act_return
              (if sr_ret r = - 1 then sr_err r
               else if sr_ret r = 0 then IO_TIMEOUT
               else if sw = WAITFD_C \<and> ps \<in> set (sr_efds r) then IO_CLOSED
               else IO_DONE))) s)"

text \<open>\<open>n <= 0\<close> on an unsigned descriptor.\<close>

definition socket_select ::
  "t_socket \<Rightarrow> t_socket list \<Rightarrow> t_socket list \<Rightarrow> t_socket list \<Rightarrow>
   ('m tm_sys_scheme, int \<times> t_socket list \<times> t_socket list) act" where
  "socket_select n rfds wfds efds =
    act_bind timeout_get (\<lambda>t.
      if n \<le> 0 then
        act_bind (syscall (CSleep (int (c_size (1000 * t))))) (\<lambda>_. act_return (0, rfds, wfds))
      else
        act_bind (syscall (CSelect rfds wfds efds (if t \<ge> 0 then Some (timeval_of t) else None))) (\<lambda>r.
          act_return (sr_ret r, sr_rfds r, sr_wfds r)))"

lemma socket_waitfd_run:
  assumes "socket_waitfd ps sw s = Some (r, s')"
  obtains err cs where "r = Inr err" "went s s' cs" "accepted cs = []" "delivered cs = []" "list_all call_ok cs"
    "tm_block s = 0 \<Longrightarrow> err = IO_TIMEOUT \<and> cs = []"
proof (cases "timeout_iszero s")
  case True
  with assms that [of IO_TIMEOUT "[]"] show thesis by (simp add: socket_waitfd_def)
next
  case False
  with assms obtain t s1 rp wp ep a where t: "timeout_get s = Some (Inr t, s1)"
    and c: "syscall (CSelect rp wp ep (if t \<ge> 0 then Some (timeval_of t) else None)) s1 = Some (Inr a, s')"
    and r: "\<exists>err. r = Inr err"
    by (fastforce simp: socket_waitfd_def act_bind_Some_iff Let_def syscall_Some timeout_get_no_error)
  have "wait_ok s1 (CSelect rp wp ep (if t \<ge> 0 then Some (timeval_of t) else None))"
    using timeout_get_went [OF t] by (rule_tac timeout_get_Some [OF t]) (auto simp: wait_ok_def went_def)
  with c have "went s1 s' [(CSelect rp wp ep (if t \<ge> 0 then Some (timeval_of t) else None), a)]"
    using syscall_went by fastforce
  from went_trans [OF timeout_get_went [OF t] this] r False show thesis
    by (elim exE, intro that) (auto simp: timeout_iszero_def)
qed


section \<open>The retry loop\<close>

text \<open>
  The body \<open>accept\<close>, \<open>send\<close>, \<open>sendto\<close>, \<open>recv\<close> and \<open>recvfrom\<close> share: call; when the result is
  final return it; when the error is not one to wait out return it; otherwise wait, and go
  round again if the wait succeeded. \<open>finished\<close> decides on the result of the call and \<open>again\<close>
  on its error; \<open>fail\<close> is the out-parameter's value on failure.
\<close>

function retry_loop ::
  "t_socket \<Rightarrow> call \<Rightarrow> waitfd \<Rightarrow> (sysres \<Rightarrow> (int \<times> 'r) option) \<Rightarrow> (int \<Rightarrow> bool) \<Rightarrow> 'r \<Rightarrow>
   'm tm_sys_scheme \<Rightarrow> ((lua_error + int \<times> 'r) \<times> 'm tm_sys_scheme) option" where
  "retry_loop ps c sw finished again fail s =
    (case syscall c s of
       Some (Inr r, s1) \<Rightarrow>
         (case finished r of
            Some result \<Rightarrow> Some (Inr result, s1)
          | None \<Rightarrow>
              if \<not> again (sr_err r) then Some (Inr (sr_err r, fail), s1)
              else (case socket_waitfd ps sw s1 of
                      Some (Inr err, s2) \<Rightarrow>
                        if err \<noteq> IO_DONE then Some (Inr (err, fail), s2)
                        else retry_loop ps c sw finished again fail s2
                    | _ \<Rightarrow> None))
     | _ \<Rightarrow> None)"
  by pat_completeness auto
termination
  by (relation "measure (\<lambda>(ps, c, sw, finished, again, fail, s). length (answers s))")
    (auto simp: syscall_Some elim!: socket_waitfd_run dest!: went_length)

declare retry_loop.simps [simp del]

text \<open>How a loop can end: it gave up, with nothing moved, or the last call was final. \<open>quiet\<close>
  calls move no bytes.\<close>

definition quiet :: "(call \<times> sysres) list \<Rightarrow> bool" where
  "quiet cs \<longleftrightarrow> accepted cs = [] \<and> delivered cs = []"

lemma quiet_append [simp]: "quiet (cs @ ds) \<longleftrightarrow> quiet cs \<and> quiet ds"
  by (auto simp: quiet_def)

definition loop_end ::
  "call \<Rightarrow> (sysres \<Rightarrow> (int \<times> 'r) option) \<Rightarrow> (int \<Rightarrow> bool) \<Rightarrow> 'r \<Rightarrow> int \<Rightarrow> 'r \<Rightarrow> (call \<times> sysres) list \<Rightarrow> bool" where
  "loop_end c finished again fail err x cs \<longleftrightarrow>
    x = fail \<and> quiet cs \<and>
      (err \<noteq> IO_DONE \<or> (\<exists>a. (c, a) \<in> set cs \<and> finished a = None \<and> \<not> again (sr_err a) \<and> sr_err a = err)) \<or>
    (\<exists>a pre. cs = pre @ [(c, a)] \<and> quiet pre \<and> finished a = Some (err, x))"

lemma loop_end_Cons: "quiet pre \<Longrightarrow> loop_end c finished again fail err x cs \<Longrightarrow>
    loop_end c finished again fail err x (pre @ cs)"
  unfolding loop_end_def by (elim disjE exE conjE) (auto simp del: append_assoc simp: append_assoc [symmetric])

lemma retry_loop_step:
  fixes s :: "'m tm_sys_scheme"
  assumes "retry_loop ps c sw finished again fail s = Some (r, s')"
    and "\<forall>a. finished a = None \<longrightarrow> quiet [(c, a)]" and "\<forall>s :: 'm tm_sys_scheme. wait_ok s c"
  shows "(\<exists>err x cs. r = Inr (err, x) \<and> went s s' cs \<and>
      loop_end c finished again fail err x cs) \<or>
    (\<exists>s2 pre. retry_loop ps c sw finished again fail s2 = Some (r, s') \<and> went s s2 pre \<and> pre \<noteq> [] \<and> quiet pre)"
proof -
  from assms(1) obtain a s1 where c: "syscall c s = Some (Inr a, s1)"
    by (subst (asm) retry_loop.simps) (auto split: option.splits sum.splits)
  then have s1: "went s s1 [(c, a)]" using syscall_went [OF c spec [OF assms(3)]] by simp
  consider (fin) res where "finished a = Some res" | (stop) "finished a = None" "\<not> again (sr_err a)"
    | (wait) "finished a = None" "again (sr_err a)" by (cases "finished a") auto
  then show ?thesis
  proof cases
    case fin
    with assms(1) c have "r = Inr res" "s' = s1" by (subst (asm) retry_loop.simps; simp)+
    with s1 fin show ?thesis by (cases res) (force simp: loop_end_def quiet_def)
  next
    case stop
    with assms(1) c have "r = Inr (sr_err a, fail)" "s' = s1" by (subst (asm) retry_loop.simps; simp)+
    moreover have "loop_end c finished again fail (sr_err a) fail [(c, a)]"
      using assms(2) stop(1) stop by (simp add: loop_end_def)
    ultimately show ?thesis using s1 by blast
  next
    case wait
    with assms(1) c obtain q s2 where w: "socket_waitfd ps sw s1 = Some (q, s2)"
      by (subst (asm) retry_loop.simps) (auto split: option.splits)
    from w obtain err ws where ws: "q = Inr err" "went s1 s2 ws" "accepted ws = []" "delivered ws = []"
      by (rule socket_waitfd_run)
    have s2: "went s s2 ([(c, a)] @ ws)" using went_trans [OF s1 ws(2)] by simp
    have out: "quiet ([(c, a)] @ ws)" using assms(2) wait(1) ws(3,4) by (simp add: quiet_def)
    show ?thesis
    proof (cases "err = IO_DONE")
      case False
      with assms(1) c wait w ws(1) have "r = Inr (err, fail)" "s' = s2"
        by (subst (asm) retry_loop.simps; simp)+
      moreover have "loop_end c finished again fail err fail ([(c, a)] @ ws)"
        using out False unfolding loop_end_def by simp
      ultimately show ?thesis using s2 by metis
    next
      case True
      with assms(1) c wait w ws(1) have "retry_loop ps c sw finished again fail s2 = Some (r, s')"
        by (subst (asm) retry_loop.simps) simp
      with s2 out show ?thesis by (metis append_Cons list.distinct(1))
    qed
  qed
qed

lemma retry_loop_run:
  fixes s :: "'m tm_sys_scheme"
  assumes "retry_loop ps c sw finished again fail s = Some (r, s')"
    and "\<forall>a. finished a = None \<longrightarrow> quiet [(c, a)]" and "\<forall>s :: 'm tm_sys_scheme. wait_ok s c"
  shows "\<exists>err x cs. r = Inr (err, x) \<and> went s s' cs \<and>
    loop_end c finished again fail err x cs"
  using assms(1)
proof (induction s rule: measure_induct_rule [where f = "\<lambda>s. length (answers s)"])
  case (less s)
  have "(\<exists>err x cs. r = Inr (err, x) \<and> went s s' cs \<and>
      loop_end c finished again fail err x cs) \<or>
    (\<exists>s2 pre. retry_loop ps c sw finished again fail s2 = Some (r, s') \<and> went s s2 pre \<and> pre \<noteq> [] \<and> quiet pre)"
    by (rule retry_loop_step [OF less.prems assms(2,3)])
  then show ?case
  proof (elim disjE)
    assume "\<exists>s2 pre. retry_loop ps c sw finished again fail s2 = Some (r, s') \<and> went s s2 pre \<and> pre \<noteq> [] \<and> quiet pre"
    then obtain s2 pre where s2: "retry_loop ps c sw finished again fail s2 = Some (r, s')" "went s s2 pre"
      "pre \<noteq> []" "quiet pre" by blast
    then have "length (answers s2) < length (answers s)" by (auto dest: went_length)
    from less.IH [OF this s2(1)] s2 show ?thesis by (metis loop_end_Cons went_trans)
  qed
qed


section \<open>Module and descriptors\<close>

text \<open>\<open>WSAStartup\<close> writes the version it grants, low byte first.\<close>

definition socket_open :: "('m sys_scheme, int) act" where
  "socket_open =
    act_bind (syscall CStartup) (\<lambda>r.
      if sr_ret r \<noteq> 0 then act_return 0
      else if sr_data r \<noteq> [2, 0] \<and> sr_data r \<noteq> [1, 1] then
        act_bind (syscall CCleanup) (\<lambda>_. act_return 0)
      else act_return 1)"

definition socket_close :: "('m sys_scheme, int) act" where
  "socket_close = act_bind (syscall CCleanup) (\<lambda>_. act_return 1)"

definition socket_setblocking :: "t_socket \<Rightarrow> ('m sys_scheme, unit) act" where
  "socket_setblocking ps = act_bind (syscall (CIoctl ps 0)) (\<lambda>_. act_return ())"

definition socket_setnonblocking :: "t_socket \<Rightarrow> ('m sys_scheme, unit) act" where
  "socket_setnonblocking ps = act_bind (syscall (CIoctl ps 1)) (\<lambda>_. act_return ())"

text \<open>Operations that change \<open>*ps\<close> return the new value.\<close>

definition socket_destroy :: "t_socket \<Rightarrow> ('m sys_scheme, t_socket) act" where
  "socket_destroy ps =
    (if ps \<noteq> SOCKET_INVALID then
       act_bind (socket_setblocking ps) (\<lambda>_.
       act_bind (syscall (CClose ps)) (\<lambda>_. act_return SOCKET_INVALID))
     else act_return ps)"

definition socket_shutdown :: "t_socket \<Rightarrow> int \<Rightarrow> ('m sys_scheme, unit) act" where
  "socket_shutdown ps how =
    act_bind (socket_setblocking ps) (\<lambda>_.
    act_bind (syscall (CShutdown ps how)) (\<lambda>_. socket_setnonblocking ps))"

definition socket_create :: "int \<Rightarrow> int \<Rightarrow> int \<Rightarrow> ('m sys_scheme, int \<times> t_socket) act" where
  "socket_create domain type protocol =
    act_bind (syscall (CSocket domain type protocol)) (\<lambda>r.
      let ps = of_int (sr_ret r) :: t_socket in
      act_return (if ps \<noteq> SOCKET_INVALID then IO_DONE else sr_err r, ps))"

definition int_of_bytes :: "bytes \<Rightarrow> int" where
  "int_of_bytes bs = sint (of_nat (le_val bs) :: u32)"

definition socket_connect :: "t_socket \<Rightarrow> bytes \<Rightarrow> ('m tm_sys_scheme, int) act" where
  "socket_connect ps addr =
    (if ps = SOCKET_INVALID then act_return IO_CLOSED
     else
       act_bind (syscall (CConnect ps addr)) (\<lambda>r.
         if sr_ret r = 0 then act_return IO_DONE
         else
           let err = sr_err r in
           if err \<noteq> WSAEWOULDBLOCK \<and> err \<noteq> WSAEINPROGRESS then act_return err
           else
             act_bind (act_get timeout_iszero) (\<lambda>zero.
               if zero then act_return IO_TIMEOUT
               else
                 act_bind (socket_waitfd ps WAITFD_C) (\<lambda>err.
                   if err = IO_CLOSED then
                     act_bind (syscall (CSleep 10)) (\<lambda>_.
                     act_bind (syscall (CGetsockopt ps SOL_SOCKET SO_ERROR)) (\<lambda>q.
                       let err = (if sr_ret q = 0 then int_of_bytes (sr_data q) else err)
                       in act_return (if err > 0 then err else IO_UNKNOWN)))
                   else act_return err))))"

definition socket_bind :: "t_socket \<Rightarrow> bytes \<Rightarrow> ('m sys_scheme, int) act" where
  "socket_bind ps addr =
    act_bind (socket_setblocking ps) (\<lambda>_.
    act_bind (syscall (CBind ps addr)) (\<lambda>r.
      let err = (if sr_ret r < 0 then sr_err r else IO_DONE) in
      act_bind (socket_setnonblocking ps) (\<lambda>_. act_return err)))"

definition socket_listen :: "t_socket \<Rightarrow> int \<Rightarrow> ('m sys_scheme, int) act" where
  "socket_listen ps backlog =
    act_bind (socket_setblocking ps) (\<lambda>_.
    act_bind (syscall (CListen ps backlog)) (\<lambda>r.
      let err = (if sr_ret r < 0 then sr_err r else IO_DONE) in
      act_bind (socket_setnonblocking ps) (\<lambda>_. act_return err)))"


section \<open>Transfers\<close>

definition socket_accept :: "t_socket \<Rightarrow> ('m tm_sys_scheme, int \<times> t_socket) act" where
  "socket_accept ps =
    (if ps = SOCKET_INVALID then act_return (IO_CLOSED, SOCKET_INVALID)
     else retry_loop ps (CAccept ps) WAITFD_R
       (\<lambda>r. let pa = of_int (sr_ret r) in if pa \<noteq> SOCKET_INVALID then Some (IO_DONE, pa) else None)
       (\<lambda>err. err = WSAEWOULDBLOCK \<or> err = WSAECONNABORTED) SOCKET_INVALID)"

definition socket_send :: "t_socket \<Rightarrow> bytes \<Rightarrow> ('m tm_sys_scheme, int \<times> nat) act" where
  "socket_send ps data =
    (if ps = SOCKET_INVALID then act_return (IO_CLOSED, 0)
     else retry_loop ps (CSend ps data) WAITFD_W
       (\<lambda>r. let put = sr_ret r in if put > 0 then Some (IO_DONE, nat put) else None)
       (\<lambda>err. err = WSAEWOULDBLOCK) 0)"

definition socket_sendto :: "t_socket \<Rightarrow> bytes \<Rightarrow> bytes \<Rightarrow> ('m tm_sys_scheme, int \<times> nat) act" where
  "socket_sendto ps data addr =
    (if ps = SOCKET_INVALID then act_return (IO_CLOSED, 0)
     else retry_loop ps (CSendto ps data addr) WAITFD_W
       (\<lambda>r. let put = sr_ret r in if put > 0 then Some (IO_DONE, nat put) else None)
       (\<lambda>err. err = WSAEWOULDBLOCK) 0)"

text \<open>The bytes at \<open>data\<close> up to \<open>*got\<close>.\<close>

definition socket_recv :: "t_socket \<Rightarrow> nat \<Rightarrow> ('m tm_sys_scheme, int \<times> bytes) act" where
  "socket_recv ps count =
    (if ps = SOCKET_INVALID then act_return (IO_CLOSED, [])
     else retry_loop ps (CRecv ps count) WAITFD_R
       (\<lambda>r. let taken = sr_ret r in
          if taken > 0 then Some (IO_DONE, take (nat taken) (sr_data r))
          else if taken = 0 then Some (IO_CLOSED, []) else None)
       (\<lambda>err. err = WSAEWOULDBLOCK) [])"

definition socket_recvfrom :: "t_socket \<Rightarrow> nat \<Rightarrow> ('m tm_sys_scheme, int \<times> bytes \<times> bytes) act" where
  "socket_recvfrom ps count =
    (if ps = SOCKET_INVALID then act_return (IO_CLOSED, [], [])
     else retry_loop ps (CRecvfrom ps count) WAITFD_R
       (\<lambda>r. let taken = sr_ret r in
          if taken > 0 then Some (IO_DONE, take (nat taken) (sr_data r), sr_addr r)
          else if taken = 0 then Some (IO_CLOSED, [], sr_addr r) else None)
       (\<lambda>err. err = WSAEWOULDBLOCK) ([], []))"


section \<open>Name service and error messages\<close>

definition socket_gethostbyaddr :: "bytes \<Rightarrow> ('m sys_scheme, int \<times> hostent option) act" where
  "socket_gethostbyaddr addr =
    act_bind (syscall (CGethostbyaddr addr)) (\<lambda>r.
      act_return (if sr_host r \<noteq> None then IO_DONE else sr_err r, sr_host r))"

definition socket_gethostbyname :: "bytes \<Rightarrow> ('m sys_scheme, int \<times> hostent option) act" where
  "socket_gethostbyname addr =
    act_bind (syscall (CGethostbyname addr)) (\<lambda>r.
      act_return (if sr_host r \<noteq> None then IO_DONE else sr_err r, sr_host r))"

definition wstrerror_table :: "(int \<times> string) list" where
  "wstrerror_table =
    [(10004, ''Interrupted function call''),
     (10013, ''Permission denied''),
     (10014, ''Bad address''),
     (10022, ''Invalid argument''),
     (10024, ''Too many open files''),
     (10035, ''Resource temporarily unavailable''),
     (10036, ''Operation now in progress''),
     (10037, ''Operation already in progress''),
     (10038, ''Socket operation on nonsocket''),
     (10039, ''Destination address required''),
     (10040, ''Message too long''),
     (10041, ''Protocol wrong type for socket''),
     (10042, ''Bad protocol option''),
     (10043, ''Protocol not supported''),
     (10044, ''Socket type not supported''),
     (10045, ''Operation not supported''),
     (10046, ''Protocol family not supported''),
     (10047, ''Address family not supported by protocol family''),
     (10048, ''Address already in use''),
     (10049, ''Cannot assign requested address''),
     (10050, ''Network is down''),
     (10051, ''Network is unreachable''),
     (10052, ''Network dropped connection on reset''),
     (10053, ''Software caused connection abort''),
     (10054, ''Connection reset by peer''),
     (10055, ''No buffer space available''),
     (10056, ''Socket is already connected''),
     (10057, ''Socket is not connected''),
     (10058, ''Cannot send after socket shutdown''),
     (10060, ''Connection timed out''),
     (10061, ''Connection refused''),
     (10064, ''Host is down''),
     (10065, ''No route to host''),
     (10067, ''Too many processes''),
     (10091, ''Network subsystem is unavailable''),
     (10092, ''Winsock.dll version out of range''),
     (10093, ''Successful WSAStartup not yet performed''),
     (10101, ''Graceful shutdown in progress''),
     (11001, ''Host not found''),
     (11002, ''Nonauthoritative host not found''),
     (11003, ''Nonrecoverable name lookup error''),
     (11004, ''Valid name, no data record of requested type'')]"

definition wstrerror :: "int \<Rightarrow> bytes" where
  "wstrerror err =
    (case map_of wstrerror_table err of Some m \<Rightarrow> lit m | None \<Rightarrow> lit ''Unknown error'')"

definition socket_hoststrerror :: "int \<Rightarrow> bytes option" where
  "socket_hoststrerror err =
    (if err \<le> 0 then io_strerror err
     else if err = WSAHOST_NOT_FOUND then Some (lit ''host not found'')
     else Some (wstrerror err))"

definition socket_strerror :: "int \<Rightarrow> bytes option" where
  "socket_strerror err =
    (if err \<le> 0 then io_strerror err
     else if err = WSAEADDRINUSE then Some (lit ''address already in use'')
     else if err = WSAECONNREFUSED then Some (lit ''connection refused'')
     else if err = WSAEISCONN then Some (lit ''already connected'')
     else if err = WSAEACCES then Some (lit ''permission denied'')
     else if err = WSAECONNABORTED then Some (lit ''closed'')
     else if err = WSAECONNRESET then Some (lit ''closed'')
     else if err = WSAETIMEDOUT then Some (lit ''timeout'')
     else Some (wstrerror err))"

definition socket_ioerror :: "t_socket \<Rightarrow> int \<Rightarrow> bytes option" where
  "socket_ioerror ps err = socket_strerror err"

text \<open>The \<open>EAI_\<close> codes of ws2tcpip.h; \<open>EAI_BADHINTS\<close> and \<open>EAI_PROTOCOL\<close> are not defined there.
  The fallback \<open>gai_strerrorA\<close> is a parameter.\<close>

definition socket_gaistrerror :: "(int \<Rightarrow> bytes) \<Rightarrow> int \<Rightarrow> bytes option" where
  "socket_gaistrerror gai_strerrorA err =
    (if err = 0 then None
     else if err = 11002 then Some (lit ''temporary failure in name resolution'')
     else if err = 10022 then Some (lit ''invalid value for ai_flags'')
     else if err = 11003 then Some (lit ''non-recoverable failure in name resolution'')
     else if err = 10047 then Some (lit ''ai_family not supported'')
     else if err = 8 then Some (lit ''memory allocation failure'')
     else if err = 11001 then Some (lit ''host or service not provided, or not known'')
     else if err = 10109 then Some (lit ''service not supported for socket type'')
     else if err = 10044 then Some (lit ''ai_socktype not supported'')
     else Some (gai_strerrorA err))"


section \<open>The socket as a stream driver\<close>

definition socket_io :: "t_socket \<Rightarrow> 'm tm_sys_scheme t_io" where
  "socket_io ps = io_init (socket_send ps) (socket_recv ps) (socket_ioerror ps)"

lemma socket_strerror_None: "socket_strerror err = None \<longleftrightarrow> err = IO_DONE"
  by (auto simp: socket_strerror_def io_strerror_def)

lemma wait_ok_other [simp]: "wait_ok s (CSend k d)" "wait_ok s (CRecv k n)" "wait_ok s (CSendto k d a)"
  "wait_ok s (CRecvfrom k n)" "wait_ok s (CAccept k)"
  by (simp_all add: wait_ok_def)

lemma socket_send_run:
  assumes "socket_send ps d s = Some (r, s')"
  shows "\<exists>err n cs. r = Inr (err, n) \<and> went s s' cs \<and>
    (d \<noteq> [] \<longrightarrow> list_all call_ok cs \<longrightarrow>
      n \<le> length d \<and> accepted cs = take n d \<and> delivered cs = [] \<and> (err = IO_DONE \<longleftrightarrow> 0 < n))"
proof (cases "ps = SOCKET_INVALID")
  case True
  with assms show ?thesis by (auto simp: socket_send_def intro!: exI [of _ "[]"])
next
  case False
  let ?fin = "\<lambda>r. let put = sr_ret r in if put > 0 then Some (IO_DONE, nat put) else None"
  from assms False have run: "retry_loop ps (CSend ps d) WAITFD_W ?fin (\<lambda>err. err = WSAEWOULDBLOCK) 0 s = Some (r, s')"
    by (simp add: socket_send_def)
  have q: "\<forall>a. ?fin a = None \<longrightarrow> quiet [(CSend ps d, a)]" by (auto simp: quiet_def Let_def split: if_splits)
  obtain err n cs where r: "r = Inr (err, n)" "went s s' cs"
    and e: "loop_end (CSend ps d) ?fin (\<lambda>err. err = WSAEWOULDBLOCK) 0 err n cs"
    using retry_loop_run [OF run q] by auto
  have "n \<le> length d \<and> accepted cs = take n d \<and> delivered cs = [] \<and> (err = IO_DONE \<longleftrightarrow> 0 < n)"
    if "d \<noteq> []" "list_all call_ok cs"
    using e that unfolding loop_end_def
    by (auto simp: quiet_def Let_def list_all_iff send_ok_def split: if_splits)
  with r show ?thesis by blast
qed

lemma socket_recv_run:
  assumes "socket_recv ps k s = Some (r, s')"
  shows "\<exists>err bs cs. r = Inr (err, bs) \<and> went s s' cs \<and>
    (0 < k \<longrightarrow> list_all call_ok cs \<longrightarrow>
      length bs \<le> k \<and> delivered cs = bs \<and> accepted cs = [] \<and> (err = IO_DONE \<longleftrightarrow> bs \<noteq> []))"
proof (cases "ps = SOCKET_INVALID")
  case True
  with assms show ?thesis by (auto simp: socket_recv_def intro!: exI [of _ "[]"])
next
  case False
  let ?fin = "\<lambda>r. let taken = sr_ret r in
          if taken > 0 then Some (IO_DONE, take (nat taken) (sr_data r))
          else if taken = 0 then Some (IO_CLOSED, []) else None"
  from assms False have run: "retry_loop ps (CRecv ps k) WAITFD_R ?fin (\<lambda>err. err = WSAEWOULDBLOCK) [] s = Some (r, s')"
    by (simp add: socket_recv_def)
  have q: "\<forall>a. ?fin a = None \<longrightarrow> quiet [(CRecv ps k, a)]" by (auto simp: quiet_def Let_def split: if_splits)
  obtain err bs cs where r: "r = Inr (err, bs)" "went s s' cs"
    and e: "loop_end (CRecv ps k) ?fin (\<lambda>err. err = WSAEWOULDBLOCK) [] err bs cs"
    using retry_loop_run [OF run q] by auto
  have "length bs \<le> k \<and> delivered cs = bs \<and> accepted cs = [] \<and> (err = IO_DONE \<longleftrightarrow> bs \<noteq> [])"
    if "0 < k" "list_all call_ok cs"
    using e that unfolding loop_end_def
    by (auto simp: quiet_def Let_def list_all_iff recv_ok_def split: if_splits)
  with r show ?thesis by blast
qed

interpretation socket_driver: stream_io "socket_io ps" for ps
proof unfold_locales
  show "io_error (socket_io ps) err = None \<longleftrightarrow> err = IO_DONE" for err
    by (simp add: socket_io_def io_init_def socket_ioerror_def socket_strerror_None)
qed (auto simp: socket_io_def io_init_def dest!: socket_send_run socket_recv_run)


lemma retry_loop_answers:
  "retry_loop ps c sw finished again fail s = Some (r, s') \<Longrightarrow> length (answers s') < length (answers s)"
proof (induction s rule: measure_induct_rule [where f = "\<lambda>s. length (answers s)"])
  case (less s)
  from less.prems obtain a s1 where c: "syscall c s = Some (Inr a, s1)"
    by (subst (asm) retry_loop.simps) (auto split: option.splits sum.splits)
  then have s1: "length (answers s1) < length (answers s)" by (auto simp: syscall_Some)
  show ?case
  proof (cases "socket_waitfd ps sw s1")
    case None
    with less.prems c s1 show ?thesis
      by (subst (asm) retry_loop.simps) (auto split: option.splits if_splits)
  next
    case (Some q)
    then obtain err s2 ws where w: "q = (Inr err, s2)" "went s1 s2 ws"
      by (cases q) (auto elim!: socket_waitfd_run)
    with s1 have "length (answers s2) < length (answers s)" by (auto dest: went_length)
    with less.IH [of s2] less.prems c s1 Some w(1) show ?thesis
      by (subst (asm) retry_loop.simps [of ps c sw finished again fail s])
        (auto split: option.splits if_splits)
  qed
qed


section \<open>Zero timeout and bounded waits\<close>

lemma retry_loop_zero:
  assumes "tm_block s = 0" "retry_loop ps c sw finished again fail s = Some (r, s')"
  shows "\<exists>a. ran s s' [(c, a)]"
  using assms by (subst (asm) retry_loop.simps)
    (auto simp: syscall_Some ran_def socket_waitfd_def timeout_iszero_def split: option.splits sum.splits if_splits)

lemma retry_loop_zero_returns:
  assumes "tm_block s = 0" "answers s \<noteq> []"
  shows "retry_loop ps c sw finished again fail s \<noteq> None"
proof -
  obtain a rs where "answers s = a # rs" using assms(2) by (cases "answers s") auto
  with assms(1) show ?thesis
    by (subst retry_loop.simps) (auto simp: syscall_def socket_waitfd_def timeout_iszero_def split: option.splits)
qed

lemma retry_loop_waits:
  fixes s :: "'m tm_sys_scheme"
  assumes "retry_loop ps c sw finished again fail s = Some (r, s')" "\<forall>s :: 'm tm_sys_scheme. wait_ok s c"
  shows "\<exists>cs. went s s' cs"
  using assms(1)
proof (induction s rule: measure_induct_rule [where f = "\<lambda>s. length (answers s)"])
  case (less s)
  from less.prems obtain a s1 where c: "syscall c s = Some (Inr a, s1)"
    by (subst (asm) retry_loop.simps) (auto split: option.splits sum.splits)
  then have s1: "went s s1 [(c, a)]" using syscall_went [OF c spec [OF assms(2)]] by simp
  show ?case
  proof (cases "finished a = None \<and> again (sr_err a)")
    case False
    with less.prems c have "s' = s1" by (subst (asm) retry_loop.simps) (auto split: option.splits if_splits)
    with s1 show ?thesis by blast
  next
    case True
    with less.prems c obtain q s2 where w: "socket_waitfd ps sw s1 = Some (q, s2)"
      by (subst (asm) retry_loop.simps) (auto split: option.splits)
    then obtain err ws where ws: "q = Inr err" "went s1 s2 ws" by (rule socket_waitfd_run)
    from went_trans [OF s1 ws(2)] have s2: "went s s2 ((c, a) # ws)" by simp
    show ?thesis
    proof (cases "err = IO_DONE")
      case False
      with less.prems c True w ws(1) have "s' = s2" by (subst (asm) retry_loop.simps) auto
      with s2 show ?thesis by blast
    next
      case again: True
      with less.prems c True w ws(1) have rec: "retry_loop ps c sw finished again fail s2 = Some (r, s')"
        by (subst (asm) retry_loop.simps) auto
      have "length (answers s2) < length (answers s)" using went_length [OF s2] by simp
      from less.IH [OF this rec] went_trans [OF s2] show ?thesis by blast
    qed
  qed
qed


section \<open>Properties\<close>

definition new_calls :: "'m sys_scheme \<Rightarrow> 'm sys_scheme \<Rightarrow> (call \<times> sysres) list" where
  "new_calls s s' = drop (length (trace s)) (trace s')"

lemma new_calls_went: "went s s' cs \<Longrightarrow> new_calls s s' = cs"
  by (simp add: went_def ran_def new_calls_def)

lemma new_calls_ran: "ran s s' cs \<Longrightarrow> new_calls s s' = cs"
  by (simp add: ran_def new_calls_def)

text \<open>C27: when the kernel answers as documented, what \<open>socket_send\<close> and \<open>socket_recv\<close> report is what
  happened, through any number of retries: \<open>*sent\<close> bytes, a prefix of the data, went into the
  kernel, some exactly when the code is \<open>IO_DONE\<close>; and the bytes returned are those the kernel
  delivered, at most \<open>count\<close>, some exactly when the code is \<open>IO_DONE\<close>.\<close>

theorem socket_transfer:
  assumes "d \<noteq> []" "0 < k"
  shows "(socket_send ps d s = Some (r, s') \<longrightarrow> list_all call_ok (new_calls s s') \<longrightarrow>
      (\<exists>err n. r = Inr (err, n) \<and> n \<le> length d \<and> accepted (new_calls s s') = take n d \<and>
         (err = IO_DONE \<longleftrightarrow> 0 < n))) \<and>
    (socket_recv ps k s = Some (q, s') \<longrightarrow> list_all call_ok (new_calls s s') \<longrightarrow>
      (\<exists>err bs. q = Inr (err, bs) \<and> length bs \<le> k \<and> delivered (new_calls s s') = bs \<and>
         (err = IO_DONE \<longleftrightarrow> bs \<noteq> [])))"
  using assms by (auto dest!: socket_send_run socket_recv_run simp: new_calls_went)

text \<open>With a block timeout of zero no transfer ever waits: with any answer from the kernel it
  returns after exactly one system call.\<close>

theorem zero_timeout_returns:
  assumes "tm_block s = 0" "answers s \<noteq> []" "ps \<noteq> SOCKET_INVALID"
  shows "(\<exists>r s' a. socket_send ps d s = Some (r, s') \<and> new_calls s s' = [(CSend ps d, a)]) \<and>
    (\<exists>r s' a. socket_recv ps k s = Some (r, s') \<and> new_calls s s' = [(CRecv ps k, a)]) \<and>
    (\<exists>r s' a. socket_accept ps s = Some (r, s') \<and> new_calls s s' = [(CAccept ps, a)])"
proof -
  have *: "\<exists>r s' a. retry_loop ps c sw finished again fail s = Some (r, s') \<and> new_calls s s' = [(c, a)]"
    for c sw and again and finished :: "sysres \<Rightarrow> (int \<times> 'x) option" and fail
    using retry_loop_zero_returns [OF assms(1,2), of ps c sw finished again fail]
      retry_loop_zero [OF assms(1), of ps c sw finished again fail]
    by (force dest: new_calls_ran)
  show ?thesis
    unfolding socket_send_def socket_recv_def socket_accept_def if_not_P [OF assms(3)]
    by (intro conjI; rule *)
qed

text \<open>C37: the time limits reach the kernel. Every wait of a transfer or an accept is asked for with
  a limit when the object has one, and never more than the block limit.\<close>

theorem waits_within_limits:
  "(socket_send ps d s = Some (r, s') \<longrightarrow> (\<forall>x \<in> set (new_calls s s'). wait_ok s (fst x))) \<and>
   (socket_recv ps k s = Some (q, s') \<longrightarrow> (\<forall>x \<in> set (new_calls s s'). wait_ok s (fst x))) \<and>
   (socket_accept ps s = Some (p, s') \<longrightarrow> (\<forall>x \<in> set (new_calls s s'). wait_ok s (fst x)))"
proof -
  have *: "\<forall>x \<in> set (new_calls s s'). wait_ok s (fst x)"
    if "ps \<noteq> SOCKET_INVALID \<Longrightarrow> retry_loop ps c sw finished again fail s = Some (r, s')"
      "ps = SOCKET_INVALID \<Longrightarrow> s' = s" "\<forall>s :: 'a tm_sys_scheme. wait_ok s c"
    for c sw and again and finished :: "sysres \<Rightarrow> (int \<times> 'x) option" and fail r
  proof (cases "ps = SOCKET_INVALID")
    case False
    from retry_loop_waits [OF that(1) [OF False] that(3)] obtain cs where "went s s' cs" by blast
    then show ?thesis using new_calls_went by (auto simp: went_def)
  qed (use that in \<open>simp add: new_calls_def\<close>)
  show ?thesis
    unfolding socket_send_def socket_recv_def socket_accept_def
    by (intro conjI impI; rule *) (auto split: if_splits)
qed

text \<open>A state to run the operations on: an object with these limits and this script.\<close>

definition tm_state :: "real \<Rightarrow> real \<Rightarrow> (u32 \<times> u32) list \<Rightarrow> sysres list \<Rightarrow> tm_sys" where
  "tm_state blk tot cl as = \<lparr>clock = cl, answers = as, trace = [], tm_block = blk, tm_total = tot, tm_start = 0\<rparr>"

definition ret :: "int \<Rightarrow> int \<Rightarrow> sysres" where
  "ret v err = \<lparr>sr_ret = v, sr_err = err, sr_data = [], sr_addr = [], sr_rfds = [], sr_wfds = [], sr_efds = [],
                sr_info = [], sr_host = None\<rparr>"

definition retry_script :: "sysres list" where
  "retry_script = [ret (- 1) WSAEWOULDBLOCK, ret 1 0, ret 2 0]"

lemma retry_script_run:
  "socket_send 7 [104, 101, 121] (tm_state 5 (- 1) [] retry_script) =
     Some (Inr (IO_DONE, 2), tm_state 5 (- 1) [] []
       \<lparr>trace := [(CSend 7 [104, 101, 121], ret (- 1) WSAEWOULDBLOCK),
                 (CSelect [] [7] [7] (Some (timeval_of 5)), ret 1 0), (CSend 7 [104, 101, 121], ret 2 0)]\<rparr>)"
  by (simp add: socket_send_def retry_loop.simps syscall_def tm_state_def retry_script_def ret_def
      socket_waitfd_def timeout_iszero_def waitfd_bits_def timeout_get_def act_bind_def)

theorem socket_transfer_witness:
  "\<exists>err n cs. accepted cs = take n [104, 101, 121] \<and> cs \<noteq> [] \<and> (err = IO_DONE \<longleftrightarrow> 0 < n) \<and> n = 2"
  using socket_transfer [THEN conjunct1, of "[104, 101, 121]" 1 7 "tm_state 5 (- 1) [] retry_script"] retry_script_run
  by (fastforce simp: new_calls_def tm_state_def list_all_iff send_ok_def ret_def)

theorem zero_timeout_returns_witness:
  "\<exists>r s' a. socket_recv 7 10 (tm_state 0 (- 1) [] [ret (- 1) WSAEWOULDBLOCK]) = Some (r, s') \<and>
     new_calls (tm_state 0 (- 1) [] [ret (- 1) WSAEWOULDBLOCK]) s' = [(CRecv 7 10, a)]"
  using zero_timeout_returns [of "tm_state 0 (- 1) [] [ret (- 1) WSAEWOULDBLOCK]" 7 "[]" 10]
  by (simp add: tm_state_def)

theorem waits_within_limits_witness:
  "wait_ok (tm_state 5 (- 1) [] retry_script) (CSelect [] [7] [7] (Some (timeval_of 5)))"
  using mp [OF waits_within_limits [THEN conjunct1] retry_script_run]
  by (simp add: new_calls_def tm_state_def)

end
