(* ===== verification/Buffer.thy ===== *)
theory Buffer
  imports WSocket
begin

text \<open>
  luasocket_buffer.c: the buffered reader and the writer on top of an I/O driver. Part of the
  object's state are the bytes read from the transport and not yet handed out,
  \<open>data[first..last-1]\<close>, and the transfer counters. The loops read until the driver reports
  something other than \<open>IO_DONE\<close>; one that is still waiting for the transport has no result.
\<close>

abbreviation BUF_SIZE :: nat where "BUF_SIZE \<equiv> 8192"
abbreviation STEPSIZE :: nat where "STEPSIZE \<equiv> 8192"

text \<open>\<open>t_buffer\<close>; its \<open>io\<close> and \<open>tm\<close> pointers are the driver argument of the operations and the
  timeout fields of the state. \<open>sent\<close> and \<open>received\<close> are \<open>size_t\<close> counters.\<close>

record buf_sys = tm_sys +
  buf_birthday :: real
  buf_sent :: u32
  buf_received :: u32
  buf_first :: nat
  buf_last :: nat
  buf_data :: bytes

type_synonym 'm buf_io = "'m buf_sys_scheme t_io"


section \<open>Object interface, without the transfers\<close>

definition buffer_init :: "('m buf_sys_scheme, unit) act" where
  "buffer_init =
    act_bind timeout_gettime (\<lambda>now.
      act_put (\<lambda>s. s\<lparr>buf_first := 0, buf_last := 0, buf_received := 0, buf_sent := 0, buf_birthday := now\<rparr>))"

definition buffer_meth_getstats :: "('m buf_sys_scheme, lua_value list) act" where
  "buffer_meth_getstats =
    act_bind (act_get buf_received) (\<lambda>r.
    act_bind (act_get buf_sent) (\<lambda>t.
    act_bind timeout_gettime (\<lambda>now.
    act_bind (act_get buf_birthday) (\<lambda>b.
      act_return [LNum (of_nat (unat r)), LNum (of_nat (unat t)), LNum (now - b)]))))"

text \<open>\<open>(long) x\<close> stored into a \<open>size_t\<close>.\<close>

definition buffer_meth_setstats :: "lua_vm \<Rightarrow> lua_value list \<Rightarrow> ('m buf_sys_scheme, lua_value list) act" where
  "buffer_meth_setstats vm args =
    act_bind (act_get (\<lambda>s. of_nat (unat (buf_received s)))) (\<lambda>old.
    act_bind (act_lua (luaL_optnumber vm args 2 old)) (\<lambda>x.
    act_bind (act_put (\<lambda>s. s\<lparr>buf_received := of_int (c_int x)\<rparr>)) (\<lambda>_.
    act_bind (act_get (\<lambda>s. of_nat (unat (buf_sent s)))) (\<lambda>old.
    act_bind (act_lua (luaL_optnumber vm args 3 old)) (\<lambda>x.
    act_bind (act_put (\<lambda>s. s\<lparr>buf_sent := of_int (c_int x)\<rparr>)) (\<lambda>_.
    act_bind
      (if lua_isnumber vm args 4 then
         act_bind timeout_gettime (\<lambda>now.
           act_put (\<lambda>s. s\<lparr>buf_birthday := now - lua_tonumber vm args 4\<rparr>))
       else act_return ())
      (\<lambda>_. act_return [LNum 1])))))))"

definition buffer_isempty :: "'m buf_sys_scheme \<Rightarrow> bool" where
  "buffer_isempty s \<longleftrightarrow> buf_first s \<ge> buf_last s"


section \<open>Internal functions\<close>

definition buffer_skip :: "nat \<Rightarrow> 'm buf_sys_scheme \<Rightarrow> 'm buf_sys_scheme" where
  "buffer_skip count s =
    (let s = s\<lparr>buf_received := buf_received s + of_nat count, buf_first := buf_first s + count\<rparr>
     in if buffer_isempty s then s\<lparr>buf_first := 0, buf_last := 0\<rparr> else s)"

text \<open>Returns the code and the bytes at \<open>*data\<close>, \<open>*count\<close> of them. What \<open>recv\<close> writes lands at the
  front of the storage.\<close>

definition buffer_get :: "'m buf_io \<Rightarrow> ('m buf_sys_scheme, int \<times> bytes) act" where
  "buffer_get io s =
    act_bind
      (if buffer_isempty s then
         act_bind (io_recv io BUF_SIZE) (\<lambda>(err, got).
         act_bind (act_put (\<lambda>s. s\<lparr>buf_first := 0, buf_last := length got, buf_data := memcpy_at (buf_data s) 0 got\<rparr>)) (\<lambda>_.
           act_return err))
       else act_return IO_DONE)
      (\<lambda>err. act_get (\<lambda>s. (err, take (buf_last s - buf_first s) (drop (buf_first s) (buf_data s))))) s"

partial_function (option) sendraw_loop ::
  "'m buf_io \<Rightarrow> bytes \<Rightarrow> nat \<Rightarrow> int \<Rightarrow> 'm buf_sys_scheme \<Rightarrow> ((lua_error + int \<times> nat) \<times> 'm buf_sys_scheme) option" where
  "sendraw_loop io d tot err s =
    (if tot < length d \<and> err = IO_DONE then
       let step = (if length d - tot \<le> STEPSIZE then length d - tot else STEPSIZE) in
       case io_send io (take step (drop tot d)) s of
         None \<Rightarrow> None
       | Some (Inl e, s1) \<Rightarrow> Some (Inl e, s1)
       | Some (Inr (err, n), s1) \<Rightarrow> sendraw_loop io d (tot + n) err s1
     else Some (Inr (err, tot), s))"

definition sendraw :: "'m buf_io \<Rightarrow> bytes \<Rightarrow> ('m buf_sys_scheme, int \<times> nat) act" where
  "sendraw io d =
    act_bind (sendraw_loop io d 0 IO_DONE) (\<lambda>(err, tot).
    act_bind (act_put (\<lambda>s. s\<lparr>buf_sent := buf_sent s + of_nat tot\<rparr>)) (\<lambda>_. act_return (err, tot)))"

text \<open>The receive loops append to the Lua buffer \<open>b\<close>; they return the code and \<open>b\<close>.\<close>

partial_function (option) recvraw ::
  "'m buf_io \<Rightarrow> nat \<Rightarrow> nat \<Rightarrow> bytes \<Rightarrow> 'm buf_sys_scheme \<Rightarrow> ((lua_error + int \<times> bytes) \<times> 'm buf_sys_scheme) option" where
  "recvraw io wanted tot b s =
    (case buffer_get io s of
       None \<Rightarrow> None
     | Some (Inl e, s1) \<Rightarrow> Some (Inl e, s1)
     | Some (Inr (err, d), s1) \<Rightarrow>
         let count = min (length d) (wanted - tot);
             b = b @ take count d;
             s2 = buffer_skip count s1;
             tot = tot + count
         in if tot \<ge> wanted then Some (Inr (err, b), s2)
            else if err = IO_DONE then recvraw io wanted tot b s2
            else Some (Inr (err, b), s2))"

partial_function (option) recvall ::
  "'m buf_io \<Rightarrow> nat \<Rightarrow> bytes \<Rightarrow> 'm buf_sys_scheme \<Rightarrow> ((lua_error + int \<times> bytes) \<times> 'm buf_sys_scheme) option" where
  "recvall io tot b s =
    (case buffer_get io s of
       None \<Rightarrow> None
     | Some (Inl e, s1) \<Rightarrow> Some (Inl e, s1)
     | Some (Inr (err, d), s1) \<Rightarrow>
         let tot = tot + length d; b = b @ d; s2 = buffer_skip (length d) s1 in
         if err = IO_DONE then recvall io tot b s2
         else if err = IO_CLOSED then Some (Inr (if tot > 0 then IO_DONE else IO_CLOSED, b), s2)
         else Some (Inr (err, b), s2))"

text \<open>The inner loop of \<open>recvline\<close>: the characters added to \<open>b\<close>, and \<open>pos\<close>.\<close>

fun line_scan :: "bytes \<Rightarrow> bytes \<times> nat" where
  "line_scan [] = ([], 0)"
| "line_scan (c # d) =
    (if c = 10 then ([], 0)
     else let (add, pos) = line_scan d in ((if c \<noteq> 13 then c # add else add), pos + 1))"

partial_function (option) recvline ::
  "'m buf_io \<Rightarrow> bytes \<Rightarrow> 'm buf_sys_scheme \<Rightarrow> ((lua_error + int \<times> bytes) \<times> 'm buf_sys_scheme) option" where
  "recvline io b s =
    (case buffer_get io s of
       None \<Rightarrow> None
     | Some (Inl e, s1) \<Rightarrow> Some (Inl e, s1)
     | Some (Inr (err, d), s1) \<Rightarrow>
         (case line_scan d of (add, pos) \<Rightarrow>
            let b = b @ add in
            if pos < length d then Some (Inr (err, b), buffer_skip (pos + 1) s1)
            else let s2 = buffer_skip pos s1 in
                 if err = IO_DONE then recvline io b s2 else Some (Inr (err, b), s2)))"


section \<open>The send and receive methods\<close>

definition push_error :: "bytes option \<Rightarrow> lua_value" where
  "push_error m = (case m of None \<Rightarrow> LNil | Some s \<Rightarrow> LStr s)"

text \<open>\<open>start\<close> and \<open>end\<close> are \<open>long\<close>s: a negative one counts from the end of the data, which is
  shorter than \<open>2 ^ 31\<close>.\<close>

definition send_start :: "int \<Rightarrow> int \<Rightarrow> int" where
  "send_start len start =
    (let start = (if start < 0 then len + start + 1 else start)
     in if start < 1 then 1 else start)"

definition send_end :: "int \<Rightarrow> int \<Rightarrow> int" where
  "send_end len stop =
    (let stop = (if stop < 0 then len + stop + 1 else stop)
     in if stop > len then len else stop)"

definition send_reply :: "(int \<Rightarrow> bytes option) \<Rightarrow> int \<Rightarrow> int \<times> nat \<Rightarrow> lua_value list" where
  "send_reply strerror start = (\<lambda>(err, n).
    let reached = LNum (of_int (int n + start - 1)) in
    if err \<noteq> IO_DONE then [LNil, push_error (strerror err), reached] else [reached, LNil, LNil])"

definition buffer_meth_send :: "lua_vm \<Rightarrow> 'm buf_io \<Rightarrow> lua_value list \<Rightarrow> ('m buf_sys_scheme, lua_value list) act" where
  "buffer_meth_send vm io args =
    act_bind (act_lua (luaL_checklstring vm args 2)) (\<lambda>d.
    act_bind (act_lua (luaL_optnumber vm args 3 1)) (\<lambda>x.
    act_bind (act_lua (luaL_optnumber vm args 4 (- 1))) (\<lambda>y.
      let start = send_start (int (length d)) (c_int x); stop = send_end (int (length d)) (c_int y) in
      act_bind
        (if start \<le> stop
         then sendraw io (take (nat (stop - start + 1)) (drop (nat (start - 1)) d))
         else act_return (IO_DONE, 0))
        (\<lambda>result. act_return (send_reply (io_error io) start result)))))"

definition receive_reply :: "(int \<Rightarrow> bytes option) \<Rightarrow> int \<times> bytes \<Rightarrow> lua_value list" where
  "receive_reply strerror = (\<lambda>(err, b).
    if err \<noteq> IO_DONE then [LNil, push_error (strerror err), LStr b] else [LStr b, LNil, LNil])"

definition buffer_meth_receive :: "lua_vm \<Rightarrow> 'm buf_io \<Rightarrow> lua_value list \<Rightarrow> ('m buf_sys_scheme, lua_value list) act" where
  "buffer_meth_receive vm io args =
    act_bind (act_lua (if lua_isnoneornil args 3 then Inr [] else luaL_checklstring vm args 3)) (\<lambda>part.
    act_bind
      (if \<not> lua_isnumber vm args 2 then
         act_bind (act_lua (luaL_optstring vm args 2 (lit ''*l''))) (\<lambda>p.
           if take 2 p = lit ''*l'' then recvline io part
           else if take 2 p = lit ''*a'' then recvall io 0 part
           else act_error (ArgError 2 (lit ''invalid receive pattern'')))
       else
         let n = lua_tonumber vm args 2; wanted = c_size n in
         if \<not> n \<ge> 0 then act_error (ArgError 2 (lit ''invalid receive pattern''))
         else if length part = 0 \<or> wanted > length part
         then recvraw io (nat ((int wanted - int (length part)) mod 2 ^ 32)) 0 part
         else act_return (IO_DONE, part))
      (\<lambda>result. act_return (receive_reply (io_error io) result)))"


section \<open>Facts\<close>

text \<open>The bytes read and not yet handed out, and the shape of the buffer.\<close>

definition unread :: "'m buf_sys_scheme \<Rightarrow> bytes" where
  "unread s = take (buf_last s - buf_first s) (drop (buf_first s) (buf_data s))"

definition buffer_inv :: "'m buf_sys_scheme \<Rightarrow> bool" where
  "buffer_inv s \<longleftrightarrow> buf_first s \<le> buf_last s \<and> buf_last s \<le> BUF_SIZE \<and> length (buf_data s) = BUF_SIZE"

text \<open>A run took the bytes \<open>b\<close> off the front of the stream: those still unread and those the
  transport delivered meanwhile.\<close>

definition took :: "'m buf_sys_scheme \<Rightarrow> 'm buf_sys_scheme \<Rightarrow> (call \<times> sysres) list \<Rightarrow> bytes \<Rightarrow> bool" where
  "took s s' cs b \<longleftrightarrow> ran s s' cs \<and>
    (buffer_inv s \<longrightarrow> list_all call_ok cs \<longrightarrow>
      buffer_inv s' \<and> b @ unread s' = unread s @ delivered cs \<and> accepted cs = [] \<and>
      buf_received s' = buf_received s + of_nat (length b) \<and> buf_sent s' = buf_sent s)"

lemma took_ran: "took s s' cs b \<Longrightarrow> ran s s' cs"
  by (simp add: took_def)

lemma took_trans: "took s s1 cs b \<Longrightarrow> took s1 s2 ds c \<Longrightarrow> took s s2 (cs @ ds) (b @ c)"
  unfolding took_def by (auto intro: ran_trans)

lemma buf_fields_of_went:
  fixes s s' :: "'m buf_sys_scheme"
  assumes "went s s' cs"
  shows "buf_first s' = buf_first s" "buf_last s' = buf_last s" "buf_data s' = buf_data s"
    "buf_received s' = buf_received s" "buf_sent s' = buf_sent s" "buf_birthday s' = buf_birthday s"
  using went_more [OF assms] by (cases s; cases s'; simp)+

lemma ran_upd [simp]:
  "ran s (s'\<lparr>buf_first := a, buf_last := b\<rparr>) cs = ran s s' cs"
  "ran s (s'\<lparr>buf_received := c, buf_first := a\<rparr>) cs = ran s s' cs"
  "ran s (s'\<lparr>buf_received := c, buf_first := a, buf_last := b\<rparr>) cs = ran s s' cs"
  "ran s (s'\<lparr>buf_first := a, buf_last := b, buf_data := d\<rparr>) cs = ran s s' cs"
  "ran s (s'\<lparr>buf_sent := c\<rparr>) cs = ran s s' cs"
  "ran s (s'\<lparr>buf_received := c\<rparr>) cs = ran s s' cs"
  by (simp_all add: ran_def)

lemma length_unread: "buffer_inv s \<Longrightarrow> length (unread s) = buf_last s - buf_first s"
  by (auto simp: unread_def buffer_inv_def)

lemma unread_skip:
  assumes "buffer_inv s" "k \<le> length (unread s)"
  shows "unread (buffer_skip k s) = drop k (unread s)" "buffer_inv (buffer_skip k s)"
  using assms(1) assms(2) [unfolded length_unread [OF assms(1)]]
  by (auto simp: buffer_skip_def Let_def buffer_isempty_def unread_def buffer_inv_def drop_take add.commute)

lemma buffer_skip_took:
  assumes "k \<le> length (unread s)"
  shows "took s (buffer_skip k s) [] (take k (unread s))"
proof -
  have "ran s (buffer_skip k s) [] \<and> buf_received (buffer_skip k s) = buf_received s + of_nat k \<and>
      buf_sent (buffer_skip k s) = buf_sent s"
    by (simp add: buffer_skip_def Let_def)
  with assms show ?thesis
    by (simp add: took_def unread_skip min_absorb2)
qed


lemma line_scan_eq:
  "line_scan d = (let l = takeWhile (\<lambda>x. x \<noteq> 10) d in (filter (\<lambda>x. x \<noteq> 13) l, length l))"
  by (induction d) (auto simp: Let_def)

lemma take_line:
  "length (takeWhile (\<lambda>x. x \<noteq> 10) d) < length d \<Longrightarrow>
    take (length (takeWhile (\<lambda>x. x \<noteq> 10) d) + 1) d = takeWhile (\<lambda>x. x \<noteq> 10) d @ [10]"
  by (induction d) auto


section \<open>Over any driver\<close>

text \<open>A driver that reports success used a system call: the loops make progress.\<close>

locale buf_stream = stream_io io for io :: "'m buf_sys_scheme t_io" +
  assumes send_progress: "io_send io d s = Some (Inr (IO_DONE, n), s') \<Longrightarrow> length (answers s') < length (answers s)"
    and recv_progress: "io_recv io k s = Some (Inr (IO_DONE, bs), s') \<Longrightarrow> length (answers s') < length (answers s)"

context buf_stream
begin

lemma buffer_get_run:
  assumes "buffer_get io s = Some (r, s')"
  obtains err cs where "r = Inr (err, unread s')" "took s s' cs []"
    "buffer_inv s \<Longrightarrow> list_all call_ok cs \<Longrightarrow> err = IO_DONE \<longleftrightarrow> unread s' \<noteq> []"
    "buffer_inv s \<Longrightarrow> err = IO_DONE \<Longrightarrow> s' = s \<and> unread s \<noteq> [] \<or> length (answers s') < length (answers s)"
proof (cases "buffer_isempty s")
  case False
  with assms have "r = Inr (IO_DONE, unread s)" "s' = s" by (auto simp: buffer_get_def unread_def)
  moreover have "unread s \<noteq> []" if "buffer_inv s"
    using False length_unread [OF that] by (auto simp: buffer_isempty_def)
  ultimately show thesis using that [of IO_DONE "[]"] by (auto simp: took_def)
next
  case True
  with assms obtain err bs s1 where io: "io_recv io BUF_SIZE s = Some (Inr (err, bs), s1)"
    and s': "s' = s1\<lparr>buf_first := 0, buf_last := length bs, buf_data := memcpy_at (buf_data s1) 0 bs\<rparr>"
      "r = Inr (err, unread s')"
    using recv_law by (fastforce simp: buffer_get_def act_bind_Some_iff unread_def)
  from recv_law [OF io] obtain cs where cs: "went s s1 cs"
    "list_all call_ok cs \<Longrightarrow> length bs \<le> BUF_SIZE \<and> delivered cs = bs \<and> accepted cs = [] \<and> (err = IO_DONE \<longleftrightarrow> bs \<noteq> [])"
    by fastforce
  have bs: "unread s' = bs" by (simp add: s' unread_def memcpy_at_0)
  have "unread s = []" using True by (simp add: unread_def buffer_isempty_def)
  moreover have "buffer_inv s'" if "buffer_inv s" "list_all call_ok cs"
    using that cs(2) buf_fields_of_went [OF cs(1)] by (auto simp: buffer_inv_def s' length_simps)
  ultimately have "took s s' cs []"
    using cs buf_fields_of_went [OF cs(1)] bs by (auto simp: took_def s' went_ran)
  moreover have "length (answers s') < length (answers s)" if "err = IO_DONE"
    using recv_progress io that by (auto simp: s')
  ultimately show thesis
    using cs(2) bs by (intro that [OF s'(2)]) auto
qed

lemma buffer_get_no_error: "buffer_get io s \<noteq> Some (Inl e, s')"
  by (auto elim!: buffer_get_run)

lemma recvraw_took:
  assumes "recvraw io wanted tot b s = Some (r, s')"
  shows "\<exists>err c cs. r = Inr (err, b @ c) \<and> took s s' cs c \<and>
      (buffer_inv s \<longrightarrow> list_all call_ok cs \<longrightarrow> tot \<le> wanted \<longrightarrow>
        tot + length c \<le> wanted \<and> (err = IO_DONE \<longrightarrow> tot + length c = wanted) \<and>
        (err \<noteq> IO_DONE \<longrightarrow> unread s' = [] \<and> (tot + length c < wanted \<or> wanted = tot)))"
    (is "?P wanted tot b s r s'")
proof -
  have "io = io \<longrightarrow> ?P wanted tot b s (fst (r, s')) (snd (r, s'))"
  proof (rule recvraw.raw_induct [where P = "\<lambda>io' w t b s q. io' = io \<longrightarrow> ?P w t b s (fst q) (snd q)", OF _ assms], rule impI)
    fix rec io' wanted tot b q and s :: "'m buf_sys_scheme"
    assume IH: "\<And>io' w t b s q. rec io' w t b s = Some q \<Longrightarrow> io' = io \<longrightarrow> ?P w t b s (fst q) (snd q)"
      and eq: "(case buffer_get io' s of None \<Rightarrow> None | Some (Inl e, s1) \<Rightarrow> Some (Inl e, s1)
       | Some (Inr (err, d), s1) \<Rightarrow>
         let count = min (length d) (wanted - tot); b = b @ take count d; s2 = buffer_skip count s1; tot = tot + count
         in if tot \<ge> wanted then Some (Inr (err, b), s2)
            else if err = IO_DONE then rec io' wanted tot b s2 else Some (Inr (err, b), s2)) = Some q"
      and io': "io' = io"
    from eq io' obtain r1 s1 where "buffer_get io s = Some (r1, s1)" by (auto split: option.splits)
    then obtain err cs where g: "buffer_get io s = Some (Inr (err, unread s1), s1)" "took s s1 cs []"
      "buffer_inv s \<Longrightarrow> list_all call_ok cs \<Longrightarrow> err = IO_DONE \<longleftrightarrow> unread s1 \<noteq> []"
      by (auto elim!: buffer_get_run)
    define k where "k = min (length (unread s1)) (wanted - tot)"
    have t: "took s (buffer_skip k s1) cs (take k (unread s1))"
      using took_trans [OF g(2) buffer_skip_took [of k s1]] by (simp add: k_def)
    show "?P wanted tot b s (fst q) (snd q)"
    proof (cases "tot + k \<ge> wanted \<or> err \<noteq> IO_DONE")
      case True
      with eq io' g(1) have q: "q = (Inr (err, b @ take k (unread s1)), buffer_skip k s1)"
        by (auto simp: k_def Let_def split: if_splits)
      have "tot \<le> wanted \<longrightarrow> tot + k \<le> wanted" by (auto simp: k_def min_def)
      moreover have "unread (buffer_skip k s1) = [] \<and> k = 0"
        if "buffer_inv s" "list_all call_ok cs" "err \<noteq> IO_DONE"
        using that g(2,3) by (auto simp: took_def unread_skip k_def)
      ultimately show ?thesis using t True k_def by (auto simp: q min_absorb2 intro!: exI [of _ cs])
    next
      case False
      with eq io' g(1) have "rec io wanted (tot + k) (b @ take k (unread s1)) (buffer_skip k s1) = Some q"
        by (auto simp: k_def Let_def split: if_splits)
      from mp [OF IH [OF this] refl] obtain err' c ds where
        c: "fst q = Inr (err', b @ take k (unread s1) @ c)" "took (buffer_skip k s1) (snd q) ds c" and
        e: "buffer_inv (buffer_skip k s1) \<Longrightarrow> list_all call_ok ds \<Longrightarrow> tot + k \<le> wanted \<Longrightarrow>
          tot + k + length c \<le> wanted \<and> (err' = IO_DONE \<longrightarrow> tot + k + length c = wanted) \<and>
          (err' \<noteq> IO_DONE \<longrightarrow> unread (snd q) = [] \<and> (tot + k + length c < wanted \<or> wanted = tot + k))"
        by auto
      have "k = length (take k (unread s1))" by (simp add: k_def)
      with e False took_trans [OF t c(2)] t show ?thesis
        by (auto simp: c(1) took_def intro!: exI [of _ "cs @ ds"])
    qed
  qed
  then show ?thesis by simp
qed

lemma recvall_took:
  assumes "recvall io tot b s = Some (r, s')"
  shows "\<exists>err c cs. r = Inr (err, b @ c) \<and> took s s' cs c \<and>
      (buffer_inv s \<longrightarrow> list_all call_ok cs \<longrightarrow> unread s' = [] \<and>
        (err = IO_DONE \<longrightarrow> 0 < tot + length c) \<and> (err = IO_CLOSED \<longrightarrow> tot + length c = 0))"
    (is "?P tot b s r s'")
proof -
  have "io = io \<longrightarrow> ?P tot b s (fst (r, s')) (snd (r, s'))"
  proof (rule recvall.raw_induct [where P = "\<lambda>io' t b s q. io' = io \<longrightarrow> ?P t b s (fst q) (snd q)", OF _ assms], rule impI)
    fix rec io' tot b q and s :: "'m buf_sys_scheme"
    assume IH: "\<And>io' t b s q. rec io' t b s = Some q \<Longrightarrow> io' = io \<longrightarrow> ?P t b s (fst q) (snd q)"
      and eq: "(case buffer_get io' s of None \<Rightarrow> None | Some (Inl e, s1) \<Rightarrow> Some (Inl e, s1)
       | Some (Inr (err, d), s1) \<Rightarrow>
         let tot = tot + length d; b = b @ d; s2 = buffer_skip (length d) s1 in
         if err = IO_DONE then rec io' tot b s2
         else if err = IO_CLOSED then Some (Inr (if tot > 0 then IO_DONE else IO_CLOSED, b), s2)
         else Some (Inr (err, b), s2)) = Some q"
      and io': "io' = io"
    from eq io' obtain r1 s1 where "buffer_get io s = Some (r1, s1)" by (auto split: option.splits)
    then obtain err cs where g: "buffer_get io s = Some (Inr (err, unread s1), s1)" "took s s1 cs []"
      "buffer_inv s \<Longrightarrow> list_all call_ok cs \<Longrightarrow> err = IO_DONE \<longleftrightarrow> unread s1 \<noteq> []"
      by (auto elim!: buffer_get_run)
    have t: "took s (buffer_skip (length (unread s1)) s1) cs (unread s1)"
      using took_trans [OF g(2) buffer_skip_took [of "length (unread s1)" s1]] by simp
    show "?P tot b s (fst q) (snd q)"
    proof (cases "err = IO_DONE")
      case False
      have "unread (buffer_skip (length (unread s1)) s1) = []" if "buffer_inv s" "list_all call_ok cs"
        using that g(2) by (auto simp: took_def unread_skip)
      with eq io' g(1) False t show ?thesis
        by (auto simp: Let_def split: if_splits intro!: exI [of _ cs])
    next
      case True
      with eq io' g(1) have "rec io (tot + length (unread s1)) (b @ unread s1) (buffer_skip (length (unread s1)) s1) = Some q"
        by (auto simp: Let_def)
      from mp [OF IH [OF this] refl] obtain err' c ds where
        c: "fst q = Inr (err', b @ unread s1 @ c)" "took (buffer_skip (length (unread s1)) s1) (snd q) ds c" and
        e: "buffer_inv (buffer_skip (length (unread s1)) s1) \<Longrightarrow> list_all call_ok ds \<Longrightarrow> unread (snd q) = [] \<and>
          (err' = IO_DONE \<longrightarrow> 0 < tot + length (unread s1) + length c) \<and>
          (err' = IO_CLOSED \<longrightarrow> tot + length (unread s1) + length c = 0)"
        by auto
      from e took_trans [OF t c(2)] t show ?thesis
        by (auto simp: c(1) took_def intro!: exI [of _ "cs @ ds"])
    qed
  qed
  then show ?thesis by simp
qed

lemma recvline_took:
  assumes "recvline io b s = Some (r, s')"
  shows "\<exists>err l c cs. r = Inr (err, b @ filter (\<lambda>x. x \<noteq> 13) l) \<and> took s s' cs c \<and> 10 \<notin> set l \<and>
      (buffer_inv s \<longrightarrow> list_all call_ok cs \<longrightarrow>
        (err = IO_DONE \<longrightarrow> c = l @ [10]) \<and> (err \<noteq> IO_DONE \<longrightarrow> c = l \<and> unread s' = []))"
    (is "?P b s r s'")
proof -
  have "io = io \<longrightarrow> ?P b s (fst (r, s')) (snd (r, s'))"
  proof (rule recvline.raw_induct [where P = "\<lambda>io' b s q. io' = io \<longrightarrow> ?P b s (fst q) (snd q)", OF _ assms], rule impI)
    fix rec io' b q and s :: "'m buf_sys_scheme"
    assume IH: "\<And>io' b s q. rec io' b s = Some q \<Longrightarrow> io' = io \<longrightarrow> ?P b s (fst q) (snd q)"
      and eq: "(case buffer_get io' s of None \<Rightarrow> None | Some (Inl e, s1) \<Rightarrow> Some (Inl e, s1)
       | Some (Inr (err, d), s1) \<Rightarrow>
         (case line_scan d of (add, pos) \<Rightarrow>
            let b = b @ add in
            if pos < length d then Some (Inr (err, b), buffer_skip (pos + 1) s1)
            else let s2 = buffer_skip pos s1 in
                 if err = IO_DONE then rec io' b s2 else Some (Inr (err, b), s2))) = Some q"
      and io': "io' = io"
    from eq io' obtain r1 s1 where "buffer_get io s = Some (r1, s1)" by (auto split: option.splits)
    then obtain err cs where g: "buffer_get io s = Some (Inr (err, unread s1), s1)" "took s s1 cs []"
      "buffer_inv s \<Longrightarrow> list_all call_ok cs \<Longrightarrow> err = IO_DONE \<longleftrightarrow> unread s1 \<noteq> []"
      by (auto elim!: buffer_get_run)
    define l where "l = takeWhile (\<lambda>x. x \<noteq> 10) (unread s1)"
    have l: "10 \<notin> set l" by (auto simp: l_def dest: set_takeWhileD)
    have scan: "line_scan (unread s1) = (filter (\<lambda>x. x \<noteq> 13) l, length l)"
      by (simp add: l_def line_scan_eq Let_def)
    have t: "took s (buffer_skip k s1) cs (take k (unread s1))" if "k \<le> length (unread s1)" for k
      using took_trans [OF g(2) buffer_skip_took [OF that]] by simp
    show "?P b s (fst q) (snd q)"
    proof (cases "length l < length (unread s1)")
      case True
      then have "take (length l + 1) (unread s1) = l @ [10]"
        unfolding l_def by (rule take_line)
      moreover have "unread s1 \<noteq> []" using True by auto
      moreover have "q = (Inr (err, b @ filter (\<lambda>x. x \<noteq> 13) l), buffer_skip (length l + 1) s1)"
        using eq io' g(1) True by (simp add: scan)
      ultimately show ?thesis
        using g(3) True t [of "length l + 1"] l
        by (intro exI [of _ err] exI [of _ l] exI [of _ "l @ [10]"] exI [of _ cs]) auto
    next
      case False
      have "length l \<le> length (unread s1)" by (simp add: l_def length_takeWhile_le)
      with False have len: "length l = length (unread s1)" by simp
      then have all: "l = unread s1" unfolding l_def by (metis takeWhile_eq_take take_all order_refl)
      have t: "took s (buffer_skip (length l) s1) cs l" using t [of "length l"] by (simp add: all)
      show ?thesis
      proof (cases "err = IO_DONE")
        case e: False
        have "unread (buffer_skip (length l) s1) = []" if "buffer_inv s" "list_all call_ok cs"
          using that g(2) by (auto simp: took_def unread_skip all)
        moreover have "q = (Inr (err, b @ filter (\<lambda>x. x \<noteq> 13) l), buffer_skip (length l) s1)"
          using eq io' g(1) e False by (simp add: scan)
        ultimately show ?thesis using e t l
          by (intro exI [of _ err] exI [of _ l] exI [of _ l] exI [of _ cs]) auto
      next
        case True
        with eq io' g(1) False have "rec io (b @ filter (\<lambda>x. x \<noteq> 13) l) (buffer_skip (length l) s1) = Some q"
          by (auto simp: Let_def scan)
        from mp [OF IH [OF this] refl] obtain err' l' c ds where
          c: "fst q = Inr (err', b @ filter (\<lambda>x. x \<noteq> 13) (l @ l'))" "took (buffer_skip (length l) s1) (snd q) ds c"
            "10 \<notin> set l'" and
          e: "buffer_inv (buffer_skip (length l) s1) \<Longrightarrow> list_all call_ok ds \<Longrightarrow>
            (err' = IO_DONE \<longrightarrow> c = l' @ [10]) \<and> (err' \<noteq> IO_DONE \<longrightarrow> c = l' \<and> unread (snd q) = [])"
          by auto
        from e took_trans [OF t c(2)] t l c(3) show ?thesis
          unfolding c(1) by (intro exI [of _ err'] exI [of _ "l @ l'"] exI [of _ "l @ c"] exI [of _ "cs @ ds"]) (auto simp: took_def)
      qed
    qed
  qed
  then show ?thesis by simp
qed

lemma sendraw_loop_went:
  assumes "sendraw_loop io d tot err s = Some (r, s')"
  shows "\<exists>err' n cs. r = Inr (err', n) \<and> went s s' cs \<and>
      (list_all call_ok cs \<longrightarrow> tot \<le> length d \<longrightarrow> (err = IO_DONE \<or> tot < length d) \<longrightarrow>
        tot \<le> n \<and> n \<le> length d \<and> accepted cs = take (n - tot) (drop tot d) \<and> delivered cs = [] \<and>
        (err' = IO_DONE \<longleftrightarrow> n = length d))"
    (is "?P d tot err s r s'")
proof -
  have "io = io \<longrightarrow> ?P d tot err s (fst (r, s')) (snd (r, s'))"
  proof (rule sendraw_loop.raw_induct [where P = "\<lambda>io' d t e s q. io' = io \<longrightarrow> ?P d t e s (fst q) (snd q)", OF _ assms], rule impI)
    fix rec io' d tot err q and s :: "'m buf_sys_scheme"
    assume IH: "\<And>io' d t e s q. rec io' d t e s = Some q \<Longrightarrow> io' = io \<longrightarrow> ?P d t e s (fst q) (snd q)"
      and eq: "(if tot < length d \<and> err = IO_DONE then
         let step = (if length d - tot \<le> STEPSIZE then length d - tot else STEPSIZE) in
         case io_send io' (take step (drop tot d)) s of None \<Rightarrow> None | Some (Inl e, s1) \<Rightarrow> Some (Inl e, s1)
         | Some (Inr (err, n), s1) \<Rightarrow> rec io' d (tot + n) err s1
       else Some (Inr (err, tot), s)) = Some q"
      and io': "io' = io"
    show "?P d tot err s (fst q) (snd q)"
    proof (cases "tot < length d \<and> err = IO_DONE")
      case False
      with eq have "q = (Inr (err, tot), s)" by auto
      with False show ?thesis by (auto intro!: exI [of _ "[]"])
    next
      case True
      define step where "step = (if length d - tot \<le> STEPSIZE then length d - tot else STEPSIZE)"
      have step: "take step (drop tot d) \<noteq> []" "step \<le> length d - tot"
        using True by (auto simp: step_def)
      from eq io' True obtain r1 s1 where io1: "io_send io (take step (drop tot d)) s = Some (r1, s1)"
        unfolding if_P [OF True] Let_def step_def [symmetric] by (auto split: option.splits)
      from send_law [OF this] step obtain err1 n1 cs where g: "r1 = Inr (err1, n1)" "went s s1 cs" and
        ok: "list_all call_ok cs \<Longrightarrow> n1 \<le> step \<and> accepted cs = take n1 (drop tot d) \<and>
          delivered cs = [] \<and> (err1 = IO_DONE \<longleftrightarrow> 0 < n1)"
        by (auto simp: min_absorb2)
      from eq io' True io1 g(1) have "rec io d (tot + n1) err1 s1 = Some q"
        unfolding if_P [OF True] Let_def step_def [symmetric] by simp
      from mp [OF IH [OF this] refl] obtain err' n ds where
        r: "fst q = Inr (err', n)" "went s1 (snd q) ds" and
        e: "list_all call_ok ds \<Longrightarrow> tot + n1 \<le> length d \<Longrightarrow> err1 = IO_DONE \<or> tot + n1 < length d \<Longrightarrow>
          tot + n1 \<le> n \<and> n \<le> length d \<and> accepted ds = take (n - (tot + n1)) (drop (tot + n1) d) \<and>
          delivered ds = [] \<and> (err' = IO_DONE \<longleftrightarrow> n = length d)"
        by auto
      have "tot \<le> n \<and> n \<le> length d \<and> accepted (cs @ ds) = take (n - tot) (drop tot d) \<and>
          delivered (cs @ ds) = [] \<and> (err' = IO_DONE \<longleftrightarrow> n = length d)"
        if "list_all call_ok (cs @ ds)"
      proof -
        from that ok step(2) True have 1: "n1 \<le> step" "tot + n1 \<le> length d" "err1 = IO_DONE \<or> tot + n1 < length d"
          by auto
        with that e ok have 2: "tot + n1 \<le> n" "n \<le> length d" "accepted ds = take (n - (tot + n1)) (drop (tot + n1) d)"
          "accepted cs = take n1 (drop tot d)" by auto
        from 2(1) have n: "n - tot = n1 + (n - (tot + n1))" by simp
        have "accepted (cs @ ds) = take (n - tot) (drop tot d)"
          unfolding n take_add using 2 by (simp add: add.commute)
        with that 1 2 e ok show ?thesis by auto
      qed
      with r went_trans [OF g(2) r(2)] show ?thesis by (auto intro!: exI [of _ "cs @ ds"])
    qed
  qed
  then show ?thesis by simp
qed

lemma sendraw_run:
  assumes "sendraw io d s = Some (r, s')"
  shows "\<exists>err n cs. r = Inr (err, n) \<and> ran s s' cs \<and> buffer_inv s' = buffer_inv s \<and> unread s' = unread s \<and>
    buf_received s' = buf_received s \<and> buf_sent s' = buf_sent s + of_nat n \<and>
    (list_all call_ok cs \<longrightarrow> n \<le> length d \<and> accepted cs = take n d \<and> delivered cs = [] \<and>
      (err = IO_DONE \<longleftrightarrow> n = length d))"
proof -
  from assms obtain r1 s1 where 1: "sendraw_loop io d 0 IO_DONE s = Some (r1, s1)"
    by (auto simp: sendraw_def act_bind_Some_iff)
  from sendraw_loop_went [OF 1] obtain err n cs where 2: "r1 = Inr (err, n)" "went s s1 cs"
    "list_all call_ok cs \<Longrightarrow> n \<le> length d \<and> accepted cs = take n d \<and> delivered cs = [] \<and> (err = IO_DONE \<longleftrightarrow> n = length d)"
    by auto
  from assms 1 2(1) have "r = Inr (err, n)" "s' = s1\<lparr>buf_sent := buf_sent s1 + of_nat n\<rparr>"
    by (auto simp: sendraw_def act_bind_Some_iff)
  with 2 buf_fields_of_went [OF 2(2)] show ?thesis
    by (auto simp: went_ran buffer_inv_def unread_def intro!: exI [of _ cs])
qed

end


section \<open>Receives return\<close>

text \<open>What is left of the script ends in \<open>zs\<close>; before that, every answer's data fits the buffer, and the
  clock has a reading for every answer.\<close>

definition ends_in :: "sysres list \<Rightarrow> 'm sys_scheme \<Rightarrow> bool" where
  "ends_in zs s \<longleftrightarrow> (\<exists>as. answers s = as @ zs \<and> (\<forall>x \<in> set as. length (sr_data x) \<le> BUF_SIZE) \<and> length as \<le> length (clock s))"

definition ticking :: "sysres list \<Rightarrow> 'm sys_scheme \<Rightarrow> bool" where
  "ticking zs s \<longleftrightarrow> (\<exists>as. answers s = as @ zs \<and> (\<forall>x \<in> set as. length (sr_data x) \<le> BUF_SIZE) \<and> length as < length (clock s))"

lemma ticking_ends_in: "ticking zs s \<Longrightarrow> ends_in zs s"
  by (auto simp: ticking_def ends_in_def)

lemma ends_in_tail: "ends_in (a # rest) s \<Longrightarrow> \<exists>as. answers s = as @ rest"
  by (force simp: ends_in_def)

lemma syscall_ends:
  assumes "ends_in (a # rest) s"
  obtains (stop) s1 where "syscall c s = Some (Inr a, s1)" "answers s1 = rest"
    | (go) x s1 where "syscall c s = Some (Inr x, s1)" "ticking (a # rest) s1" "length (sr_data x) \<le> BUF_SIZE"
        "length (answers s1) < length (answers s)"
proof -
  from assms obtain as where as: "answers s = as @ a # rest" "\<forall>x \<in> set as. length (sr_data x) \<le> BUF_SIZE"
    "length as \<le> length (clock s)" by (auto simp: ends_in_def)
  show thesis
  proof (cases as)
    case Nil
    with as stop show thesis by (simp add: syscall_def)
  next
    case (Cons x xs)
    with as show thesis by (intro go) (auto simp: syscall_def ticking_def)
  qed
qed

lemma timeout_get_ends:
  assumes "ticking zs s"
  shows "\<exists>t s1. timeout_get s = Some (Inr t, s1) \<and> ends_in zs s1 \<and> answers s1 = answers s"
proof -
  from assms obtain as c cs where as: "answers s = as @ zs" "\<forall>x \<in> set as. length (sr_data x) \<le> BUF_SIZE"
    "clock s = c # cs" "length as \<le> length cs"
    by (cases "clock s") (auto simp: ticking_def)
  then show ?thesis
    by (auto simp: timeout_get_def timeout_gettime_def read_clock_def act_bind_def Let_def ends_in_def)
qed

text \<open>An answer 0 is the end of the stream for a \<open>recv\<close>, and the end of the time for a wait.\<close>

lemma waitfd_ends:
  assumes "ticking (a # rest) s" "sr_ret a = 0"
  shows "\<exists>err s1. socket_waitfd ps sw s = Some (Inr err, s1) \<and> (err = IO_DONE \<longrightarrow> ends_in (a # rest) s1) \<and>
    (\<exists>as. answers s1 = as @ rest) \<and> length (answers s1) \<le> length (answers s)"
proof (cases "timeout_iszero s")
  case True
  then show ?thesis using ends_in_tail [OF ticking_ends_in [OF assms(1)]] by (simp add: socket_waitfd_def)
next
  case False
  obtain t s1 where t: "timeout_get s = Some (Inr t, s1)" "ends_in (a # rest) s1" "answers s1 = answers s"
    using timeout_get_ends [OF assms(1)] by blast
  let ?c = "CSelect (if waitfd_bits sw AND 1 \<noteq> 0 then [ps] else []) (if waitfd_bits sw AND 2 \<noteq> 0 then [ps] else [])
    (if waitfd_bits sw AND 6 \<noteq> 0 then [ps] else []) (if t \<ge> 0 then Some (timeval_of t) else None)"
  from t(2) show ?thesis
  proof (cases rule: syscall_ends [where c = ?c])
    case (stop s2)
    then have "socket_waitfd ps sw s = Some (Inr IO_TIMEOUT, s2)"
      using False t(1) assms(2) by (simp add: socket_waitfd_def Let_def)
    with stop(2) t(2,3) show ?thesis by (auto simp: ends_in_def)
  next
    case (go x s2)
    then obtain err where "socket_waitfd ps sw s = Some (Inr err, s2)"
      using False t(1) by (simp add: socket_waitfd_def Let_def)
    with go(2,4) t(3) ticking_ends_in ends_in_tail show ?thesis by (metis less_imp_le)
  qed
qed

lemma retry_ends:
  assumes "sr_ret a = 0" "finished a = Some (e, y)" "e \<noteq> IO_DONE" "P y" "P fail"
    and "\<And>x e y. length (sr_data x) \<le> BUF_SIZE \<Longrightarrow> finished x = Some (e, y) \<Longrightarrow> P y"
    and "ends_in (a # rest) s"
  shows "\<exists>err x s1. retry_loop ps c sw finished again fail s = Some (Inr (err, x), s1) \<and> P x \<and>
    (err = IO_DONE \<longrightarrow> ends_in (a # rest) s1) \<and> (\<exists>as. answers s1 = as @ rest)"
  using assms(7)
proof (induction s rule: measure_induct_rule [where f = "\<lambda>s. length (answers s)"])
  case (less s)
  from less.prems show ?case
  proof (cases rule: syscall_ends [where c = c])
    case (stop s1)
    then show ?thesis using assms(2-4) by (subst retry_loop.simps) auto
  next
    case (go x s1)
    note e1 = ticking_ends_in [OF go(2)]
    show ?thesis
    proof (cases "finished x")
      case (Some q)
      obtain e' y' where q: "q = (e', y')" by (cases q)
      then have "retry_loop ps c sw finished again fail s = Some (Inr (e', y'), s1)"
        using Some go(1) by (subst retry_loop.simps) simp
      with assms(6) [OF go(3)] Some q e1 ends_in_tail [OF e1] show ?thesis by blast
    next
      case None
      show ?thesis
      proof (cases "again (sr_err x)")
        case False
        then have "retry_loop ps c sw finished again fail s = Some (Inr (sr_err x, fail), s1)"
          using None go(1) by (subst retry_loop.simps) simp
        with assms(5) e1 ends_in_tail [OF e1] show ?thesis by blast
      next
        case True
        obtain err s2 where w: "socket_waitfd ps sw s1 = Some (Inr err, s2)" "err = IO_DONE \<longrightarrow> ends_in (a # rest) s2"
          "\<exists>as. answers s2 = as @ rest" "length (answers s2) \<le> length (answers s1)"
          using waitfd_ends [OF go(2) assms(1)] by blast
        show ?thesis
        proof (cases "err = IO_DONE")
          case False
          then have "retry_loop ps c sw finished again fail s = Some (Inr (err, fail), s2)"
            using None go(1) True w(1) by (subst retry_loop.simps) simp
          with False w(3) assms(5) show ?thesis by blast
        next
          case over: True
          then have "retry_loop ps c sw finished again fail s = retry_loop ps c sw finished again fail s2"
            using None go(1) True w(1) by (subst retry_loop.simps) simp
          with less.IH [of s2] w(2,4) go(4) over show ?thesis by simp
        qed
      qed
    qed
  qed
qed

text \<open>A driver whose \<open>recv\<close> returns once the answer 0 comes.\<close>

locale ending_stream = buf_stream io for io :: "'m buf_sys_scheme t_io" +
  assumes recv_ends: "ends_in (a # rest) s \<Longrightarrow> sr_ret a = 0 \<Longrightarrow>
    \<exists>err bs s1. io_recv io BUF_SIZE s = Some (Inr (err, bs), s1) \<and> length bs \<le> BUF_SIZE \<and>
      (err = IO_DONE \<longrightarrow> ends_in (a # rest) s1) \<and> (\<exists>as. answers s1 = as @ rest)"

context ending_stream
begin

lemma get_ends:
  assumes "ends_in (a # rest) s" "sr_ret a = 0" "buffer_inv s"
  shows "\<exists>err s1. buffer_get io s = Some (Inr (err, unread s1), s1) \<and> buffer_inv s1 \<and> (\<exists>as. answers s1 = as @ rest) \<and>
    (err = IO_DONE \<longrightarrow> ends_in (a # rest) s1 \<and> (s1 = s \<and> unread s \<noteq> [] \<or> length (answers s1) < length (answers s)))"
proof (cases "buffer_isempty s")
  case False
  then have "buffer_get io s = Some (Inr (IO_DONE, unread s), s)" by (simp add: buffer_get_def unread_def)
  moreover have "unread s \<noteq> []" using False length_unread [OF assms(3)] by (auto simp: buffer_isempty_def)
  ultimately show ?thesis using assms ends_in_tail by blast
next
  case True
  obtain err bs s1 where io: "io_recv io BUF_SIZE s = Some (Inr (err, bs), s1)" "length bs \<le> BUF_SIZE"
    "err = IO_DONE \<longrightarrow> ends_in (a # rest) s1" "\<exists>as. answers s1 = as @ rest"
    using recv_ends [OF assms(1,2)] by blast
  let ?s = "s1\<lparr>buf_first := 0, buf_last := length bs, buf_data := memcpy_at (buf_data s1) 0 bs\<rparr>"
  have u: "unread ?s = bs" by (simp add: unread_def memcpy_at_0)
  have "buffer_get io s = Some (Inr (err, unread ?s), ?s)"
    using True io(1) unfolding u by (simp add: buffer_get_def memcpy_at_0)
  moreover have "buffer_inv ?s"
    using recv_law [OF io(1)] buf_fields_of_went [of s s1] assms(3) io(2) by (auto simp: buffer_inv_def length_simps)
  moreover have "length (answers s1) < length (answers s)" if "err = IO_DONE"
    using recv_progress io(1) that by blast
  ultimately show ?thesis using io(3,4) by (intro exI [of _ err] exI [of _ ?s]) (auto simp: ends_in_def)
qed

text \<open>Work left: the answers, and the bytes in the buffer.\<close>

definition work :: "'m buf_sys_scheme \<Rightarrow> nat" where
  "work s = 2 * length (answers s) + (if unread s = [] then 0 else 1)"

lemma skip_ends:
  assumes "buffer_inv s1" "ends_in zs s1" "s1 = s \<and> unread s \<noteq> [] \<or> length (answers s1) < length (answers s)"
  shows "buffer_inv (buffer_skip (length (unread s1)) s1)" "ends_in zs (buffer_skip (length (unread s1)) s1)"
    "work (buffer_skip (length (unread s1)) s1) < work s"
proof -
  have "answers (buffer_skip n s1) = answers s1" "clock (buffer_skip n s1) = clock s1" for n
    by (simp_all add: buffer_skip_def Let_def)
  with assms show "buffer_inv (buffer_skip (length (unread s1)) s1)" "ends_in zs (buffer_skip (length (unread s1)) s1)"
    "work (buffer_skip (length (unread s1)) s1) < work s"
    by (auto simp: unread_skip ends_in_def work_def)
qed

lemma answers_skip [simp]: "answers (buffer_skip n s) = answers s"
  by (simp add: buffer_skip_def Let_def)

lemma recvraw_ends:
  "ends_in (a # rest) s \<Longrightarrow> sr_ret a = 0 \<Longrightarrow> buffer_inv s \<Longrightarrow>
    \<exists>q s'. recvraw io wanted tot b s = Some (q, s') \<and> (\<exists>as. answers s' = as @ rest)"
proof (induction "work s" arbitrary: s tot b rule: less_induct)
  case less
  obtain err s1 where g: "buffer_get io s = Some (Inr (err, unread s1), s1)" "buffer_inv s1" "\<exists>as. answers s1 = as @ rest"
    "err = IO_DONE \<longrightarrow> ends_in (a # rest) s1 \<and> (s1 = s \<and> unread s \<noteq> [] \<or> length (answers s1) < length (answers s))"
    using get_ends [OF less.prems] by blast
  let ?d = "unread s1"
  show ?case
  proof (cases "tot + length ?d < wanted \<and> err = IO_DONE")
    case False
    then show ?thesis
      using g(1,3) unfolding recvraw.simps [of io wanted tot b s] by (auto simp: Let_def min_def)
  next
    case True
    have "min (length ?d) (wanted - tot) = length ?d" by (rule min_absorb1) (use True in linarith)
    with True have "recvraw io wanted tot b s = recvraw io wanted (tot + length ?d) (b @ ?d) (buffer_skip (length ?d) s1)"
      using g(1) unfolding recvraw.simps [of io wanted tot b s] by (simp add: Let_def)
    moreover note sk = skip_ends [OF g(2), of "a # rest" s]
    have "ends_in (a # rest) s1" "s1 = s \<and> unread s \<noteq> [] \<or> length (answers s1) < length (answers s)"
      using g(4) True by blast+
    note less.hyps [OF sk(3) sk(2) less.prems(2) sk(1), OF this this this]
    ultimately show ?thesis by simp
  qed
qed

lemma recvall_ends:
  "ends_in (a # rest) s \<Longrightarrow> sr_ret a = 0 \<Longrightarrow> buffer_inv s \<Longrightarrow>
    \<exists>q s'. recvall io tot b s = Some (q, s') \<and> (\<exists>as. answers s' = as @ rest)"
proof (induction "work s" arbitrary: s tot b rule: less_induct)
  case less
  obtain err s1 where g: "buffer_get io s = Some (Inr (err, unread s1), s1)" "buffer_inv s1" "\<exists>as. answers s1 = as @ rest"
    "err = IO_DONE \<longrightarrow> ends_in (a # rest) s1 \<and> (s1 = s \<and> unread s \<noteq> [] \<or> length (answers s1) < length (answers s))"
    using get_ends [OF less.prems] by blast
  let ?d = "unread s1"
  show ?case
  proof (cases "err = IO_DONE")
    case False
    then show ?thesis
      using g(1,3) unfolding recvall.simps [of io tot b s] by (auto simp: Let_def)
  next
    case True
    then have "recvall io tot b s = recvall io (tot + length ?d) (b @ ?d) (buffer_skip (length ?d) s1)"
      using g(1) unfolding recvall.simps [of io tot b s] by (simp add: Let_def)
    moreover note sk = skip_ends [OF g(2), of "a # rest" s]
    have "ends_in (a # rest) s1" "s1 = s \<and> unread s \<noteq> [] \<or> length (answers s1) < length (answers s)"
      using g(4) True by blast+
    note less.hyps [OF sk(3) sk(2) less.prems(2) sk(1), OF this this this]
    ultimately show ?thesis by simp
  qed
qed

lemma recvline_ends:
  "ends_in (a # rest) s \<Longrightarrow> sr_ret a = 0 \<Longrightarrow> buffer_inv s \<Longrightarrow>
    \<exists>q s'. recvline io b s = Some (q, s') \<and> (\<exists>as. answers s' = as @ rest)"
proof (induction "work s" arbitrary: s b rule: less_induct)
  case less
  obtain err s1 where g: "buffer_get io s = Some (Inr (err, unread s1), s1)" "buffer_inv s1" "\<exists>as. answers s1 = as @ rest"
    "err = IO_DONE \<longrightarrow> ends_in (a # rest) s1 \<and> (s1 = s \<and> unread s \<noteq> [] \<or> length (answers s1) < length (answers s))"
    using get_ends [OF less.prems] by blast
  let ?d = "unread s1"
  define l where "l = takeWhile (\<lambda>x. x \<noteq> 10) ?d"
  have le: "length l \<le> length ?d" by (simp add: l_def length_takeWhile_le)
  show ?case
  proof (cases "\<not> length l < length ?d \<and> err = IO_DONE")
    case False
    then show ?thesis
      using g(1,3) unfolding recvline.simps [of io b s] by (auto simp: Let_def line_scan_eq l_def)
  next
    case True
    then have "recvline io b s = recvline io (b @ filter (\<lambda>x. x \<noteq> 13) l) (buffer_skip (length ?d) s1)"
      using g(1) le unfolding recvline.simps [of io b s] by (simp add: Let_def line_scan_eq flip: l_def)
    moreover note sk = skip_ends [OF g(2), of "a # rest" s]
    have "ends_in (a # rest) s1" "s1 = s \<and> unread s \<noteq> [] \<or> length (answers s1) < length (answers s)"
      using g(4) True by blast+
    note less.hyps [OF sk(3) sk(2) less.prems(2) sk(1), OF this this this]
    ultimately show ?thesis by simp
  qed
qed

end

interpretation socket_buffer: buf_stream "socket_io ps" for ps
proof unfold_locales
  show "length (answers s') < length (answers s)"
    if "io_send (socket_io ps) d s = Some (Inr (IO_DONE, n), s')" for d s n s'
    using that by (auto simp: socket_io_def io_init_def socket_send_def split: if_splits dest!: retry_loop_answers)
  show "length (answers s') < length (answers s)"
    if "io_recv (socket_io ps) k s = Some (Inr (IO_DONE, bs), s')" for k s bs s'
    using that by (auto simp: socket_io_def io_init_def socket_recv_def split: if_splits dest!: retry_loop_answers)
qed

lemma io_recv_socket [simp]: "io_recv (socket_io ps) = socket_recv ps"
  and io_send_socket [simp]: "io_send (socket_io ps) = socket_send ps"
  and io_error_socket [simp]: "io_error (socket_io ps) = socket_ioerror ps"
  by (simp_all add: socket_io_def io_init_def)

interpretation socket_ending: ending_stream "socket_io ps" for ps
proof unfold_locales
  fix a rest and s :: "'a buf_sys_scheme"
  assume a: "ends_in (a # rest) s" "sr_ret a = 0"
  show "\<exists>err bs s1. io_recv (socket_io ps) BUF_SIZE s = Some (Inr (err, bs), s1) \<and> length bs \<le> BUF_SIZE \<and>
      (err = IO_DONE \<longrightarrow> ends_in (a # rest) s1) \<and> (\<exists>as. answers s1 = as @ rest)"
  proof (cases "ps = SOCKET_INVALID")
    case True
    with ends_in_tail [OF a(1)] show ?thesis by (simp add: socket_recv_def)
  next
    case False
    show ?thesis
      unfolding io_recv_socket socket_recv_def if_not_P [OF False]
      by (rule retry_ends [where P = "\<lambda>bs. length bs \<le> BUF_SIZE", OF a(2) _ _ _ _ _ a(1)])
        (use a(2) in \<open>auto simp: Let_def split: if_splits\<close>)
  qed
qed

lemma push_error_socket: "err \<noteq> IO_DONE \<Longrightarrow> push_error (socket_ioerror ps err) = LStr (the (socket_strerror err))"
  using socket_strerror_None [of err] by (auto simp: socket_ioerror_def push_error_def)


definition answer :: "(int \<Rightarrow> bytes option) \<Rightarrow> lua_error + int \<times> bytes \<Rightarrow> lua_error + lua_value list" where
  "answer strerror = map_sum id (receive_reply strerror)"

lemma act_bind_reply:
  "act_bind m (\<lambda>result. act_return (receive_reply strerror result)) s = Some (r, s') \<longleftrightarrow>
    (\<exists>q. m s = Some (q, s') \<and> r = answer strerror q)"
  by (fastforce simp: act_bind_def answer_def split: option.splits sum.splits)

lemma answer_socket:
  "answer (socket_ioerror ps) (Inr (IO_DONE, b)) = Inr [LStr b, LNil, LNil]"
  "err \<noteq> IO_DONE \<Longrightarrow> answer (socket_ioerror ps) (Inr (err, b)) = Inr [LNil, LStr (the (socket_strerror err)), LStr b]"
  "receive_reply (socket_ioerror ps) (IO_DONE, b) = [LStr b, LNil, LNil]"
  by (simp_all add: answer_def receive_reply_def push_error_socket)

lemma receive_number_eq:
  assumes "n < 2 ^ 32"
  shows "buffer_meth_receive vm io [self, LNum (of_nat n), LStr part] s =
    act_bind (if length part = 0 \<or> n > length part then recvraw io (n - length part) 0 part
      else act_return (IO_DONE, part)) (\<lambda>result. act_return (receive_reply (io_error io) result)) s"
proof -
  have "nat ((int n - int (length part)) mod 2 ^ 32) = n - length part" if "length part \<le> n"
    using that assms by (simp flip: of_nat_diff add: nat_mod_as_int [symmetric] nat_mod_distrib)
  moreover have "length part = 0 \<or> n > length part \<Longrightarrow> length part \<le> n" by auto
  ultimately show ?thesis
    using assms by (simp add: buffer_meth_receive_def lua_arg_def lua_isnoneornil_def lua_isnumber_def
      lua_tonumber_opt_def lua_tonumber_def luaL_checklstring_def lua_tostring_def c_size_of_nat)
qed

lemma receive_line_eq:
  "buffer_meth_receive vm io [self, LNil, LStr part] s =
    act_bind (recvline io part) (\<lambda>result. act_return (receive_reply (io_error io) result)) s"
  by (simp add: buffer_meth_receive_def lua_arg_simps act_bind_def lit_def)

lemma receive_all_eq:
  assumes "str2num vm (lit ''*a'') = None"
  shows "buffer_meth_receive vm io [self, LStr (lit ''*a''), LStr part] s =
    act_bind (recvall io 0 part) (\<lambda>result. act_return (receive_reply (io_error io) result)) s"
  using assms by (simp add: buffer_meth_receive_def lua_arg_simps act_bind_def c_str_def lit_def)


section \<open>The receive method over any driver\<close>

context buf_stream
begin

lemma answer_driver:
  "answer (io_error io) (Inr (IO_DONE, b)) = Inr [LStr b, LNil, LNil]"
  "err \<noteq> IO_DONE \<Longrightarrow> \<exists>m. answer (io_error io) (Inr (err, b)) = Inr [LNil, LStr m, LStr b]"
  using error_law [of err] by (auto simp: answer_def receive_reply_def push_error_def split: option.split)

lemma meth_receive_number:
  assumes "buffer_meth_receive vm io [self, LNum (of_nat n), LStr part] s = Some (r, s')"
    "buffer_inv s" "list_all call_ok (new_calls s s')" "n < 2 ^ 32"
  shows "\<exists>c. c @ unread s' = unread s @ delivered (new_calls s s') \<and> buffer_inv s' \<and> length c \<le> n - length part \<and>
    (r = Inr [LStr (part @ c), LNil, LNil] \<and> length c = n - length part \<or>
     (\<exists>m. r = Inr [LNil, LStr m, LStr (part @ c)] \<and> unread s' = []))"
proof (cases "length part = 0 \<or> n > length part")
  case False
  with assms show ?thesis
    by (auto simp: receive_number_eq act_bind_reply answer_driver(1) receive_reply_def new_calls_def)
next
  case True
  from assms(1) obtain q where q: "recvraw io (n - length part) 0 part s = Some (q, s')" "r = answer (io_error io) q"
    unfolding receive_number_eq [OF assms(4)] act_bind_reply if_P [OF True] by (elim exE conjE) (rule that)
  from recvraw_took [OF q(1)] obtain err c cs where
    c: "q = Inr (err, part @ c)" "took s s' cs c" and
    e: "buffer_inv s \<Longrightarrow> list_all call_ok cs \<Longrightarrow> length c \<le> n - length part \<and>
      (err = IO_DONE \<longrightarrow> length c = n - length part) \<and> (err \<noteq> IO_DONE \<longrightarrow> unread s' = [])"
    by auto
  have cs: "new_calls s s' = cs" using c(2) by (simp add: took_ran new_calls_ran)
  show ?thesis
    using c(2) e assms(2,3) answer_driver(2) [of err "part @ c"] unfolding cs took_def
    by (intro exI [of _ c]) (cases "err = IO_DONE"; auto simp: q(2) c(1) answer_driver(1))
qed

lemma meth_receive_line:
  assumes "buffer_meth_receive vm io [self, LNil, LStr part] s = Some (r, s')"
    "buffer_inv s" "list_all call_ok (new_calls s s')"
  shows "\<exists>l. 10 \<notin> set l \<and> buffer_inv s' \<and>
    (r = Inr [LStr (part @ filter (\<lambda>x. x \<noteq> 13) l), LNil, LNil] \<and>
       l @ [10] @ unread s' = unread s @ delivered (new_calls s s') \<or>
     (\<exists>m. r = Inr [LNil, LStr m, LStr (part @ filter (\<lambda>x. x \<noteq> 13) l)] \<and>
       l = unread s @ delivered (new_calls s s') \<and> unread s' = []))"
proof -
  from assms(1) obtain q where q: "recvline io part s = Some (q, s')" "r = answer (io_error io) q"
    unfolding receive_line_eq act_bind_reply by (elim exE conjE) (rule that)
  from recvline_took [OF q(1)] obtain err l c cs where
    c: "q = Inr (err, part @ filter (\<lambda>x. x \<noteq> 13) l)" "took s s' cs c" "10 \<notin> set l" and
    e: "buffer_inv s \<Longrightarrow> list_all call_ok cs \<Longrightarrow>
      (err = IO_DONE \<longrightarrow> c = l @ [10]) \<and> (err \<noteq> IO_DONE \<longrightarrow> c = l \<and> unread s' = [])"
    by blast
  have cs: "new_calls s s' = cs" using c(2) by (simp add: took_ran new_calls_ran)
  show ?thesis
    using c(2,3) e assms(2,3) answer_driver(2) [of err "part @ filter (\<lambda>x. x \<noteq> 13) l"] unfolding cs took_def
    by (intro exI [of _ l]) (cases "err = IO_DONE"; auto simp: q(2) c(1) answer_driver(1))
qed

lemma meth_receive_all:
  assumes "buffer_meth_receive vm io [self, LStr (lit ''*a''), LStr part] s = Some (r, s')"
    "buffer_inv s" "list_all call_ok (new_calls s s')" "str2num vm (lit ''*a'') = None"
  shows "\<exists>c. c = unread s @ delivered (new_calls s s') \<and> unread s' = [] \<and> buffer_inv s' \<and>
    (r = Inr [LStr (part @ c), LNil, LNil] \<and> c \<noteq> [] \<or> (\<exists>m. r = Inr [LNil, LStr m, LStr (part @ c)]))"
proof -
  from assms(1) obtain q where q: "recvall io 0 part s = Some (q, s')" "r = answer (io_error io) q"
    unfolding receive_all_eq [OF assms(4)] act_bind_reply by (elim exE conjE) (rule that)
  from recvall_took [OF q(1)] obtain err c cs where
    c: "q = Inr (err, part @ c)" "took s s' cs c" and
    e: "buffer_inv s \<Longrightarrow> list_all call_ok cs \<Longrightarrow> unread s' = [] \<and> (err = IO_DONE \<longrightarrow> 0 < length c)"
    by auto
  have cs: "new_calls s s' = cs" using c(2) by (simp add: took_ran new_calls_ran)
  show ?thesis
    using c(2) e assms(2,3) answer_driver(2) [of err "part @ c"] unfolding cs took_def
    by (intro exI [of _ c]) (cases "err = IO_DONE"; auto simp: q(2) c(1) answer_driver(1))
qed

end


context ending_stream
begin

lemma meth_receive_ends:
  assumes "ends_in (a # rest) s" "sr_ret a = 0" "buffer_inv s"
  shows "\<exists>r s' xs cs. buffer_meth_receive vm io args s = Some (r, s') \<and> answers s' = xs @ rest \<and> ran s s' cs"
proof -
  have ends: "\<exists>r s' xs cs. act_bind m (\<lambda>result. act_return (receive_reply (io_error io) result)) s = Some (r, s') \<and>
      answers s' = xs @ rest \<and> ran s s' cs"
    if "\<exists>q s'. m s = Some (q, s') \<and> (\<exists>as. answers s' = as @ rest)" "\<And>q s'. m s = Some (q, s') \<Longrightarrow> \<exists>cs. ran s s' cs" for m
  proof -
    from that(1) obtain q s' as where "m s = Some (q, s')" "answers s' = as @ rest" by blast
    with that(2) [of q s'] show ?thesis by (cases q) auto
  qed
  have stop: "answers s = xs @ rest \<and> ran s s [] \<Longrightarrow> \<exists>xs cs. answers s = xs @ rest \<and> ran s s cs" for xs by blast
  obtain xs where xs: "answers s = xs @ rest" using ends_in_tail [OF assms(1)] by blast
  have line: "\<exists>r s' xs cs. act_bind (recvline io b) (\<lambda>result. act_return (receive_reply (io_error io) result)) s = Some (r, s') \<and>
      answers s' = xs @ rest \<and> ran s s' cs" for b
    by (rule ends [of "recvline io b", OF recvline_ends [OF assms]]) (blast dest: recvline_took intro: took_ran)
  have all: "\<exists>r s' xs cs. act_bind (recvall io 0 b) (\<lambda>result. act_return (receive_reply (io_error io) result)) s = Some (r, s') \<and>
      answers s' = xs @ rest \<and> ran s s' cs" for b
    by (rule ends [of "recvall io 0 b", OF recvall_ends [OF assms]]) (blast dest: recvall_took intro: took_ran)
  have raw: "\<exists>r s' xs cs. act_bind (recvraw io n 0 b) (\<lambda>result. act_return (receive_reply (io_error io) result)) s = Some (r, s') \<and>
      answers s' = xs @ rest \<and> ran s s' cs" for n b
    by (rule ends [of "recvraw io n 0 b", OF recvraw_ends [OF assms]]) (blast dest: recvraw_took intro: took_ran)
  have now: "\<exists>xs cs. answers s = xs @ rest \<and> ran s s cs" using xs by (intro exI [of _ xs] exI [of _ "[]"]) simp
  obtain q where part: "(if lua_isnoneornil args 3 then Inr [] else luaL_checklstring vm args 3) = q" by blast
  show ?thesis
  proof (cases q)
    case (Inl e)
    with part now show ?thesis by (simp add: buffer_meth_receive_def act_bind_def)
  next
    case part': (Inr b)
    show ?thesis
    proof (cases "lua_isnumber vm args 2")
      case True
      then show ?thesis using part part' raw [of _ b] now
        by (auto simp: buffer_meth_receive_def act_bind_def act_error_def act_lua_def Let_def)
    next
      case False
      then show ?thesis using part part' line [of b] all [of b] now
        by (cases "luaL_optstring vm args 2 (lit ''*l'')")
          (auto simp: buffer_meth_receive_def act_bind_def act_error_def act_lua_def Let_def simp del: lit_simps)
    qed
  qed
qed

end


section \<open>Properties of the methods over a socket\<close>

text \<open>C15: receive(n): the result is the prefix followed by the next bytes of the stream - those
  buffered before, then those the kernel delivers, none lost, doubled or reordered, what is left
  staying buffered - and it has exactly \<open>n\<close> bytes unless an error is reported, with all that
  came.\<close>

theorem receive_number:
  assumes "buffer_meth_receive vm (socket_io ps) [self, LNum (of_nat n), LStr part] s = Some (r, s')"
    "buffer_inv s" "list_all call_ok (new_calls s s')" "n < 2 ^ 32"
  shows "\<exists>c. c @ unread s' = unread s @ delivered (new_calls s s') \<and> buffer_inv s' \<and> length c \<le> n - length part \<and>
    (r = Inr [LStr (part @ c), LNil, LNil] \<and> length c = n - length part \<or>
     (\<exists>m. r = Inr [LNil, LStr m, LStr (part @ c)] \<and> unread s' = []))"
  using assms by (rule socket_buffer.meth_receive_number)

text \<open>C16: receive("*l"): the bytes taken off the stream are one line up to and including its LF, and
  the result is the prefix followed by the line without any CR; with an error, everything that
  came so far, which has no LF in it.\<close>

theorem receive_line:
  assumes "buffer_meth_receive vm (socket_io ps) [self, LNil, LStr part] s = Some (r, s')"
    "buffer_inv s" "list_all call_ok (new_calls s s')"
  shows "\<exists>l. 10 \<notin> set l \<and> buffer_inv s' \<and>
    (r = Inr [LStr (part @ filter (\<lambda>x. x \<noteq> 13) l), LNil, LNil] \<and>
       l @ [10] @ unread s' = unread s @ delivered (new_calls s s') \<or>
     (\<exists>m. r = Inr [LNil, LStr m, LStr (part @ filter (\<lambda>x. x \<noteq> 13) l)] \<and>
       l = unread s @ delivered (new_calls s s') \<and> unread s' = []))"
  using assms by (rule socket_buffer.meth_receive_line)

text \<open>Receive("*a"): the result is the prefix followed by everything the stream has, nothing
  staying behind; it is a success only when there was something.\<close>

theorem receive_all:
  assumes "buffer_meth_receive vm (socket_io ps) [self, LStr (lit ''*a''), LStr part] s = Some (r, s')"
    "buffer_inv s" "list_all call_ok (new_calls s s')" "str2num vm (lit ''*a'') = None"
  shows "\<exists>c. c = unread s @ delivered (new_calls s s') \<and> unread s' = [] \<and> buffer_inv s' \<and>
    (r = Inr [LStr (part @ c), LNil, LNil] \<and> c \<noteq> [] \<or> (\<exists>m. r = Inr [LNil, LStr m, LStr (part @ c)]))"
  using assms by (rule socket_buffer.meth_receive_all)

text \<open>C25: receive always comes back. With any pattern and arguments, however much data in however small
  pieces and however many calls that would block come before: it returns, at the latest with the first
  answer 0 of the system (the end of the stream for a \<open>recv\<close>, the end of the time for a wait), and makes no call
  after it. The data of an answer fits the buffer the call was given, and the clock can be read.\<close>

theorem receive_returns:
  assumes "buffer_inv s" "answers s = as @ a # rest" "sr_ret a = 0"
    "\<forall>x \<in> set as. length (sr_data x) \<le> BUF_SIZE" "length as \<le> length (clock s)"
  shows "\<exists>r s'. buffer_meth_receive vm (socket_io ps) args s = Some (r, s') \<and> length (new_calls s s') \<le> length as + 1"
proof -
  have "ends_in (a # rest) s" using assms by (auto simp: ends_in_def)
  from socket_ending.meth_receive_ends [OF this assms(3,1), of vm ps args] obtain r s' xs cs where
    "buffer_meth_receive vm (socket_io ps) args s = Some (r, s')" "answers s' = xs @ rest" "ran s s' cs" by blast
  moreover from this assms(2) have "length cs \<le> length as + 1" by (auto dest!: ran_length)
  ultimately show ?thesis by (auto simp: new_calls_ran)
qed


section \<open>The total limit\<close>

text \<open>The total limit has run out before the first reading of the clock.\<close>

definition stale :: "'m tm_sys_scheme \<Rightarrow> bool" where
  "stale s \<longleftrightarrow> 0 \<le> tm_total s \<and> (\<forall>ft \<in> set (clock s). tm_start s + tm_total s \<le> filetime_seconds ft)"

definition instant :: "(call \<times> sysres) list \<Rightarrow> bool" where
  "instant cs \<longleftrightarrow> (\<forall>rd wr ex tv a. (CSelect rd wr ex tv, a) \<in> set cs \<longrightarrow> tv = Some (0, 0))"

lemma instant_append [simp]: "instant (cs @ ds) \<longleftrightarrow> instant cs \<and> instant ds"
  by (fastforce simp: instant_def)

lemma instant_single: "instant [(c, a)] \<longleftrightarrow> (\<forall>rd wr ex tv. c = CSelect rd wr ex tv \<longrightarrow> tv = Some (0, 0))" "instant []"
  by (auto simp: instant_def)

definition hasty :: "'m tm_sys_scheme \<Rightarrow> 'm tm_sys_scheme \<Rightarrow> bool" where
  "hasty s s' \<longleftrightarrow> tm_start s' = tm_start s \<and> tm_total s' = tm_total s \<and> set (clock s') \<subseteq> set (clock s) \<and>
    (\<exists>cs. ran s s' cs \<and> (stale s \<longrightarrow> instant cs))"

lemma hasty_stale: "hasty s s' \<Longrightarrow> stale s \<Longrightarrow> stale s'"
  by (auto simp: hasty_def stale_def)

lemma hasty_refl [simp]: "hasty s s"
  by (auto simp: hasty_def instant_single intro!: exI [of _ "[]"])

lemma hasty_trans: "hasty s s1 \<Longrightarrow> hasty s1 s2 \<Longrightarrow> hasty s s2"
proof -
  assume a: "hasty s s1" "hasty s1 s2"
  then obtain cs ds where "ran s s1 cs" "stale s \<longrightarrow> instant cs" "ran s1 s2 ds" "stale s1 \<longrightarrow> instant ds"
    unfolding hasty_def by blast
  then have "ran s s2 (cs @ ds)" "stale s \<longrightarrow> instant (cs @ ds)"
    using ran_trans hasty_stale [OF a(1)] by simp_all
  moreover have "tm_start s2 = tm_start s" "tm_total s2 = tm_total s" "set (clock s2) \<subseteq> set (clock s)"
    using a by (auto simp: hasty_def)
  ultimately show ?thesis unfolding hasty_def by blast
qed

lemma hasty_syscall: "syscall c s = Some (r, s') \<Longrightarrow> (\<forall>x w e tv. c \<noteq> CSelect x w e tv) \<Longrightarrow> hasty s s'"
  by (auto simp: syscall_Some hasty_def ran_def instant_single)

lemma hasty_waitfd:
  assumes "socket_waitfd ps sw s = Some (r, s')"
  shows "hasty s s'"
proof (cases "timeout_iszero s")
  case True
  with assms show ?thesis by (simp add: socket_waitfd_def)
next
  case False
  with assms obtain t s1 rp wp ep a where t: "timeout_get s = Some (Inr t, s1)"
    and c: "syscall (CSelect rp wp ep (if t \<ge> 0 then Some (timeval_of t) else None)) s1 = Some (Inr a, s')"
    by (fastforce simp: socket_waitfd_def act_bind_Some_iff Let_def syscall_Some timeout_get_no_error)
  have "timeval_of 0 = (0, 0)" by (simp add: timeval_of_def c_int_def Let_def)
  moreover have "t = 0" if "stale s"
  proof -
    from that have total: "\<not> tm_total s < 0" by (simp add: stale_def)
    with t obtain ft ts where ck: "clock s = ft # ts"
      by (cases "clock s") (auto simp: timeout_get_def timeout_gettime_def read_clock_def act_bind_def split: if_splits)
    with that have "max (tm_total s - filetime_seconds ft + tm_start s) 0 = 0" by (simp add: stale_def)
    with t total ck show ?thesis
      by (auto simp: timeout_get_def timeout_gettime_def read_clock_def act_bind_def Let_def split: if_splits)
  qed
  moreover have "set (clock s1) \<subseteq> set (clock s)" "tm_start s1 = tm_start s" "tm_total s1 = tm_total s"
    "trace s1 = trace s" "answers s1 = answers s"
    using t by (auto simp: timeout_get_def act_bind_Some_iff timeout_gettime_Some Let_def split: if_splits)
  ultimately show ?thesis
    using c by (auto simp: syscall_Some hasty_def ran_def instant_single split: if_splits)
qed

lemma hasty_retry:
  assumes "retry_loop ps c sw finished again fail s = Some (r, s')" "\<forall>x w e tv. c \<noteq> CSelect x w e tv"
  shows "hasty s s'"
  using assms(1)
proof (induction s rule: measure_induct_rule [where f = "\<lambda>s. length (answers s)"])
  case (less s)
  from less.prems obtain a s1 where c: "syscall c s = Some (Inr a, s1)"
    by (subst (asm) retry_loop.simps) (auto split: option.splits sum.splits)
  note h = hasty_syscall [OF this assms(2)]
  show ?case
  proof (cases "finished a \<noteq> None \<or> \<not> again (sr_err a)")
    case True
    with less.prems c have "s' = s1" by (subst (asm) retry_loop.simps) (auto split: option.splits)
    with h show ?thesis by simp
  next
    case False
    then have go: "finished a = None" "again (sr_err a)" by (cases "finished a"; auto)+
    with less.prems c obtain err s2 where w: "socket_waitfd ps sw s1 = Some (Inr err, s2)"
      by (subst (asm) retry_loop.simps) (auto split: option.splits sum.splits)
    note h2 = hasty_trans [OF h hasty_waitfd [OF w]]
    show ?thesis
    proof (cases "err = IO_DONE")
      case True
      with c w go have "retry_loop ps c sw finished again fail s = retry_loop ps c sw finished again fail s2"
        by (subst retry_loop.simps) simp
      with less.prems have "retry_loop ps c sw finished again fail s2 = Some (r, s')" by simp
      moreover have "length (answers s2) < length (answers s)"
        using c w by (auto simp: syscall_Some elim!: socket_waitfd_run dest!: went_length)
      ultimately show ?thesis using less.IH hasty_trans [OF h2] by blast
    next
      case over: False
      with less.prems c w go have "s' = s2" by (subst (asm) retry_loop.simps) simp
      with h2 show ?thesis by simp
    qed
  qed
qed

lemma hasty_transfers:
  "socket_recv ps k s = Some (q, s') \<Longrightarrow> hasty s s'" "socket_send ps d s = Some (p, s') \<Longrightarrow> hasty s s'"
  by (auto simp: socket_recv_def socket_send_def split: if_splits intro: hasty_retry)

lemma hasty_buffer [simp]:
  "hasty s (s'\<lparr>buf_first := f, buf_last := l, buf_data := d\<rparr>) = hasty s s'"
  "hasty s (buffer_skip n s') = hasty s s'" "hasty s (s'\<lparr>buf_sent := x\<rparr>) = hasty s s'"
  by (simp_all add: hasty_def ran_def buffer_skip_def Let_def)

lemma hasty_get: "buffer_get (socket_io ps) s = Some (r, s') \<Longrightarrow> hasty s s'"
  by (auto simp: buffer_get_def act_bind_Some_iff split: if_splits dest: hasty_transfers)

lemma hasty_recvraw: "recvraw (socket_io ps) wanted tot b s = Some (r, s') \<Longrightarrow> hasty s s'"
proof -
  assume a: "recvraw (socket_io ps) wanted tot b s = Some (r, s')"
  define io :: "'a buf_sys_scheme t_io" where "io = socket_io ps"
  with a have a: "recvraw io wanted tot b s = Some (r, s')" by simp
  have "io = socket_io ps \<longrightarrow> hasty s (snd (r, s'))"
  proof (rule recvraw.raw_induct [where P = "\<lambda>io w t b s q. io = socket_io ps \<longrightarrow> hasty s (snd q)", OF _ a], rule impI)
    fix rec io wanted tot b q and s :: "'a buf_sys_scheme"
    assume IH: "\<And>io w t b s q. rec io w t b s = Some q \<Longrightarrow> io = socket_io ps \<longrightarrow> hasty s (snd q)"
      and eq: "(case buffer_get io s of None \<Rightarrow> None | Some (Inl e, s1) \<Rightarrow> Some (Inl e, s1)
       | Some (Inr (err, d), s1) \<Rightarrow>
         let count = min (length d) (wanted - tot); b = b @ take count d; s2 = buffer_skip count s1; tot = tot + count
         in if tot \<ge> wanted then Some (Inr (err, b), s2)
            else if err = IO_DONE then rec io wanted tot b s2 else Some (Inr (err, b), s2)) = Some q"
      and io: "io = socket_io ps"
    from eq io obtain p s1 where g: "buffer_get (socket_io ps) s = Some (p, s1)" by (auto split: option.splits)
    note h = hasty_get [OF g]
    have step: "hasty s (snd q')" if "rec io w t b (buffer_skip n s1) = Some q'" for w t b n q'
      using IH [OF that] io h hasty_trans [of s "buffer_skip n s1" "snd q'"] by simp
    from eq io g h show "hasty s (snd q)"
      by (auto simp: Let_def dest!: step [unfolded io] split: sum.splits prod.splits if_splits)
  qed
  then show ?thesis by (simp add: io_def)
qed

lemma hasty_recvall: "recvall (socket_io ps) tot b s = Some (r, s') \<Longrightarrow> hasty s s'"
proof -
  assume a: "recvall (socket_io ps) tot b s = Some (r, s')"
  define io :: "'a buf_sys_scheme t_io" where "io = socket_io ps"
  with a have a: "recvall io tot b s = Some (r, s')" by simp
  have "io = socket_io ps \<longrightarrow> hasty s (snd (r, s'))"
  proof (rule recvall.raw_induct [where P = "\<lambda>io t b s q. io = socket_io ps \<longrightarrow> hasty s (snd q)", OF _ a], rule impI)
    fix rec io tot b q and s :: "'a buf_sys_scheme"
    assume IH: "\<And>io t b s q. rec io t b s = Some q \<Longrightarrow> io = socket_io ps \<longrightarrow> hasty s (snd q)"
      and eq: "(case buffer_get io s of None \<Rightarrow> None | Some (Inl e, s1) \<Rightarrow> Some (Inl e, s1)
       | Some (Inr (err, d), s1) \<Rightarrow>
         let tot = tot + length d; b = b @ d; s2 = buffer_skip (length d) s1 in
         if err = IO_DONE then rec io tot b s2
         else if err = IO_CLOSED then Some (Inr (if tot > 0 then IO_DONE else IO_CLOSED, b), s2)
         else Some (Inr (err, b), s2)) = Some q"
      and io: "io = socket_io ps"
    from eq io obtain p s1 where g: "buffer_get (socket_io ps) s = Some (p, s1)" by (auto split: option.splits)
    note h = hasty_get [OF g]
    have step: "hasty s (snd q')" if "rec io t b (buffer_skip n s1) = Some q'" for t b n q'
      using IH [OF that] io h hasty_trans [of s "buffer_skip n s1" "snd q'"] by simp
    from eq io g h show "hasty s (snd q)"
      by (auto simp: Let_def dest!: step [unfolded io] split: sum.splits prod.splits if_splits)
  qed
  then show ?thesis by (simp add: io_def)
qed

lemma hasty_recvline: "recvline (socket_io ps) b s = Some (r, s') \<Longrightarrow> hasty s s'"
proof -
  assume a: "recvline (socket_io ps) b s = Some (r, s')"
  define io :: "'a buf_sys_scheme t_io" where "io = socket_io ps"
  with a have a: "recvline io b s = Some (r, s')" by simp
  have "io = socket_io ps \<longrightarrow> hasty s (snd (r, s'))"
  proof (rule recvline.raw_induct [where P = "\<lambda>io b s q. io = socket_io ps \<longrightarrow> hasty s (snd q)", OF _ a], rule impI)
    fix rec io b q and s :: "'a buf_sys_scheme"
    assume IH: "\<And>io b s q. rec io b s = Some q \<Longrightarrow> io = socket_io ps \<longrightarrow> hasty s (snd q)"
      and eq: "(case buffer_get io s of None \<Rightarrow> None | Some (Inl e, s1) \<Rightarrow> Some (Inl e, s1)
       | Some (Inr (err, d), s1) \<Rightarrow>
         (case line_scan d of (add, pos) \<Rightarrow>
            let b = b @ add in
            if pos < length d then Some (Inr (err, b), buffer_skip (pos + 1) s1)
            else let s2 = buffer_skip pos s1 in
                 if err = IO_DONE then rec io b s2 else Some (Inr (err, b), s2))) = Some q"
      and io: "io = socket_io ps"
    from eq io obtain p s1 where g: "buffer_get (socket_io ps) s = Some (p, s1)" by (auto split: option.splits)
    note h = hasty_get [OF g]
    have step: "hasty s (snd q')" if "rec io b (buffer_skip n s1) = Some q'" for b n q'
      using IH [OF that] io h hasty_trans [of s "buffer_skip n s1" "snd q'"] by simp
    from eq io g h show "hasty s (snd q)"
      by (auto simp: Let_def dest!: step [unfolded io] split: sum.splits prod.splits if_splits)
  qed
  then show ?thesis by (simp add: io_def)
qed

lemma hasty_sendraw: "sendraw_loop (socket_io ps) d tot err s = Some (r, s') \<Longrightarrow> hasty s s'"
proof -
  assume a: "sendraw_loop (socket_io ps) d tot err s = Some (r, s')"
  define io :: "'a buf_sys_scheme t_io" where "io = socket_io ps"
  with a have a: "sendraw_loop io d tot err s = Some (r, s')" by simp
  have "io = socket_io ps \<longrightarrow> hasty s (snd (r, s'))"
  proof (rule sendraw_loop.raw_induct [where P = "\<lambda>io d t e s q. io = socket_io ps \<longrightarrow> hasty s (snd q)", OF _ a], rule impI)
    fix rec io d tot err q and s :: "'a buf_sys_scheme"
    assume IH: "\<And>io d t e s q. rec io d t e s = Some q \<Longrightarrow> io = socket_io ps \<longrightarrow> hasty s (snd q)"
      and eq: "(if tot < length d \<and> err = IO_DONE then
       let step = (if length d - tot \<le> STEPSIZE then length d - tot else STEPSIZE) in
       case io_send io (take step (drop tot d)) s of
         None \<Rightarrow> None
       | Some (Inl e, s1) \<Rightarrow> Some (Inl e, s1)
       | Some (Inr (err, n), s1) \<Rightarrow> rec io d (tot + n) err s1
     else Some (Inr (err, tot), s)) = Some q"
      and io: "io = socket_io ps"
    from eq io show "hasty s (snd q)"
      by (auto simp: Let_def split: option.splits sum.splits prod.splits if_splits dest!: hasty_transfers IH
          intro: hasty_trans)
  qed
  then show ?thesis by (simp add: io_def)
qed


text \<open>Lua's \<open>string.sub\<close>: the bytes from \<open>i\<close> to \<open>j\<close>, negative numbers counting from the end.\<close>

definition lua_sub_start :: "nat \<Rightarrow> int \<Rightarrow> int" where
  "lua_sub_start n i = (if i < 0 then max 1 (int n + i + 1) else max 1 i)"

definition lua_sub :: "bytes \<Rightarrow> int \<Rightarrow> int \<Rightarrow> bytes" where
  "lua_sub d i j =
    (let stop = (if j < 0 then int (length d) + j + 1 else min j (int (length d)))
     in drop (nat (lua_sub_start (length d) i - 1)) (take (nat stop) d))"

lemma send_start_eq: "send_start (int n) i = lua_sub_start n i"
  by (auto simp: send_start_def lua_sub_start_def Let_def)

lemma lua_sub_eq:
  "lua_sub d i j =
    (let start = send_start (int (length d)) i; stop = send_end (int (length d)) j in
      if start \<le> stop then take (nat (stop - start + 1)) (drop (nat (start - 1)) d) else [])"
proof -
  let ?start = "send_start (int (length d)) i" and ?stop = "send_end (int (length d)) j"
  have 1: "1 \<le> ?start" by (simp add: send_start_def Let_def)
  have "lua_sub d i j = drop (nat (?start - 1)) (take (nat ?stop) d)"
    by (auto simp: lua_sub_def send_start_eq send_end_def Let_def min_def)
  moreover have "nat ?stop - nat (?start - 1) = nat (?stop - ?start + 1)"
    using 1 by linarith
  ultimately show ?thesis using 1 by (simp add: drop_take Let_def)
qed

text \<open>C17: send(data, i, j): what goes into the kernel is a prefix of \<open>data:sub(i, j)\<close>, all of it when
  the call reports success, and the number returned is the position of the last byte sent. Data
  waiting to be received is not touched, and the counter grows by the bytes sent.\<close>

theorem send_range:
  assumes "buffer_meth_send vm (socket_io ps) [self, LStr d, LNum (of_int i), LNum (of_int j)] s = Some (r, s')"
    "list_all call_ok (new_calls s s')" "- (2 ^ 31) \<le> i" "i < 2 ^ 31" "- (2 ^ 31) \<le> j" "j < 2 ^ 31"
  shows "\<exists>n. n \<le> length (lua_sub d i j) \<and> accepted (new_calls s s') = take n (lua_sub d i j) \<and>
    buf_sent s' = buf_sent s + of_nat n \<and> unread s' = unread s \<and>
    (let reached = LNum (of_int (lua_sub_start (length d) i + int n - 1)) in
      r = Inr [reached, LNil, LNil] \<and> n = length (lua_sub d i j) \<or>
      (\<exists>m. r = Inr [LNil, LStr m, reached] \<and> n < length (lua_sub d i j)))"
proof -
  let ?start = "send_start (int (length d)) i" and ?stop = "send_end (int (length d)) j"
  let ?m = "if ?start \<le> ?stop then sendraw (socket_io ps) (lua_sub d i j) else act_return (IO_DONE, 0)"
  have "act_bind ?m (\<lambda>result. act_return (send_reply (socket_ioerror ps) ?start result)) s = Some (r, s')"
    using assms(1,3-6) unfolding buffer_meth_send_def
    by (cases "?start \<le> ?stop")
      (simp_all add: lua_arg_def lua_isnoneornil_def luaL_checklstring_def lua_tostring_def luaL_optnumber_def
        luaL_checknumber_def lua_tonumber_opt_def c_int_of_int lua_sub_eq Let_def)
  then obtain err n where q: "?m s = Some (Inr (err, n), s') \<and> r = Inr (send_reply (socket_ioerror ps) ?start (err, n))"
    by (auto simp: act_bind_def split: option.splits sum.splits if_splits dest!: socket_buffer.sendraw_run)
  have "n \<le> length (lua_sub d i j) \<and> accepted (new_calls s s') = take n (lua_sub d i j) \<and>
      buf_sent s' = buf_sent s + of_nat n \<and> unread s' = unread s \<and> (err = IO_DONE \<longleftrightarrow> n = length (lua_sub d i j))"
  proof (cases "?start \<le> ?stop")
    case True
    with q assms(2) show ?thesis
      by (fastforce dest!: socket_buffer.sendraw_run simp: new_calls_ran)
  next
    case False
    then have "lua_sub d i j = []" by (simp add: lua_sub_eq Let_def)
    with q False show ?thesis by (simp add: new_calls_def)
  qed
  with q show ?thesis
    by (intro exI [of _ n]) (cases "err = IO_DONE"; simp add: send_reply_def Let_def push_error_socket send_start_eq add.commute)
qed

text \<open>Setstats without numbers is meant to leave the counters alone; a counter of \<open>2 ^ 31\<close> or
  more, read as a number and put back through \<open>(long)\<close>, becomes \<open>2 ^ 31\<close>.\<close>

theorem setstats_saturates:
  "\<exists>s'. buffer_meth_setstats vm [self] s = Some (Inr [LNum 1], s') \<and>
    buf_received s' = (if unat (buf_received s) < 2 ^ 31 then buf_received s else 2 ^ 31) \<and>
    buf_sent s' = (if unat (buf_sent s) < 2 ^ 31 then buf_sent s else 2 ^ 31) \<and> unread s' = unread s"
proof -
  have "(of_int (c_int (of_nat (unat w))) :: u32) = (if unat w < 2 ^ 31 then w else 2 ^ 31)" for w :: u32
  proof -
    have "uint w = int (unat w)" by simp
    then have "uint w < 2147483648 \<longleftrightarrow> unat w < 2147483648" "- 2147483648 \<le> uint w" by linarith+
    then show ?thesis unfolding c_int_def trunc_real_of_nat Let_def by simp
  qed
  then show ?thesis
    by (simp add: buffer_meth_setstats_def lua_arg_simps unread_def)
qed


text \<open>A buffered socket to run the methods on.\<close>

definition buf_state :: "bytes \<Rightarrow> sysres list \<Rightarrow> buf_sys" where
  "buf_state d as = \<lparr>clock = [], answers = as, trace = [], tm_block = - 1, tm_total = - 1, tm_start = 0,
     buf_birthday = 0, buf_sent = 0, buf_received = 0, buf_first = 0, buf_last = length d,
     buf_data = memcpy_at (replicate BUF_SIZE 0) 0 d\<rparr>"

lemma buf_state_inv: "length d \<le> BUF_SIZE \<Longrightarrow> buffer_inv (buf_state d as)"
  by (simp add: buffer_inv_def buf_state_def length_simps)

definition got :: "bytes \<Rightarrow> sysres" where
  "got d = (ret (int (length d)) 0)\<lparr>sr_data := d\<rparr>"

lemmas run_buffer =
  receive_number_eq [of 3, simplified] receive_line_eq receive_all_eq recvraw.simps recvline.simps recvall.simps buffer_get_def
  buffer_isempty_def buffer_skip_def socket_recv_def socket_send_def retry_loop.simps syscall_def
  buf_state_def got_def ret_def memcpy_at_def act_bind_def Let_def receive_reply_def

lemma receive_number_run:
  "\<exists>s'. buffer_meth_receive plain_vm (socket_io 7) [LNil, LNum 3, LStr []] (buf_state [104] [got [101, 121, 33]]) =
     Some (Inr [LStr [104, 101, 121], LNil, LNil], s') \<and>
     new_calls (buf_state [104] [got [101, 121, 33]]) s' = [(CRecv 7 8192, got [101, 121, 33])]"
  by (simp add: run_buffer answer_socket new_calls_def)

lemma receive_line_run:
  "\<exists>s'. buffer_meth_receive plain_vm (socket_io 7) [LNil, LNil, LStr [1]] (buf_state [104] [got [105, 13, 10, 33]]) =
     Some (Inr [LStr [1, 104, 105], LNil, LNil], s') \<and>
     new_calls (buf_state [104] [got [105, 13, 10, 33]]) s' = [(CRecv 7 8192, got [105, 13, 10, 33])]"
  by (simp add: run_buffer answer_socket line_scan_eq new_calls_def)

lemma receive_all_run:
  "\<exists>s'. buffer_meth_receive plain_vm (socket_io 7) [LNil, LStr (lit ''*a''), LStr []] (buf_state [104] [got [105], ret 0 0]) =
     Some (Inr [LStr [104, 105], LNil, LNil], s') \<and>
     new_calls (buf_state [104] [got [105], ret 0 0]) s' = [(CRecv 7 8192, got [105]), (CRecv 7 8192, ret 0 0)]"
  by (simp add: run_buffer receive_all_eq plain_vm_def answer_socket new_calls_def del: lit_simps)

lemma send_range_run:
  "\<exists>s'. buffer_meth_send plain_vm (socket_io 7) [LNil, LStr [104, 101, 121], LNum (of_int 2), LNum (of_int (- 1))]
      (buf_state [] [ret 1 0, ret (- 1) WSAECONNRESET]) =
     Some (Inr [LNil, LStr (lit ''closed''), LNum 2], s') \<and>
     new_calls (buf_state [] [ret 1 0, ret (- 1) WSAECONNRESET]) s' =
       [(CSend 7 [101, 121], ret 1 0), (CSend 7 [121], ret (- 1) WSAECONNRESET)]"
  by (simp add: run_buffer new_calls_def buffer_meth_send_def lua_arg_simps c_int_def send_start_def send_end_def
      sendraw_def sendraw_loop.simps send_reply_def push_error_def socket_ioerror_def socket_strerror_def io_strerror_def)

lemma unread_buf_state: "unread (buf_state d as) = d"
  by (simp add: unread_def buf_state_def memcpy_at_0)

theorem receive_number_witness:
  "\<exists>s'. buffer_meth_receive plain_vm (socket_io 7) [LNil, LNum 3, LStr []] (buf_state [104] [got [101, 121, 33]]) =
     Some (Inr [LStr [104, 101, 121], LNil, LNil], s') \<and> unread s' = [33]"
proof -
  obtain s' where run: "buffer_meth_receive plain_vm (socket_io 7) [LNil, LNum (of_nat 3), LStr []]
      (buf_state [104] [got [101, 121, 33]]) = Some (Inr [LStr [104, 101, 121], LNil, LNil], s')"
    "new_calls (buf_state [104] [got [101, 121, 33]]) s' = [(CRecv 7 8192, got [101, 121, 33])]"
    using receive_number_run by auto
  have ok: "list_all call_ok (new_calls (buf_state [104] [got [101, 121, 33]]) s')"
    unfolding run(2) by (simp add: recv_ok_def got_def ret_def)
  have "unread s' = [33]"
    using receive_number [OF run(1) buf_state_inv ok, unfolded run(2)] by (simp add: unread_buf_state got_def ret_def)
  with run(1) show ?thesis by auto
qed

theorem receive_line_witness:
  "\<exists>s'. buffer_meth_receive plain_vm (socket_io 7) [LNil, LNil, LStr [1]] (buf_state [104] [got [105, 13, 10, 33]]) =
     Some (Inr [LStr [1, 104, 105], LNil, LNil], s') \<and> (\<exists>l. 10 \<notin> set l \<and> l @ [10] @ unread s' = [104, 105, 13, 10, 33])"
proof -
  obtain s' where run: "buffer_meth_receive plain_vm (socket_io 7) [LNil, LNil, LStr [1]]
      (buf_state [104] [got [105, 13, 10, 33]]) = Some (Inr [LStr [1, 104, 105], LNil, LNil], s')"
    "new_calls (buf_state [104] [got [105, 13, 10, 33]]) s' = [(CRecv 7 8192, got [105, 13, 10, 33])]"
    using receive_line_run by auto
  have ok: "list_all call_ok (new_calls (buf_state [104] [got [105, 13, 10, 33]]) s')"
    unfolding run(2) by (simp add: recv_ok_def got_def ret_def)
  have "\<exists>l. 10 \<notin> set l \<and> l @ [10] @ unread s' = [104, 105, 13, 10, 33]"
    using receive_line [OF run(1) buf_state_inv ok, unfolded run(2)] by (auto simp: unread_buf_state got_def ret_def)
  with run(1) show ?thesis by blast
qed

theorem receive_all_witness:
  "\<exists>s'. buffer_meth_receive plain_vm (socket_io 7) [LNil, LStr (lit ''*a''), LStr []] (buf_state [104] [got [105], ret 0 0]) =
     Some (Inr [LStr [104, 105], LNil, LNil], s') \<and> unread s' = []"
proof -
  obtain s' where run: "buffer_meth_receive plain_vm (socket_io 7) [LNil, LStr (lit ''*a''), LStr []]
      (buf_state [104] [got [105], ret 0 0]) = Some (Inr [LStr [104, 105], LNil, LNil], s')"
    "new_calls (buf_state [104] [got [105], ret 0 0]) s' = [(CRecv 7 8192, got [105]), (CRecv 7 8192, ret 0 0)]"
    using receive_all_run by auto
  have ok: "list_all call_ok (new_calls (buf_state [104] [got [105], ret 0 0]) s')"
    unfolding run(2) by (simp add: recv_ok_def got_def ret_def)
  have "unread s' = []"
    using receive_all [OF run(1) buf_state_inv ok] by (auto simp: plain_vm_def)
  with run(1) show ?thesis by blast
qed

text \<open>A byte, a call that would block, a wait that ends with data, a line, and then the end of the stream: the
  receive stops at the line.\<close>

theorem receive_returns_witness:
  "\<exists>r s'. buffer_meth_receive plain_vm (socket_io 7) [LNil, LNil, LStr []]
      (buf_state [104] ([ret (- 1) WSAEWOULDBLOCK, ret 1 0, got [105]] @ ret 0 0 # [])\<lparr>clock := replicate 3 (0, 0)\<rparr>) = Some (r, s') \<and>
    length (new_calls (buf_state [104] ([ret (- 1) WSAEWOULDBLOCK, ret 1 0, got [105]] @ ret 0 0 # [])\<lparr>clock := replicate 3 (0, 0)\<rparr>) s') \<le> 4"
proof -
  let ?as = "[ret (- 1) WSAEWOULDBLOCK, ret 1 0, got [105]]"
  let ?s = "buf_state [104] (?as @ ret 0 0 # [])\<lparr>clock := replicate 3 (0, 0)\<rparr>"
  have "\<exists>r s'. buffer_meth_receive plain_vm (socket_io 7) [LNil, LNil, LStr []] ?s = Some (r, s') \<and>
      length (new_calls ?s s') \<le> length ?as + 1"
    by (rule receive_returns [where a = "ret 0 0" and rest = "[]"])
      (simp_all add: buffer_inv_def buf_state_def length_simps ret_def got_def)
  moreover have "length ?as + 1 = 4" by simp
  ultimately show ?thesis by (simp only:)
qed

theorem send_range_witness:
  "lua_sub [104, 101, 121] 2 (- 1) = [101, 121] \<and>
   (\<exists>s'. buffer_meth_send plain_vm (socket_io 7) [LNil, LStr [104, 101, 121], LNum (of_int 2), LNum (of_int (- 1))]
      (buf_state [] [ret 1 0, ret (- 1) WSAECONNRESET]) = Some (Inr [LNil, LStr (lit ''closed''), LNum 2], s') \<and> buf_sent s' = 1)"
proof -
  have sub: "lua_sub [104, 101, 121] 2 (- 1) = [101, 121]"
    by (simp add: lua_sub_def lua_sub_start_def)
  obtain s' where run: "buffer_meth_send plain_vm (socket_io 7) [LNil, LStr [104, 101, 121], LNum (of_int 2), LNum (of_int (- 1))]
      (buf_state [] [ret 1 0, ret (- 1) WSAECONNRESET]) = Some (Inr [LNil, LStr (lit ''closed''), LNum 2], s')"
    "new_calls (buf_state [] [ret 1 0, ret (- 1) WSAECONNRESET]) s' =
       [(CSend 7 [101, 121], ret 1 0), (CSend 7 [121], ret (- 1) WSAECONNRESET)]"
    using send_range_run by auto
  have ok: "list_all call_ok (new_calls (buf_state [] [ret 1 0, ret (- 1) WSAECONNRESET]) s')"
    unfolding run(2) by (simp add: send_ok_def ret_def)
  have "buf_sent s' = 1"
    using send_range [OF run(1) ok] by (auto simp: sub lua_sub_start_def Let_def buf_state_def)
  with run(1) sub show ?thesis by auto
qed


end
