(* ===== verification/Utils.thy ===== *)
theory Utils
  imports Complex_Main Prelude
begin

text \<open>
  utils.cpp: the number parsers, the time string and the log of the server. The wall clock and
  \<open>localtime\<close> are arguments; the fixed buffers are checked, writing past one is \<open>LogOverflow\<close>.
\<close>


section \<open>Numbers\<close>

text \<open>\<open>*sptr - '0'\<close>; \<open>char\<close> is signed.\<close>

definition char_digit :: "byte \<Rightarrow> int" where
  "char_digit c = sint c - 48"

definition take_sign :: "bytes \<Rightarrow> bool \<times> bytes" where
  "take_sign s =
    (case s of
       c # cs \<Rightarrow> if c = of_char CHR ''-'' then (False, cs) else if c = of_char CHR ''+'' then (True, cs) else (True, s)
     | [] \<Rightarrow> (True, []))"

fun atof_integer :: "bytes \<Rightarrow> real \<Rightarrow> real \<times> bytes" where
  "atof_integer [] ans = (ans, [])"
| "atof_integer (c # cs) ans =
    (if c = 0 then (ans, []) else if c = of_char CHR ''.'' then (ans, cs)
     else atof_integer cs (ans * 10 + of_int (char_digit c)))"

fun atof_fraction :: "bytes \<Rightarrow> real \<Rightarrow> real \<Rightarrow> real" where
  "atof_fraction [] temp ans = ans"
| "atof_fraction (c # cs) temp ans =
    (if c = 0 then ans else atof_fraction cs (temp * 10) (ans + of_int (char_digit c) / temp))"

definition myatof :: "bytes \<Rightarrow> real" where
  "myatof s =
    (case take_sign s of (ispnum, s) \<Rightarrow>
       case atof_integer s 0 of (ans, s) \<Rightarrow>
         let ans = atof_fraction s 10 ans in if ispnum then ans else ans * (- 1))"

fun atoi_loop :: "bytes \<Rightarrow> u32 \<Rightarrow> u32" where
  "atoi_loop [] ans = ans"
| "atoi_loop (c # cs) ans = (if c = 0 then ans else atoi_loop cs (ans * 10 + of_int (char_digit c)))"

definition myatoi :: "bytes \<Rightarrow> int" where
  "myatoi s =
    (case take_sign s of (ispnum, s) \<Rightarrow>
       let ans = atoi_loop s 0 in sint (if ispnum then ans else ans * (- 1)))"


section \<open>The clock and the log\<close>

text \<open>The conversions \<open>%d\<close> and \<open>%0wd\<close> of \<open>sprintf\<close>.\<close>

fun dec_digits :: "nat \<Rightarrow> bytes" where
  "dec_digits n = (if n < 10 then [of_nat (48 + n)] else dec_digits (n div 10) @ [of_nat (48 + n mod 10)])"

declare dec_digits.simps [simp del]

definition fmt_d :: "int \<Rightarrow> bytes" where
  "fmt_d i = (if i < 0 then 45 # dec_digits (nat (- i)) else dec_digits (nat i))"

definition fmt_0d :: "nat \<Rightarrow> int \<Rightarrow> bytes" where
  "fmt_0d w i = (let d = fmt_d i in replicate (w - length d) 48 @ d)"

record tm =
  tm_year :: int
  tm_mon :: int
  tm_mday :: int
  tm_hour :: int
  tm_min :: int
  tm_sec :: int

text \<open>\<open>struct __timeb64\<close>: seconds and milliseconds.\<close>

type_synonym timeb = "nat \<times> nat"

definition getServerTime :: "timeb \<Rightarrow> nat" where
  "getServerTime tb = (fst tb * 1000 + snd tb) mod 2 ^ 64"

definition time_format :: "tm \<Rightarrow> nat \<Rightarrow> bytes" where
  "time_format t millitm =
    fmt_d (tm_year t + 1900) @ lit ''-'' @ fmt_0d 2 (tm_mon t + 1) @ lit ''-'' @ fmt_0d 2 (tm_mday t) @ lit '' '' @
    fmt_0d 2 (tm_hour t) @ lit '':'' @ fmt_0d 2 (tm_min t) @ lit '':'' @ fmt_0d 2 (tm_sec t) @ lit ''.'' @
    fmt_0d 3 (int millitm)"

text \<open>\<open>localtime\<close> may return \<open>NULL\<close>; then the caller's string stays as it is.\<close>

definition getTimeStr :: "tm option \<Rightarrow> nat \<Rightarrow> bytes \<Rightarrow> bytes" where
  "getTimeStr current millitm timestr =
    (case current of None \<Rightarrow> timestr | Some t \<Rightarrow> time_format t millitm)"

abbreviation (input) dMAX_LOG_BUFF :: nat where "dMAX_LOG_BUFF \<equiv> 1024 * 100"

text \<open>\<open>LogLine\<close> is the file appended to by \<open>saveLog\<close> (if it opens) and the text, which goes to
  \<open>stderr\<close> as well.\<close>

datatype log_result = LogNothing | LogTooLong bytes | LogLine bytes bytes | LogOverflow

definition fits :: "bytes \<Rightarrow> nat \<Rightarrow> bool" where
  "fits s n \<longleftrightarrow> length s + 1 \<le> n"

definition log_text :: "tm \<Rightarrow> nat \<Rightarrow> bytes \<Rightarrow> bytes" where
  "log_text t millitm buf = lit ''['' @ time_format t millitm @ lit ''] '' @ c_str buf @ [10, 13]"

definition log_file :: "bytes \<Rightarrow> tm \<Rightarrow> bytes" where
  "log_file SEVERNAME t =
    lit ''logs/'' @ SEVERNAME @ lit ''_'' @ fmt_d (tm_year t + 1900) @ lit ''_'' @ fmt_0d 2 (tm_mon t + 1) @
    lit ''_'' @ fmt_0d 2 (tm_mday t) @ lit ''.txt''"

definition log_msg :: "bytes \<Rightarrow> tm option \<Rightarrow> nat \<Rightarrow> bytes \<Rightarrow> log_result" where
  "log_msg SEVERNAME current millitm buf =
    (case current of
       None \<Rightarrow> LogNothing
     | Some t \<Rightarrow>
         if \<not> fits (time_format t millitm) 32 then LogOverflow
         else if length (c_str buf) > dMAX_LOG_BUFF then LogTooLong (lit ''log size > 100K'')
         else if \<not> fits (log_text t millitm buf) dMAX_LOG_BUFF then LogOverflow
         else if \<not> fits (log_file SEVERNAME t) 40 then LogOverflow
         else LogLine (log_file SEVERNAME t) (log_text t millitm buf))"

text \<open>\<open>saveLog\<close> on a file system: nothing happens when the file does not open.\<close>

definition saveLog :: "(bytes \<Rightarrow> bool) \<Rightarrow> bytes \<Rightarrow> bytes \<Rightarrow> (bytes \<rightharpoonup> bytes) \<Rightarrow> (bytes \<rightharpoonup> bytes)" where
  "saveLog opens fileName logValue files =
    (if \<not> opens fileName then files
     else files(fileName \<mapsto> (case files fileName of None \<Rightarrow> [] | Some old \<Rightarrow> old) @ c_str logValue))"


section \<open>Facts\<close>

definition digit_char :: "nat \<Rightarrow> byte" where
  "digit_char d = of_nat (48 + d)"

lemma digit_char_cases: "(d :: nat) < 10 \<Longrightarrow> d \<in> {0, 1, 2, 3, 4, 5, 6, 7, 8, 9}"
  by auto

lemma char_digit_char: "d < 10 \<Longrightarrow> char_digit (digit_char d) = int d"
  by (drule digit_char_cases) (auto simp: char_digit_def digit_char_def)

lemma digit_char_special: "d < 10 \<Longrightarrow> digit_char d \<noteq> 0 \<and> digit_char d \<noteq> 46 \<and> digit_char d \<noteq> 45 \<and> digit_char d \<noteq> 43"
  by (drule digit_char_cases) (auto simp: digit_char_def)

text \<open>The value of a sequence of decimal digits.\<close>

definition dec_val :: "nat list \<Rightarrow> nat" where
  "dec_val ds = foldl (\<lambda>a d. a * 10 + d) 0 ds"

lemma foldl_dec: "foldl (\<lambda>a d. a * 10 + d) x ds = x * 10 ^ length ds + dec_val ds"
proof (induction ds arbitrary: x)
  case (Cons d ds)
  have "foldl (\<lambda>a d. a * 10 + d) x (d # ds) = (x * 10 + d) * 10 ^ length ds + dec_val ds"
    using Cons [of "x * 10 + d"] by simp
  moreover have "dec_val (d # ds) = d * 10 ^ length ds + dec_val ds"
    using Cons [of d] by (simp add: dec_val_def)
  ultimately show ?case by (simp add: algebra_simps)
qed (simp add: dec_val_def)

lemma dec_val_simps: "dec_val [] = 0" "dec_val (d # ds) = d * 10 ^ length ds + dec_val ds"
  "dec_val (ds @ [d]) = dec_val ds * 10 + d"
  using foldl_dec [of d ds] by (simp_all add: dec_val_def)

lemma dec_val_append: "dec_val (ds @ es) = dec_val ds * 10 ^ length es + dec_val es"
  using foldl_dec [of "dec_val ds" es] by (simp add: dec_val_def)

lemma atof_integer_digits:
  "\<forall>d \<in> set ds. d < 10 \<Longrightarrow>
    atof_integer (map digit_char ds @ rest) x = atof_integer rest (x * 10 ^ length ds + of_nat (dec_val ds))"
  by (induction ds arbitrary: x)
    (auto simp: dec_val_simps char_digit_char digit_char_special algebra_simps)

lemma atof_fraction_digits:
  "\<forall>d \<in> set ds. d < 10 \<Longrightarrow> temp \<noteq> 0 \<Longrightarrow>
    atof_fraction (map digit_char ds) temp ans = ans + 10 * of_nat (dec_val ds) / (temp * 10 ^ length ds)"
proof (induction ds arbitrary: temp ans)
  case (Cons d ds)
  then have d: "d < 10" and ds: "\<forall>d \<in> set ds. d < 10" by auto
  have eq: "atof_fraction (map digit_char (d # ds)) temp ans =
      ans + of_nat d / temp + 10 * of_nat (dec_val ds) / (temp * 10 * 10 ^ length ds)"
    using Cons.IH [OF ds, of "temp * 10" "ans + of_nat d / temp"] d Cons.prems(2)
    by (simp add: char_digit_char digit_char_special)
  show ?case unfolding eq using Cons.prems(2) by (simp add: dec_val_simps field_simps)
qed (simp add: dec_val_simps)

lemma take_sign_digits:
  "\<forall>d \<in> set ds. d < 10 \<Longrightarrow> take_sign (map digit_char ds @ 46 # rest) = (True, map digit_char ds @ 46 # rest)"
  "\<forall>d \<in> set ds. d < 10 \<Longrightarrow> take_sign (map digit_char ds) = (True, map digit_char ds)"
  "take_sign (45 # s) = (False, s)"
  using digit_char_special by (cases ds; simp add: take_sign_def)+

text \<open>\<open>dec_digits\<close> prints the digits of a number.\<close>

fun nat_digits :: "nat \<Rightarrow> nat list" where
  "nat_digits n = (if n < 10 then [n] else nat_digits (n div 10) @ [n mod 10])"

declare nat_digits.simps [simp del]

lemma dec_digits_eq: "dec_digits n = map digit_char (nat_digits n)"
  by (induction n rule: nat_digits.induct)
    (subst dec_digits.simps, subst nat_digits.simps, auto simp: digit_char_def)

lemma nat_digits_less: "\<forall>d \<in> set (nat_digits n). d < 10"
  by (induction n rule: nat_digits.induct) (subst nat_digits.simps, auto)

lemma dec_val_nat_digits: "dec_val (nat_digits n) = n"
  by (induction n rule: nat_digits.induct) (subst nat_digits.simps, auto simp: dec_val_simps)

lemma length_dec_digits: "n < 10 ^ k \<Longrightarrow> 0 < k \<Longrightarrow> length (dec_digits n) \<le> k"
proof (induction k arbitrary: n)
  case (Suc k)
  show ?case
  proof (cases "n < 10")
    case True
    then show ?thesis by (subst dec_digits.simps) simp
  next
    case False
    with Suc.prems have "0 < k" by (cases k) auto
    with Suc.IH [of "n div 10"] Suc.prems False show ?thesis
      by (subst dec_digits.simps) (simp add: less_mult_imp_div_less mult.commute)
  qed
qed simp

lemma atoi_loop_digits:
  "\<forall>d \<in> set ds. d < 10 \<Longrightarrow> atoi_loop (map digit_char ds) x = x * 10 ^ length ds + of_nat (dec_val ds)"
  by (induction ds arbitrary: x)
    (auto simp: dec_val_simps char_digit_char digit_char_special algebra_simps)


section \<open>Properties\<close>

text \<open>C35: on a decimal numeral, digits with an optional sign, point and fraction, \<open>myatof\<close> yields its
  value.\<close>

theorem myatof_decimal:
  assumes "\<forall>d \<in> set ds. d < 10" "\<forall>d \<in> set fs. d < 10"
  shows "myatof (map digit_char ds @ [46] @ map digit_char fs) = of_nat (dec_val ds) + of_nat (dec_val fs) / 10 ^ length fs \<and>
    myatof (map digit_char ds) = of_nat (dec_val ds) \<and>
    myatof (45 # map digit_char ds @ [46] @ map digit_char fs) = - (of_nat (dec_val ds) + of_nat (dec_val fs) / 10 ^ length fs) \<and>
    myatof (45 # map digit_char ds) = - of_nat (dec_val ds)"
  using assms atof_integer_digits [of ds "[]" 0] atof_integer_digits [of ds "46 # map digit_char fs" 0]
  by (simp add: myatof_def take_sign_digits atof_fraction_digits)

theorem myatof_decimal_witness: "myatof (map digit_char [1, 2] @ [46] @ map digit_char [5]) = 12 + 5 / 10"
  using myatof_decimal [of "[1, 2]" "[5]"] by (simp add: dec_val_simps)

text \<open>A numeral with an exponent, which MySQL prints for large \<open>DOUBLE\<close>s, is misread: the
  \<open>e\<close> counts as the digit 53.\<close>

theorem myatof_exponent: "myatof (lit ''1e3'') = 633"
  by (simp add: myatof_def take_sign_def char_digit_def)

text \<open>\<open>myatoi\<close> reads back what \<open>%d\<close> prints of any \<open>int\<close>.\<close>

theorem myatoi_fmt_d:
  assumes "- (2 ^ 31) \<le> i" "i < 2 ^ 31"
  shows "myatoi (fmt_d i) = i"
proof -
  have w: "atoi_loop (dec_digits n) 0 = of_nat n" for n
    by (simp add: dec_digits_eq atoi_loop_digits nat_digits_less dec_val_nat_digits)
  have s: "sint (of_int i :: u32) = i"
    using assms by (simp add: sint_sbintrunc' signed_take_bit_int_eq_self)
  show ?thesis
  proof (cases "i < 0")
    case True
    then have "(of_nat (nat (- i)) :: u32) * (- 1) = of_int i"
      by (simp add: of_nat_nat)
    with True s show ?thesis by (simp add: myatoi_def fmt_d_def take_sign_digits w)
  next
    case False
    then have "take_sign (dec_digits (nat i)) = (True, dec_digits (nat i))"
      by (simp add: dec_digits_eq take_sign_digits nat_digits_less)
    with False s show ?thesis by (simp add: myatoi_def fmt_d_def w)
  qed
qed

theorem myatoi_fmt_d_witness: "myatoi (fmt_d (- 2147483648)) = - 2147483648"
  using myatoi_fmt_d [of "- 2147483648"] by simp

text \<open>A calendar time, in a year of four digits.\<close>

definition tm_ok :: "tm \<Rightarrow> bool" where
  "tm_ok t \<longleftrightarrow> 1000 \<le> tm_year t + 1900 \<and> tm_year t + 1900 \<le> 9999 \<and> 0 \<le> tm_mon t \<and> tm_mon t \<le> 11 \<and>
    1 \<le> tm_mday t \<and> tm_mday t \<le> 31 \<and> 0 \<le> tm_hour t \<and> tm_hour t \<le> 23 \<and> 0 \<le> tm_min t \<and> tm_min t \<le> 59 \<and>
    0 \<le> tm_sec t \<and> tm_sec t \<le> 60"

lemma length_fmt_0d: "0 \<le> i \<Longrightarrow> i < 10 ^ w \<Longrightarrow> 0 < w \<Longrightarrow> length (fmt_0d w i) = w"
proof -
  assume i: "0 \<le> i" "i < 10 ^ w" "0 < w"
  then have "nat i < 10 ^ w" by (simp add: nat_less_iff)
  with i length_dec_digits [of "nat i" w] show ?thesis by (simp add: fmt_0d_def fmt_d_def Let_def)
qed

lemma length_fmt_year:
  assumes "1000 \<le> i" "i \<le> 9999"
  shows "length (fmt_d i) = 4"
proof -
  have "length (dec_digits (nat i)) = 1 + length (dec_digits (nat i div 10))"
    using assms by (subst dec_digits.simps) auto
  also have "length (dec_digits (nat i div 10)) = 1 + length (dec_digits (nat i div 10 div 10))"
    using assms by (subst dec_digits.simps) auto
  also have "length (dec_digits (nat i div 10 div 10)) = 1 + length (dec_digits (nat i div 10 div 10 div 10))"
    using assms by (subst dec_digits.simps) auto
  also have "length (dec_digits (nat i div 10 div 10 div 10)) = 1"
    using assms by (subst dec_digits.simps) auto
  finally show ?thesis using assms by (simp add: fmt_d_def)
qed

lemma length_time_format: "tm_ok t \<Longrightarrow> millitm < 1000 \<Longrightarrow> length (time_format t millitm) = 23"
  by (simp add: time_format_def tm_ok_def length_fmt_0d length_fmt_year)

lemma length_log_file: "tm_ok t \<Longrightarrow> length (log_file SEVERNAME t) = length SEVERNAME + 20"
  by (simp add: log_file_def tm_ok_def length_fmt_0d length_fmt_year)

text \<open>C36: which messages \<open>log\<close> can take: up to 102371 bytes and a server name of up to 19 are logged
  in one line; above 102400 it says so; the 29 lengths in between pass its check and overflow the
  line buffer, and a longer server name overflows the file name.\<close>

theorem log_bounds:
  assumes "tm_ok t" "millitm < 1000"
  shows "log_msg SEVERNAME (Some t) millitm buf =
    (if length (c_str buf) > 102400 then LogTooLong (lit ''log size > 100K'')
     else if length (c_str buf) > 102371 \<or> length SEVERNAME > 19 then LogOverflow
     else LogLine (log_file SEVERNAME t) (log_text t millitm buf))"
  using assms by (auto simp: log_msg_def fits_def length_time_format length_log_file log_text_def)

theorem log_bounds_witness:
  "log_msg (replicate 20 65) (Some \<lparr>tm_year = 114, tm_mon = 6, tm_mday = 18, tm_hour = 9, tm_min = 5, tm_sec = 0\<rparr>) 7 [] =
    LogOverflow"
  using log_bounds [of "\<lparr>tm_year = 114, tm_mon = 6, tm_mday = 18, tm_hour = 9, tm_min = 5, tm_sec = 0\<rparr>" 7 "replicate 20 65" "[]"]
  by (simp add: tm_ok_def c_str_def)

end
