(* ===== verification/Uthash.thy ===== *)
theory Uthash
  imports Prelude "HOL-Library.Multiset"
begin

text \<open>
  uthash.h, the hash table in which the server keeps its connections: the operations it uses,
  \<open>HASH_ADD_INT\<close>, \<open>HASH_FIND_INT\<close> and \<open>HASH_DEL\<close>, with the Jenkins hash function and the
  expansion of the buckets. The two doubly linked lists through the handles, one per bucket and
  one in the order of addition, are lists of handles, first element first; the pointer
  \<open>head\<close> is \<open>NULL\<close> exactly when there is no table. Elements are known by their address.
\<close>


section \<open>The hash function\<close>

text \<open>\<open>HASH_JEN_MIX\<close>, a line of the macro after the other.\<close>

definition jen_line :: "(u32 \<Rightarrow> u32) \<Rightarrow> (u32 \<Rightarrow> u32) \<Rightarrow> (u32 \<Rightarrow> u32) \<Rightarrow> u32 \<times> u32 \<times> u32 \<Rightarrow> u32 \<times> u32 \<times> u32" where
  "jen_line r1 r2 r3 = (\<lambda>(a, b, c).
    let a = a - b; a = a - c; a = a XOR r1 c;
        b = b - c; b = b - a; b = b XOR r2 a;
        c = c - a; c = c - b; c = c XOR r3 b
    in (a, b, c))"

definition HASH_JEN_MIX :: "u32 \<times> u32 \<times> u32 \<Rightarrow> u32 \<times> u32 \<times> u32" where
  "HASH_JEN_MIX s =
    (let s = jen_line (drop_bit 13) (push_bit 8) (drop_bit 13) s;
         s = jen_line (drop_bit 12) (push_bit 16) (drop_bit 5) s
     in jen_line (drop_bit 3) (push_bit 10) (drop_bit 15) s)"

definition key_byte :: "bytes \<Rightarrow> nat \<Rightarrow> nat \<Rightarrow> u32" where
  "key_byte k i sh = push_bit sh (ucast (k ! i))"

definition key_word :: "bytes \<Rightarrow> nat \<Rightarrow> u32" where
  "key_word k i = key_byte k i 0 + key_byte k (i + 1) 8 + key_byte k (i + 2) 16 + key_byte k (i + 3) 24"

fun jen_loop :: "bytes \<Rightarrow> u32 \<times> u32 \<times> u32 \<Rightarrow> bytes \<times> u32 \<times> u32 \<times> u32" where
  "jen_loop k (i, j, h) =
    (if 12 \<le> length k
     then jen_loop (drop 12 k) (HASH_JEN_MIX (i + key_word k 0, j + key_word k 4, h + key_word k 8))
     else (k, i, j, h))"

declare jen_loop.simps [simp del]

text \<open>The \<open>switch\<close> falls through: a case runs when at least that many bytes are left.\<close>

definition HASH_JEN :: "bytes \<Rightarrow> u32" where
  "HASH_JEN key =
    (case jen_loop key (0x9e3779b9, 0x9e3779b9, 0xfeedbeef) of (k, i, j, h) \<Rightarrow>
       let h = h + of_nat (length key);
           at = (\<lambda>n sh. if n < length k then key_byte k n sh else 0);
           h = h + at 10 24; h = h + at 9 16; h = h + at 8 8;
           j = j + at 7 24; j = j + at 6 16; j = j + at 5 8; j = j + at 4 0;
           i = i + at 3 24; i = i + at 2 16; i = i + at 1 8; i = i + at 0 0
       in case HASH_JEN_MIX (i, j, h) of (i, j, h) \<Rightarrow> h)"


section \<open>The table\<close>

text \<open>A handle with the address of its element; its key and hash value do not change while it
  is in the table.\<close>

record UT_hash_handle =
  hh_el :: nat
  hh_key :: bytes
  hashv :: u32

record UT_hash_bucket =
  chain :: "UT_hash_handle list"
  bkt_count :: nat
  expand_mult :: nat

record UT_hash_table =
  buckets :: "UT_hash_bucket list"
  num_buckets :: nat
  log2_num_buckets :: nat
  num_items :: nat
  app_order :: "UT_hash_handle list"
  ideal_chain_maxlen :: nat
  nonideal_items :: nat
  ineff_expands :: nat
  noexpand :: bool

abbreviation HASH_INITIAL_NUM_BUCKETS :: nat where "HASH_INITIAL_NUM_BUCKETS \<equiv> 32"
abbreviation HASH_INITIAL_NUM_BUCKETS_LOG2 :: nat where "HASH_INITIAL_NUM_BUCKETS_LOG2 \<equiv> 5"
abbreviation HASH_BKT_CAPACITY_THRESH :: nat where "HASH_BKT_CAPACITY_THRESH \<equiv> 10"

definition empty_bucket :: UT_hash_bucket where
  "empty_bucket = \<lparr>chain = [], bkt_count = 0, expand_mult = 0\<rparr>"

definition HASH_MAKE_TABLE :: "UT_hash_handle \<Rightarrow> UT_hash_table" where
  "HASH_MAKE_TABLE h =
    \<lparr>buckets = replicate HASH_INITIAL_NUM_BUCKETS empty_bucket, num_buckets = HASH_INITIAL_NUM_BUCKETS,
     log2_num_buckets = HASH_INITIAL_NUM_BUCKETS_LOG2, num_items = 0, app_order = [h],
     ideal_chain_maxlen = 0, nonideal_items = 0, ineff_expands = 0, noexpand = False\<rparr>"

definition HASH_TO_BKT :: "u32 \<Rightarrow> nat \<Rightarrow> nat" where
  "HASH_TO_BKT v num_bkts = unat (v AND (of_nat num_bkts - 1))"

text \<open>The body of the inner loop of \<open>HASH_EXPAND_BUCKETS\<close>: the new buckets and \<open>nonideal_items\<close>.\<close>

definition expand_item ::
  "nat \<Rightarrow> nat \<Rightarrow> UT_hash_handle \<Rightarrow> UT_hash_bucket list \<times> nat \<Rightarrow> UT_hash_bucket list \<times> nat" where
  "expand_item new_num ideal h = (\<lambda>(bs, nonideal).
    let i = HASH_TO_BKT (hashv h) new_num;
        b = bs ! i;
        b = b\<lparr>bkt_count := bkt_count b + 1\<rparr>;
        over = bkt_count b > ideal;
        b = (if over then b\<lparr>expand_mult := bkt_count b div ideal\<rparr> else b)
    in (bs[i := b\<lparr>chain := h # chain b\<rparr>], if over then nonideal + 1 else nonideal))"

definition HASH_EXPAND_BUCKETS :: "UT_hash_table \<Rightarrow> UT_hash_table" where
  "HASH_EXPAND_BUCKETS t =
    (let ideal = num_items t div 2 ^ (log2_num_buckets t + 1) +
           (if num_items t AND (num_buckets t * 2 - 1) \<noteq> 0 then 1 else 0);
         (bs, nonideal) = fold (\<lambda>b. fold (expand_item (num_buckets t * 2) ideal) (chain b)) (buckets t)
           (replicate (2 * num_buckets t) empty_bucket, 0);
         ineff = (if nonideal > num_items t div 2 then ineff_expands t + 1 else 0)
     in t\<lparr>buckets := bs, num_buckets := num_buckets t * 2, log2_num_buckets := log2_num_buckets t + 1,
          ideal_chain_maxlen := ideal, nonideal_items := nonideal, ineff_expands := ineff,
          noexpand := noexpand t \<or> ineff > 1\<rparr>)"

definition HASH_ADD_TO_BKT :: "UT_hash_table \<Rightarrow> nat \<Rightarrow> UT_hash_handle \<Rightarrow> UT_hash_table" where
  "HASH_ADD_TO_BKT t i h =
    (let b = buckets t ! i;
         b = b\<lparr>bkt_count := bkt_count b + 1, chain := h # chain b\<rparr>;
         t = t\<lparr>buckets := (buckets t)[i := b]\<rparr>
     in if bkt_count b \<ge> (expand_mult b + 1) * HASH_BKT_CAPACITY_THRESH \<and> \<not> noexpand t
        then HASH_EXPAND_BUCKETS t else t)"

definition HASH_ADD :: "UT_hash_table option \<Rightarrow> bytes \<Rightarrow> nat \<Rightarrow> UT_hash_table option" where
  "HASH_ADD head key add =
    (let h = \<lparr>hh_el = add, hh_key = key, hashv = HASH_JEN key\<rparr>;
         t = (case head of
                None \<Rightarrow> HASH_MAKE_TABLE h
              | Some t \<Rightarrow> t\<lparr>app_order := app_order t @ [h]\<rparr>);
         t = t\<lparr>num_items := num_items t + 1\<rparr>
     in Some (HASH_ADD_TO_BKT t (HASH_TO_BKT (hashv h) (num_buckets t)) h))"

fun HASH_FIND_IN_BKT :: "UT_hash_handle list \<Rightarrow> bytes \<Rightarrow> nat option" where
  "HASH_FIND_IN_BKT [] key = None"
| "HASH_FIND_IN_BKT (h # hs) key =
    (if length (hh_key h) = length key \<and> hh_key h = key then Some (hh_el h) else HASH_FIND_IN_BKT hs key)"

definition HASH_FIND :: "UT_hash_table option \<Rightarrow> bytes \<Rightarrow> nat option" where
  "HASH_FIND head key =
    (case head of
       None \<Rightarrow> None
     | Some t \<Rightarrow> HASH_FIND_IN_BKT (chain (buckets t ! HASH_TO_BKT (HASH_JEN key) (num_buckets t))) key)"

definition HASH_DEL_IN_BKT :: "UT_hash_bucket \<Rightarrow> nat \<Rightarrow> UT_hash_bucket" where
  "HASH_DEL_IN_BKT b p = b\<lparr>bkt_count := bkt_count b - 1, chain := filter (\<lambda>h. hh_el h \<noteq> p) (chain b)\<rparr>"

text \<open>\<open>delptr\<close> is the element at \<open>p\<close>. Deleting one that is not in the table is not defined;
  the last one takes the table with it.\<close>

definition HASH_DELETE :: "UT_hash_table option \<Rightarrow> nat \<Rightarrow> UT_hash_table option" where
  "HASH_DELETE head p =
    (case head of
       None \<Rightarrow> None
     | Some t \<Rightarrow>
         (case filter (\<lambda>h. hh_el h = p) (app_order t) of
            [] \<Rightarrow> Some t
          | d # _ \<Rightarrow>
              if app_order t = [d] then None
              else
                let i = HASH_TO_BKT (hashv d) (num_buckets t) in
                Some (t\<lparr>app_order := filter (\<lambda>h. hh_el h \<noteq> p) (app_order t),
                        buckets := (buckets t)[i := HASH_DEL_IN_BKT (buckets t ! i) p],
                        num_items := num_items t - 1\<rparr>)))"

text \<open>The key of the \<open>_INT\<close> forms is the four bytes of the field.\<close>

definition int_key :: "int \<Rightarrow> bytes" where
  "int_key i = le_bytes 4 (nat (i mod 2 ^ 32))"

definition HASH_ADD_INT :: "UT_hash_table option \<Rightarrow> int \<Rightarrow> nat \<Rightarrow> UT_hash_table option" where
  "HASH_ADD_INT head field add = HASH_ADD head (int_key field) add"

definition HASH_FIND_INT :: "UT_hash_table option \<Rightarrow> int \<Rightarrow> nat option" where
  "HASH_FIND_INT head field = HASH_FIND head (int_key field)"



section \<open>The invariant\<close>

text \<open>The buckets hold the handles of \<open>M\<close>, each in the bucket of its hash value, and count them.\<close>

definition buckets_ok :: "UT_hash_bucket list \<Rightarrow> nat \<Rightarrow> UT_hash_handle multiset \<Rightarrow> bool" where
  "buckets_ok bs n M \<longleftrightarrow> length bs = n \<and>
    (\<forall>i < n. bkt_count (bs ! i) = length (chain (bs ! i)) \<and>
       mset (chain (bs ! i)) = filter_mset (\<lambda>h. HASH_TO_BKT (hashv h) n = i) M)"

definition table_inv :: "UT_hash_table \<Rightarrow> bool" where
  "table_inv t \<longleftrightarrow>
    num_buckets t = 2 ^ log2_num_buckets t \<and> num_items t = length (app_order t) \<and> app_order t \<noteq> [] \<and>
    distinct (map hh_el (app_order t)) \<and> (\<forall>h \<in> set (app_order t). hashv h = HASH_JEN (hh_key h)) \<and>
    buckets_ok (buckets t) (num_buckets t) (mset (app_order t))"

definition hash_inv :: "UT_hash_table option \<Rightarrow> bool" where
  "hash_inv head \<longleftrightarrow> (case head of None \<Rightarrow> True | Some t \<Rightarrow> table_inv t)"

text \<open>What the table holds, in the order of addition: addresses with their keys.\<close>

definition members :: "UT_hash_table option \<Rightarrow> (nat \<times> bytes) list" where
  "members head = (case head of None \<Rightarrow> [] | Some t \<Rightarrow> map (\<lambda>h. (hh_el h, hh_key h)) (app_order t))"

lemma HASH_TO_BKT_mod: "HASH_TO_BKT v (2 ^ l) = unat v mod 2 ^ l"
  unfolding HASH_TO_BKT_def by (simp flip: mask_eq_exp_minus_1 add: unat_and_mask)

lemma HASH_TO_BKT_less: "HASH_TO_BKT v (2 ^ l) < 2 ^ l"
  by (simp add: HASH_TO_BKT_mod)

lemma buckets_ok_push:
  assumes "buckets_ok bs n M" "i = HASH_TO_BKT (hashv h) n" "i < n"
    "chain b = h # chain (bs ! i)" "bkt_count b = bkt_count (bs ! i) + 1"
  shows "buckets_ok (bs[i := b]) n (add_mset h M)"
  using assms by (auto simp: buckets_ok_def nth_list_update)

lemma buckets_ok_empty: "buckets_ok (replicate n empty_bucket) n {#}"
  by (simp add: buckets_ok_def empty_bucket_def)

lemma expand_item_ok:
  assumes "buckets_ok (fst acc) (2 ^ l) M"
  shows "buckets_ok (fst (expand_item (2 ^ l) ideal h acc)) (2 ^ l) (add_mset h M)"
  unfolding expand_item_def using assms
  by (auto simp: Let_def split_beta HASH_TO_BKT_less intro!: buckets_ok_push)

lemma expand_chain_ok:
  "buckets_ok (fst acc) (2 ^ l) M \<Longrightarrow>
    buckets_ok (fst (fold (expand_item (2 ^ l) ideal) hs acc)) (2 ^ l) (mset hs + M)"
proof (induction hs arbitrary: acc M)
  case (Cons h hs)
  from Cons.IH [OF expand_item_ok [OF Cons.prems]] show ?case by simp
qed simp

lemma expand_chains_ok:
  "buckets_ok (fst acc) (2 ^ l) M \<Longrightarrow>
    buckets_ok (fst (fold (\<lambda>b. fold (expand_item (2 ^ l) ideal) (chain b)) bs acc)) (2 ^ l)
      (mset (concat (map chain bs)) + M)"
proof (induction bs arbitrary: acc M)
  case (Cons b bs)
  from Cons.IH [OF expand_chain_ok [OF Cons.prems, of ideal "chain b"]] show ?case by (simp add: add_ac)
qed simp

lemma buckets_ok_all:
  assumes "buckets_ok bs (2 ^ l) M"
  shows "mset (concat (map chain bs)) = M"
proof (rule multiset_eqI)
  fix h :: UT_hash_handle
  let ?i = "HASH_TO_BKT (hashv h) (2 ^ l)"
  have "count (mset (concat (map chain bs))) h = (\<Sum>i < 2 ^ l. count (mset (chain (bs ! i))) h)"
    using assms by (simp add: buckets_ok_def mset_concat sum_list_sum_nth count_sum atLeast0LessThan flip: mset_map)
  also have "\<dots> = (\<Sum>i < 2 ^ l. if ?i = i then count M h else 0)"
    using assms by (intro sum.cong) (auto simp: buckets_ok_def)
  also have "\<dots> = count M h"
    using HASH_TO_BKT_less [of "hashv h" l] by (simp add: sum.delta')
  finally show "count (mset (concat (map chain bs))) h = count M h" .
qed

lemma HASH_EXPAND_BUCKETS_inv:
  assumes "num_buckets t = 2 ^ log2_num_buckets t" "buckets_ok (buckets t) (num_buckets t) M"
  shows "num_buckets (HASH_EXPAND_BUCKETS t) = 2 ^ log2_num_buckets (HASH_EXPAND_BUCKETS t)"
    "buckets_ok (buckets (HASH_EXPAND_BUCKETS t)) (num_buckets (HASH_EXPAND_BUCKETS t)) M"
    "app_order (HASH_EXPAND_BUCKETS t) = app_order t" "num_items (HASH_EXPAND_BUCKETS t) = num_items t"
proof -
  let ?l = "log2_num_buckets t + 1"
  have n: "num_buckets t * 2 = 2 ^ ?l" "2 * num_buckets t = 2 ^ ?l" using assms(1) by simp_all
  have "buckets_ok (fst (fold (\<lambda>b. fold (expand_item (num_buckets t * 2) ideal) (chain b)) (buckets t)
      (replicate (2 * num_buckets t) empty_bucket, 0))) (num_buckets t * 2) M" for ideal
    using expand_chains_ok [of "(replicate (2 ^ ?l) empty_bucket, 0)" ?l "{#}" ideal "buckets t"]
      buckets_ok_all [of "buckets t" "log2_num_buckets t" M] assms
    unfolding n by (simp add: buckets_ok_empty)
  then show "buckets_ok (buckets (HASH_EXPAND_BUCKETS t)) (num_buckets (HASH_EXPAND_BUCKETS t)) M"
    by (simp add: HASH_EXPAND_BUCKETS_def Let_def split_beta)
qed (use assms(1) in \<open>simp_all add: HASH_EXPAND_BUCKETS_def Let_def split_beta\<close>)

lemma HASH_ADD_TO_BKT_inv:
  assumes "num_buckets t = 2 ^ log2_num_buckets t" "buckets_ok (buckets t) (num_buckets t) M"
    "i = HASH_TO_BKT (hashv h) (num_buckets t)"
  shows "num_buckets (HASH_ADD_TO_BKT t i h) = 2 ^ log2_num_buckets (HASH_ADD_TO_BKT t i h)"
    "buckets_ok (buckets (HASH_ADD_TO_BKT t i h)) (num_buckets (HASH_ADD_TO_BKT t i h)) (add_mset h M)"
    "app_order (HASH_ADD_TO_BKT t i h) = app_order t" "num_items (HASH_ADD_TO_BKT t i h) = num_items t"
proof -
  let ?b = "buckets t ! i"
  let ?t = "t\<lparr>buckets := (buckets t)[i := ?b\<lparr>bkt_count := bkt_count ?b + 1, chain := h # chain ?b\<rparr>]\<rparr>"
  have "buckets_ok (buckets ?t) (num_buckets ?t) (add_mset h M)" "num_buckets ?t = 2 ^ log2_num_buckets ?t"
    using assms HASH_TO_BKT_less [of "hashv h" "log2_num_buckets t"] by (auto intro!: buckets_ok_push)
  note e = HASH_EXPAND_BUCKETS_inv [OF this(2,1)] this
  show "num_buckets (HASH_ADD_TO_BKT t i h) = 2 ^ log2_num_buckets (HASH_ADD_TO_BKT t i h)"
    "buckets_ok (buckets (HASH_ADD_TO_BKT t i h)) (num_buckets (HASH_ADD_TO_BKT t i h)) (add_mset h M)"
    "app_order (HASH_ADD_TO_BKT t i h) = app_order t" "num_items (HASH_ADD_TO_BKT t i h) = num_items t"
    using e unfolding HASH_ADD_TO_BKT_def Let_def by (simp_all split: if_split)
qed

lemma HASH_ADD_inv:
  assumes "hash_inv head" "p \<notin> fst ` set (members head)"
  shows "hash_inv (HASH_ADD head key p) \<and> members (HASH_ADD head key p) = members head @ [(p, key)]"
proof -
  let ?h = "\<lparr>hh_el = p, hh_key = key, hashv = HASH_JEN key\<rparr>"
  define t where "t = (case head of None \<Rightarrow> HASH_MAKE_TABLE ?h | Some t \<Rightarrow> t\<lparr>app_order := app_order t @ [?h]\<rparr>)"
  define old where "old = (case head of None \<Rightarrow> [] | Some t \<Rightarrow> app_order t)"
  have t: "num_buckets t = 2 ^ log2_num_buckets t" "buckets_ok (buckets t) (num_buckets t) (mset old)"
    "app_order t = old @ [?h]" "num_items t = length old"
    using assms(1) buckets_ok_empty [of 32]
    by (auto simp: t_def old_def HASH_MAKE_TABLE_def hash_inv_def table_inv_def split: option.splits)
  let ?u = "t\<lparr>num_items := num_items t + 1\<rparr>"
  let ?v = "HASH_ADD_TO_BKT ?u (HASH_TO_BKT (HASH_JEN key) (num_buckets ?u)) ?h"
  have u: "num_buckets ?u = 2 ^ log2_num_buckets ?u" "buckets_ok (buckets ?u) (num_buckets ?u) (mset old)"
    "HASH_TO_BKT (HASH_JEN key) (num_buckets ?u) = HASH_TO_BKT (hashv ?h) (num_buckets ?u)"
    using t(1,2) by simp_all
  note v = HASH_ADD_TO_BKT_inv [OF u]
  have add: "HASH_ADD head key p = Some ?v"
    by (simp add: HASH_ADD_def Let_def t_def split: option.split)
  have "distinct (map hh_el (old @ [?h]))" "\<forall>h \<in> set (old @ [?h]). hashv h = HASH_JEN (hh_key h)"
    using assms by (auto simp: old_def members_def hash_inv_def table_inv_def image_image split: option.splits)
  with t(3,4) v have inv: "table_inv ?v" by (simp add: table_inv_def)
  have "members (Some ?v) = members head @ [(p, key)]"
    using v(3) t(3) by (simp add: members_def old_def split: option.split)
  with add inv show ?thesis by (simp add: hash_inv_def)
qed

lemma HASH_FIND_IN_BKT_None: "HASH_FIND_IN_BKT hs key = None \<longleftrightarrow> (\<forall>h \<in> set hs. hh_key h \<noteq> key)"
  by (induction hs) auto

lemma HASH_FIND_IN_BKT_Some: "HASH_FIND_IN_BKT hs key = Some p \<Longrightarrow> \<exists>h \<in> set hs. hh_el h = p \<and> hh_key h = key"
  by (induction hs) (auto split: if_splits)

lemma chain_set:
  assumes "table_inv t" "i < num_buckets t"
  shows "set (chain (buckets t ! i)) = {h \<in> set (app_order t). HASH_TO_BKT (hashv h) (num_buckets t) = i}"
proof -
  have "set_mset (mset (chain (buckets t ! i))) =
      set_mset (filter_mset (\<lambda>h. HASH_TO_BKT (hashv h) (num_buckets t) = i) (mset (app_order t)))"
    using assms by (simp add: table_inv_def buckets_ok_def)
  then show ?thesis by simp
qed

lemma chain_of_key:
  assumes "table_inv t"
  shows "set (chain (buckets t ! HASH_TO_BKT (HASH_JEN key) (num_buckets t))) =
    {h \<in> set (app_order t). HASH_TO_BKT (hashv h) (num_buckets t) = HASH_TO_BKT (HASH_JEN key) (num_buckets t)}"
  by (rule chain_set [OF assms]) (use assms in \<open>auto simp: table_inv_def HASH_TO_BKT_less\<close>)

lemma HASH_FIND_None:
  "hash_inv head \<Longrightarrow> HASH_FIND head key = None \<longleftrightarrow> key \<notin> snd ` set (members head)"
proof (cases head)
  case (Some t)
  assume "hash_inv head"
  with Some have t: "table_inv t" by (simp add: hash_inv_def)
  then have "\<forall>h \<in> set (app_order t). hashv h = HASH_JEN (hh_key h)" by (simp add: table_inv_def)
  then show ?thesis
    by (auto simp: Some HASH_FIND_def HASH_FIND_IN_BKT_None chain_of_key [OF t] members_def image_image)
qed (simp add: HASH_FIND_def members_def)

lemma HASH_FIND_Some:
  "hash_inv head \<Longrightarrow> HASH_FIND head key = Some p \<Longrightarrow> (p, key) \<in> set (members head)"
  by (auto simp: HASH_FIND_def hash_inv_def members_def chain_of_key split: option.splits dest!: HASH_FIND_IN_BKT_Some)

lemma buckets_ok_del:
  assumes "buckets_ok bs (2 ^ l) (mset hs)" "distinct (map hh_el hs)" "d \<in> set hs" "hh_el d = p"
    "i = HASH_TO_BKT (hashv d) (2 ^ l)"
  shows "buckets_ok (bs[i := HASH_DEL_IN_BKT (bs ! i) p]) (2 ^ l) (mset (filter (\<lambda>h. hh_el h \<noteq> p) hs))"
proof -
  have i: "i < 2 ^ l" by (simp add: assms(5) HASH_TO_BKT_less)
  have only: "\<forall>h \<in> set hs. hh_el h = p \<longleftrightarrow> h = d"
    using assms(2-4) by (auto simp: distinct_map inj_on_def)
  have c: "mset (chain (bs ! i)) = filter_mset (\<lambda>h. HASH_TO_BKT (hashv h) (2 ^ l) = i) (mset hs)"
    using assms(1) i by (simp add: buckets_ok_def)
  have "length (filter (\<lambda>h. hh_el h \<noteq> p) (chain (bs ! i))) = length (chain (bs ! i)) - 1"
  proof -
    have "filter_mset (\<lambda>h. hh_el h = p) (mset (chain (bs ! i))) = filter_mset (\<lambda>h. h = d) (mset hs)"
      unfolding c filter_filter_mset using only assms(5) by (intro filter_mset_cong refl) auto
    also have "\<dots> = {#d#}"
    proof -
      have "distinct hs" using assms(2) by (simp add: distinct_map)
      then have "count (mset hs) d = 1" using assms(3) by (simp add: distinct_count_atmost_1)
      then show ?thesis by (simp add: filter_eq_replicate_mset)
    qed
    finally have "size (filter_mset (\<lambda>h. hh_el h = p) (mset (chain (bs ! i)))) = 1" by simp
    then have "length (filter (\<lambda>h. hh_el h = p) (chain (bs ! i))) = 1"
      by (metis mset_filter size_mset)
    then show ?thesis using sum_length_filter_compl [of "\<lambda>h. hh_el h = p" "chain (bs ! i)"] by simp
  qed
  moreover have "filter_mset (\<lambda>h. hh_el h \<noteq> p) (filter_mset (\<lambda>h. HASH_TO_BKT (hashv h) (2 ^ l) = j) (mset hs)) =
      filter_mset (\<lambda>h. HASH_TO_BKT (hashv h) (2 ^ l) = j) (mset hs)" if "j \<noteq> i" for j
    unfolding filter_filter_mset using only that assms(5) by (intro filter_mset_cong refl) auto
  ultimately show ?thesis
    using assms(1) i by (auto simp: buckets_ok_def HASH_DEL_IN_BKT_def nth_list_update filter_filter_mset conj_commute)
qed

lemma distinct_singleton: "distinct xs \<Longrightarrow> set xs = {x} \<Longrightarrow> xs = [x]"
  by (cases xs) (auto dest: subset_singletonD)

lemma HASH_DELETE_inv:
  assumes "hash_inv head" "p \<in> fst ` set (members head)"
  shows "hash_inv (HASH_DELETE head p) \<and>
    members (HASH_DELETE head p) = filter (\<lambda>m. fst m \<noteq> p) (members head)"
proof -
  from assms obtain t where t: "head = Some t" "table_inv t" "p \<in> hh_el ` set (app_order t)"
    by (auto simp: hash_inv_def members_def split: option.splits)
  then obtain d ds where d: "filter (\<lambda>h. hh_el h = p) (app_order t) = d # ds"
    by (cases "filter (\<lambda>h. hh_el h = p) (app_order t)") (auto simp: filter_empty_conv)
  then have "d \<in> set (filter (\<lambda>h. hh_el h = p) (app_order t))" by simp
  then have d': "d \<in> set (app_order t)" "hh_el d = p" by simp_all
  show ?thesis
  proof (cases "app_order t = [d]")
    case True
    then show ?thesis using t d d' by (simp add: HASH_DELETE_def hash_inv_def members_def)
  next
    case False
    let ?i = "HASH_TO_BKT (hashv d) (num_buckets t)"
    let ?u = "t\<lparr>app_order := filter (\<lambda>h. hh_el h \<noteq> p) (app_order t),
      buckets := (buckets t)[?i := HASH_DEL_IN_BKT (buckets t ! ?i) p], num_items := num_items t - 1\<rparr>"
    have del: "HASH_DELETE head p = Some ?u" using False t d by (simp add: HASH_DELETE_def Let_def)
    have only: "\<forall>h \<in> set (app_order t). hh_el h = p \<longleftrightarrow> h = d" and dist: "distinct (app_order t)"
      using t(2) d' by (auto simp: table_inv_def distinct_map inj_on_def)
    then have "filter (\<lambda>h. hh_el h \<noteq> p) (app_order t) = remove1 d (app_order t)"
      by (simp add: distinct_remove1_removeAll removeAll_filter_not_eq cong: filter_cong) (metis)
    then have "length (filter (\<lambda>h. hh_el h \<noteq> p) (app_order t)) = length (app_order t) - 1"
      using d' by (simp add: length_remove1)
    moreover have "filter (\<lambda>h. hh_el h \<noteq> p) (app_order t) \<noteq> []"
    proof
      assume "filter (\<lambda>h. hh_el h \<noteq> p) (app_order t) = []"
      then have "\<forall>h \<in> set (app_order t). hh_el h = p" by (simp add: filter_empty_conv)
      with only d'(1) have "set (app_order t) = {d}" by blast
      with dist False show False by (metis distinct_singleton)
    qed
    moreover have "buckets_ok (buckets ?u) (num_buckets ?u) (mset (app_order ?u))"
    proof -
      have n: "num_buckets t = 2 ^ log2_num_buckets t" and ok: "buckets_ok (buckets t) (num_buckets t) (mset (app_order t))"
        and el: "distinct (map hh_el (app_order t))"
        using t(2) unfolding table_inv_def by blast+
      from buckets_ok_del [OF ok [unfolded n] el d' refl] show ?thesis by (simp add: n)
    qed
    moreover have "distinct (map hh_el (app_order ?u))"
      using t(2) by (simp add: table_inv_def distinct_map_filter)
    ultimately have "table_inv ?u"
      using t(2) unfolding table_inv_def by (elim conjE, intro conjI) simp_all
    with del t(1) show ?thesis by (simp add: hash_inv_def members_def filter_map o_def)
  qed
qed


section \<open>The interface\<close>

lemma distinct_map_snd_eq: "distinct (map snd xs) \<Longrightarrow> (p, k) \<in> set xs \<Longrightarrow> (q, k) \<in> set xs \<Longrightarrow> q = p"
  by (fastforce simp: distinct_map inj_on_def)

text \<open>What a user of the table relies on. Two elements may have the same key; then \<open>find\<close> gives
  one of them.\<close>

locale registry =
  fixes nothing :: 't
    and inv :: "'t \<Rightarrow> bool"
    and elems :: "'t \<Rightarrow> (nat \<times> bytes) list"
    and add :: "'t \<Rightarrow> bytes \<Rightarrow> nat \<Rightarrow> 't"
    and find :: "'t \<Rightarrow> bytes \<Rightarrow> nat option"
    and del :: "'t \<Rightarrow> nat \<Rightarrow> 't"
  assumes nothing_law: "inv nothing \<and> elems nothing = []"
    and add_law: "inv t \<Longrightarrow> p \<notin> fst ` set (elems t) \<Longrightarrow>
      inv (add t k p) \<and> elems (add t k p) = elems t @ [(p, k)]"
    and del_law: "inv t \<Longrightarrow> p \<in> fst ` set (elems t) \<Longrightarrow>
      inv (del t p) \<and> elems (del t p) = filter (\<lambda>m. fst m \<noteq> p) (elems t)"
    and find_None: "inv t \<Longrightarrow> find t k = None \<longleftrightarrow> k \<notin> snd ` set (elems t)"
    and find_Some: "inv t \<Longrightarrow> find t k = Some p \<Longrightarrow> (p, k) \<in> set (elems t)"

text \<open>When the keys are distinct the table is a map from keys to addresses.\<close>

context registry
begin

definition keyed :: "'t \<Rightarrow> bool" where
  "keyed t \<longleftrightarrow> inv t \<and> distinct (map fst (elems t)) \<and> distinct (map snd (elems t))"

definition lookup :: "'t \<Rightarrow> bytes \<rightharpoonup> nat" where
  "lookup t = map_of (map (\<lambda>(p, k). (k, p)) (elems t))"

lemma lookup_iff: "keyed t \<Longrightarrow> lookup t k = Some p \<longleftrightarrow> (p, k) \<in> set (elems t)"
proof -
  assume "keyed t"
  then have "distinct (map fst (map (\<lambda>(p, k). (k, p)) (elems t)))"
    by (simp add: keyed_def o_def split_beta)
  then show ?thesis
    unfolding lookup_def by (subst map_of_eq_Some_iff) auto
qed

lemma find_lookup: "keyed t \<Longrightarrow> find t k = lookup t k"
proof (cases "find t k")
  case None
  assume "keyed t"
  with None have "k \<notin> snd ` set (elems t)" using find_None by (simp add: keyed_def)
  then have "lookup t k = None"
    by (force simp: lookup_def map_of_eq_None_iff image_image split_beta)
  with None show ?thesis by simp
next
  case (Some p)
  assume k: "keyed t"
  with Some have "(p, k) \<in> set (elems t)" using find_Some by (simp add: keyed_def)
  with k have "lookup t k = Some p" by (simp add: lookup_iff)
  with Some show ?thesis by simp
qed

lemma keyed_nothing: "keyed nothing"
  by (simp add: keyed_def nothing_law)

lemma keyed_add:
  assumes "keyed t" "p \<notin> fst ` set (elems t)" "k \<notin> snd ` set (elems t)"
  shows "keyed (add t k p)" "lookup (add t k p) = (lookup t)(k \<mapsto> p)"
proof -
  from assms(1) add_law [OF _ assms(2), of k]
  have a: "inv (add t k p)" "elems (add t k p) = elems t @ [(p, k)]" by (simp_all add: keyed_def)
  with assms show *: "keyed (add t k p)" by (simp add: keyed_def)
  show "lookup (add t k p) = (lookup t)(k \<mapsto> p)"
  proof
    fix j
    show "lookup (add t k p) j = ((lookup t)(k \<mapsto> p)) j"
    proof (cases "j = k")
      case True
      have "lookup (add t k p) k = Some p" using * a(2) by (simp add: lookup_iff)
      with True show ?thesis by simp
    next
      case False
      then have "lookup (add t k p) j = Some q \<longleftrightarrow> lookup t j = Some q" for q
        using * a(2) assms(1) by (simp add: lookup_iff)
      with False show ?thesis by (metis fun_upd_other option.exhaust)
    qed
  qed
qed

lemma keyed_del:
  assumes "keyed t" "(p, k) \<in> set (elems t)"
  shows "keyed (del t p)" "lookup (del t p) = (lookup t)(k := None)"
proof -
  have "p \<in> fst ` set (elems t)" using assms(2) by force
  from assms(1) del_law [OF _ this]
  have d: "inv (del t p)" "elems (del t p) = filter (\<lambda>m. fst m \<noteq> p) (elems t)" by (simp_all add: keyed_def)
  with assms show *: "keyed (del t p)" by (simp add: keyed_def distinct_map_filter)
  show "lookup (del t p) = (lookup t)(k := None)"
  proof
    fix j
    have same: "(p, j) \<in> set (elems t) \<longleftrightarrow> j = k" "(q, k) \<in> set (elems t) \<longleftrightarrow> q = p" for q
      using assms by (auto simp: keyed_def dest: eq_key_imp_eq_value intro: distinct_map_snd_eq)
    then have "lookup (del t p) j = Some q \<longleftrightarrow> ((lookup t)(k := None)) j = Some q" for q
      using * d(2) assms(1) by (auto simp: lookup_iff)
    then show "lookup (del t p) j = ((lookup t)(k := None)) j" by (metis option.exhaust)
  qed
qed

end

interpretation uthash: registry "None" hash_inv members HASH_ADD HASH_FIND HASH_DELETE
proof unfold_locales
  show "hash_inv None \<and> members None = []" by (simp add: hash_inv_def members_def)
qed (simp_all add: HASH_ADD_inv HASH_DELETE_inv HASH_FIND_None HASH_FIND_Some)


section \<open>The table of connections as a map\<close>

lemma int_key_inj:
  assumes "int_key i = int_key j" "- (2 ^ 31) \<le> i" "i < 2 ^ 31" "- (2 ^ 31) \<le> j" "j < 2 ^ 31"
  shows "i = j"
proof -
  have "le_val (int_key i) = nat (i mod 2 ^ 32)" "le_val (int_key j) = nat (j mod 2 ^ 32)"
    by (simp_all add: int_key_def le_val_le_bytes nat_mod_as_int zmod_int)
  with assms(1) have "i mod 2 ^ 32 = j mod 2 ^ 32" by (metis eq_nat_nat_iff pos_mod_sign zero_less_numeral zero_less_power)
  then have "(2 ^ 32) dvd (i - j)" by (simp add: mod_eq_dvd_iff)
  then obtain q where q: "i - j = 4294967296 * q" by (auto simp: dvd_def)
  with assms(2-5) have "q < 1" "- 1 < q" by simp_all
  with q show ?thesis by simp
qed

datatype reg_op = Enter int nat | Leave nat

fun hash_step :: "reg_op \<Rightarrow> UT_hash_table option \<Rightarrow> UT_hash_table option" where
  "hash_step (Enter k p) head = HASH_ADD_INT head k p"
| "hash_step (Leave p) head = HASH_DELETE head p"

fun map_step :: "reg_op \<Rightarrow> (int \<times> nat) list \<Rightarrow> (int \<times> nat) list" where
  "map_step (Enter k p) m = m @ [(k, p)]"
| "map_step (Leave p) m = filter (\<lambda>e. snd e \<noteq> p) m"

definition int_range :: "int \<Rightarrow> bool" where
  "int_range k \<longleftrightarrow> - (2 ^ 31) \<le> k \<and> k < 2 ^ 31"

text \<open>How a correct user behaves: no address and no key is entered twice, what leaves is there.\<close>

fun op_ok :: "reg_op \<Rightarrow> (int \<times> nat) list \<Rightarrow> bool" where
  "op_ok (Enter k p) m \<longleftrightarrow> int_range k \<and> k \<notin> fst ` set m \<and> p \<notin> snd ` set m"
| "op_ok (Leave p) m \<longleftrightarrow> p \<in> snd ` set m"

fun ops_ok :: "reg_op list \<Rightarrow> (int \<times> nat) list \<Rightarrow> bool" where
  "ops_ok [] m \<longleftrightarrow> True"
| "ops_ok (a # as) m \<longleftrightarrow> op_ok a m \<and> ops_ok as (map_step a m)"

definition represents :: "UT_hash_table option \<Rightarrow> (int \<times> nat) list \<Rightarrow> bool" where
  "represents head m \<longleftrightarrow> uthash.keyed head \<and> members head = map (\<lambda>(k, p). (p, int_key k)) m \<and>
    (\<forall>k \<in> fst ` set m. int_range k)"

lemma int_key_fresh: "int_range k \<Longrightarrow> \<forall>j \<in> fst ` set m. int_range j \<Longrightarrow>
    int_key k \<in> (\<lambda>x. int_key (fst x)) ` set m \<longleftrightarrow> k \<in> fst ` set m"
  by (force simp: int_range_def dest: int_key_inj)

lemma represents_step: "represents head m \<Longrightarrow> op_ok a m \<Longrightarrow> represents (hash_step a head) (map_step a m)"
proof (cases a)
  case (Enter k p)
  assume r: "represents head m" and ok: "op_ok a m"
  have 1: "p \<notin> fst ` set (members head)" "int_key k \<notin> snd ` set (members head)"
    using r ok Enter int_key_fresh [of k m]
    by (auto simp: represents_def image_image split_beta)
  have 2: "hash_inv head" using r by (simp add: represents_def uthash.keyed_def)
  show ?thesis
    using r ok Enter uthash.keyed_add(1) [OF _ 1] uthash.add_law [OF 2 1(1)]
    by (auto simp: represents_def HASH_ADD_INT_def)
next
  case (Leave p)
  assume r: "represents head m" and ok: "op_ok a m"
  then obtain k where 1: "(p, int_key k) \<in> set (members head)"
    using Leave by (force simp: represents_def)
  have 2: "hash_inv head" "p \<in> fst ` set (members head)"
    using r 1 by (force simp: represents_def uthash.keyed_def)+
  show ?thesis
    using r Leave uthash.keyed_del(1) [OF _ 1] uthash.del_law [OF 2]
    by (auto simp: represents_def filter_map o_def split_beta)
qed

lemma represents_fold:
  "represents head m \<Longrightarrow> ops_ok as m \<Longrightarrow> represents (fold hash_step as head) (fold map_step as m)"
  by (induction as arbitrary: head m) (auto intro: represents_step)

lemma represents_find:
  assumes "represents head m" "int_range k"
  shows "HASH_FIND_INT head k = map_of m k"
proof -
  from assms(1) have k: "uthash.keyed head" by (simp add: represents_def)
  have inj: "inj_on int_key (insert k (fst ` set m))"
    using assms by (auto simp: represents_def int_range_def intro!: inj_onI int_key_inj)
  have "uthash.lookup head (int_key k) = map_of (map (\<lambda>(k, p). (int_key k, p)) m) (int_key k)"
    using assms(1) by (simp add: represents_def uthash.lookup_def o_def case_prod_unfold)
  also have "\<dots> = map_of m k"
    using inj by (induction m) (auto simp: inj_on_def)
  finally show ?thesis using uthash.find_lookup [OF k] by (simp add: HASH_FIND_INT_def)
qed

text \<open>C4: through any sequence of additions and deletions, expansions of the buckets included, the
  hash table answers like the map the sequence builds.\<close>

theorem uthash_refines_map:
  assumes "ops_ok as []" "int_range k"
  shows "HASH_FIND_INT (fold hash_step as None) k = map_of (fold map_step as []) k"
proof -
  have "represents None []" by (simp add: represents_def uthash.keyed_nothing members_def)
  from represents_find [OF represents_fold [OF this assms(1)] assms(2)] show ?thesis .
qed

theorem uthash_refines_map_witness:
  "HASH_FIND_INT (fold hash_step [Enter 5 100, Enter 7 200, Leave 100] None) 7 = Some 200"
  using uthash_refines_map [of "[Enter 5 100, Enter 7 200, Leave 100]" 7] by (simp add: int_range_def)

end
