(* ===== verification/Sql.thy ===== *)
theory Sql
  imports LuaApi Utils
begin

text \<open>
  The asynchronous queries of GameServer.cpp: \<open>work_cb\<close>, which runs a query on a worker thread and
  copies the result set into a flat array of cells, and the part of \<open>after_work_cb\<close> that turns the
  array into a Lua table. What MySQL answers to the job and the conversion between code pages are
  arguments.
\<close>


section \<open>Data\<close>

record mysql_field =
  mf_name :: bytes
  mf_type :: nat

text \<open>\<open>enum_field_types\<close> and \<open>IS_NUM\<close> of mysql.h.\<close>

abbreviation (input) MYSQL_TYPE_TIMESTAMP :: nat where "MYSQL_TYPE_TIMESTAMP \<equiv> 7"
abbreviation (input) MYSQL_TYPE_INT24 :: nat where "MYSQL_TYPE_INT24 \<equiv> 9"
abbreviation (input) MYSQL_TYPE_YEAR :: nat where "MYSQL_TYPE_YEAR \<equiv> 13"
abbreviation (input) MYSQL_TYPE_NEWDECIMAL :: nat where "MYSQL_TYPE_NEWDECIMAL \<equiv> 246"

definition IS_NUM :: "nat \<Rightarrow> bool" where
  "IS_NUM t \<longleftrightarrow> t \<le> MYSQL_TYPE_INT24 \<and> t \<noteq> MYSQL_TYPE_TIMESTAMP \<or> t = MYSQL_TYPE_YEAR \<or> t = MYSQL_TYPE_NEWDECIMAL"

record dbrowinfo_t =
  row_key :: bytes
  row_value :: bytes
  colno :: int
  valueType :: int

record dbinfo_t =
  db_address :: bytes
  db_username :: bytes
  db_pass :: bytes
  db_dbname :: bytes
  db_port :: int
  db_sql :: bytes
  db_token :: int
  dbrowinfo_count :: int
  dbrowinfo :: "dbrowinfo_t list option"

text \<open>MySQL's answers to one job: did \<open>mysql_init\<close> and \<open>mysql_real_connect\<close> give a connection, the
  return values of the two queries, the stored result with its rows (a missing cell is \<open>NULL\<close>),
  and what \<open>mysql_error\<close>, \<open>mysql_errno\<close> and \<open>mysql_insert_id\<close> say.\<close>

record mysql =
  my_init :: bool
  my_connect :: bool
  my_names :: int
  my_query :: int
  my_result :: "(mysql_field list \<times> bytes option list list) option"
  my_error :: bytes
  my_errno :: nat
  my_insert_id :: nat


section \<open>The worker\<close>

text \<open>\<open>(int)\<close> of an unsigned number.\<close>

definition to_int :: "nat \<Rightarrow> int" where
  "to_int n = sint (of_nat n :: u32)"

text \<open>The two conversion functions of Windows, on a whole string without its NUL; \<open>None\<close> where they
  return 0.\<close>

record code_pages =
  MultiByteToWideChar :: "nat \<Rightarrow> bytes \<Rightarrow> 16 word list option"
  WideCharToMultiByte :: "nat \<Rightarrow> 16 word list \<Rightarrow> bytes option"

abbreviation (input) CP_ACP :: nat where "CP_ACP \<equiv> 0"
abbreviation (input) CP_UTF8 :: nat where "CP_UTF8 \<equiv> 65001"

text \<open>\<open>memset(wstr, 0, len + 1)\<close> clears bytes, not characters: when the first conversion fails, \<open>wstr\<close> has
  one character of which a byte is uninitialised, and is read as a string.\<close>

definition U2G :: "code_pages \<Rightarrow> bytes \<Rightarrow> bytes lua" where
  "U2G cp utf8 =
    (case MultiByteToWideChar cp CP_UTF8 (c_str utf8) of
       None \<Rightarrow> Inl (Undefined (lit ''wstr''))
     | Some wstr \<Rightarrow> Inr (case WideCharToMultiByte cp CP_ACP wstr of None \<Rightarrow> [] | Some str \<Rightarrow> str))"

definition G2U :: "code_pages \<Rightarrow> bytes \<Rightarrow> bytes lua" where
  "G2U cp gb2312 =
    (case MultiByteToWideChar cp CP_ACP (c_str gb2312) of
       None \<Rightarrow> Inl (Undefined (lit ''wstr''))
     | Some wstr \<Rightarrow> Inr (case WideCharToMultiByte cp CP_UTF8 wstr of None \<Rightarrow> [] | Some str \<Rightarrow> str))"

text \<open>The report on a failed step, in a buffer of \<open>dMAX_LOG_BUFF\<close> bytes.\<close>

definition sql_log :: "code_pages \<Rightarrow> mysql \<Rightarrow> bytes \<Rightarrow> bytes lua" where
  "sql_log cp m query =
    lua_bind (if length (c_str query) \<ge> dMAX_LOG_BUFF then Inr (lit ''sql to long can not print'') else U2G cp query) (\<lambda>q.
      Inr (lit ''Error making query: '' @ c_str (my_error m) @ lit ''!!!'' @ [13, 10] @ c_str q @ [13, 10]))"

text \<open>\<open>new char[n]\<close> and \<open>sprintf\<close> into it. Where the text and its NUL do not fit, the heap is overwritten.\<close>

definition new_string :: "nat \<Rightarrow> bytes \<Rightarrow> bytes lua" where
  "new_string n t = (if fits t n then Inr t else Inl (Undefined (lit ''rowinfo.value overflow'')))"

text \<open>One cell. A missing one gets \<open>new char[1]\<close>, which has no room for the ''0'' of a missing number.\<close>

definition cell_info :: "int \<Rightarrow> mysql_field \<Rightarrow> bytes option \<Rightarrow> dbrowinfo_t lua" where
  "cell_info cloNo f c =
    (let vt = (if IS_NUM (mf_type f) then 1 else 0) in
     lua_bind
       (case c of
          None \<Rightarrow> if vt = 1 then new_string 1 (lit ''0'') else new_string 1 []
        | Some v \<Rightarrow> new_string (length (c_str v) + 1) (c_str v))
       (\<lambda>value. Inr \<lparr>row_key = c_str (mf_name f), row_value = value, colno = cloNo, valueType = vt\<rparr>))"

fun cells_info :: "int \<Rightarrow> (mysql_field \<times> bytes option) list \<Rightarrow> dbrowinfo_t list lua" where
  "cells_info cloNo [] = Inr []"
| "cells_info cloNo ((f, c) # cells) =
    lua_bind (cell_info cloNo f c) (\<lambda>x. lua_bind (cells_info cloNo cells) (\<lambda>xs. Inr (x # xs)))"

fun rows_info :: "mysql_field list \<Rightarrow> int \<Rightarrow> bytes option list list \<Rightarrow> dbrowinfo_t list lua" where
  "rows_info fs cloNo [] = Inr []"
| "rows_info fs cloNo (row # rows) =
    lua_bind (cells_info cloNo (map (\<lambda>t. (fs ! t, row ! t)) [0..<length fs])) (\<lambda>xs.
      lua_bind (rows_info fs (cloNo + 1) rows) (\<lambda>ys. Inr (xs @ ys)))"

definition work_cb :: "code_pages \<Rightarrow> mysql \<Rightarrow> dbinfo_t \<Rightarrow> dbinfo_t lua" where
  "work_cb cp m db =
    (let failed = lua_bind (sql_log cp m (db_sql db)) (\<lambda>logbuf.
           if fits logbuf dMAX_LOG_BUFF then Inr db else Inl (Undefined (lit ''logbuf overflow'')))
     in
       if \<not> my_init m then failed
       else if \<not> my_connect m then failed
       else if my_names m \<noteq> 0 then failed
       else if my_query m \<noteq> 0 then failed
       else
         (case my_result m of
            None \<Rightarrow>
              let eff_row = (if c_str (my_error m) = [] \<and> my_errno m = 0 then to_int (my_insert_id m) else - 1)
              in Inr (db\<lparr>dbrowinfo := None, dbrowinfo_count := eff_row\<rparr>)
          | Some (fs, rows) \<Rightarrow>
              lua_bind (rows_info fs 1 rows) (\<lambda>infos.
                Inr (db\<lparr>dbrowinfo_count := to_int (length fs * length rows), dbrowinfo := Some infos\<rparr>))))"


section \<open>The result for Lua\<close>

text \<open>\<open>lua_settable\<close> on a table of known contents; a \<open>nil\<close> value removes the key.\<close>

definition table_set :: "lua_value \<Rightarrow> lua_value \<Rightarrow> lua_value \<Rightarrow> lua_value" where
  "table_set t k v =
    (case t of
       LTable kvs \<Rightarrow>
         if v = LNil then LTable (filter (\<lambda>e. fst e \<noteq> k) kvs)
         else if k \<in> fst ` set kvs then LTable (map (\<lambda>e. if fst e = k then (k, v) else e) kvs)
         else LTable (kvs @ [(k, v)])
     | _ \<Rightarrow> t)"

text \<open>\<open>lua_settable(L, -3)\<close> on the stack, top first: value, key, table.\<close>

fun settable_m3 :: "lua_value list \<Rightarrow> lua_value list" where
  "settable_m3 (v # k # t # st) = table_set t k v # st"
| "settable_m3 st = st"

fun push_rowinfos :: "int \<Rightarrow> dbrowinfo_t list \<Rightarrow> lua_value list \<Rightarrow> lua_value list" where
  "push_rowinfos lastcol [] st = st"
| "push_rowinfos lastcol (r # rs) st =
    (let st = (if lastcol \<noteq> colno r then LTable [] # LNum (of_int (colno r)) # st else st);
         lastcol = colno r;
         v = (if valueType r = 1 then LNum (myatof (row_value r)) else LStr (row_value r));
         st = settable_m3 (v # LStr (row_key r) # st);
         st = (if rs \<noteq> [] \<and> colno (hd rs) \<noteq> lastcol \<or> rs = [] then settable_m3 st else st)
     in push_rowinfos lastcol rs st)"

text \<open>The arguments of the call of \<open>lua_onsql\<close>.\<close>

definition onsql_args :: "dbinfo_t \<Rightarrow> lua_value list" where
  "onsql_args db =
    (let t = (case dbrowinfo db of
                None \<Rightarrow>
                  let t = table_set (LTable []) (LStr (lit ''ret''))
                        (LNum (if dbrowinfo_count db = - 1 then - 1 else 1))
                  in table_set t (LStr (lit ''eff_row'')) (LNum (of_int (dbrowinfo_count db)))
              | Some infos \<Rightarrow> hd (push_rowinfos 0 (take (nat (dbrowinfo_count db)) infos) [LTable []]))
     in [t, LNum (of_int (db_token db))])"


section \<open>Facts\<close>

text \<open>The cell as a Lua value, the row as a table from names to values, the result as an array of
  rows.\<close>

definition cell_value :: "mysql_field \<Rightarrow> bytes option \<Rightarrow> lua_value" where
  "cell_value f c =
    (if IS_NUM (mf_type f) then LNum (case c of None \<Rightarrow> 0 | Some v \<Rightarrow> myatof (c_str v))
     else LStr (case c of None \<Rightarrow> [] | Some v \<Rightarrow> c_str v))"

definition row_table :: "mysql_field list \<Rightarrow> bytes option list \<Rightarrow> (lua_value \<times> lua_value) list" where
  "row_table fs row = map2 (\<lambda>f c. (LStr (c_str (mf_name f)), cell_value f c)) fs row"

definition rows_table :: "mysql_field list \<Rightarrow> nat \<Rightarrow> bytes option list list \<Rightarrow> (lua_value \<times> lua_value) list" where
  "rows_table fs n rows = map2 (\<lambda>i row. (LNum (of_nat i), LTable (row_table fs row))) [n..<n + length rows] rows"

text \<open>The cells as they are when none of them is a missing number.\<close>

definition cell_data :: "int \<Rightarrow> mysql_field \<Rightarrow> bytes option \<Rightarrow> dbrowinfo_t" where
  "cell_data cloNo f c =
    \<lparr>row_key = c_str (mf_name f), row_value = (case c of None \<Rightarrow> [] | Some v \<Rightarrow> c_str v),
     colno = cloNo, valueType = (if IS_NUM (mf_type f) then 1 else 0)\<rparr>"

fun rows_data :: "mysql_field list \<Rightarrow> int \<Rightarrow> bytes option list list \<Rightarrow> dbrowinfo_t list" where
  "rows_data fs cloNo [] = []"
| "rows_data fs cloNo (row # rows) = map2 (cell_data cloNo) fs row @ rows_data fs (cloNo + 1) rows"

definition missing_number :: "mysql_field \<Rightarrow> bytes option \<Rightarrow> bool" where
  "missing_number f c \<longleftrightarrow> IS_NUM (mf_type f) \<and> c = None"

lemma cell_info_cases:
  "cell_info n f c =
    (if missing_number f c then Inl (Undefined (lit ''rowinfo.value overflow'')) else Inr (cell_data n f c))"
  by (auto simp: cell_info_def missing_number_def cell_data_def new_string_def fits_def Let_def lit_def split: option.split)

lemma cells_info_cases:
  "cells_info n cells =
    (if \<exists>(f, c) \<in> set cells. missing_number f c then Inl (Undefined (lit ''rowinfo.value overflow''))
     else Inr (map (\<lambda>(f, c). cell_data n f c) cells))"
  by (induction cells) (auto simp: cell_info_cases)

lemma zip_nth_map: "length row = length fs \<Longrightarrow> map (\<lambda>t. (fs ! t, row ! t)) [0..<length fs] = zip fs row"
  by (rule nth_equalityI) simp_all

lemma rows_info_cases:
  "\<forall>row \<in> set rows. length row = length fs \<Longrightarrow>
    rows_info fs n rows =
      (if \<exists>row \<in> set rows. \<exists>(f, c) \<in> set (zip fs row). missing_number f c
       then Inl (Undefined (lit ''rowinfo.value overflow'')) else Inr (rows_data fs n rows))"
  by (induction rows arbitrary: n) (auto simp: cells_info_cases zip_nth_map)

lemma cells_info_error: "cells_info n cells = Inl e \<Longrightarrow> e = Undefined (lit ''rowinfo.value overflow'')"
  by (auto simp: cells_info_cases split: if_splits)

lemma rows_info_error: "rows_info fs n rows = Inl e \<Longrightarrow> e = Undefined (lit ''rowinfo.value overflow'')"
  by (induction rows arbitrary: n) (auto simp: lua_bind_def split: sum.splits dest: cells_info_error)

lemma myatof_empty: "myatof [] = 0"
  by (simp add: myatof_def take_sign_def char_digit_def)

lemma cell_value_info:
  "(if valueType (cell_data n f c) = 1 then LNum (myatof (row_value (cell_data n f c))) else LStr (row_value (cell_data n f c)))
    = cell_value f c"
  by (auto simp: cell_data_def cell_value_def Let_def myatof_empty split: option.split)

lemma cell_not_nil: "cell_value f c \<noteq> LNil"
  by (simp add: cell_value_def)

lemma table_set_new:
  "v \<noteq> LNil \<Longrightarrow> k \<notin> fst ` set kvs \<Longrightarrow> table_set (LTable kvs) k v = LTable (kvs @ [(k, v)])"
  by (simp add: table_set_def)

text \<open>The rest of a row on top of its unfinished table.\<close>

lemma push_row:
  assumes "length row = length fs" "fs \<noteq> []" "distinct (map (c_str \<circ> mf_name) fs)"
    "\<forall>f \<in> set fs. LStr (c_str (mf_name f)) \<notin> fst ` set kvs"
    "rest = [] \<or> colno (hd rest) \<noteq> n"
  shows "push_rowinfos n (map2 (cell_data n) fs row @ rest) (LTable kvs # k # t # st) =
    push_rowinfos n rest (table_set t k (LTable (kvs @ row_table fs row)) # st)"
  using assms
proof (induction fs arbitrary: row kvs)
  case (Cons f fs)
  then obtain c cs where row: "row = c # cs" "length cs = length fs" by (cases row) auto
  have col: "colno (cell_data n f c) = n" for f c by (simp add: cell_data_def Let_def)
  have key: "row_key (cell_data n f c) = c_str (mf_name f)" for f c by (simp add: cell_data_def Let_def)
  have set1: "settable_m3 (cell_value f c # LStr (c_str (mf_name f)) # LTable kvs # k # t # st) =
      LTable (kvs @ [(LStr (c_str (mf_name f)), cell_value f c)]) # k # t # st"
    using Cons.prems(4) by (simp add: table_set_new cell_not_nil)
  show ?case
  proof (cases "fs = []")
    case True
    with row Cons.prems(5) set1 show ?thesis
      by (auto simp: Let_def col key cell_value_info row_table_def)
  next
    case False
    with row have "map2 (cell_data n) fs cs \<noteq> []" "colno (hd (map2 (cell_data n) fs cs @ rest)) = n"
      by (cases fs; cases cs; simp add: col)+
    then have "push_rowinfos n (map2 (cell_data n) (f # fs) row @ rest) (LTable kvs # k # t # st) =
        push_rowinfos n (map2 (cell_data n) fs cs @ rest)
          (LTable (kvs @ [(LStr (c_str (mf_name f)), cell_value f c)]) # k # t # st)"
      using row set1 by (simp add: Let_def col key cell_value_info)
    also have "\<dots> = push_rowinfos n rest (table_set t k (LTable (kvs @ row_table (f # fs) row)) # st)"
    proof -
      have "\<forall>g \<in> set fs. c_str (mf_name g) \<noteq> c_str (mf_name f)"
        using Cons.prems(3) by (auto simp: image_iff)
      then have fresh: "\<forall>g \<in> set fs. LStr (c_str (mf_name g)) \<notin> fst ` set (kvs @ [(LStr (c_str (mf_name f)), cell_value f c)])"
        using Cons.prems(4) by auto
      have dist: "distinct (map (c_str \<circ> mf_name) fs)" using Cons.prems(3) by (auto simp: o_def)
      show ?thesis
        using Cons.IH [OF row(2) False dist fresh Cons.prems(5)] by (simp add: row_table_def row(1))
    qed
    finally show ?thesis .
  qed
qed simp

lemma push_rowinfos_open:
  "xs \<noteq> [] \<Longrightarrow> colno (hd xs) = n \<Longrightarrow> lastcol \<noteq> n \<Longrightarrow>
    push_rowinfos lastcol xs st = push_rowinfos n xs (LTable [] # LNum (of_int n) # st)"
  by (cases xs) (simp_all add: Let_def)

lemma rows_data_start:
  "\<forall>row \<in> set rows. length row = length fs \<Longrightarrow> rows_data fs n rows = [] \<or> colno (hd (rows_data fs n rows)) \<ge> n"
proof (induction rows arbitrary: n)
  case (Cons row rows)
  from Cons.IH [of "n + 1"] Cons.prems show ?case
    by (cases fs; cases row) (auto simp: cell_data_def)
qed simp

lemma push_rows:
  assumes "\<forall>row \<in> set rows. length row = length fs" "fs \<noteq> []" "distinct (map (c_str \<circ> mf_name) fs)"
    "lastcol < int n" "\<forall>e \<in> set kvs. \<exists>j < n. fst e = LNum (of_nat j)"
  shows "push_rowinfos lastcol (rows_data fs (int n) rows) [LTable kvs] = [LTable (kvs @ rows_table fs n rows)]"
  using assms
proof (induction rows arbitrary: n lastcol kvs)
  case (Cons row rows)
  let ?row = "map2 (cell_data (int n)) fs row" and ?rest = "rows_data fs (int (Suc n)) rows"
  have len: "length row = length fs" using Cons.prems(1) by simp
  have e: "rows_data fs (int n) (row # rows) = ?row @ ?rest"
    by (simp add: add.commute)
  have start: "?row @ ?rest \<noteq> []" "colno (hd (?row @ ?rest)) = int n"
    using Cons.prems(2) len by (cases fs; cases row; simp add: cell_data_def Let_def)+
  have new: "LNum (of_nat n) \<notin> fst ` set kvs" using Cons.prems(5) by fastforce
  have "push_rowinfos lastcol (rows_data fs (int n) (row # rows)) [LTable kvs] =
      push_rowinfos (int n) (?row @ ?rest) [LTable [], LNum (of_nat n), LTable kvs]"
    unfolding e using push_rowinfos_open [OF start] Cons.prems(4) by simp
  also have "\<dots> = push_rowinfos (int n) ?rest [table_set (LTable kvs) (LNum (of_nat n)) (LTable (row_table fs row))]"
    using push_row [OF len Cons.prems(2,3), of "[]" ?rest "int n"] rows_data_start [of rows fs "int (Suc n)"] Cons.prems(1)
    by fastforce
  also have "\<dots> = push_rowinfos (int n) ?rest [LTable (kvs @ [(LNum (of_nat n), LTable (row_table fs row))])]"
    using new by (simp add: table_set_new)
  also have "\<dots> = [LTable ((kvs @ [(LNum (of_nat n), LTable (row_table fs row))]) @ rows_table fs (Suc n) rows)]"
    by (rule Cons.IH) (use Cons.prems in \<open>auto simp: less_Suc_eq\<close>)
  finally show ?case
    by (simp add: rows_table_def upt_conv_Cons del: upt_Suc)
qed (simp add: rows_table_def)

lemma length_rows_data:
  "\<forall>row \<in> set rows. length row = length fs \<Longrightarrow> length (rows_data fs n rows) = length fs * length rows"
  by (induction rows arbitrary: n) simp_all


section \<open>Properties\<close>

text \<open>C20: a result set reaches Lua as it is, unless a number in it is missing: \<open>lua_onsql\<close> gets the array
  of the rows, each a table from the column names to the values, numbers for the numeric types and the
  empty string for a missing text, and the token of the query. The first missing number (a \<open>NULL\<close> in a
  column of a numeric type) makes the worker write past the end of a heap block instead.\<close>

theorem sql_result:
  assumes "my_init m" "my_connect m" "my_names m = 0" "my_query m = 0" "my_result m = Some (fs, rows)"
    "fs \<noteq> []" "distinct (map (c_str \<circ> mf_name) fs)" "\<forall>row \<in> set rows. length row = length fs"
    "length fs * length rows < 2 ^ 31"
  shows "lua_bind (work_cb cp m db) (\<lambda>db. Inr (onsql_args db)) =
    (if \<exists>row \<in> set rows. \<exists>(f, c) \<in> set (zip fs row). IS_NUM (mf_type f) \<and> c = None
     then Inl (Undefined (lit ''rowinfo.value overflow''))
     else Inr [LTable (rows_table fs 1 rows), LNum (of_int (db_token db))])"
proof -
  have c: "to_int (length fs * length rows) = int (length fs * length rows)"
    using assms(9) by (simp add: to_int_def signed_of_nat signed_take_bit_int_eq_self flip: of_nat_mult)
  have "take (nat (int (length fs * length rows))) (rows_data fs 1 rows) = rows_data fs 1 rows"
    using length_rows_data [OF assms(8), of 1] by (simp del: of_nat_mult)
  moreover have "push_rowinfos 0 (rows_data fs 1 rows) [LTable []] = [LTable (rows_table fs 1 rows)]"
    using push_rows [OF assms(8,6,7), of 0 1 "[]"] by simp
  ultimately show ?thesis
    using assms(1-5) unfolding work_cb_def Let_def
    by (simp add: rows_info_cases [OF assms(8)] missing_number_def onsql_args_def c del: of_nat_mult lit_simps)
qed

text \<open>A query that fails at any step, or that MySQL reports an error for, reaches Lua as
  \<open>ret = -1\<close>; a statement without a result set as \<open>ret = 1\<close> with the insert id - in the field called
  the number of affected rows.\<close>

theorem sql_no_result:
  assumes "dbrowinfo db = None" "dbrowinfo_count db = - 1" "sql_log cp m (db_sql db) = Inr t" "fits t dMAX_LOG_BUFF"
    "my_init m \<and> my_connect m \<and> my_names m = 0 \<and> my_query m = 0 \<longrightarrow> my_result m = None"
    "my_insert_id m < 2 ^ 31"
  shows "lua_bind (work_cb cp m db) (\<lambda>db. Inr (onsql_args db)) =
    (let ok = (my_init m \<and> my_connect m \<and> my_names m = 0 \<and> my_query m = 0 \<and> c_str (my_error m) = [] \<and> my_errno m = 0)
     in Inr [LTable [(LStr (lit ''ret''), LNum (if ok then 1 else - 1)),
                     (LStr (lit ''eff_row''), LNum (if ok then of_nat (my_insert_id m) else - 1))],
             LNum (of_int (db_token db))])"
proof -
  have "to_int (my_insert_id m) = int (my_insert_id m)"
    using assms(6) by (simp add: to_int_def signed_of_nat signed_take_bit_int_eq_self)
  moreover have "int (my_insert_id m) \<noteq> - 1" by simp
  ultimately show ?thesis
    using assms(1-5) by (auto simp: work_cb_def Let_def onsql_args_def table_set_def)
qed

text \<open>Code pages that agree, a job and MySQL's answer to run the properties on.\<close>

definition plain_cp :: code_pages where
  "plain_cp = \<lparr>MultiByteToWideChar = (\<lambda>_ bs. Some (map ucast bs)), WideCharToMultiByte = (\<lambda>_ ws. Some (map ucast ws))\<rparr>"

definition sample_job :: dbinfo_t where
  "sample_job = \<lparr>db_address = [], db_username = [], db_pass = [], db_dbname = [], db_port = 3306, db_sql = lit ''select'',
     db_token = 9, dbrowinfo_count = - 1, dbrowinfo = None\<rparr>"

definition sample_answer :: "(mysql_field list \<times> bytes option list list) option \<Rightarrow> mysql" where
  "sample_answer result = \<lparr>my_init = True, my_connect = True, my_names = 0, my_query = 0, my_result = result, my_error = [],
     my_errno = 0, my_insert_id = 7\<rparr>"

definition sample_fields :: "mysql_field list" where
  "sample_fields = [\<lparr>mf_name = lit ''id'', mf_type = 3\<rparr>, \<lparr>mf_name = lit ''name'', mf_type = 253\<rparr>]"

theorem sql_result_witness:
  "lua_bind (work_cb plain_cp (sample_answer (Some (sample_fields, [[Some (lit ''5''), None]]))) sample_job) (\<lambda>db. Inr (onsql_args db)) =
     Inr [LTable [(LNum 1, LTable [(LStr (lit ''id''), LNum 5), (LStr (lit ''name''), LStr [])])], LNum 9] \<and>
   lua_bind (work_cb plain_cp (sample_answer (Some (sample_fields, [[None, None]]))) sample_job) (\<lambda>db. Inr (onsql_args db)) =
     Inl (Undefined (lit ''rowinfo.value overflow''))"
proof -
  have "myatof [53] = 5" by (simp add: myatof_def take_sign_def char_digit_def)
  then show ?thesis
    using sql_result [of "sample_answer (Some (sample_fields, [[Some (lit ''5''), None]]))" sample_fields
        "[[Some (lit ''5''), None]]" plain_cp sample_job]
      sql_result [of "sample_answer (Some (sample_fields, [[None, None]]))" sample_fields "[[None, None]]" plain_cp sample_job]
    by (simp add: sample_answer_def sample_fields_def sample_job_def rows_table_def row_table_def cell_value_def IS_NUM_def c_str_def
        upt_conv_Cons)
qed

theorem sql_no_result_witness:
  "lua_bind (work_cb plain_cp (sample_answer None) sample_job) (\<lambda>db. Inr (onsql_args db)) =
   Inr [LTable [(LStr (lit ''ret''), LNum 1), (LStr (lit ''eff_row''), LNum 7)], LNum 9]"
  using sql_no_result [of sample_job plain_cp "sample_answer None"]
  by (simp add: sample_answer_def sample_job_def sql_log_def U2G_def plain_cp_def fits_def c_str_def lit_def)

end
