(* ===== verification/GsEnv.thy ===== *)
theory GsEnv
  imports Sys Uthash Sql
begin

text \<open>
  What the server of GameServer.cpp works on: its global variables, the objects it allocates, and
  its surroundings - libuv, the allocator, the Lua scripts - as a script of answers. Every call
  takes the next answer and is logged. An answer that the documentation of libuv or malloc
  excludes is no behaviour of the surroundings: the run has no result (\<open>None\<close>), and nothing is
  claimed about it. libuv's own state, which requests it still owes a callback, is kept so
  that the events it can deliver are known.
\<close>


section \<open>Objects\<close>

text \<open>\<open>clientData_t\<close> and \<open>serverData_t\<close>; their libuv handles and requests are known by the address
  of the structure, from which \<open>container_of\<close> gets back to it, and their hash handle is in the
  table. \<open>write_req\<close> has no fields the code reads.\<close>

record clientData_t =
  cl_ip :: bytes
  cl_port :: int
  cl_session :: int

record serverData_t =
  sv_ip :: bytes
  sv_port :: int
  sv_sno :: int

datatype obj = Raw | Client clientData_t | Server serverData_t | WriteReq | Job dbinfo_t

datatype side = ClientSide | ServerSide

text \<open>A callback libuv owes: of a shutdown or close of the handle at an address, of its
  connecting; of reads as long as reading is on; of a write; of a job.\<close>

datatype uv_req =
    ShutdownReq side nat | CloseReq side nat | ReadReq side nat | ConnectReq nat | AfterWriteReq nat
  | WorkReq nat | WorkedReq nat

datatype gcall =
    GMalloc | GIp4Addr bytes int | GTcpInit nat | GTcpInitListener | GBind bytes int | GListen
  | GAccept nat | GPeerName nat | GReadStart side nat | GShutdown side nat | GClose side nat
  | GConnect nat bytes int | GWrite nat nat bytes | GQueueWork nat | GTime | GTimerStop | GStop | GLuaClose
  | GLoadFile bytes | GLog bytes | GLua bytes "lua_value list"

record ganswer =
  ga_ret :: int
  ga_ip :: bytes
  ga_port :: int
  ga_sql :: mysql

text \<open>The functions registered with Lua, and what one call of a Lua function does: the calls it
  makes, and the message it fails with, if it does.\<close>

datatype cfun =
    F_md5 | F_initListener | F_closeClientConn | F_closeServerConn | F_onSend | F_onExcuteSql | F_connectTo
  | F_closeServer | F_closeServerFinal | F_reloadScript | F_getServerTime | F_U | F_print

text \<open>A script calls from the main state, \<open>g_luaHandel\<close>, or from a coroutine; then the stack indices of
  the main state are those of the values it is left with while the coroutine runs.\<close>

datatype caller = MainState | Coroutine "lua_value list"

definition main_frame :: "caller \<Rightarrow> lua_value list \<Rightarrow> lua_value list" where
  "main_frame th args = (case th of MainState \<Rightarrow> args | Coroutine vs \<Rightarrow> vs)"

type_synonym ccall = "cfun \<times> caller"

record lua_run =
  run_calls :: "(ccall \<times> lua_value list) list"
  run_error :: "bytes option"


section \<open>State\<close>

record gs =
  g_luaHandel :: bool
  g_luaClosed :: bool
  g_loop :: bool
  g_session :: int
  g_clientDataList :: "UT_hash_table option"
  g_serverDataList :: "UT_hash_table option"
  g_heap :: "nat \<rightharpoonup> obj"
  g_pending :: "uv_req list"
  g_shut :: "nat list"
  g_answers :: "ganswer list"
  g_runs :: "lua_run list"
  g_trace :: "gcall list"

text \<open>What does not change: the coercions of the Lua VM and the code pages.\<close>

record genv =
  env_vm :: lua_vm
  env_cp :: code_pages
  env_name :: bytes


section \<open>Calls out of the server\<close>

text \<open>What the documentation promises of an answer. \<open>malloc\<close> returns \<open>NULL\<close> (0) or a block that is
  not in use. An IPv4 address has at most 15 characters. A handle is shut down once: a second
  \<open>uv_shutdown\<close> fails.\<close>

definition allowed :: "gs \<Rightarrow> gcall \<Rightarrow> ganswer \<Rightarrow> bool" where
  "allowed s c a \<longleftrightarrow>
    (case c of
       GMalloc \<Rightarrow> ga_ret a = 0 \<or> 0 < ga_ret a \<and> g_heap s (nat (ga_ret a)) = None
     | GIp4Addr ip port \<Rightarrow> ga_ret a = 0 \<longrightarrow> length ip \<le> 15
     | GPeerName p \<Rightarrow> length (ga_ip a) \<le> 15 \<and> 0 \<le> ga_port a \<and> ga_port a < 65536
     | GShutdown sd p \<Rightarrow> ga_ret a = 0 \<longrightarrow> p \<notin> set (g_shut s)
     | _ \<Rightarrow> True)"

text \<open>What libuv then owes. \<open>uv_close\<close> ends the reading.\<close>

definition accept_request :: "gcall \<Rightarrow> gs \<Rightarrow> gs" where
  "accept_request c s =
    (case c of
       GTcpInit p \<Rightarrow> s\<lparr>g_shut := removeAll p (g_shut s)\<rparr>
     | GReadStart sd p \<Rightarrow> s\<lparr>g_pending := List.insert (ReadReq sd p) (g_pending s)\<rparr>
     | GShutdown sd p \<Rightarrow> s\<lparr>g_pending := ShutdownReq sd p # g_pending s, g_shut := p # g_shut s\<rparr>
     | GClose sd p \<Rightarrow> s\<lparr>g_pending := CloseReq sd p # removeAll (ReadReq sd p) (g_pending s)\<rparr>
     | GConnect p ip port \<Rightarrow> s\<lparr>g_pending := ConnectReq p # g_pending s\<rparr>
     | GWrite p q d \<Rightarrow> s\<lparr>g_pending := AfterWriteReq q # g_pending s\<rparr>
     | GQueueWork p \<Rightarrow> s\<lparr>g_pending := WorkReq p # g_pending s\<rparr>
     | _ \<Rightarrow> s)"

definition gcall_answer :: "gcall \<Rightarrow> (gs, ganswer) act" where
  "gcall_answer c s =
    (case g_answers s of
       [] \<Rightarrow> None
     | a # as \<Rightarrow>
         if \<not> allowed s c a then None
         else
           let s1 = s\<lparr>g_answers := as, g_trace := g_trace s @ [c]\<rparr>
           in Some (Inr a, if ga_ret a = 0 then accept_request c s1 else s1))"

text \<open>A call that gives libuv the address of a structure; it must be allocated. \<open>uv_close\<close> always
  succeeds.\<close>

definition on_object :: "nat \<Rightarrow> ('a \<Rightarrow> (gs, 'b) act) \<Rightarrow> 'a \<Rightarrow> (gs, 'b) act" where
  "on_object p f x s = (if g_heap s p = None then Some (Inl (UseAfterFree p), s) else f x s)"

definition uv_call :: "nat \<Rightarrow> gcall \<Rightarrow> (gs, int) act" where
  "uv_call p = on_object p (\<lambda>c. act_bind (gcall_answer c) (\<lambda>a. act_return (ga_ret a)))"

definition uv_close :: "side \<Rightarrow> nat \<Rightarrow> (gs, unit) act" where
  "uv_close sd p = on_object p (\<lambda>_. act_put (\<lambda>s. accept_request (GClose sd p) (s\<lparr>g_trace := g_trace s @ [GClose sd p]\<rparr>))) ()"

definition simple_call :: "gcall \<Rightarrow> (gs, int) act" where
  "simple_call c = act_bind (gcall_answer c) (\<lambda>a. act_return (ga_ret a))"

definition gmalloc :: "(gs, nat) act" where
  "gmalloc =
    act_bind (gcall_answer GMalloc) (\<lambda>a.
      let p = nat (ga_ret a) in
      act_bind (if p = 0 then act_return () else act_put (\<lambda>s. s\<lparr>g_heap := (g_heap s)(p \<mapsto> Raw)\<rparr>)) (\<lambda>_.
        act_return p))"

definition gfree :: "nat \<Rightarrow> (gs, unit) act" where
  "gfree p = on_object p (\<lambda>_. act_put (\<lambda>s. s\<lparr>g_heap := (g_heap s)(p := None)\<rparr>)) ()"

definition store :: "nat \<Rightarrow> obj \<Rightarrow> (gs, unit) act" where
  "store p x = on_object p (\<lambda>_. act_put (\<lambda>s. s\<lparr>g_heap := (g_heap s)(p \<mapsto> x)\<rparr>)) ()"

definition client_at :: "nat \<Rightarrow> (gs, clientData_t) act" where
  "client_at p s =
    (case g_heap s p of
       Some (Client c) \<Rightarrow> Some (Inr c, s)
     | None \<Rightarrow> Some (Inl (UseAfterFree p), s)
     | _ \<Rightarrow> Some (Inl (Undefined (lit ''no clientData_t'')), s))"

definition server_at :: "nat \<Rightarrow> (gs, serverData_t) act" where
  "server_at p s =
    (case g_heap s p of
       Some (Server c) \<Rightarrow> Some (Inr c, s)
     | None \<Rightarrow> Some (Inl (UseAfterFree p), s)
     | _ \<Rightarrow> Some (Inl (Undefined (lit ''no serverData_t'')), s))"

definition job_at :: "nat \<Rightarrow> (gs, dbinfo_t) act" where
  "job_at p s =
    (case g_heap s p of
       Some (Job c) \<Rightarrow> Some (Inr c, s)
     | None \<Rightarrow> Some (Inl (UseAfterFree p), s)
     | _ \<Rightarrow> Some (Inl (Undefined (lit ''no dbinfo_t'')), s))"

text \<open>The macro \<open>ASSERT\<close>.\<close>

definition ASSERT :: "bool \<Rightarrow> (gs, unit) act" where
  "ASSERT b = (if b then act_return () else act_error Aborted)"


section \<open>Calling Lua\<close>

text \<open>What the Lua function does between its call and its return; \<open>call\<close> runs a registered C
  function. After \<open>lua_close\<close> there is nothing to return to.\<close>

fun lua_does :: "(ccall \<Rightarrow> lua_value list \<Rightarrow> (gs, lua_value list) act) \<Rightarrow> (ccall \<times> lua_value list) list \<Rightarrow> (gs, unit) act" where
  "lua_does call [] = act_return ()"
| "lua_does call ((f, args) # cs) =
    act_bind (call f args) (\<lambda>_.
    act_bind (act_get g_luaClosed) (\<lambda>closed.
      if closed then act_error (Undefined (lit ''Lua state closed'')) else lua_does call cs))"

text \<open>\<open>lua_getglobal\<close>, the pushes and \<open>lua_pcall\<close>: the error message, if there is one.\<close>

definition pcall_with ::
  "(ccall \<Rightarrow> lua_value list \<Rightarrow> (gs, lua_value list) act) \<Rightarrow> bytes \<Rightarrow> lua_value list \<Rightarrow> (gs, bytes option) act" where
  "pcall_with call name args s =
    (if g_luaClosed s then Some (Inl (Undefined (lit ''Lua state closed'')), s)
     else
       (case g_runs s of
          [] \<Rightarrow> None
        | run # runs \<Rightarrow>
            act_bind (lua_does call (run_calls run)) (\<lambda>_. act_return (run_error run))
              (s\<lparr>g_runs := runs, g_trace := g_trace s @ [GLua name args]\<rparr>)))"

type_synonym pcall = "bytes \<Rightarrow> lua_value list \<Rightarrow> (gs, bytes option) act"

text \<open>\<open>lua_error(L, message)\<close> of LuaScript.cpp hands the message to the script's error handler; a
  failure of that is only logged.\<close>

definition lua_error_report :: "pcall \<Rightarrow> bytes \<Rightarrow> (gs, unit) act" where
  "lua_error_report pc msg = act_bind (pc (lit ''__G__TRACKBACK__'') [LStr msg]) (\<lambda>_. act_return ())"

text \<open>The pattern of every callback into Lua.\<close>

definition call_lua :: "pcall \<Rightarrow> string \<Rightarrow> lua_value list \<Rightarrow> (gs, unit) act" where
  "call_lua pc name args =
    act_bind (act_get g_luaHandel) (\<lambda>L.
      if \<not> L then act_return ()
      else
        act_bind (pc (lit name) args) (\<lambda>err.
          case err of None \<Rightarrow> act_return () | Some msg \<Rightarrow> lua_error_report pc msg))"

text \<open>\<open>lua_tointeger\<close>, the stack top that \<open>return 1\<close> hands to Lua when nothing was pushed, and
  \<open>lua_pushfstring\<close> with a format but no arguments: \<open>%%\<close> is a percent sign, any other
  conversion reads an argument that is not there (\<open>None\<close>).\<close>

definition lua_tointeger :: "lua_vm \<Rightarrow> lua_value list \<Rightarrow> nat \<Rightarrow> int" where
  "lua_tointeger vm args i = c_int (lua_tonumber vm args i)"

definition stack_top :: "lua_value list \<Rightarrow> lua_value list" where
  "stack_top args = (if args = [] then [] else [last args])"

fun pushfstring :: "bytes \<Rightarrow> bytes option" where
  "pushfstring [] = Some []"
| "pushfstring (c # cs) =
    (if c = of_char CHR ''%'' then
       (case cs of
          d # ds \<Rightarrow> if d = of_char CHR ''%'' then map_option ((#) d) (pushfstring ds) else None
        | [] \<Rightarrow> None)
     else map_option ((#) c) (pushfstring cs))"

end
