(* ===== verification/GameServer.thy ===== *)
theory GameServer
  imports GsEnv Md5
begin

text \<open>
  GameServer.cpp and LuaScript.cpp: the callbacks libuv calls, the functions the scripts call, and
  the dispatch between them. A function that calls into Lua has the protected call as its
  argument \<open>pc\<close>; \<open>lua_pcall n\<close> at the end closes the loop, for scripts whose calls nest up to
  \<open>n\<close> deep. The log has what the scripts print; the server's own messages to it are left out.
\<close>

abbreviation (input) dMAX_SOCKET_RECV_BUFF :: nat where "dMAX_SOCKET_RECV_BUFF \<equiv> 65536"
abbreviation (input) dMAX_SOCKET_SEND_BUFF :: nat where "dMAX_SOCKET_SEND_BUFF \<equiv> 65536"


section \<open>Scripts\<close>

text \<open>A call without a result.\<close>

definition note_call :: "gcall \<Rightarrow> (gs, unit) act" where
  "note_call c = act_put (\<lambda>s. s\<lparr>g_trace := g_trace s @ [c]\<rparr>)"

definition lua_close :: "(gs, unit) act" where
  "lua_close =
    act_bind (act_get (\<lambda>s. g_luaHandel s \<and> \<not> g_luaClosed s)) (\<lambda>open.
      if \<not> open then act_error (Undefined (lit ''lua_close''))
      else act_bind (note_call GLuaClose) (\<lambda>_. act_put (\<lambda>s. s\<lparr>g_luaClosed := True\<rparr>)))"

definition loadLuaScript :: "genv \<Rightarrow> pcall \<Rightarrow> (gs, int) act" where
  "loadLuaScript env pc =
    (let configFileName = env_name env @ lit ''.exe.cfg'' in
     if \<not> fits configFileName 40 then act_error (Undefined (lit ''configFileName overflow''))
     else
       act_bind (simple_call (GLoadFile configFileName)) (\<lambda>erro.
         if erro \<noteq> 0 then act_return 1
         else
           act_bind (pc configFileName []) (\<lambda>erro.
             case erro of
               None \<Rightarrow> act_return 0
             | Some _ \<Rightarrow> act_bind lua_close (\<lambda>_. act_return 1))))"

definition reloadScript :: "genv \<Rightarrow> pcall \<Rightarrow> lua_value list \<Rightarrow> (gs, lua_value list) act" where
  "reloadScript env pc args =
    act_bind (loadLuaScript env pc) (\<lambda>r. act_bind (ASSERT (r = 0)) (\<lambda>_. act_return (stack_top args)))"

text \<open>\<open>lua_print\<close> builds one line and logs it.\<close>

definition print_item :: "lua_vm \<Rightarrow> lua_value \<Rightarrow> bytes" where
  "print_item vm v =
    (case v of
       LTable _ \<Rightarrow> lit ''table''
     | LNil \<Rightarrow> lit ''nil''
     | LBool b \<Rightarrow> if b then lit ''true'' else lit ''false''
     | LFunction _ \<Rightarrow> lit ''function''
     | _ \<Rightarrow> (case value_tostring vm v of Some s \<Rightarrow> c_str s | None \<Rightarrow> lit ''userdata''))"

fun print_items :: "lua_vm \<Rightarrow> lua_value list \<Rightarrow> bytes" where
  "print_items vm [] = []"
| "print_items vm [v] = print_item vm v"
| "print_items vm (v # vs) = print_item vm v @ lit ''  '' @ print_items vm vs"

definition lua_print :: "genv \<Rightarrow> lua_value list \<Rightarrow> (gs, lua_value list) act" where
  "lua_print env args = act_bind (note_call (GLog (print_items (env_vm env) args))) (\<lambda>_. act_return [])"


section \<open>Start and end of the server\<close>

text \<open>\<open>std::string::find_last_of\<close> and \<open>substr\<close>, with \<open>npos\<close> the largest \<open>size_t\<close>.\<close>

definition find_last_of :: "byte \<Rightarrow> bytes \<Rightarrow> u32" where
  "find_last_of c s =
    (if c \<in> set s then of_nat (length s - 1 - length (takeWhile (\<lambda>x. x \<noteq> c) (rev s))) else - 1)"

definition substr :: "bytes \<Rightarrow> u32 \<Rightarrow> u32 \<Rightarrow> bytes" where
  "substr s pos n = take (unat n) (drop (unat pos) s)"

text \<open>The server's name, from the path of the executable.\<close>

definition server_name :: "bytes \<Rightarrow> bytes" where
  "server_name sname =
    (let pos = find_last_of 92 sname in substr sname (pos + 1) (of_nat (length sname) - pos - 5))"

text \<open>\<open>_tmain\<close> up to \<open>uv_run\<close>: the global state, the scripts, the timer.\<close>

definition tmain :: "genv \<Rightarrow> pcall \<Rightarrow> (gs, unit) act" where
  "tmain env pc =
    act_bind (act_put (\<lambda>s. s\<lparr>g_session := 1, g_luaHandel := True, g_loop := True\<rparr>)) (\<lambda>_.
    act_bind (loadLuaScript env pc) (\<lambda>r. ASSERT (r = 0)))"

definition closeServerFinal :: "(gs, lua_value list) act" where
  "closeServerFinal =
    act_bind lua_close (\<lambda>_.
    act_bind (note_call GTimerStop) (\<lambda>_.
    act_bind (note_call GStop) (\<lambda>_.
    act_bind (act_put (\<lambda>s. s\<lparr>g_loop := False\<rparr>)) (\<lambda>_. act_return []))))"

definition doCloseServer :: "pcall \<Rightarrow> (gs, unit) act" where
  "doCloseServer pc =
    act_bind (act_get g_luaHandel) (\<lambda>L.
      if L then call_lua pc ''lua_onServerClose'' []
      else act_bind closeServerFinal (\<lambda>_. act_return ()))"

definition closeServer :: "pcall \<Rightarrow> (gs, lua_value list) act" where
  "closeServer pc = act_bind (doCloseServer pc) (\<lambda>_. act_return [])"

text \<open>\<open>CTRL_C\<close>, \<open>CTRL_BREAK\<close>, \<open>CTRL_CLOSE\<close>, \<open>CTRL_LOGOFF\<close> and \<open>CTRL_SHUTDOWN\<close>. Windows calls this
  on a thread of its own, here an event like the others.\<close>

definition ctrlHandler :: "pcall \<Rightarrow> nat \<Rightarrow> (gs, bool) act" where
  "ctrlHandler pc fdwCtrlType =
    (if fdwCtrlType \<in> {0, 1, 2, 5, 6} then act_bind (doCloseServer pc) (\<lambda>_. act_return True) else act_return False)"

definition get_time :: "(gs, nat) act" where
  "get_time = act_bind (gcall_answer GTime) (\<lambda>a. act_return (getServerTime (nat (ga_ret a), nat (ga_port a))))"

definition enterFrame :: "pcall \<Rightarrow> (gs, unit) act" where
  "enterFrame pc =
    act_bind (act_get g_luaHandel) (\<lambda>L.
      if \<not> L then act_return ()
      else
        act_bind (call_lua pc ''enterFrame'' []) (\<lambda>_.
        act_bind get_time (\<lambda>t. call_lua pc ''lua_onTimeCheck'' [LNum (of_nat t)])))"

text \<open>The time is pushed on the stack of the main state: a coroutine gets back what it called with last.\<close>

definition getServerTime_lua :: "caller \<Rightarrow> lua_value list \<Rightarrow> (gs, lua_value list) act" where
  "getServerTime_lua th args =
    act_bind get_time (\<lambda>t.
      case th of MainState \<Rightarrow> act_return [LNum (of_nat t)] | Coroutine _ \<Rightarrow> act_return (stack_top args))"

definition initListener :: "genv \<Rightarrow> lua_value list \<Rightarrow> (gs, lua_value list) act" where
  "initListener env args =
    act_bind (ASSERT (length args = 2)) (\<lambda>_.
      case lua_tostring (env_vm env) args 1 of
        None \<Rightarrow> act_error (Undefined (lit ''uv_ip4_addr(NULL)''))
      | Some ip \<Rightarrow>
          let ip = c_str ip; port = lua_tointeger (env_vm env) args 2 in
          act_bind (simple_call (GIp4Addr ip port)) (\<lambda>r.
          act_bind (ASSERT (r = 0)) (\<lambda>_.
          act_bind (simple_call GTcpInitListener) (\<lambda>r.
          act_bind (ASSERT (r = 0)) (\<lambda>_.
          act_bind (simple_call (GBind ip port)) (\<lambda>r.
          act_bind (ASSERT (r = 0)) (\<lambda>_.
          act_bind (simple_call GListen) (\<lambda>r.
          act_bind (ASSERT (r = 0)) (\<lambda>_. act_return (stack_top args))))))))))"


section \<open>Clients\<close>

definition getClientDataBySession :: "int \<Rightarrow> (gs, nat option) act" where
  "getClientDataBySession session = act_get (\<lambda>s. HASH_FIND_INT (g_clientDataList s) session)"

definition closeClientConn :: "nat \<Rightarrow> (gs, unit) act" where
  "closeClientConn p = act_bind (uv_call p (GShutdown ClientSide p)) (\<lambda>_. act_return ())"

definition newClientConnection :: "pcall \<Rightarrow> int \<Rightarrow> (gs, unit) act" where
  "newClientConnection pc status =
    (if status \<noteq> 0 then act_return ()
     else
       act_bind (act_get g_session) (\<lambda>session.
         if session > 2147483645 then act_return ()
         else
           act_bind gmalloc (\<lambda>p.
             if p = 0 then act_return ()
             else
               act_bind (uv_call p (GTcpInit p)) (\<lambda>r.
                 if r \<noteq> 0 then act_return ()
                 else
                   act_bind (uv_call p (GAccept p)) (\<lambda>r.
                     if r \<noteq> 0 then act_return ()
                     else
                       act_bind (gcall_answer (GPeerName p)) (\<lambda>peer.
                       act_bind (store p (Client \<lparr>cl_ip = ga_ip peer, cl_port = ga_port peer, cl_session = session\<rparr>)) (\<lambda>_.
                       act_bind (act_put (\<lambda>s. s\<lparr>g_session := g_session s + 1\<rparr>)) (\<lambda>_.
                       act_bind (act_put (\<lambda>s. s\<lparr>g_clientDataList := HASH_ADD_INT (g_clientDataList s) session p\<rparr>)) (\<lambda>_.
                       act_bind (call_lua pc ''lua_onconn'' [LNum (of_int session)]) (\<lambda>_.
                       act_bind (uv_call p (GReadStart ClientSide p)) (\<lambda>r.
                         if r \<noteq> 0 then closeClientConn p else act_return ())))))))))))"

text \<open>One static buffer for all reads.\<close>

definition alloc_cb :: "nat \<Rightarrow> nat" where
  "alloc_cb suggested_size = dMAX_SOCKET_RECV_BUFF"

text \<open>What both read callbacks do with data: the bytes, the number of the connection, its address.\<close>

definition deliver :: "pcall \<Rightarrow> bytes \<Rightarrow> int \<Rightarrow> bytes \<Rightarrow> int \<Rightarrow> int \<Rightarrow> (gs, unit) act" where
  "deliver pc buf number ip port nread =
    act_bind (act_get g_luaHandel) (\<lambda>L.
      if \<not> L then act_return ()
      else if nread > int dMAX_SOCKET_RECV_BUFF then act_error (Undefined (lit ''bufStr overflow''))
      else
        (case pushfstring ip of
           None \<Rightarrow> act_error (Undefined (lit ''format''))
         | Some ip \<Rightarrow>
             call_lua pc ''lua_onrecv''
               [LStr (take (nat nread) buf), LNum (of_int number), LStr ip, LNum (of_int port)]))"

definition read_cb :: "pcall \<Rightarrow> nat \<Rightarrow> int \<Rightarrow> bytes \<Rightarrow> (gs, unit) act" where
  "read_cb pc p nread buf =
    act_bind (client_at p) (\<lambda>c.
      if nread \<ge> 0 then deliver pc buf (cl_session c) (cl_ip c) (cl_port c) nread
      else call_lua pc ''lua_oncloseconn'' [LNum (of_int (cl_session c))])"

definition shutdown_cb :: "nat \<Rightarrow> int \<Rightarrow> (gs, unit) act" where
  "shutdown_cb p status = uv_close ClientSide p"

definition close_cb :: "pcall \<Rightarrow> nat \<Rightarrow> (gs, unit) act" where
  "close_cb pc p =
    act_bind (client_at p) (\<lambda>c.
    act_bind (act_put (\<lambda>s. s\<lparr>g_clientDataList := HASH_DELETE (g_clientDataList s) p\<rparr>)) (\<lambda>_.
    act_bind (gfree p) (\<lambda>_.
      call_lua pc ''lua_onFinalClosed'' [LNum (of_int (cl_session c))])))"

definition cppCloseClientConn :: "genv \<Rightarrow> pcall \<Rightarrow> lua_value list \<Rightarrow> (gs, lua_value list) act" where
  "cppCloseClientConn env pc args =
    act_bind (act_get g_luaHandel) (\<lambda>L.
      if \<not> L then act_return []
      else if length args \<noteq> 1 then act_return []
      else if \<not> lua_isnumber (env_vm env) args 1 then
        act_bind (lua_error_report pc (lit ''lua param is not a number!!!!'')) (\<lambda>_. act_return [])
      else
        act_bind (getClientDataBySession (lua_tointeger (env_vm env) args 1)) (\<lambda>client.
          case client of
            Some p \<Rightarrow> act_bind (closeClientConn p) (\<lambda>_. act_return (stack_top args))
          | None \<Rightarrow> act_return []))"


section \<open>Connections to other servers\<close>

definition getServerDataBySno :: "int \<Rightarrow> (gs, nat option) act" where
  "getServerDataBySno sno = act_get (\<lambda>s. HASH_FIND_INT (g_serverDataList s) sno)"

text \<open>\<open>uv_ip4_addr\<close> under an \<open>ASSERT\<close>, then \<open>uv_tcp_connect\<close>; its failure ends the process.\<close>

definition start_connect :: "nat \<Rightarrow> bytes \<Rightarrow> int \<Rightarrow> (gs, unit) act" where
  "start_connect p ip port =
    act_bind (simple_call (GIp4Addr ip port)) (\<lambda>r.
    act_bind (ASSERT (r = 0)) (\<lambda>_.
    act_bind (uv_call p (GConnect p ip port)) (\<lambda>r. ASSERT (r = 0))))"

definition connectTo :: "genv \<Rightarrow> lua_value list \<Rightarrow> (gs, lua_value list) act" where
  "connectTo env args =
    (let vm = env_vm env in
     act_bind (ASSERT (length args = 3)) (\<lambda>_.
     act_bind (ASSERT (lua_isnumber vm args 1)) (\<lambda>_.
     act_bind (ASSERT (lua_isstring vm args 2)) (\<lambda>_.
     act_bind (ASSERT (lua_isnumber vm args 3)) (\<lambda>_.
       let sno = lua_tointeger vm args 1; ip = c_str (the (lua_tostring vm args 2)); port = lua_tointeger vm args 3 in
       act_bind (simple_call (GIp4Addr ip port)) (\<lambda>r.
       act_bind (ASSERT (r = 0)) (\<lambda>_.
       act_bind gmalloc (\<lambda>p.
       act_bind (ASSERT (p \<noteq> 0)) (\<lambda>_.
       act_bind (ASSERT (length ip < 20)) (\<lambda>_.
       act_bind (store p (Server \<lparr>sv_ip = ip, sv_port = port, sv_sno = sno\<rparr>)) (\<lambda>_.
       act_bind (uv_call p (GTcpInit p)) (\<lambda>r.
       act_bind (ASSERT (r = 0)) (\<lambda>_.
       act_bind (uv_call p (GConnect p ip port)) (\<lambda>r.
       act_bind (ASSERT (r = 0)) (\<lambda>_. act_return (stack_top args))))))))))))))))"

definition connect_cb :: "pcall \<Rightarrow> nat \<Rightarrow> int \<Rightarrow> (gs, unit) act" where
  "connect_cb pc p status =
    act_bind (server_at p) (\<lambda>sv.
      if status \<noteq> 0 then start_connect p (sv_ip sv) (sv_port sv)
      else
        act_bind (act_put (\<lambda>s. s\<lparr>g_serverDataList := HASH_ADD_INT (g_serverDataList s) (sv_sno sv) p\<rparr>)) (\<lambda>_.
        act_bind (call_lua pc ''lua_onconnserver'' [LNum (of_int (sv_sno sv))]) (\<lambda>_.
        act_bind (uv_call p (GReadStart ServerSide p)) (\<lambda>r. ASSERT (r = 0)))))"

text \<open>When the connection breaks, a copy of the structure takes its place and reconnects; the old one
  is freed, its handle never closed.\<close>

definition read_server_cb :: "pcall \<Rightarrow> nat \<Rightarrow> int \<Rightarrow> bytes \<Rightarrow> (gs, unit) act" where
  "read_server_cb pc p nread buf =
    act_bind (server_at p) (\<lambda>sv.
      if nread \<ge> 0 then deliver pc buf (sv_sno sv) (sv_ip sv) (sv_port sv) nread
      else
        act_bind gmalloc (\<lambda>q.
          if q = 0 then act_return ()
          else
            act_bind (store q (Server \<lparr>sv_ip = sv_ip sv, sv_port = sv_port sv, sv_sno = sv_sno sv\<rparr>)) (\<lambda>_.
            act_bind (uv_call q (GTcpInit q)) (\<lambda>r.
            act_bind (ASSERT (r = 0)) (\<lambda>_.
            act_bind (act_put (\<lambda>s. s\<lparr>g_serverDataList := HASH_DELETE (g_serverDataList s) p\<rparr>)) (\<lambda>_.
            act_bind (gfree p) (\<lambda>_.
              start_connect q (sv_ip sv) (sv_port sv))))))))"

definition closeServerConn :: "nat \<Rightarrow> (gs, unit) act" where
  "closeServerConn p = act_bind (uv_call p (GShutdown ServerSide p)) (\<lambda>_. act_return ())"

definition shutdownSC_cb :: "nat \<Rightarrow> int \<Rightarrow> (gs, unit) act" where
  "shutdownSC_cb p status = uv_close ServerSide p"

definition closeSC_cb :: "pcall \<Rightarrow> nat \<Rightarrow> (gs, unit) act" where
  "closeSC_cb pc p =
    act_bind (server_at p) (\<lambda>sv.
    act_bind (act_put (\<lambda>s. s\<lparr>g_serverDataList := HASH_DELETE (g_serverDataList s) p\<rparr>)) (\<lambda>_.
    act_bind (gfree p) (\<lambda>_.
      call_lua pc ''lua_onServerFinalClosed'' [LNum (of_int (sv_sno sv))])))"

definition cppCloseServerConn :: "genv \<Rightarrow> pcall \<Rightarrow> lua_value list \<Rightarrow> (gs, lua_value list) act" where
  "cppCloseServerConn env pc args =
    act_bind (act_get g_luaHandel) (\<lambda>L.
      if \<not> L then act_return []
      else if length args \<noteq> 1 then act_return []
      else if \<not> lua_isnumber (env_vm env) args 1 then
        act_bind (lua_error_report pc (lit ''lua param is not a number!!!!'')) (\<lambda>_. act_return [])
      else
        act_bind (getServerDataBySno (lua_tointeger (env_vm env) args 1)) (\<lambda>server.
          case server of
            Some p \<Rightarrow> act_bind (closeServerConn p) (\<lambda>_. act_return (stack_top args))
          | None \<Rightarrow> act_return []))"


section \<open>Sending\<close>

text \<open>\<open>memcpy(&bufStr, data, len)\<close> with the length the script gave: the terminating NUL is the last
  byte that may be read. The bytes are handed to libuv at once; that \<open>bufStr\<close> is gone when an
  asynchronous write gets to it is not modelled.\<close>

definition send_copy :: "bytes \<Rightarrow> int \<Rightarrow> bytes lua" where
  "send_copy d len =
    (if len < 0 \<or> len > int dMAX_SOCKET_SEND_BUFF then Inl (Undefined (lit ''bufStr overflow''))
     else if len > int (length d) + 1 then Inl (Undefined (lit ''read past the string''))
     else Inr (take (nat len) (d @ [0])))"

text \<open>The same for both kinds of connection; a \<open>write_req\<close> whose write is refused is not freed.\<close>

definition send_to :: "nat option \<Rightarrow> bytes \<Rightarrow> lua_value list \<Rightarrow> (gs, lua_value list) act" where
  "send_to target bufStr args =
    (case target of
       None \<Rightarrow> act_return (stack_top args)
     | Some p \<Rightarrow>
         act_bind gmalloc (\<lambda>q.
           if q = 0 then act_return []
           else
             act_bind (store q WriteReq) (\<lambda>_.
             act_bind (uv_call p (GWrite p q bufStr)) (\<lambda>_. act_return (stack_top args)))))"

text \<open>The length and the text are the arguments of the call, but the session and the kind of connection
  are read from the main state.\<close>

definition onSend :: "genv \<Rightarrow> caller \<Rightarrow> lua_value list \<Rightarrow> (gs, lua_value list) act" where
  "onSend env th args =
    (let vm = env_vm env in
     if length args \<noteq> 4 then act_return []
     else if \<not> lua_isnumber vm args 1 then act_return []
     else if \<not> lua_isstring vm args 2 then act_return []
     else if \<not> lua_isnumber vm args 3 then act_return []
     else if \<not> lua_isnumber vm args 4 then act_return []
     else
       act_bind (act_lua (send_copy (the (lua_tostring vm args 2)) (lua_tointeger vm args 1))) (\<lambda>bufStr.
         let session = lua_tointeger vm (main_frame th args) 3; op = lua_tointeger vm (main_frame th args) 4 in
         if op = 1 then
           act_bind (getClientDataBySession session) (\<lambda>client. send_to client bufStr args)
         else if op = 0 then
           act_bind (getServerDataBySno session) (\<lambda>server. send_to server bufStr args)
         else act_return (stack_top args)))"

definition after_write :: "nat \<Rightarrow> int \<Rightarrow> (gs, unit) act" where
  "after_write q status = gfree q"


section \<open>Queries\<close>

definition onExcuteSql :: "genv \<Rightarrow> lua_value list \<Rightarrow> (gs, lua_value list) act" where
  "onExcuteSql env args =
    (let vm = env_vm env; str = (\<lambda>i. c_str (the (lua_tostring vm args i))) in
     if length args \<noteq> 7 then act_return []
     else if \<not> lua_isstring vm args 1 then act_return []
     else if \<not> lua_isstring vm args 2 then act_return []
     else if \<not> lua_isstring vm args 3 then act_return []
     else if \<not> lua_isstring vm args 4 then act_return []
     else if \<not> lua_isnumber vm args 5 then act_return []
     else if \<not> lua_isstring vm args 6 then act_return []
     else if \<not> lua_isnumber vm args 7 then act_return []
     else
       act_bind gmalloc (\<lambda>p.
         if p = 0 then act_error (Undefined (lit ''dbinfo is NULL''))
         else
           act_bind (store p (Job
             \<lparr>db_address = str 1, db_username = str 2, db_pass = str 3, db_dbname = str 4,
              db_port = lua_tointeger vm args 5, db_sql = str 6, db_token = lua_tointeger vm args 7,
              dbrowinfo_count = - 1, dbrowinfo = None\<rparr>)) (\<lambda>_.
           act_bind (uv_call p (GQueueWork p)) (\<lambda>r.
             if r \<noteq> 0 then act_return [] else act_return (stack_top args)))))"

text \<open>\<open>work_cb\<close> on the job at \<open>p\<close>, with MySQL's answers.\<close>

definition run_work :: "genv \<Rightarrow> nat \<Rightarrow> mysql \<Rightarrow> (gs, unit) act" where
  "run_work env p m =
    act_bind (job_at p) (\<lambda>db.
    act_bind (act_lua (work_cb (env_cp env) m db)) (\<lambda>db. store p (Job db)))"

definition after_work_cb :: "pcall \<Rightarrow> nat \<Rightarrow> int \<Rightarrow> (gs, unit) act" where
  "after_work_cb pc p status =
    (if status \<noteq> 0 then act_return ()
     else
       act_bind (job_at p) (\<lambda>db.
       act_bind (call_lua pc ''lua_onsql'' (onsql_args db)) (\<lambda>_. gfree p)))"


section \<open>Small functions for the scripts\<close>

text \<open>\<open>_U\<close> pushes the converted text as a format string.\<close>

definition U_lua :: "genv \<Rightarrow> lua_value list \<Rightarrow> (gs, lua_value list) act" where
  "U_lua env args =
    (if length args \<noteq> 1 then act_return []
     else if \<not> lua_isstring (env_vm env) args 1 then act_return []
     else
       act_bind (act_lua (U2G (env_cp env) (the (lua_tostring (env_vm env) args 1)))) (\<lambda>gbstr.
         case pushfstring (c_str gbstr) of
           None \<Rightarrow> act_error (Undefined (lit ''format''))
         | Some s \<Rightarrow> act_return [LStr s]))"

definition hextable :: bytes where
  "hextable = lit ''0123456789abcdef''"

text \<open>\<open>bin2hex\<close> always converts 16 bytes, whatever \<open>binLength\<close> says; the result is the C string in
  the buffer of \<open>binLength * 2 + 1\<close> bytes.\<close>

definition bin2hex :: "bytes \<Rightarrow> nat \<Rightarrow> bytes lua" where
  "bin2hex bin binLength =
    (let hexLength = binLength * 2 + 1 in
     if length bin < 16 \<or> hexLength < 32 then Inl (Undefined (lit ''bin2hex''))
     else
       let hex = replicate hexLength 0;
           ds = concat (map (\<lambda>c. [hextable ! unat (drop_bit 4 c AND 0x0f), hextable ! unat (c AND 0x0f)]) (take 16 bin))
       in Inr (c_str (memcpy_at hex 0 ds)))"

text \<open>The context on the stack is uninitialised; \<open>md5_zero\<close> stands for it.\<close>

definition md5_hex :: "bytes \<Rightarrow> bytes lua" where
  "md5_hex value =
    (case MD5_Update (MD5_Init md5_zero) (c_str value) (of_nat (length (c_str value))) of
       None \<Rightarrow> Inl (Undefined (lit ''MD5_Update''))
     | Some ctx \<Rightarrow>
         (case MD5_Final ctx of
            None \<Rightarrow> Inl (Undefined (lit ''MD5_Final''))
          | Some (output, _) \<Rightarrow> bin2hex output 16))"

definition md5 :: "genv \<Rightarrow> lua_value list \<Rightarrow> (gs, lua_value list) act" where
  "md5 env args =
    (if length args \<noteq> 1 then act_return []
     else if \<not> lua_isstring (env_vm env) args 1 then act_return []
     else
       act_bind (act_lua (md5_hex (the (lua_tostring (env_vm env) args 1)))) (\<lambda>retValue.
         case pushfstring retValue of
           None \<Rightarrow> act_error (Undefined (lit ''format''))
         | Some s \<Rightarrow> act_return [LStr s]))"


section \<open>Dispatch\<close>

definition cpp_call :: "genv \<Rightarrow> pcall \<Rightarrow> ccall \<Rightarrow> lua_value list \<Rightarrow> (gs, lua_value list) act" where
  "cpp_call env pc call args =
    (case fst call of
       F_md5 \<Rightarrow> md5 env args
     | F_initListener \<Rightarrow> initListener env args
     | F_closeClientConn \<Rightarrow> cppCloseClientConn env pc args
     | F_closeServerConn \<Rightarrow> cppCloseServerConn env pc args
     | F_onSend \<Rightarrow> onSend env (snd call) args
     | F_onExcuteSql \<Rightarrow> onExcuteSql env args
     | F_connectTo \<Rightarrow> connectTo env args
     | F_closeServer \<Rightarrow> closeServer pc
     | F_closeServerFinal \<Rightarrow> closeServerFinal
     | F_reloadScript \<Rightarrow> reloadScript env pc args
     | F_getServerTime \<Rightarrow> getServerTime_lua (snd call) args
     | F_U \<Rightarrow> U_lua env args
     | F_print \<Rightarrow> lua_print env args)"

text \<open>Calls into Lua nested less than \<open>n\<close> deep; deeper ones have no result.\<close>

fun lua_pcall :: "nat \<Rightarrow> genv \<Rightarrow> pcall" where
  "lua_pcall 0 env = (\<lambda>name args s. None)"
| "lua_pcall (Suc n) env = pcall_with (cpp_call env (lua_pcall n env))"

text \<open>What the event loop can deliver.\<close>

datatype event =
    EvTimer | EvConnection int | EvRead side nat int bytes | EvShutdown side nat int | EvClosed side nat
  | EvConnected nat int | EvWritten nat int | EvWork nat mysql | EvWorked nat int | EvCtrl nat

definition dispatch :: "genv \<Rightarrow> pcall \<Rightarrow> event \<Rightarrow> (gs, unit) act" where
  "dispatch env pc ev =
    (case ev of
       EvTimer \<Rightarrow> enterFrame pc
     | EvConnection status \<Rightarrow> newClientConnection pc status
     | EvRead ClientSide p nread buf \<Rightarrow> read_cb pc p nread buf
     | EvRead ServerSide p nread buf \<Rightarrow> read_server_cb pc p nread buf
     | EvShutdown ClientSide p status \<Rightarrow> shutdown_cb p status
     | EvShutdown ServerSide p status \<Rightarrow> shutdownSC_cb p status
     | EvClosed ClientSide p \<Rightarrow> close_cb pc p
     | EvClosed ServerSide p \<Rightarrow> closeSC_cb pc p
     | EvConnected p status \<Rightarrow> connect_cb pc p status
     | EvWritten q status \<Rightarrow> after_write q status
     | EvWork p m \<Rightarrow> run_work env p m
     | EvWorked p status \<Rightarrow> after_work_cb pc p status
     | EvCtrl t \<Rightarrow> act_bind (ctrlHandler pc t) (\<lambda>_. act_return ()))"

text \<open>libuv delivers what it owes, in any order; reads go on, and fill at most the buffer they were
  given. The worker's completion is owed once the work is done.\<close>

definition enabled :: "event \<Rightarrow> gs \<Rightarrow> bool" where
  "enabled ev s \<longleftrightarrow>
    (case ev of
       EvRead sd p nread buf \<Rightarrow> ReadReq sd p \<in> set (g_pending s) \<and> nread \<le> int (length buf) \<and> length buf \<le> alloc_cb 0
     | EvShutdown sd p status \<Rightarrow> ShutdownReq sd p \<in> set (g_pending s)
     | EvClosed sd p \<Rightarrow> CloseReq sd p \<in> set (g_pending s)
     | EvConnected p status \<Rightarrow> ConnectReq p \<in> set (g_pending s)
     | EvWritten q status \<Rightarrow> AfterWriteReq q \<in> set (g_pending s)
     | EvWork p m \<Rightarrow> WorkReq p \<in> set (g_pending s)
     | EvWorked p status \<Rightarrow> WorkedReq p \<in> set (g_pending s)
     | _ \<Rightarrow> True)"

definition consume :: "event \<Rightarrow> gs \<Rightarrow> gs" where
  "consume ev s =
    (case ev of
       EvShutdown sd p status \<Rightarrow> s\<lparr>g_pending := remove1 (ShutdownReq sd p) (g_pending s)\<rparr>
     | EvClosed sd p \<Rightarrow> s\<lparr>g_pending := remove1 (CloseReq sd p) (g_pending s)\<rparr>
     | EvConnected p status \<Rightarrow> s\<lparr>g_pending := remove1 (ConnectReq p) (g_pending s)\<rparr>
     | EvWritten q status \<Rightarrow> s\<lparr>g_pending := remove1 (AfterWriteReq q) (g_pending s)\<rparr>
     | EvWork p m \<Rightarrow> s\<lparr>g_pending := WorkedReq p # remove1 (WorkReq p) (g_pending s)\<rparr>
     | EvWorked p status \<Rightarrow> s\<lparr>g_pending := remove1 (WorkedReq p) (g_pending s)\<rparr>
     | _ \<Rightarrow> s)"

text \<open>The server before \<open>_tmain\<close> ran, with its script.\<close>

definition initial :: "ganswer list \<Rightarrow> lua_run list \<Rightarrow> gs" where
  "initial as runs =
    \<lparr>g_luaHandel = False, g_luaClosed = False, g_loop = False, g_session = 1, g_clientDataList = None,
     g_serverDataList = None, g_heap = Map.empty, g_pending = [], g_shut = [], g_answers = as,
     g_runs = runs, g_trace = []\<rparr>"

text \<open>The runs of the server: \<open>_tmain\<close>, then one event after the other.\<close>

inductive server_step :: "genv \<Rightarrow> nat \<Rightarrow> gs \<Rightarrow> event \<Rightarrow> gs \<Rightarrow> bool" for env n where
  step: "enabled ev s \<Longrightarrow> dispatch env (lua_pcall n env) ev (consume ev s) = Some (Inr (), s') \<Longrightarrow>
    server_step env n s ev s'"

inductive server_run :: "genv \<Rightarrow> nat \<Rightarrow> event list \<Rightarrow> gs \<Rightarrow> bool" for env n where
  start: "tmain env (lua_pcall n env) (initial as runs) = Some (Inr (), s) \<Longrightarrow> server_run env n [] s"
| later: "server_run env n evs s \<Longrightarrow> server_step env n s ev s' \<Longrightarrow> server_run env n (evs @ [ev]) s'"

inductive_cases server_stepE: "server_step env n s ev s'"

end
