(* ===== verification/GsInv.thy ===== *)
theory GsInv
  imports GameServer
begin

text \<open>
  The invariant of the server: the tables of connections, the heap and what libuv owes fit
  together, and the scripts have been told of every session exactly what has happened to it. It
  is kept by every event of a run in which no connection to another server breaks, whatever the
  scripts do; and in such a run nothing that has been freed is used.
\<close>


section \<open>Weakest preconditions\<close>

definition uaf :: "lua_error \<Rightarrow> bool" where
  "uaf e \<longleftrightarrow> (\<exists>p. e = UseAfterFree p)"

text \<open>If the step returns, \<open>Q\<close> holds of the result; the process may die, but not of a use of freed
  memory.\<close>

definition wp :: "(gs, 'a) act \<Rightarrow> ('a \<Rightarrow> gs \<Rightarrow> bool) \<Rightarrow> gs \<Rightarrow> bool" where
  "wp m Q s \<longleftrightarrow>
    (case m s of None \<Rightarrow> True | Some (Inl e, s') \<Rightarrow> \<not> uaf e | Some (Inr x, s') \<Rightarrow> Q x s')"

lemma wp_simps [simp]:
  "wp (act_return x) Q = Q x"
  "wp (act_get f) U = (\<lambda>s. U (f s) s)"
  "wp (act_put g) R = (\<lambda>s. R () (g s))"
  "wp (act_bind m h) T = wp m (\<lambda>x. wp (h x) T)"
  "wp (act_error e) Q = (\<lambda>s. \<not> uaf e)"
  "wp (act_lua r) Q = (\<lambda>s. case r of Inl e \<Rightarrow> \<not> uaf e | Inr x \<Rightarrow> Q x s)"
  by (auto simp: wp_def act_bind_def fun_eq_iff split: option.splits sum.splits)

lemma wp_cases [simp]:
  "wp (if b then m else n) Q = (if b then wp m Q else wp n Q)"
  "wp (case v of None \<Rightarrow> m | Some x \<Rightarrow> f x) Q = (case v of None \<Rightarrow> wp m Q | Some x \<Rightarrow> wp (f x) Q)"
  by (simp_all split: option.split)

lemma wp_mono: "wp m Q s \<Longrightarrow> (\<And>x s'. Q x s' \<Longrightarrow> R x s') \<Longrightarrow> wp m R s"
  by (auto simp: wp_def split: option.splits sum.splits)

lemma uaf_simps [simp]: "\<not> uaf Aborted" "\<not> uaf (Undefined m)" "uaf (UseAfterFree p)"
  by (simp_all add: uaf_def)

lemma wp_ASSERT [simp]: "wp (ASSERT b) Q = (\<lambda>s. b \<longrightarrow> Q () s)"
  by (auto simp: ASSERT_def)

lemma wp_on_object [simp]: "wp (on_object p f x) Q = (\<lambda>s. g_heap s p \<noteq> None \<and> wp (f x) Q s)"
  by (auto simp: wp_def on_object_def fun_eq_iff)

lemma wp_client_at [simp]:
  "wp (client_at p) Q = (\<lambda>s. g_heap s p \<noteq> None \<and> (\<forall>c. g_heap s p = Some (Client c) \<longrightarrow> Q c s))"
  by (auto simp: wp_def client_at_def fun_eq_iff split: option.splits obj.splits)

lemma wp_server_at [simp]:
  "wp (server_at p) Q = (\<lambda>s. g_heap s p \<noteq> None \<and> (\<forall>c. g_heap s p = Some (Server c) \<longrightarrow> Q c s))"
  by (auto simp: wp_def server_at_def fun_eq_iff split: option.splits obj.splits)

lemma wp_job_at [simp]:
  "wp (job_at p) Q = (\<lambda>s. g_heap s p \<noteq> None \<and> (\<forall>c. g_heap s p = Some (Job c) \<longrightarrow> Q c s))"
  by (auto simp: wp_def job_at_def fun_eq_iff split: option.splits obj.splits)

text \<open>A call that got this answer, and one more line in the trace.\<close>

definition called :: "gcall \<Rightarrow> ganswer list \<Rightarrow> gs \<Rightarrow> gs" where
  "called c as s = s\<lparr>g_answers := as, g_trace := g_trace s @ [c]\<rparr>"

lemma wp_gcall:
  "(\<And>a as. allowed s c a \<Longrightarrow> Q a (if ga_ret a = 0 then accept_request c (called c as s) else called c as s)) \<Longrightarrow>
    wp (gcall_answer c) Q s"
proof (cases "g_answers s")
  case (Cons a as)
  assume "\<And>a as. allowed s c a \<Longrightarrow> Q a (if ga_ret a = 0 then accept_request c (called c as s) else called c as s)"
  from this [of a as] show ?thesis
    by (simp add: wp_def gcall_answer_def Cons Let_def flip: called_def)
qed (simp add: wp_def gcall_answer_def)

lemma wp_uv_call:
  "g_heap s p \<noteq> None \<Longrightarrow>
    (\<And>a as. allowed s c a \<Longrightarrow> Q (ga_ret a) (if ga_ret a = 0 then accept_request c (called c as s) else called c as s)) \<Longrightarrow>
    wp (uv_call p c) Q s"
  by (simp add: uv_call_def wp_gcall)

lemma wp_simple_call:
  "(\<And>a as. allowed s c a \<Longrightarrow> Q (ga_ret a) (if ga_ret a = 0 then accept_request c (called c as s) else called c as s)) \<Longrightarrow>
    wp (simple_call c) Q s"
  by (simp add: simple_call_def wp_gcall)

lemma wp_gmalloc:
  "(\<And>as. Q 0 (called GMalloc as s)) \<Longrightarrow>
    (\<And>p as. 0 < p \<Longrightarrow> g_heap s p = None \<Longrightarrow> Q p ((called GMalloc as s)\<lparr>g_heap := (g_heap s)(p \<mapsto> Raw)\<rparr>)) \<Longrightarrow>
    wp gmalloc Q s"
  unfolding gmalloc_def
  by (simp, rule wp_gcall) (auto simp: Let_def allowed_def accept_request_def called_def)


section \<open>The invariant\<close>

text \<open>What the scripts have been told of the session \<open>k\<close>.\<close>

datatype phase = Unborn | Alive | Dead | Bad

definition life_step :: "int \<Rightarrow> gcall \<Rightarrow> phase \<Rightarrow> phase" where
  "life_step k c ph =
    (case c of
       GLua name [LNum x] \<Rightarrow>
         if x \<noteq> of_int k then ph
         else if name = lit ''lua_onconn'' then (if ph = Unborn then Alive else Bad)
         else if name = lit ''lua_oncloseconn'' then (if ph = Alive then Alive else Bad)
         else if name = lit ''lua_onFinalClosed'' then (if ph = Alive then Dead else Bad)
         else ph
     | _ \<Rightarrow> ph)"

definition life :: "int \<Rightarrow> gcall list \<Rightarrow> phase" where
  "life k tr = fold (life_step k) tr Unborn"

lemma life_snoc [simp]: "life k (tr @ [c]) = life_step k c (life k tr)"
  by (simp add: life_def)

text \<open>Calls the life of a session does not depend on.\<close>

definition neutral :: "gcall \<Rightarrow> bool" where
  "neutral c \<longleftrightarrow>
    (case c of
       GLua name args \<Rightarrow> name \<notin> {lit ''lua_onconn'', lit ''lua_oncloseconn'', lit ''lua_onFinalClosed''} \<or> (\<nexists>x. args = [LNum x])
     | _ \<Rightarrow> True)"

lemma life_neutral: "neutral c \<Longrightarrow> life_step k c ph = ph"
  by (auto simp: neutral_def life_step_def split: gcall.split list.split lua_value.split)

fun req_addr :: "uv_req \<Rightarrow> nat" where
  "req_addr (ShutdownReq sd p) = p"
| "req_addr (CloseReq sd p) = p"
| "req_addr (ReadReq sd p) = p"
| "req_addr (ConnectReq p) = p"
| "req_addr (AfterWriteReq p) = p"
| "req_addr (WorkReq p) = p"
| "req_addr (WorkedReq p) = p"

definition lasting :: "uv_req \<Rightarrow> bool" where
  "lasting r \<longleftrightarrow> (\<exists>sd p. r = ReadReq sd p)"

text \<open>The object of a request is there, of the right kind, and in the table if it is connected.\<close>

definition is_client :: "gs \<Rightarrow> nat \<Rightarrow> bool" where
  "is_client s p \<longleftrightarrow> (\<exists>c. g_heap s p = Some (Client c))"

definition is_peer :: "gs \<Rightarrow> nat \<Rightarrow> bool" where
  "is_peer s p \<longleftrightarrow> p \<in> fst ` set (members (g_serverDataList s))"

definition side_ok :: "gs \<Rightarrow> side \<Rightarrow> nat \<Rightarrow> bool" where
  "side_ok s sd p \<longleftrightarrow> (case sd of ClientSide \<Rightarrow> is_client s p | ServerSide \<Rightarrow> is_peer s p)"

definition req_ok :: "gs \<Rightarrow> uv_req \<Rightarrow> bool" where
  "req_ok s r \<longleftrightarrow>
    (case r of
       ShutdownReq sd p \<Rightarrow> side_ok s sd p \<and> p \<in> set (g_shut s)
     | CloseReq sd p \<Rightarrow> side_ok s sd p \<and> p \<in> set (g_shut s)
     | ReadReq sd p \<Rightarrow> side_ok s sd p \<and> CloseReq sd p \<notin> set (g_pending s)
     | ConnectReq p \<Rightarrow> (\<exists>c. g_heap s p = Some (Server c)) \<and> \<not> is_peer s p
     | AfterWriteReq p \<Rightarrow> g_heap s p = Some WriteReq
     | WorkReq p \<Rightarrow> (\<exists>c. g_heap s p = Some (Job c))
     | WorkedReq p \<Rightarrow> (\<exists>c. g_heap s p = Some (Job c)))"

text \<open>Requests that end something are owed one at a time.\<close>

definition owed :: "gs \<Rightarrow> nat \<Rightarrow> uv_req list" where
  "owed s p = filter (\<lambda>r. \<not> lasting r \<and> req_addr r = p) (g_pending s)"

definition reqs_ok :: "gs \<Rightarrow> bool" where
  "reqs_ok s \<longleftrightarrow> (\<forall>r \<in> set (g_pending s). req_ok s r) \<and> (\<forall>p. length (owed s p) \<le> 1)"

definition clients_ok :: "gs \<Rightarrow> bool" where
  "clients_ok s \<longleftrightarrow>
    uthash.keyed (g_clientDataList s) \<and>
    (\<forall>p k. (p, k) \<in> set (members (g_clientDataList s)) \<longleftrightarrow>
      (\<exists>c. g_heap s p = Some (Client c) \<and> k = int_key (cl_session c))) \<and>
    (\<forall>p c. g_heap s p = Some (Client c) \<longrightarrow> 1 \<le> cl_session c \<and> cl_session c < g_session s) \<and>
    1 \<le> g_session s \<and> g_session s \<le> 2147483646"

definition servers_ok :: "gs \<Rightarrow> bool" where
  "servers_ok s \<longleftrightarrow>
    hash_inv (g_serverDataList s) \<and>
    (\<forall>(p, k) \<in> set (members (g_serverDataList s)). \<exists>c. g_heap s p = Some (Server c) \<and> k = int_key (sv_sno c))"

definition told :: "gs \<Rightarrow> int \<Rightarrow> phase" where
  "told s k =
    (if k < 1 \<or> g_session s \<le> k then Unborn
     else if \<exists>p c. g_heap s p = Some (Client c) \<and> cl_session c = k then Alive else Dead)"

definition life_ok :: "gs \<Rightarrow> bool" where
  "life_ok s \<longleftrightarrow> (\<forall>k. life k (g_trace s) = told s k)"

definition gs_inv :: "gs \<Rightarrow> bool" where
  "gs_inv s \<longleftrightarrow> g_luaHandel s \<and> clients_ok s \<and> servers_ok s \<and> reqs_ok s \<and> life_ok s"

lemmas inv_defs = gs_inv_def clients_ok_def servers_ok_def reqs_ok_def life_ok_def

text \<open>What none of this depends on.\<close>

lemma gs_inv_frame [simp]:
  "gs_inv (s\<lparr>g_runs := runs\<rparr>) = gs_inv s"
  "gs_inv (s\<lparr>g_luaClosed := b\<rparr>) = gs_inv s"
  "gs_inv (s\<lparr>g_loop := b\<rparr>) = gs_inv s"
  "gs_inv (s\<lparr>g_answers := as\<rparr>) = gs_inv s"
  by (simp_all add: inv_defs told_def owed_def req_ok_def side_ok_def is_client_def is_peer_def cong: uv_req.case_cong side.case_cong)

lemma gs_inv_trace: "neutral c \<Longrightarrow> gs_inv (s\<lparr>g_trace := g_trace s @ [c]\<rparr>) = gs_inv s"
  by (simp add: inv_defs life_neutral told_def owed_def req_ok_def side_ok_def is_client_def is_peer_def cong: uv_req.case_cong side.case_cong)

lemma gs_inv_called: "neutral c \<Longrightarrow> gs_inv (called c as s) = gs_inv s"
proof -
  assume c: "neutral c"
  have "called c as s = (s\<lparr>g_trace := g_trace s @ [c]\<rparr>)\<lparr>g_answers := as\<rparr>" by (simp add: called_def)
  then show ?thesis by (simp add: gs_inv_trace [OF c])
qed


section \<open>Requests\<close>

lemma reqs_only:
  "gs_inv (s\<lparr>g_pending := ps, g_shut := sh\<rparr>) \<longleftrightarrow>
    g_luaHandel s \<and> clients_ok s \<and> servers_ok s \<and> life_ok s \<and> reqs_ok (s\<lparr>g_pending := ps, g_shut := sh\<rparr>)"
  by (auto simp: gs_inv_def clients_ok_def servers_ok_def life_ok_def told_def)

lemma reqs_pending:
  "gs_inv (s\<lparr>g_pending := ps\<rparr>) \<longleftrightarrow>
    g_luaHandel s \<and> clients_ok s \<and> servers_ok s \<and> life_ok s \<and> reqs_ok (s\<lparr>g_pending := ps\<rparr>)"
  by (auto simp: gs_inv_def clients_ok_def servers_ok_def life_ok_def told_def)

lemma reqs_shut:
  "gs_inv (s\<lparr>g_shut := sh\<rparr>) \<longleftrightarrow>
    g_luaHandel s \<and> clients_ok s \<and> servers_ok s \<and> life_ok s \<and> reqs_ok (s\<lparr>g_shut := sh\<rparr>)"
  by (auto simp: gs_inv_def clients_ok_def servers_ok_def life_ok_def told_def)

lemma req_ok_pending:
  "set (g_shut s) \<subseteq> set sh \<Longrightarrow> (\<And>sd p. CloseReq sd p \<in> set ps \<Longrightarrow> CloseReq sd p \<in> set (g_pending s)) \<Longrightarrow>
    req_ok s r \<Longrightarrow> req_ok (s\<lparr>g_pending := ps, g_shut := sh\<rparr>) r"
  by (auto simp: req_ok_def side_ok_def is_client_def is_peer_def split: uv_req.splits side.splits)

lemma req_ok_pending1:
  "req_ok s r \<Longrightarrow> (\<And>sd p. CloseReq sd p \<in> set ps \<Longrightarrow> CloseReq sd p \<in> set (g_pending s)) \<Longrightarrow>
    req_ok (s\<lparr>g_pending := ps\<rparr>) r"
  using req_ok_pending [of s "g_shut s" ps r] by simp

lemma push_req:
  assumes "gs_inv s" "\<not> lasting r" "\<nexists>sd p. r = CloseReq sd p" "owed s (req_addr r) = []" "set (g_shut s) \<subseteq> set sh"
    "req_ok (s\<lparr>g_pending := r # g_pending s, g_shut := sh\<rparr>) r"
  shows "gs_inv (s\<lparr>g_pending := r # g_pending s, g_shut := sh\<rparr>)"
proof -
  have "\<forall>q \<in> set (g_pending s). req_ok (s\<lparr>g_pending := r # g_pending s, g_shut := sh\<rparr>) q"
    using assms(1,3,5) by (auto simp: gs_inv_def reqs_ok_def intro!: req_ok_pending)
  moreover have "length (owed (s\<lparr>g_pending := r # g_pending s, g_shut := sh\<rparr>) p) \<le> 1" for p
    using assms(1,2,4) by (auto simp: gs_inv_def reqs_ok_def owed_def)
  ultimately show ?thesis
    using assms(1,6) by (simp add: reqs_only) (simp add: gs_inv_def reqs_ok_def)
qed

lemma push_read:
  assumes "gs_inv s" "side_ok s sd p" "CloseReq sd p \<notin> set (g_pending s)"
  shows "gs_inv (s\<lparr>g_pending := List.insert (ReadReq sd p) (g_pending s)\<rparr>)"
proof -
  let ?ps = "List.insert (ReadReq sd p) (g_pending s)"
  have "\<forall>q \<in> set (g_pending s). req_ok (s\<lparr>g_pending := ?ps\<rparr>) q"
    using assms(1) by (auto simp: gs_inv_def reqs_ok_def intro!: req_ok_pending1)
  moreover have "req_ok (s\<lparr>g_pending := ?ps\<rparr>) (ReadReq sd p)"
    using assms(2,3) by (auto simp: req_ok_def side_ok_def is_client_def is_peer_def split: side.splits)
  moreover have "owed (s\<lparr>g_pending := ?ps\<rparr>) q = owed s q" for q
    by (simp add: owed_def lasting_def List.insert_def)
  ultimately show ?thesis
    using assms(1) unfolding reqs_pending by (auto simp: gs_inv_def reqs_ok_def)
qed

lemma push_close:
  assumes "gs_inv s" "side_ok s sd p" "p \<in> set (g_shut s)" "owed s p = []"
  shows "gs_inv (s\<lparr>g_pending := CloseReq sd p # removeAll (ReadReq sd p) (g_pending s)\<rparr>)"
proof -
  let ?s = "s\<lparr>g_pending := CloseReq sd p # removeAll (ReadReq sd p) (g_pending s)\<rparr>"
  have "req_ok ?s q" if "q \<in> set (g_pending s)" "q \<noteq> ReadReq sd p" for q
  proof -
    have "req_ok s q" using assms(1) that(1) by (simp add: gs_inv_def reqs_ok_def)
    moreover have "side = sd" if "q = ReadReq side p" for side
    proof -
      have "side_ok s side p" using \<open>req_ok s q\<close> that by (simp add: req_ok_def)
      with assms(1,2) show ?thesis
        by (cases side; cases sd) (fastforce simp: side_ok_def is_client_def is_peer_def gs_inv_def servers_ok_def)+
    qed
    ultimately show ?thesis
      using that(2) by (auto simp: req_ok_def side_ok_def is_client_def is_peer_def split: uv_req.splits side.splits)
  qed
  moreover have "req_ok ?s (CloseReq sd p)"
    using assms(2,3) by (auto simp: req_ok_def side_ok_def is_client_def is_peer_def split: side.splits)
  moreover have "owed ?s q = (if q = p then [CloseReq sd p] else owed s q)" for q
  proof -
    have f: "filter P (removeAll r xs) = filter P xs" if "\<not> P r" for P and r :: uv_req and xs
      using that by (induction xs) auto
    have "filter (\<lambda>r. \<not> lasting r \<and> req_addr r = q) (removeAll (ReadReq sd p) (g_pending s)) = owed s q"
      unfolding owed_def by (rule f) (simp add: lasting_def)
    then show ?thesis using assms(4) by (auto simp: owed_def lasting_def)
  qed
  ultimately show ?thesis
    using assms(1) unfolding reqs_pending by (auto simp: gs_inv_def reqs_ok_def)
qed

lemma unshut:
  assumes "gs_inv s" "\<forall>r \<in> set (g_pending s). req_addr r \<noteq> p"
  shows "gs_inv (s\<lparr>g_shut := removeAll p (g_shut s)\<rparr>)"
proof -
  let ?s = "s\<lparr>g_shut := removeAll p (g_shut s)\<rparr>"
  have "req_ok ?s r" if "r \<in> set (g_pending s)" for r
  proof -
    have "req_ok s r" "req_addr r \<noteq> p" using assms that by (auto simp: gs_inv_def reqs_ok_def)
    then show ?thesis
      by (cases r) (auto simp: req_ok_def side_ok_def is_client_def is_peer_def split: side.splits)
  qed
  then show ?thesis
    using assms(1) unfolding reqs_shut by (auto simp: gs_inv_def reqs_ok_def owed_def)
qed

lemma drop_req:
  assumes "gs_inv s"
  shows "gs_inv (s\<lparr>g_pending := remove1 r (g_pending s)\<rparr>)"
proof -
  let ?s = "s\<lparr>g_pending := remove1 r (g_pending s)\<rparr>"
  have "req_ok ?s q" if "q \<in> set (remove1 r (g_pending s))" for q
  proof (rule req_ok_pending1)
    show "req_ok s q" using assms that notin_set_remove1 [of q "g_pending s" r] by (auto simp: gs_inv_def reqs_ok_def)
  qed (meson notin_set_remove1)
  moreover have "length (owed ?s p) \<le> 1" for p
  proof -
    have "owed ?s p = (if \<not> lasting r \<and> req_addr r = p then remove1 r (owed s p) else owed s p)"
      by (simp add: owed_def filter_remove1)
    then show ?thesis
      using assms by (auto simp: gs_inv_def reqs_ok_def length_remove1 split: if_splits intro: le_trans)
  qed
  ultimately show ?thesis
    using assms unfolding reqs_pending by (simp add: gs_inv_def reqs_ok_def)
qed


section \<open>Objects\<close>

lemma gs_invD:
  assumes "gs_inv s"
  shows "g_luaHandel s" "clients_ok s" "servers_ok s" "reqs_ok s" "life_ok s"
  using assms by (simp_all add: gs_inv_def)

lemma req_kind:
  assumes "gs_inv s" "r \<in> set (g_pending s)"
  shows "g_heap s (req_addr r) \<noteq> None" "g_heap s (req_addr r) \<noteq> Some Raw"
proof -
  have r: "req_ok s r" using assms by (simp add: gs_inv_def reqs_ok_def)
  have "\<exists>c. g_heap s p = Some (Server c)" if "is_peer s p" for p
    using that assms(1) by (fastforce simp: is_peer_def gs_inv_def servers_ok_def)
  with r have "g_heap s (req_addr r) \<noteq> None \<and> g_heap s (req_addr r) \<noteq> Some Raw"
    by (cases r) (fastforce simp: req_ok_def side_ok_def is_client_def split: side.splits)+
  then show "g_heap s (req_addr r) \<noteq> None" "g_heap s (req_addr r) \<noteq> Some Raw" by blast+
qed

lemma peer_object: "gs_inv s \<Longrightarrow> is_peer s p \<Longrightarrow> \<exists>c. g_heap s p = Some (Server c)"
  by (fastforce simp: is_peer_def gs_inv_def servers_ok_def)

text \<open>Memory nobody knows of yet, or any more.\<close>

definition unknown :: "gs \<Rightarrow> nat \<Rightarrow> bool" where
  "unknown s p \<longleftrightarrow> \<not> is_client s p \<and> \<not> is_peer s p \<and> (\<forall>r \<in> set (g_pending s). req_addr r \<noteq> p)"

lemma unknown_fresh: "gs_inv s \<Longrightarrow> g_heap s p = None \<or> g_heap s p = Some Raw \<Longrightarrow> unknown s p"
  using peer_object [of s p] by (auto simp: unknown_def is_client_def dest: req_kind)

lemma heap_upd:
  assumes "gs_inv s" "unknown s p" "\<nexists>c. x = Some (Client c)"
  shows "gs_inv (s\<lparr>g_heap := (g_heap s)(p := x)\<rparr>)"
proof -
  let ?s = "s\<lparr>g_heap := (g_heap s)(p := x)\<rparr>"
  have cl: "g_heap ?s q = Some (Client c) \<longleftrightarrow> g_heap s q = Some (Client c)" for q c
    using assms(2,3) by (auto simp: unknown_def is_client_def)
  have "clients_ok ?s" "life_ok ?s"
    using gs_invD(2,5) [OF assms(1)] unfolding clients_ok_def life_ok_def told_def cl by simp_all
  moreover have "servers_ok ?s"
  proof -
    have "q \<noteq> p" if "(q, k) \<in> set (members (g_serverDataList s))" for q k
      using assms(2) that by (force simp: unknown_def is_peer_def)
    with gs_invD(3) [OF assms(1)] show ?thesis by (auto simp: servers_ok_def)
  qed
  moreover have "req_ok ?s r" if "r \<in> set (g_pending s)" for r
  proof -
    have "req_ok s r" "req_addr r \<noteq> p"
      using assms(1,2) that by (auto simp: gs_inv_def reqs_ok_def unknown_def)
    then show ?thesis
      unfolding req_ok_def side_ok_def is_client_def cl by (auto simp: is_peer_def split: uv_req.splits side.splits)
  qed
  ultimately show ?thesis
    using assms(1) by (simp add: gs_inv_def reqs_ok_def owed_def)
qed

lemma job_upd:
  assumes "gs_inv s" "g_heap s p = Some (Job a)"
  shows "gs_inv (s\<lparr>g_heap := (g_heap s)(p \<mapsto> Job b)\<rparr>)"
proof -
  let ?s = "s\<lparr>g_heap := (g_heap s)(p \<mapsto> Job b)\<rparr>"
  have same: "g_heap ?s q = Some (Client c) \<longleftrightarrow> g_heap s q = Some (Client c)"
    "g_heap ?s q = Some (Server d) \<longleftrightarrow> g_heap s q = Some (Server d)"
    "g_heap ?s q = Some WriteReq \<longleftrightarrow> g_heap s q = Some WriteReq"
    "(\<exists>j. g_heap ?s q = Some (Job j)) \<longleftrightarrow> (\<exists>j. g_heap s q = Some (Job j))" for q c d
    using assms(2) by auto
  have "clients_ok ?s" "life_ok ?s" "servers_ok ?s"
    using gs_invD(2,3,5) [OF assms(1)] unfolding clients_ok_def life_ok_def told_def servers_ok_def same by simp_all
  moreover have "req_ok ?s r \<longleftrightarrow> req_ok s r" for r
    unfolding req_ok_def side_ok_def is_client_def same by (simp add: is_peer_def cong: uv_req.case_cong side.case_cong)
  ultimately show ?thesis
    using assms(1) by (simp add: gs_inv_def reqs_ok_def owed_def)
qed

lemma client_owed:
  assumes "gs_inv s" "side_ok s sd p" "p \<notin> set (g_shut s)"
  shows "owed s p = []"
proof -
  have "lasting r" if "r \<in> set (g_pending s)" "req_addr r = p" for r
  proof -
    have r: "req_ok s r" using assms(1) that(1) by (simp add: gs_inv_def reqs_ok_def)
    have "(\<exists>c. g_heap s p = Some (Client c)) \<or> is_peer s p \<and> (\<exists>c. g_heap s p = Some (Server c))"
      using assms(1,2) peer_object by (auto simp: side_ok_def is_client_def split: side.splits)
    with r that(2) assms(3) show ?thesis by (cases r) (auto simp: req_ok_def lasting_def)
  qed
  then show ?thesis by (auto simp: owed_def filter_empty_conv)
qed


section \<open>What scripts can do\<close>

text \<open>While Lua runs, nothing is freed, no connection comes or goes, and what is owed on existing
  objects can only grow by shutdowns.\<close>

definition keeps :: "gs \<Rightarrow> gs \<Rightarrow> bool" where
  "keeps s s' \<longleftrightarrow>
    g_session s' = g_session s \<and> g_clientDataList s' = g_clientDataList s \<and> g_serverDataList s' = g_serverDataList s \<and>
    g_heap s \<subseteq>\<^sub>m g_heap s' \<and>
    (\<forall>sd p. CloseReq sd p \<in> set (g_pending s') \<longleftrightarrow> CloseReq sd p \<in> set (g_pending s)) \<and>
    (\<forall>r \<in> set (g_pending s'). req_addr r \<in> dom (g_heap s) \<longrightarrow>
       r \<in> set (g_pending s) \<or> (\<exists>sd p. r = ShutdownReq sd p))"

lemma keeps_refl [simp]: "keeps s s"
  by (simp add: keeps_def)

lemma keeps_trans: "keeps s1 s2 \<Longrightarrow> keeps s2 s3 \<Longrightarrow> keeps s1 s3"
proof -
  assume a: "keeps s1 s2" "keeps s2 s3"
  then have "g_heap s1 \<subseteq>\<^sub>m g_heap s3" by (auto simp: keeps_def intro: map_le_trans)
  moreover have "r \<in> set (g_pending s1) \<or> (\<exists>sd p. r = ShutdownReq sd p)"
    if "r \<in> set (g_pending s3)" "req_addr r \<in> dom (g_heap s1)" for r
  proof -
    have "req_addr r \<in> dom (g_heap s2)"
      using a(1) that(2) by (auto simp: keeps_def map_le_def dom_def)
    with a that show ?thesis by (fastforce simp: keeps_def)
  qed
  ultimately show ?thesis using a by (auto simp: keeps_def)
qed

lemma keeps_heap: "keeps s s' \<Longrightarrow> g_heap s p = Some x \<Longrightarrow> g_heap s' p = Some x"
  by (auto simp: keeps_def map_le_def dom_def)

definition lua_ok :: "(gs, 'a) act \<Rightarrow> bool" where
  "lua_ok m \<longleftrightarrow> (\<forall>s. gs_inv s \<longrightarrow> wp m (\<lambda>_ s'. gs_inv s' \<and> keeps s s') s)"

lemma lua_okI: "(\<And>s. gs_inv s \<Longrightarrow> wp m (\<lambda>_ s'. gs_inv s' \<and> keeps s s') s) \<Longrightarrow> lua_ok m"
  by (simp add: lua_ok_def)

lemma lua_ok_bind [intro]:
  assumes "lua_ok m" "\<And>x. lua_ok (f x)"
  shows "lua_ok (act_bind m f)"
proof (rule lua_okI)
  fix s assume "gs_inv s"
  with assms(1) have "wp m (\<lambda>_ s'. gs_inv s' \<and> keeps s s') s" by (simp add: lua_ok_def)
  then show "wp (act_bind m f) (\<lambda>_ s'. gs_inv s' \<and> keeps s s') s"
    by (simp, elim wp_mono) (use assms(2) in \<open>auto simp: lua_ok_def intro: keeps_trans wp_mono\<close>)
qed

lemma lua_ok_simple [intro]:
  "lua_ok (act_return x)" "lua_ok (act_get g)" "lua_ok (ASSERT b)" "lua_ok (act_error Aborted)"
  "lua_ok (act_error (Undefined m))" "(\<And>e. r = Inl e \<Longrightarrow> \<not> uaf e) \<Longrightarrow> lua_ok (act_lua r)"
  by (auto simp: lua_ok_def split: sum.splits)

lemma lua_ok_split [intro]:
  "(b \<Longrightarrow> lua_ok m) \<Longrightarrow> (\<not> b \<Longrightarrow> lua_ok m') \<Longrightarrow> lua_ok (if b then m else m')"
  "lua_ok n \<Longrightarrow> (\<And>x. v = Some x \<Longrightarrow> lua_ok (f x)) \<Longrightarrow> lua_ok (case v of None \<Rightarrow> n | Some x \<Rightarrow> f x)"
  by (auto split: option.split)

text \<open>Calls libuv owes nothing for.\<close>

definition idle :: "gcall \<Rightarrow> bool" where
  "idle c \<longleftrightarrow> neutral c \<and> (\<forall>s. accept_request c s = s)"

lemma idle_calls [simp]:
  "idle (GIp4Addr ip port)" "idle GTcpInitListener" "idle (GBind ip port)" "idle GListen" "idle GTime" "idle (GLoadFile f)"
  "idle (GAccept p)" "idle (GPeerName p)" "idle GMalloc"
  by (simp_all add: idle_def neutral_def accept_request_def)

lemma keeps_called [simp]: "keeps s (called c as s)"
  by (simp add: keeps_def called_def)

lemma lua_ok_gcall: "idle c \<Longrightarrow> lua_ok (gcall_answer c)"
  by (rule lua_okI, rule wp_gcall) (simp add: idle_def gs_inv_called)

lemma lua_ok_call [intro]: "idle c \<Longrightarrow> lua_ok (simple_call c)"
  unfolding simple_call_def by (intro lua_ok_bind lua_ok_gcall lua_ok_simple)

lemma lua_ok_note: "neutral c \<Longrightarrow> lua_ok (note_call c)"
  by (auto simp: lua_ok_def note_call_def gs_inv_trace keeps_def)

lemma called_simps [simp]:
  "g_heap (called c as s) = g_heap s" "g_pending (called c as s) = g_pending s" "g_shut (called c as s) = g_shut s"
  "g_luaHandel (called c as s) = g_luaHandel s" "g_session (called c as s) = g_session s"
  "g_clientDataList (called c as s) = g_clientDataList s" "g_serverDataList (called c as s) = g_serverDataList s"
  "unknown (called c as s) p = unknown s p" "side_ok (called c as s) sd p = side_ok s sd p"
  "owed (called c as s) p = owed s p"
  by (simp_all add: called_def unknown_def is_client_def is_peer_def side_ok_def owed_def cong: side.case_cong)

lemma client_found: "gs_inv s \<Longrightarrow> HASH_FIND_INT (g_clientDataList s) k = Some p \<Longrightarrow> is_client s p"
  unfolding HASH_FIND_INT_def
  by (auto simp: gs_inv_def clients_ok_def uthash.keyed_def is_client_def dest!: uthash.find_Some)

lemma peer_found: "gs_inv s \<Longrightarrow> HASH_FIND_INT (g_serverDataList s) k = Some p \<Longrightarrow> is_peer s p"
  unfolding HASH_FIND_INT_def
  by (auto simp: gs_inv_def servers_ok_def is_peer_def dest!: uthash.find_Some intro: rev_image_eqI)

lemma side_object: "gs_inv s \<Longrightarrow> side_ok s sd p \<Longrightarrow> g_heap s p \<noteq> None"
  by (auto simp: side_ok_def is_client_def split: side.splits dest: peer_object)

lemma wp_shutdown:
  assumes "gs_inv s" "side_ok s sd p"
  shows "wp (uv_call p (GShutdown sd p)) (\<lambda>_ s'. gs_inv s' \<and> keeps s s') s"
proof (rule wp_uv_call)
  fix a as
  assume a: "allowed s (GShutdown sd p) a"
  let ?s = "called (GShutdown sd p) as s"
  have inv: "gs_inv ?s" using assms(1) by (simp add: gs_inv_called neutral_def)
  show "gs_inv (if ga_ret a = 0 then accept_request (GShutdown sd p) ?s else ?s) \<and>
      keeps s (if ga_ret a = 0 then accept_request (GShutdown sd p) ?s else ?s)"
  proof (cases "ga_ret a = 0")
    case True
    with a have sh: "p \<notin> set (g_shut ?s)" by (simp add: allowed_def)
    then have "owed ?s p = []" using client_owed [OF inv, of sd p] assms(2) by simp
    then have "gs_inv (?s\<lparr>g_pending := ShutdownReq sd p # g_pending ?s, g_shut := p # g_shut ?s\<rparr>)"
      using assms(2) by (intro push_req [OF inv])
        (auto simp: lasting_def req_ok_def side_ok_def is_client_def is_peer_def called_def split: side.splits)
    with True show ?thesis
      by (auto simp: accept_request_def keeps_def called_def)
  qed (use inv in simp)
qed (use assms side_object in blast)

lemma lua_ok_find_shutdown:
  "lua_ok (act_bind (getClientDataBySession k) (\<lambda>v. case v of
     Some p \<Rightarrow> act_bind (closeClientConn p) (\<lambda>_. act_return x) | None \<Rightarrow> act_return y))"
  "lua_ok (act_bind (getServerDataBySno k) (\<lambda>v. case v of
     Some p \<Rightarrow> act_bind (closeServerConn p) (\<lambda>_. act_return x) | None \<Rightarrow> act_return y))"
  by (rule lua_okI,
      auto simp: getClientDataBySession_def getServerDataBySno_def closeClientConn_def closeServerConn_def side_ok_def
        split: option.split intro!: wp_shutdown dest: client_found peer_found)+

text \<open>New objects: allocated, filled in, and given to libuv before anything else happens.\<close>

lemma wp_new_object:
  assumes "gs_inv s" "\<nexists>c. x = Client c"
    and null: "\<And>s'. gs_inv s' \<Longrightarrow> keeps s s' \<Longrightarrow> Q 0 s'"
    and new: "\<And>p s'. 0 < p \<Longrightarrow> gs_inv s' \<Longrightarrow> keeps s s' \<Longrightarrow> g_heap s p = None \<Longrightarrow> g_heap s' p = Some x \<Longrightarrow> unknown s' p \<Longrightarrow> Q p s'"
  shows "wp gmalloc (\<lambda>p. if p = 0 then Q 0 else wp (store p x) (\<lambda>_. Q p)) s"
proof (rule wp_gmalloc)
  fix as
  show "(if (0 :: nat) = 0 then Q 0 else wp (store 0 x) (\<lambda>_. Q 0)) (called GMalloc as s)"
    using null [of "called GMalloc as s"] gs_inv_called [of GMalloc as s] assms(1) by (simp add: neutral_def)
next
  fix p as
  assume p: "0 < (p :: nat)" "g_heap s p = None"
  let ?s = "called GMalloc as s"
  let ?r = "?s\<lparr>g_heap := (g_heap s)(p \<mapsto> Raw)\<rparr>" and ?t = "?s\<lparr>g_heap := (g_heap s)(p \<mapsto> x)\<rparr>"
  have inv: "gs_inv ?s" and h: "g_heap ?s = g_heap s" using assms(1) by (simp_all add: gs_inv_called neutral_def)
  have u: "unknown ?s p" using unknown_fresh [OF inv] p(2) by (simp add: h)
  have "gs_inv ?t" using heap_upd [OF inv u, of "Some x"] assms(2) by (simp add: h)
  moreover have "unknown ?t p"
    using u assms(2) by (auto simp: unknown_def is_client_def is_peer_def)
  moreover have "keeps s ?t"
    using p(2) by (auto simp: keeps_def called_def map_le_def)
  moreover have "?r\<lparr>g_heap := (g_heap ?r)(p \<mapsto> x)\<rparr> = ?t" by (simp add: fun_upd_upd)
  ultimately show "(if p = 0 then Q 0 else wp (store p x) (\<lambda>_. Q p)) ?r"
    using new [of p ?t] p by (simp add: store_def)
qed

lemma unknown_owed: "unknown s p \<Longrightarrow> owed s p = []"
  by (auto simp: unknown_def owed_def filter_empty_conv)

text \<open>Handing a new object to libuv, for a write, a job or a connection.\<close>

lemma wp_hand_over:
  assumes "gs_inv s" "unknown s p" "keeps s0 s" "g_heap s0 p = None" "g_heap s q \<noteq> None"
    and c: "neutral c" "accept_request c = (\<lambda>s. s\<lparr>g_pending := r # g_pending s\<rparr>)" "req_addr r = p" "\<not> lasting r"
      "\<nexists>sd p. r = CloseReq sd p" "\<And>s'. g_heap s' = g_heap s \<Longrightarrow> g_serverDataList s' = g_serverDataList s \<Longrightarrow> req_ok s' r"
    and Q: "\<And>a s'. gs_inv s' \<Longrightarrow> keeps s0 s' \<Longrightarrow> Q a s'"
  shows "wp (uv_call q c) Q s"
proof (rule wp_uv_call [OF assms(5)])
  fix a as
  let ?s = "called c as s"
  have inv: "gs_inv ?s" and k: "keeps s0 ?s"
    using assms(1,3) c(1) keeps_trans [OF assms(3) keeps_called] by (simp_all add: gs_inv_called)
  have "gs_inv (?s\<lparr>g_pending := r # g_pending ?s, g_shut := g_shut ?s\<rparr>)"
    using assms(2) c by (intro push_req [OF inv]) (auto simp: unknown_owed)
  moreover have "?s\<lparr>g_pending := r # g_pending ?s, g_shut := g_shut ?s\<rparr> = accept_request c ?s"
    by (simp add: c(2) called_def)
  ultimately have "gs_inv (accept_request c ?s)" by simp
  moreover have "keeps s0 (accept_request c ?s)"
    using k assms(4) c(3,5) by (auto simp: keeps_def c(2))
  ultimately show "Q (ga_ret a) (if ga_ret a = 0 then accept_request c ?s else ?s)"
    using Q inv k by simp
qed

lemma lua_ok_send_to:
  "gs_inv s \<Longrightarrow> (\<And>p. target = Some p \<Longrightarrow> g_heap s p \<noteq> None) \<Longrightarrow>
    wp (send_to target d args) (\<lambda>_ s'. gs_inv s' \<and> keeps s s') s"
proof (cases target)
  case (Some p)
  assume inv: "gs_inv s" and t: "\<And>p. target = Some p \<Longrightarrow> g_heap s p \<noteq> None"
  have "wp gmalloc (\<lambda>q. if q = 0 then (\<lambda>s'. gs_inv s' \<and> keeps s s')
      else wp (store q WriteReq) (\<lambda>_. wp (uv_call p (GWrite p q d)) (\<lambda>_ s'. gs_inv s' \<and> keeps s s'))) s"
  proof (rule wp_new_object [OF inv, where Q = "\<lambda>q. if q = 0 then (\<lambda>s'. gs_inv s' \<and> keeps s s')
      else wp (uv_call p (GWrite p q d)) (\<lambda>_ s'. gs_inv s' \<and> keeps s s')", THEN wp_mono])
    fix q s'
    assume q: "0 < (q :: nat)" "gs_inv s'" "keeps s s'" "g_heap s q = None" "g_heap s' q = Some WriteReq" "unknown s' q"
    have "g_heap s' p \<noteq> None" using t [OF Some] keeps_heap [OF q(3)] by blast
    then show "(if q = 0 then (\<lambda>s'. gs_inv s' \<and> keeps s s')
        else wp (uv_call p (GWrite p q d)) (\<lambda>_ s'. gs_inv s' \<and> keeps s s')) s'"
      using q by (auto intro!: wp_hand_over [where r = "AfterWriteReq q" and p = q]
          simp: neutral_def accept_request_def lasting_def req_ok_def)
  qed (auto simp: store_def)
  with Some show ?thesis by (simp add: send_to_def cong: if_cong)
qed (simp add: send_to_def)

lemma wp_new:
  assumes "gs_inv s" "\<nexists>c. x = Client c"
  shows "wp gmalloc (\<lambda>p s'. p = 0 \<and> gs_inv s' \<and> keeps s s' \<or>
    0 < p \<and> wp (store p x) (\<lambda>_ t. gs_inv t \<and> keeps s t \<and> g_heap s p = None \<and> g_heap t p = Some x \<and> unknown t p) s') s"
  by (rule wp_mono [OF wp_new_object [OF assms, where Q = "\<lambda>p t. p = 0 \<and> gs_inv t \<and> keeps s t \<or>
    0 < p \<and> gs_inv t \<and> keeps s t \<and> g_heap s p = None \<and> g_heap t p = Some x \<and> unknown t p"]])
    (auto split: if_splits elim: wp_mono)

lemma wp_tcp_init:
  assumes "gs_inv s" "unknown s p" "g_heap s p \<noteq> None"
    and Q: "\<And>r s'. gs_inv s' \<Longrightarrow> unknown s' p \<Longrightarrow> keeps s s' \<Longrightarrow> g_heap s' = g_heap s \<Longrightarrow> Q r s'"
  shows "wp (uv_call p (GTcpInit p)) Q s"
proof (rule wp_uv_call [OF assms(3)])
  fix a as
  let ?s = "called (GTcpInit p) as s"
  have inv: "gs_inv ?s" using assms(1) by (simp add: gs_inv_called neutral_def)
  have "gs_inv (?s\<lparr>g_shut := removeAll p (g_shut ?s)\<rparr>)"
    by (rule unshut [OF inv]) (use assms(2) in \<open>simp add: unknown_def\<close>)
  then have "gs_inv (accept_request (GTcpInit p) ?s)" by (simp add: accept_request_def)
  then show "Q (ga_ret a) (if ga_ret a = 0 then accept_request (GTcpInit p) ?s else ?s)"
    using assms(2) inv
    by (intro Q) (auto simp: accept_request_def keeps_def unknown_def is_client_def is_peer_def)
qed

lemma wp_connect:
  assumes "gs_inv s" "unknown s p" "keeps s0 s" "g_heap s0 p = None" "g_heap s p = Some (Server c)"
    and "\<And>a s'. gs_inv s' \<Longrightarrow> keeps s0 s' \<Longrightarrow> Q a s'"
  shows "wp (uv_call p (GConnect p ip port)) Q s"
  by (rule wp_hand_over [OF assms(1-4), where r = "ConnectReq p"])
    (use assms in \<open>auto simp: neutral_def accept_request_def lasting_def req_ok_def unknown_def is_peer_def\<close>)

lemma lua_ok_connectTo: "lua_ok (connectTo env args)"
proof -
  have "lua_ok (act_bind gmalloc (\<lambda>p.
       act_bind (ASSERT (p \<noteq> 0)) (\<lambda>_.
       act_bind (ASSERT (length ip < 20)) (\<lambda>_.
       act_bind (store p (Server c)) (\<lambda>_.
       act_bind (uv_call p (GTcpInit p)) (\<lambda>r.
       act_bind (ASSERT (r = 0)) (\<lambda>_.
       act_bind (uv_call p (GConnect p ip port)) (\<lambda>r.
       act_bind (ASSERT (r = 0)) (\<lambda>_. act_return x)))))))))" for ip c port and x :: "lua_value list"
  proof (rule lua_okI, simp, rule wp_mono [OF wp_new [where x = "Server c"]])
    fix s p s'
    assume "gs_inv s"
      "p = 0 \<and> gs_inv s' \<and> keeps s s' \<or>
       0 < p \<and> wp (store p (Server c)) (\<lambda>_ t. gs_inv t \<and> keeps s t \<and> g_heap s p = None \<and> g_heap t p = Some (Server c) \<and> unknown t p) s'"
    then show "0 < p \<longrightarrow> length ip < 20 \<longrightarrow>
        wp (store p (Server c)) (\<lambda>x. wp (uv_call p (GTcpInit p)) (\<lambda>x s'. x = 0 \<longrightarrow>
          wp (uv_call p (GConnect p ip port)) (\<lambda>x s'. x = 0 \<longrightarrow> gs_inv s' \<and> keeps s s') s')) s'"
      by (auto elim!: wp_mono intro!: wp_tcp_init wp_connect [where ?s0.0 = s and c = c] elim: keeps_trans)
  qed auto
  then show ?thesis
    unfolding connectTo_def Let_def
    by (intro lua_ok_bind [OF lua_ok_simple(3)] lua_ok_bind [OF lua_ok_call] idle_calls)
qed

lemma lua_ok_onExcuteSql: "lua_ok (onExcuteSql env args)"
proof -
  have "lua_ok (act_bind gmalloc (\<lambda>p.
         if p = 0 then act_error (Undefined m)
         else
           act_bind (store p (Job j)) (\<lambda>_.
           act_bind (uv_call p (GQueueWork p)) (\<lambda>r.
             if r \<noteq> 0 then act_return [] else act_return x))))" (is "lua_ok (act_bind gmalloc ?f)") for m j and x :: "lua_value list"
  proof (rule lua_okI)
    fix s assume "gs_inv s"
    have "wp (?f p) (\<lambda>_ s'. gs_inv s' \<and> keeps s s') s'"
      if "p = 0 \<and> gs_inv s' \<and> keeps s s' \<or>
       0 < p \<and> wp (store p (Job j)) (\<lambda>_ t. gs_inv t \<and> keeps s t \<and> g_heap s p = None \<and> g_heap t p = Some (Job j) \<and> unknown t p) s'"
      for p s'
    proof (cases "p = 0")
      case False
      have "wp (uv_call p (GQueueWork p)) (\<lambda>_ s'. gs_inv s' \<and> keeps s s') t"
        if "gs_inv t \<and> keeps s t \<and> g_heap s p = None \<and> g_heap t p = Some (Job j) \<and> unknown t p" for t
        using that by (auto intro!: wp_hand_over [where r = "WorkReq p" and p = p]
          simp: neutral_def accept_request_def lasting_def req_ok_def)
      then show ?thesis using that False by (simp add: if_distribR cong: if_cong) (elim wp_mono, simp)
    qed simp
    with wp_mono [OF wp_new [OF \<open>gs_inv s\<close>, of "Job j"]]
    show "wp (act_bind gmalloc ?f) (\<lambda>_ s'. gs_inv s' \<and> keeps s s') s" by simp
  qed
  then show ?thesis
    unfolding onExcuteSql_def Let_def by (intro lua_ok_split lua_ok_simple) auto
qed

lemma send_copy_uaf: "send_copy d len = Inl e \<Longrightarrow> \<not> uaf e"
  by (auto simp: send_copy_def split: if_splits)

lemma found_object:
  "gs_inv s \<Longrightarrow> HASH_FIND_INT (g_clientDataList s) k = Some p \<Longrightarrow> g_heap s p \<noteq> None"
  "gs_inv s \<Longrightarrow> HASH_FIND_INT (g_serverDataList s) k = Some p \<Longrightarrow> g_heap s p \<noteq> None"
  using client_found [of s k p] peer_found [of s k p] peer_object [of s p] by (auto simp: is_client_def)

lemma lua_ok_onSend: "lua_ok (onSend env th args)"
proof -
  have "lua_ok (act_bind (getClientDataBySession k) (\<lambda>v. send_to v d args))" for k d
    by (rule lua_okI, simp add: getClientDataBySession_def, rule lua_ok_send_to) (use found_object in blast)+
  moreover have "lua_ok (act_bind (getServerDataBySno k) (\<lambda>v. send_to v d args))" for k d
    by (rule lua_okI, simp add: getServerDataBySno_def, rule lua_ok_send_to) (use found_object in blast)+
  ultimately show ?thesis
    unfolding onSend_def Let_def
    by (intro lua_ok_split lua_ok_simple lua_ok_bind [OF lua_ok_simple(6)]) (auto dest: send_copy_uaf)
qed

lemma lua_ok_md5: "lua_ok (md5 env args)"
proof -
  have "\<not> uaf e" if "md5_hex v = Inl e" for v e
    using that by (auto simp: md5_hex_def bin2hex_def Let_def split: option.splits if_splits)
  then show ?thesis
    unfolding md5_def by (intro lua_ok_split lua_ok_bind lua_ok_simple) auto
qed

lemma lua_ok_U: "lua_ok (U_lua env args)"
proof -
  have "\<not> uaf e" if "U2G cp t = Inl e" for cp t e using that by (auto simp: U2G_def split: option.splits)
  then show ?thesis unfolding U_lua_def by (intro lua_ok_split lua_ok_simple lua_ok_bind)
qed

lemma lua_ok_get_time: "lua_ok get_time"
  unfolding get_time_def by (intro lua_ok_bind lua_ok_gcall lua_ok_simple idle_calls)

lemma lua_ok_initListener: "lua_ok (initListener env args)"
  unfolding initListener_def Let_def
  by (intro lua_ok_bind lua_ok_split lua_ok_simple lua_ok_call idle_calls)

lemma lua_ok_lua_close: "lua_ok lua_close"
proof -
  have "lua_ok (act_put (\<lambda>s. s\<lparr>g_luaClosed := True\<rparr>))"
    by (simp add: lua_ok_def keeps_def)
  then show ?thesis
    unfolding lua_close_def by (intro lua_ok_bind lua_ok_split lua_ok_simple lua_ok_note) (auto simp: neutral_def)
qed

lemma lua_ok_closeServerFinal: "lua_ok closeServerFinal"
proof -
  have "lua_ok (act_put (\<lambda>s. s\<lparr>g_loop := False\<rparr>))"
    by (simp add: lua_ok_def keeps_def)
  then show ?thesis
    unfolding closeServerFinal_def
    by (intro lua_ok_bind lua_ok_simple lua_ok_note lua_ok_lua_close) (auto simp: neutral_def)
qed


text \<open>What the scripts do with a protected call that keeps the invariant, they do with any.\<close>

locale host =
  fixes pc :: pcall
  assumes pc_law: "gs_inv (s\<lparr>g_trace := g_trace s @ [GLua name args]\<rparr>) \<Longrightarrow>
    wp (pc name args) (\<lambda>_ s'. gs_inv s' \<and> keeps s s') s"
begin

lemma lua_ok_pc: "neutral (GLua name args) \<Longrightarrow> lua_ok (pc name args)"
  by (rule lua_okI, rule pc_law) (simp add: gs_inv_trace)

lemma neutral_report: "neutral (GLua (lit ''__G__TRACKBACK__'') args)"
  by (auto simp: neutral_def lit_def)

lemma lua_ok_report: "lua_ok (lua_error_report pc msg)"
  unfolding lua_error_report_def by (intro lua_ok_bind lua_ok_pc lua_ok_simple neutral_report)

text \<open>A callback into Lua, given that telling the scripts what it tells them is right.\<close>

lemma wp_call_lua:
  assumes "gs_inv (s\<lparr>g_trace := g_trace s @ [GLua (lit name) args]\<rparr>)"
  shows "wp (call_lua pc name args) (\<lambda>_ s'. gs_inv s' \<and> keeps s s') s"
proof -
  have L: "g_luaHandel s" using assms by (simp add: gs_inv_def)
  have "wp (case err of None \<Rightarrow> act_return () | Some msg \<Rightarrow> lua_error_report pc msg)
      (\<lambda>_ s'. gs_inv s' \<and> keeps s s') t" if "gs_inv t \<and> keeps s t" for err t
  proof (cases err)
    case (Some msg)
    have "wp (lua_error_report pc msg) (\<lambda>_ s'. gs_inv s' \<and> keeps t s') t"
      using lua_ok_report that by (simp add: lua_ok_def)
    then show ?thesis using that Some by (auto elim!: wp_mono elim: keeps_trans)
  qed (use that in simp)
  then show ?thesis
    unfolding call_lua_def using L wp_mono [OF pc_law [OF assms]] by simp
qed

lemma lua_ok_call_lua: "neutral (GLua (lit name) args) \<Longrightarrow> lua_ok (call_lua pc name args)"
  by (rule lua_okI, rule wp_call_lua) (simp add: gs_inv_trace)

lemma lua_ok_doCloseServer: "lua_ok (doCloseServer pc)"
  unfolding doCloseServer_def
  by (intro lua_ok_bind lua_ok_split lua_ok_simple lua_ok_call_lua lua_ok_closeServerFinal) (auto simp: neutral_def)

lemma lua_ok_closeServer: "lua_ok (closeServer pc)"
  unfolding closeServer_def by (intro lua_ok_bind lua_ok_simple lua_ok_doCloseServer)

lemma lua_ok_loadLuaScript: "lua_ok (loadLuaScript env pc)"
  unfolding loadLuaScript_def Let_def
  by (intro lua_ok_bind lua_ok_split lua_ok_simple lua_ok_call lua_ok_pc lua_ok_lua_close)
    (auto simp: neutral_def idle_def accept_request_def)

lemma lua_ok_reloadScript: "lua_ok (reloadScript env pc args)"
  unfolding reloadScript_def by (intro lua_ok_bind lua_ok_simple lua_ok_loadLuaScript)

lemma lua_ok_cppClose:
  "lua_ok (cppCloseClientConn env pc args)" "lua_ok (cppCloseServerConn env pc args)"
  unfolding cppCloseClientConn_def cppCloseServerConn_def
  by (intro lua_ok_bind [OF lua_ok_simple(2)] lua_ok_bind [OF lua_ok_report] lua_ok_split lua_ok_simple lua_ok_find_shutdown)+

lemma lua_ok_print: "lua_ok (act_bind (note_call (GLog t)) (\<lambda>_. act_return []))"
  by (intro lua_ok_bind lua_ok_note lua_ok_simple) (simp add: neutral_def)

lemma lua_ok_getServerTime: "lua_ok (getServerTime_lua th args)"
  unfolding getServerTime_lua_def
  by (intro lua_ok_bind lua_ok_get_time, cases th) (simp_all add: lua_ok_simple)

lemma lua_ok_cpp_call: "lua_ok (cpp_call env pc call args)"
  unfolding cpp_call_def lua_print_def
  by (cases "fst call"; simp)
    (intro lua_ok_print lua_ok_md5 lua_ok_initListener lua_ok_cppClose lua_ok_onSend lua_ok_onExcuteSql lua_ok_connectTo
      lua_ok_closeServer lua_ok_closeServerFinal lua_ok_reloadScript lua_ok_U lua_ok_bind lua_ok_getServerTime lua_ok_simple)+

end

end
