(* ===== verification/GsRuns.thy ===== *)
theory GsRuns
  imports GsInv
begin

text \<open>
  The invariant of GsInv along the runs of the server: every event keeps it, whatever the
  scripts do, as long as no connection to another server breaks. Then what the scripts have been
  told of a session is what has happened to it, and nothing freed is used. And the two ways
  a run can end badly: a broken connection to another server, and a script that closes the Lua
  state it runs in.
\<close>


section \<open>Scripts of any depth\<close>

lemma lua_ok_lua_does: "(\<And>f args. lua_ok (call f args)) \<Longrightarrow> lua_ok (lua_does call cs)"
proof (induction cs)
  case (Cons c cs)
  then show ?case by (cases c) (auto intro!: lua_ok_bind lua_ok_split lua_ok_simple)
qed (simp add: lua_ok_simple)

lemma pcall_with_law:
  assumes "\<And>f args. lua_ok (call f args)" "gs_inv (s\<lparr>g_trace := g_trace s @ [GLua name args]\<rparr>)"
  shows "wp (pcall_with call name args) (\<lambda>_ s'. gs_inv s' \<and> keeps s s') s"
proof (cases "g_runs s")
  case (Cons run runs)
  let ?s = "s\<lparr>g_runs := runs, g_trace := g_trace s @ [GLua name args]\<rparr>"
  have "?s = (s\<lparr>g_trace := g_trace s @ [GLua name args]\<rparr>)\<lparr>g_runs := runs\<rparr>" by simp
  with assms(2) have "gs_inv ?s" by (simp only: gs_inv_frame)
  with lua_ok_lua_does [OF assms(1)]
  have "wp (lua_does call (run_calls run)) (\<lambda>_ s'. gs_inv s' \<and> keeps ?s s') ?s" by (simp add: lua_ok_def)
  then have *: "wp (act_bind (lua_does call (run_calls run)) (\<lambda>_. act_return (run_error run)))
      (\<lambda>_ s'. gs_inv s' \<and> keeps s s') ?s"
    by (simp, elim wp_mono) (auto simp: keeps_def)
  show ?thesis
  proof (cases "g_luaClosed s")
    case False
    with Cons have "pcall_with call name args s = act_bind (lua_does call (run_calls run)) (\<lambda>_. act_return (run_error run)) ?s"
      by (simp add: pcall_with_def)
    with * show ?thesis by (simp only: wp_def)
  qed (simp add: wp_def pcall_with_def)
qed (simp add: wp_def pcall_with_def)

lemma lua_pcall_host: "host (lua_pcall n env)"
proof (induction n)
  case 0
  then show ?case by unfold_locales (simp add: wp_def)
next
  case (Suc n)
  then show ?case by unfold_locales (simp add: pcall_with_law host.lua_ok_cpp_call)
qed

interpretation lua_vm_host: host "lua_pcall n env" for n env
  by (rule lua_pcall_host)


section \<open>Events\<close>

text \<open>Events that do not break a connection to another server.\<close>

definition calm :: "event \<Rightarrow> bool" where
  "calm ev \<longleftrightarrow> (\<forall>p nread buf. ev = EvRead ServerSide p nread buf \<longrightarrow> 0 \<le> nread)"

context host
begin

lemma lua_ok_deliver: "lua_ok (deliver pc buf k ip port nread)"
  unfolding deliver_def
  by (intro lua_ok_bind lua_ok_split lua_ok_simple lua_ok_call_lua) (auto simp: neutral_def)

lemma lua_ok_enterFrame: "lua_ok (enterFrame pc)"
  unfolding enterFrame_def
  by (intro lua_ok_bind lua_ok_split lua_ok_simple lua_ok_call_lua lua_ok_get_time) (auto simp: neutral_def lit_def)

lemma lua_ok_ctrl: "lua_ok (act_bind (ctrlHandler pc t) (\<lambda>_. act_return ()))"
  unfolding ctrlHandler_def by (intro lua_ok_bind lua_ok_split lua_ok_simple lua_ok_doCloseServer)

end

lemma lua_ok_inv: "lua_ok m \<Longrightarrow> gs_inv s \<Longrightarrow> wp m (\<lambda>_. gs_inv) s"
  by (auto simp: lua_ok_def elim: wp_mono)

lemma req_okD: "gs_inv s \<Longrightarrow> r \<in> set (g_pending s) \<Longrightarrow> req_ok s r"
  by (simp add: gs_inv_def reqs_ok_def)

text \<open>Once its callback has come, nothing that ends is owed on an object.\<close>

lemma owed_consumed:
  assumes "gs_inv s" "r \<in> set (g_pending s)" "\<not> lasting r"
  shows "owed (s\<lparr>g_pending := remove1 r (g_pending s)\<rparr>) (req_addr r) = []"
proof -
  have "owed (s\<lparr>g_pending := remove1 r (g_pending s)\<rparr>) (req_addr r) = remove1 r (owed s (req_addr r))"
    using assms(3) by (simp add: owed_def filter_remove1)
  moreover have "r \<in> set (owed s (req_addr r))" using assms(2,3) by (simp add: owed_def)
  moreover have "length (owed s (req_addr r)) \<le> 1" using assms(1) by (simp add: gs_inv_def reqs_ok_def)
  ultimately show ?thesis by (cases "owed s (req_addr r)") auto
qed

lemma no_requests:
  assumes "owed s p = []" "\<And>sd. ReadReq sd p \<notin> set (g_pending s)"
  shows "\<forall>r \<in> set (g_pending s). req_addr r \<noteq> p"
proof
  fix r assume r: "r \<in> set (g_pending s)"
  with assms(1) have "lasting r \<or> req_addr r \<noteq> p" by (auto simp: owed_def filter_empty_conv)
  with assms(2) r show "req_addr r \<noteq> p" by (cases r) (auto simp: lasting_def)
qed

text \<open>The shutdown is done: the handle is closed.\<close>

lemma shutdown_event:
  assumes "gs_inv s" "ShutdownReq sd p \<in> set (g_pending s)"
  shows "wp (uv_close sd p) (\<lambda>_. gs_inv) (consume (EvShutdown sd p status) s)"
proof -
  let ?s = "s\<lparr>g_pending := remove1 (ShutdownReq sd p) (g_pending s)\<rparr>"
  have inv: "gs_inv ?s" by (rule drop_req [OF assms(1)])
  have ok: "side_ok s sd p" "p \<in> set (g_shut s)" using req_okD [OF assms] by (simp_all add: req_ok_def)
  have "owed ?s p = []" using owed_consumed [OF assms] by (simp add: lasting_def)
  moreover have "side_ok ?s sd p" using ok(1) by (simp add: side_ok_def is_client_def is_peer_def cong: side.case_cong)
  ultimately have "gs_inv (?s\<lparr>g_pending := CloseReq sd p # removeAll (ReadReq sd p) (g_pending ?s)\<rparr>)" (is "gs_inv ?t")
    using ok(2) by (intro push_close [OF inv]) simp_all
  then have "gs_inv (?t\<lparr>g_trace := g_trace ?t @ [GClose sd p]\<rparr>)"
    by (subst gs_inv_trace) (simp_all add: neutral_def)
  moreover have "?t\<lparr>g_trace := g_trace ?t @ [GClose sd p]\<rparr> =
      accept_request (GClose sd p) (?s\<lparr>g_trace := g_trace ?s @ [GClose sd p]\<rparr>)"
    by (simp add: accept_request_def)
  ultimately show ?thesis
    using side_object [OF assms(1) ok(1)] by (simp add: uv_close_def consume_def)
qed

lemma written_event:
  assumes "gs_inv s" "AfterWriteReq q \<in> set (g_pending s)"
  shows "wp (gfree q) (\<lambda>_. gs_inv) (consume (EvWritten q status) s)"
proof -
  let ?s = "s\<lparr>g_pending := remove1 (AfterWriteReq q) (g_pending s)\<rparr>"
  have inv: "gs_inv ?s" by (rule drop_req [OF assms(1)])
  have q: "g_heap s q = Some WriteReq" using req_okD [OF assms] by (simp add: req_ok_def)
  have "owed ?s q = []" using owed_consumed [OF assms] by (simp add: lasting_def)
  moreover have "ReadReq sd q \<notin> set (g_pending ?s)" for sd
    using req_okD [OF inv, of "ReadReq sd q"] q peer_object [OF inv, of q]
    by (auto simp: req_ok_def side_ok_def is_client_def split: side.splits)
  ultimately have "\<forall>r \<in> set (g_pending ?s). req_addr r \<noteq> q" by (rule no_requests)
  then have "unknown ?s q"
    using q peer_object [OF inv, of q] by (auto simp: unknown_def is_client_def)
  from heap_upd [OF inv this, of None] q show ?thesis by (simp add: gfree_def consume_def)
qed

text \<open>A job: done by the worker, its result handed to the scripts.\<close>

lemma work_cb_uaf: "work_cb f m db = Inl e \<Longrightarrow> \<not> uaf e"
  by (auto simp: work_cb_def Let_def lua_bind_def sql_log_def U2G_def split: if_splits option.splits prod.splits sum.splits
      dest!: rows_info_error)

lemma work_event:
  assumes "gs_inv s" "WorkReq p \<in> set (g_pending s)"
  shows "wp (run_work env p m) (\<lambda>_. gs_inv) (consume (EvWork p m) s)"
proof -
  let ?s = "s\<lparr>g_pending := remove1 (WorkReq p) (g_pending s)\<rparr>" and ?t = "consume (EvWork p m) s"
  have inv: "gs_inv ?s" by (rule drop_req [OF assms(1)])
  obtain j where j: "g_heap s p = Some (Job j)" using req_okD [OF assms] by (auto simp: req_ok_def)
  have "owed ?s p = []" using owed_consumed [OF assms] by (simp add: lasting_def)
  then have "gs_inv (?s\<lparr>g_pending := WorkedReq p # g_pending ?s, g_shut := g_shut ?s\<rparr>)"
    using j by (intro push_req [OF inv]) (auto simp: lasting_def req_ok_def)
  moreover have "?s\<lparr>g_pending := WorkedReq p # g_pending ?s, g_shut := g_shut ?s\<rparr> = ?t" by (simp add: consume_def)
  ultimately have t: "gs_inv ?t" by simp
  have "g_heap ?t p = Some (Job j)" using j by (simp add: consume_def)
  from job_upd [OF t this] this show ?thesis
    by (auto simp: run_work_def store_def split: sum.split dest: work_cb_uaf)
qed

context host
begin

lemma worked_event:
  assumes "gs_inv s" "WorkedReq p \<in> set (g_pending s)"
  shows "wp (after_work_cb pc p status) (\<lambda>_. gs_inv) (consume (EvWorked p status) s)"
proof -
  let ?s = "s\<lparr>g_pending := remove1 (WorkedReq p) (g_pending s)\<rparr>"
  have inv: "gs_inv ?s" by (rule drop_req [OF assms(1)])
  obtain j where j: "g_heap s p = Some (Job j)" using req_okD [OF assms] by (auto simp: req_ok_def)
  have owed: "owed ?s p = []" using owed_consumed [OF assms] by (simp add: lasting_def)
  have "wp (gfree p) (\<lambda>_. gs_inv) t" if t: "gs_inv t \<and> keeps ?s t" for t
  proof -
    have tj: "g_heap t p = Some (Job j)" using keeps_heap [of ?s t p] t j by simp
    have other: "\<not> is_peer t p" "\<not> is_client t p" using tj peer_object [of t p] t by (auto simp: is_client_def)
    have side: "\<not> side_ok t sd p" for sd using other by (simp add: side_ok_def split: side.split)
    have reads: "ReadReq sd p \<notin> set (g_pending t)" "ShutdownReq sd p \<notin> set (g_pending t)" for sd
      using req_okD [of t "ReadReq sd p"] req_okD [of t "ShutdownReq sd p"] side t by (auto simp: req_ok_def)
    have "req_addr r \<noteq> p" if "r \<in> set (g_pending t)" for r
    proof
      assume r: "req_addr r = p"
      with that t j have "r \<in> set (g_pending ?s) \<or> (\<exists>sd q. r = ShutdownReq sd q)"
        by (auto simp: keeps_def dom_def)
      with r owed that reads show False by (auto simp: owed_def filter_empty_conv lasting_def)
    qed
    then have "unknown t p" using other by (simp add: unknown_def)
    from heap_upd [OF _ this, of None] t tj show ?thesis by (simp add: gfree_def)
  qed
  moreover have "wp (call_lua pc ''lua_onsql'' (onsql_args j)) (\<lambda>_ t. gs_inv t \<and> keeps ?s t) ?s"
    by (rule wp_call_lua) (subst gs_inv_trace, auto simp: neutral_def lit_def inv)
  ultimately show ?thesis
    using j inv by (auto simp: after_work_cb_def consume_def elim!: wp_mono)
qed

end

text \<open>The end of a connection.\<close>

lemma peer_gone:
  assumes "gs_inv s" "is_peer s p" "\<forall>r \<in> set (g_pending s). req_addr r \<noteq> p"
  shows "gs_inv (s\<lparr>g_serverDataList := HASH_DELETE (g_serverDataList s) p, g_heap := (g_heap s)(p := None)\<rparr>)"
proof -
  let ?s = "s\<lparr>g_serverDataList := HASH_DELETE (g_serverDataList s) p\<rparr>"
  obtain c where c: "g_heap s p = Some (Server c)" using peer_object [OF assms(1,2)] by blast
  have m: "hash_inv (g_serverDataList ?s)"
    "members (g_serverDataList ?s) = filter (\<lambda>m. fst m \<noteq> p) (members (g_serverDataList s))"
    using uthash.del_law [of "g_serverDataList s" p] assms(1,2) by (simp_all add: gs_inv_def servers_ok_def is_peer_def)
  have peers: "is_peer ?s q \<longleftrightarrow> is_peer s q \<and> q \<noteq> p" for q
    using m(2) by (force simp: is_peer_def)
  have "req_ok ?s r" if "r \<in> set (g_pending s)" for r
    using req_okD [OF assms(1) that] assms(3) that
    by (cases r) (auto simp: req_ok_def side_ok_def is_client_def peers split: side.splits)
  then have "gs_inv ?s"
    using assms(1) m by (auto simp: gs_inv_def clients_ok_def servers_ok_def reqs_ok_def life_ok_def told_def owed_def)
  moreover have "unknown ?s p" using assms(3) peers c by (auto simp: unknown_def is_client_def)
  ultimately show ?thesis using heap_upd [of ?s p None] by simp
qed

lemma client_gone:
  assumes "gs_inv s" "g_heap s p = Some (Client c)" "\<forall>r \<in> set (g_pending s). req_addr r \<noteq> p"
  shows "gs_inv (s\<lparr>g_clientDataList := HASH_DELETE (g_clientDataList s) p, g_heap := (g_heap s)(p := None),
    g_trace := g_trace s @ [GLua (lit ''lua_onFinalClosed'') [LNum (of_int (cl_session c))]]\<rparr>)"
proof -
  let ?h = "(g_heap s)(p := None)"
  let ?t = "s\<lparr>g_clientDataList := HASH_DELETE (g_clientDataList s) p, g_heap := ?h\<rparr>"
  note inv = gs_invD [OF assms(1)]
  have mem: "(p, int_key (cl_session c)) \<in> set (members (g_clientDataList s))"
    using inv(2) assms(2) by (auto simp: clients_ok_def)
  have keyed: "uthash.keyed (g_clientDataList ?t)"
    using uthash.keyed_del(1) [OF _ mem] inv(2) by (simp add: clients_ok_def)
  have m: "members (g_clientDataList ?t) = filter (\<lambda>m. fst m \<noteq> p) (members (g_clientDataList s))"
    using uthash.del_law [of "g_clientDataList s" p] inv(2) mem by (force simp: clients_ok_def uthash.keyed_def)
  have clients: "clients_ok ?t"
    using inv(2) keyed m unfolding clients_ok_def by auto
  have servers: "servers_ok ?t"
  proof -
    have "q \<noteq> p" if "(q, k) \<in> set (members (g_serverDataList s))" for q k
      using that inv(3) assms(2) by (fastforce simp: servers_ok_def)
    with inv(3) show ?thesis by (auto simp: servers_ok_def)
  qed
  have "req_ok ?t r" if "r \<in> set (g_pending s)" for r
    using req_okD [OF assms(1) that] assms(3) that
    by (cases r) (auto simp: req_ok_def side_ok_def is_client_def is_peer_def split: side.splits)
  then have reqs: "reqs_ok ?t" using inv(4) by (auto simp: reqs_ok_def owed_def)
  have sessions: "q = p" if "g_heap s q = Some (Client d)" "cl_session d = cl_session c" for q d
  proof -
    have "(q, int_key (cl_session c)) \<in> set (members (g_clientDataList s))"
      using inv(2) that by (auto simp: clients_ok_def)
    moreover have "distinct (map snd (members (g_clientDataList s)))"
      using inv(2) by (simp add: clients_ok_def uthash.keyed_def)
    ultimately show ?thesis using mem distinct_map_snd_eq by metis
  qed
  have "life_step k (GLua (lit ''lua_onFinalClosed'') [LNum (of_int (cl_session c))]) (told s k) = told ?t k" for k
  proof (cases "k = cl_session c")
    case True
    have "1 \<le> k" "k < g_session s" using inv(2) assms(2) True by (auto simp: clients_ok_def)
    with assms(2) True have "told s k = Alive" by (auto simp: told_def)
    moreover have "\<nexists>q d. g_heap ?t q = Some (Client d) \<and> cl_session d = k"
      using sessions True by (auto split: if_splits)
    then have "told ?t k = Dead" using \<open>1 \<le> k\<close> \<open>k < g_session s\<close> by (simp add: told_def)
    ultimately show ?thesis using True by (simp add: life_step_def lit_def)
  next
    case False
    have "(\<exists>q d. g_heap ?t q = Some (Client d) \<and> cl_session d = k) \<longleftrightarrow>
        (\<exists>q d. g_heap s q = Some (Client d) \<and> cl_session d = k)"
    proof
      assume "\<exists>q d. g_heap s q = Some (Client d) \<and> cl_session d = k"
      then obtain q d where "g_heap s q = Some (Client d)" "cl_session d = k" by blast
      moreover from this False assms(2) have "q \<noteq> p" by auto
      ultimately show "\<exists>q d. g_heap ?t q = Some (Client d) \<and> cl_session d = k" by auto
    qed (auto split: if_splits)
    with False show ?thesis by (auto simp: life_step_def told_def)
  qed
  then have "life_ok (?t\<lparr>g_trace := g_trace s @ [GLua (lit ''lua_onFinalClosed'') [LNum (of_int (cl_session c))]]\<rparr>)"
    using inv(5) by (simp add: life_ok_def told_def)
  moreover have "reqs_ok (?t\<lparr>g_trace := tr\<rparr>)" for tr
    using reqs by (simp add: reqs_ok_def owed_def req_ok_def side_ok_def is_client_def is_peer_def cong: uv_req.case_cong side.case_cong)
  ultimately show ?thesis
    using inv(1) clients servers by (simp add: gs_inv_def clients_ok_def servers_ok_def)
qed

text \<open>The beginning of a connection.\<close>

lemma client_new:
  assumes "gs_inv s" "unknown s p" "g_session s \<le> 2147483645" "cl_session c = g_session s"
  shows "gs_inv (s\<lparr>g_heap := (g_heap s)(p \<mapsto> Client c), g_session := g_session s + 1,
    g_clientDataList := HASH_ADD_INT (g_clientDataList s) (g_session s) p,
    g_trace := g_trace s @ [GLua (lit ''lua_onconn'') [LNum (of_int (g_session s))]]\<rparr>)"
proof -
  let ?k = "g_session s"
  let ?t = "s\<lparr>g_heap := (g_heap s)(p \<mapsto> Client c), g_session := ?k + 1,
    g_clientDataList := HASH_ADD_INT (g_clientDataList s) ?k p\<rparr>"
  note inv = gs_invD [OF assms(1)]
  have u: "\<not> is_client s p" "\<not> is_peer s p" "\<forall>r \<in> set (g_pending s). req_addr r \<noteq> p"
    using assms(2) by (auto simp: unknown_def)
  have new: "p \<notin> fst ` set (members (g_clientDataList s))"
    using inv(2) u(1) by (force simp: clients_ok_def is_client_def)
  have "int_key ?k \<notin> snd ` set (members (g_clientDataList s))"
  proof
    assume "int_key ?k \<in> snd ` set (members (g_clientDataList s))"
    then obtain q where q: "(q, int_key ?k) \<in> set (members (g_clientDataList s))" by force
    obtain d where d: "g_heap s q = Some (Client d)" "int_key ?k = int_key (cl_session d)"
      using inv(2) q unfolding clients_ok_def by blast
    then have "1 \<le> cl_session d" "cl_session d < ?k" using inv(2) by (auto simp: clients_ok_def)
    with d(2) assms(3) int_key_inj [of ?k "cl_session d"] show False by simp
  qed
  from uthash.keyed_add(1) [OF _ new this] uthash.add_law [OF _ new, of "int_key ?k"] inv(2)
  have keyed: "uthash.keyed (g_clientDataList ?t)"
    and m: "members (g_clientDataList ?t) = members (g_clientDataList s) @ [(p, int_key ?k)]"
    by (simp_all add: clients_ok_def HASH_ADD_INT_def uthash.keyed_def)
  have clients: "clients_ok ?t"
  proof -
    have "(q, k) \<in> set (members (g_clientDataList ?t)) \<longleftrightarrow> (\<exists>d. g_heap ?t q = Some (Client d) \<and> k = int_key (cl_session d))" for q k
    proof (cases "q = p")
      case True
      with new assms(4) show ?thesis unfolding m by force
    next
      case False
      with inv(2) show ?thesis unfolding m by (simp add: clients_ok_def)
    qed
    moreover have "1 \<le> cl_session d \<and> cl_session d < ?k + 1" if "g_heap ?t q = Some (Client d)" for q d
      using that inv(2) assms(4) by (cases "q = p") (fastforce simp: clients_ok_def)+
    ultimately show ?thesis using keyed inv(2) assms(3) by (simp add: clients_ok_def)
  qed
  have servers: "servers_ok ?t"
  proof -
    have "q \<noteq> p" if "(q, k) \<in> set (members (g_serverDataList s))" for q k
      using that u(2) by (force simp: is_peer_def)
    with inv(3) show ?thesis by (auto simp: servers_ok_def)
  qed
  have "req_ok ?t r" if "r \<in> set (g_pending s)" for r
    using req_okD [OF assms(1) that] u(3) that
    by (cases r) (auto simp: req_ok_def side_ok_def is_client_def is_peer_def split: side.splits)
  then have reqs: "reqs_ok ?t" using inv(4) by (auto simp: reqs_ok_def owed_def)
  have "life_step k (GLua (lit ''lua_onconn'') [LNum (of_int ?k)]) (told s k) = told ?t k" for k
  proof (cases "k = ?k")
    case True
    with inv(2) assms(4) show ?thesis by (auto simp: life_step_def told_def clients_ok_def lit_def)
  next
    case False
    have "(\<exists>q d. g_heap ?t q = Some (Client d) \<and> cl_session d = k) \<longleftrightarrow>
        (\<exists>q d. g_heap s q = Some (Client d) \<and> cl_session d = k)"
      using False u(1) assms(4) by (auto simp: is_client_def)
    with False show ?thesis by (auto simp: life_step_def told_def)
  qed
  then have "life_ok (?t\<lparr>g_trace := g_trace s @ [GLua (lit ''lua_onconn'') [LNum (of_int ?k)]]\<rparr>)"
    using inv(5) by (simp add: life_ok_def told_def)
  moreover have "reqs_ok (?t\<lparr>g_trace := tr\<rparr>)" for tr
    using reqs by (simp add: reqs_ok_def owed_def req_ok_def side_ok_def is_client_def is_peer_def cong: uv_req.case_cong side.case_cong)
  ultimately show ?thesis
    using inv(1) clients servers by (simp add: gs_inv_def clients_ok_def servers_ok_def)
qed

lemma peer_new:
  assumes "gs_inv s" "g_heap s p = Some (Server c)" "\<not> is_peer s p" "\<forall>r \<in> set (g_pending s). req_addr r \<noteq> p"
  shows "gs_inv (s\<lparr>g_serverDataList := HASH_ADD_INT (g_serverDataList s) (sv_sno c) p\<rparr>)"
proof -
  let ?s = "s\<lparr>g_serverDataList := HASH_ADD_INT (g_serverDataList s) (sv_sno c) p\<rparr>"
  have m: "hash_inv (g_serverDataList ?s)"
    "members (g_serverDataList ?s) = members (g_serverDataList s) @ [(p, int_key (sv_sno c))]"
    using uthash.add_law [of "g_serverDataList s" p "int_key (sv_sno c)"] assms(1,3)
    by (simp_all add: gs_inv_def servers_ok_def is_peer_def HASH_ADD_INT_def)
  have peers: "is_peer ?s q \<longleftrightarrow> is_peer s q \<or> q = p" for q
    using m(2) by (auto simp: is_peer_def)
  have "req_ok ?s r" if "r \<in> set (g_pending s)" for r
    using req_okD [OF assms(1) that] assms(4) that
    by (cases r) (auto simp: req_ok_def side_ok_def is_client_def peers split: side.splits)
  then show ?thesis
    using assms(1,2) m by (auto simp: gs_inv_def clients_ok_def servers_ok_def reqs_ok_def life_ok_def told_def owed_def)
qed

text \<open>Shaking hands with libuv again, for a structure that is not connected.\<close>

lemma wp_start_connect:
  assumes "gs_inv s" "g_heap s p = Some (Server c)" "\<not> is_peer s p" "owed s p = []"
  shows "wp (start_connect p ip port) (\<lambda>_. gs_inv) s"
proof -
  have "wp (uv_call p (GConnect p ip port)) (\<lambda>_. gs_inv) t"
    if t: "gs_inv t" "g_heap t p = Some (Server c)" "\<not> is_peer t p" "owed t p = []" for t
  proof (rule wp_uv_call)
    fix a as
    let ?t = "called (GConnect p ip port) as t"
    have inv: "gs_inv ?t" using t(1) by (simp add: gs_inv_called neutral_def)
    then have "gs_inv (?t\<lparr>g_pending := ConnectReq p # g_pending ?t, g_shut := g_shut ?t\<rparr>)"
      using t by (intro push_req) (auto simp: lasting_def req_ok_def is_peer_def)
    moreover have "?t\<lparr>g_pending := ConnectReq p # g_pending ?t, g_shut := g_shut ?t\<rparr> = accept_request (GConnect p ip port) ?t"
      by (simp add: accept_request_def called_def)
    ultimately show "gs_inv (if ga_ret a = 0 then accept_request (GConnect p ip port) ?t else ?t)" using inv by simp
  qed (use t in simp)
  then have *: "wp (uv_call p (GConnect p ip port)) (\<lambda>_. gs_inv) (called (GIp4Addr ip port) as s)" for as
    using assms by (simp add: gs_inv_called neutral_def is_peer_def)
  show ?thesis
    unfolding start_connect_def
    by (simp, rule wp_simple_call) (auto simp: accept_request_def intro: wp_mono [OF *])
qed

context host
begin

lemma wp_read_start:
  assumes "gs_inv s" "side_ok s sd p" "CloseReq sd p \<notin> set (g_pending s)"
    and "\<And>a s'. gs_inv s' \<Longrightarrow> side_ok s' sd p \<Longrightarrow> Q a s'"
  shows "wp (uv_call p (GReadStart sd p)) Q s"
proof (rule wp_uv_call)
  fix a as
  let ?s = "called (GReadStart sd p) as s"
  have inv: "gs_inv ?s" using assms(1) by (simp add: gs_inv_called neutral_def)
  have "gs_inv (?s\<lparr>g_pending := List.insert (ReadReq sd p) (g_pending ?s)\<rparr>)"
    using assms(2,3) by (intro push_read [OF inv]) simp_all
  then show "Q (ga_ret a) (if ga_ret a = 0 then accept_request (GReadStart sd p) ?s else ?s)"
    using assms(2) inv
    by (auto simp: accept_request_def side_ok_def is_client_def is_peer_def split: side.split intro!: assms(4))
qed (use assms side_object in blast)

lemma connected_event:
  assumes "gs_inv s" "ConnectReq p \<in> set (g_pending s)"
  shows "wp (connect_cb pc p status) (\<lambda>_. gs_inv) (consume (EvConnected p status) s)"
proof -
  let ?s = "s\<lparr>g_pending := remove1 (ConnectReq p) (g_pending s)\<rparr>"
  have inv: "gs_inv ?s" by (rule drop_req [OF assms(1)])
  obtain c where c: "g_heap s p = Some (Server c)" "\<not> is_peer s p"
    using req_okD [OF assms] by (auto simp: req_ok_def)
  have owed: "owed ?s p = []" using owed_consumed [OF assms] by (simp add: lasting_def)
  have peer: "\<not> is_peer ?s p" using c(2) by (simp add: is_peer_def)
  have fail: "wp (start_connect p (sv_ip c) (sv_port c)) (\<lambda>_. gs_inv) ?s"
    using wp_start_connect [OF inv _ peer owed, of c] c(1) by simp
  have "ReadReq sd p \<notin> set (g_pending ?s)" for sd
    using req_okD [OF inv, of "ReadReq sd p"] c(1) peer
    by (auto simp: req_ok_def side_ok_def is_client_def split: side.splits)
  then have none: "\<forall>r \<in> set (g_pending ?s). req_addr r \<noteq> p" by (rule no_requests [OF owed])
  let ?t = "?s\<lparr>g_serverDataList := HASH_ADD_INT (g_serverDataList ?s) (sv_sno c) p\<rparr>"
  have t: "gs_inv ?t" using peer_new [OF inv _ peer none, of c] c(1) by simp
  have "is_peer ?t p"
    using uthash.add_law [of "g_serverDataList s" p "int_key (sv_sno c)"] assms(1) c(2)
    by (simp add: HASH_ADD_INT_def gs_inv_def servers_ok_def is_peer_def)
  have "wp (call_lua pc ''lua_onconnserver'' [LNum (of_int (sv_sno c))]) (\<lambda>_ u. gs_inv u \<and> keeps ?t u) ?t"
    by (rule wp_call_lua, subst gs_inv_trace) (use t in \<open>simp_all add: neutral_def lit_def\<close>)
  moreover have "wp (act_bind (uv_call p (GReadStart ServerSide p)) (\<lambda>r. ASSERT (r = 0))) (\<lambda>_. gs_inv) u"
    if "gs_inv u \<and> keeps ?t u" for u
  proof -
    have "side_ok u ServerSide p" using that \<open>is_peer ?t p\<close> by (simp add: keeps_def side_ok_def is_peer_def)
    moreover have "CloseReq ServerSide p \<in> set (g_pending u) \<longleftrightarrow> CloseReq ServerSide p \<in> set (g_pending ?s)"
      using that by (simp add: keeps_def)
    moreover have "CloseReq ServerSide p \<notin> set (g_pending ?s)"
      using none by (metis req_addr.simps(2))
    ultimately show ?thesis using that by (simp add: wp_read_start)
  qed
  ultimately have "wp (act_bind (call_lua pc ''lua_onconnserver'' [LNum (of_int (sv_sno c))]) (\<lambda>_.
      act_bind (uv_call p (GReadStart ServerSide p)) (\<lambda>r. ASSERT (r = 0)))) (\<lambda>_. gs_inv) ?t"
    by (subst wp_simps(4)) (rule wp_mono)
  with fail c(1) show ?thesis by (simp add: connect_cb_def consume_def)
qed

lemma closed_reads:
  assumes "gs_inv s" "CloseReq sd p \<in> set (g_pending s)"
  shows "\<forall>r \<in> set (remove1 (CloseReq sd p) (g_pending s)). req_addr r \<noteq> p"
proof -
  let ?s = "s\<lparr>g_pending := remove1 (CloseReq sd p) (g_pending s)\<rparr>"
  have side: "side_ok s sd p" using req_okD [OF assms] by (simp add: req_ok_def)
  have "ReadReq sd' p \<notin> set (g_pending s)" for sd'
  proof
    assume *: "ReadReq sd' p \<in> set (g_pending s)"
    have r: "side_ok s sd' p" "CloseReq sd' p \<notin> set (g_pending s)"
      using req_okD [OF assms(1) *] by (simp_all add: req_ok_def)
    with side have "sd' = sd" using peer_object [OF assms(1), of p]
      by (cases sd; cases sd') (auto simp: side_ok_def is_client_def)
    with r(2) assms(2) show False by simp
  qed
  then have "ReadReq sd' p \<notin> set (g_pending ?s)" for sd' using notin_set_remove1 by force
  with no_requests [of ?s p] owed_consumed [OF assms] show ?thesis by (simp add: lasting_def)
qed

lemma closed_event:
  assumes "gs_inv s" "CloseReq ClientSide p \<in> set (g_pending s)"
  shows "wp (close_cb pc p) (\<lambda>_. gs_inv) (consume (EvClosed ClientSide p) s)"
proof -
  let ?s = "s\<lparr>g_pending := remove1 (CloseReq ClientSide p) (g_pending s)\<rparr>"
  have inv: "gs_inv ?s" by (rule drop_req [OF assms(1)])
  obtain c where c: "g_heap s p = Some (Client c)"
    using req_okD [OF assms] by (auto simp: req_ok_def side_ok_def is_client_def)
  let ?t = "?s\<lparr>g_clientDataList := HASH_DELETE (g_clientDataList ?s) p, g_heap := (g_heap ?s)(p := None)\<rparr>"
  have "gs_inv (?t\<lparr>g_trace := g_trace ?t @ [GLua (lit ''lua_onFinalClosed'') [LNum (of_int (cl_session c))]]\<rparr>)"
    using client_gone [OF inv, of p c] closed_reads [OF assms] c by simp
  then have "wp (call_lua pc ''lua_onFinalClosed'' [LNum (of_int (cl_session c))]) (\<lambda>_. gs_inv) ?t"
    by (rule wp_mono [OF wp_call_lua]) blast
  with c show ?thesis by (simp add: close_cb_def consume_def gfree_def)
qed

lemma closed_server_event:
  assumes "gs_inv s" "CloseReq ServerSide p \<in> set (g_pending s)"
  shows "wp (closeSC_cb pc p) (\<lambda>_. gs_inv) (consume (EvClosed ServerSide p) s)"
proof -
  let ?s = "s\<lparr>g_pending := remove1 (CloseReq ServerSide p) (g_pending s)\<rparr>"
  have inv: "gs_inv ?s" by (rule drop_req [OF assms(1)])
  have p: "is_peer s p" using req_okD [OF assms] by (simp add: req_ok_def side_ok_def)
  then obtain c where c: "g_heap s p = Some (Server c)" using peer_object [OF assms(1)] by blast
  let ?t = "?s\<lparr>g_serverDataList := HASH_DELETE (g_serverDataList ?s) p, g_heap := (g_heap ?s)(p := None)\<rparr>"
  have "gs_inv ?t" using peer_gone [OF inv, of p] closed_reads [OF assms] p by (simp add: is_peer_def)
  then have "wp (call_lua pc ''lua_onServerFinalClosed'' [LNum (of_int (sv_sno c))]) (\<lambda>_. gs_inv) ?t"
    by (intro lua_ok_inv lua_ok_call_lua) (auto simp: neutral_def lit_def)
  with c show ?thesis by (simp add: closeSC_cb_def consume_def gfree_def)
qed

end

text \<open>A new structure, before it is given to libuv and the tables.\<close>

definition new_object :: "int \<Rightarrow> nat \<Rightarrow> gs \<Rightarrow> bool" where
  "new_object k p s \<longleftrightarrow> gs_inv s \<and> unknown s p \<and> g_session s = k \<and> g_heap s p \<noteq> None"

lemma new_object_raw:
  "gs_inv s \<Longrightarrow> g_heap s p = None \<Longrightarrow>
    new_object (g_session s) p ((called GMalloc as s)\<lparr>g_heap := (g_heap s)(p \<mapsto> Raw)\<rparr>)"
proof -
  assume "gs_inv s" "g_heap s p = None"
  then have s: "gs_inv (called GMalloc as s)" "unknown (called GMalloc as s) p"
    using unknown_fresh [of "called GMalloc as s" p] by (simp_all add: gs_inv_called neutral_def)
  have "unknown ((called GMalloc as s)\<lparr>g_heap := (g_heap s)(p \<mapsto> Raw)\<rparr>) p"
    using s(2) by (auto simp: unknown_def is_client_def is_peer_def)
  with heap_upd [OF s, of "Some Raw"] show ?thesis by (simp add: new_object_def)
qed

lemma wp_accepting:
  assumes "new_object k p s" "\<And>u peer. new_object k p u \<Longrightarrow> wp (f peer) (\<lambda>_. gs_inv) u"
  shows "wp (act_bind (uv_call p (GAccept p)) (\<lambda>r.
      if r \<noteq> 0 then act_return () else act_bind (gcall_answer (GPeerName p)) f)) (\<lambda>_. gs_inv) s"
proof -
  have c: "new_object k p (called c as u)" if "new_object k p u" "neutral c" for c as u
    using that by (simp add: new_object_def gs_inv_called)
  have "wp (gcall_answer (GPeerName p)) (\<lambda>peer. wp (f peer) (\<lambda>_. gs_inv)) u" if "new_object k p u" for u
    using c [OF that, of "GPeerName p"] assms(2) by (intro wp_gcall) (simp add: accept_request_def neutral_def)
  moreover have "gs_inv u" if "new_object k p u" for u using that by (simp add: new_object_def)
  ultimately have after: "wp (if r \<noteq> 0 then act_return () else act_bind (gcall_answer (GPeerName p)) f) (\<lambda>_. gs_inv) u"
    if "new_object k p u" for r u using that by simp
  show ?thesis
  proof (subst wp_simps(4), rule wp_uv_call)
    fix a as
    have "new_object k p (if ga_ret a = 0 then accept_request (GAccept p) (called (GAccept p) as s) else called (GAccept p) as s)"
      using c [OF assms(1), of "GAccept p"] by (simp add: accept_request_def neutral_def)
    then show "wp (if ga_ret a \<noteq> 0 then act_return () else act_bind (gcall_answer (GPeerName p)) f) (\<lambda>_. gs_inv)
        (if ga_ret a = 0 then accept_request (GAccept p) (called (GAccept p) as s) else called (GAccept p) as s)"
      by (rule after)
  qed (use assms(1) in \<open>simp add: new_object_def\<close>)
qed

context host
begin

text \<open>A client connects: the structure is allocated, accepted, and then known to the scripts.\<close>

lemma connection_event:
  assumes "gs_inv s"
  shows "wp (newClientConnection pc status) (\<lambda>_. gs_inv) s"
proof -
  have close: "wp (uv_call p (GShutdown ClientSide p)) (\<lambda>_. gs_inv) t" if "gs_inv t" "is_client t p" for t p
    by (rule wp_mono [OF wp_shutdown]) (use that in \<open>auto simp: side_ok_def\<close>)
  have reading: "wp (act_bind (uv_call p (GReadStart ClientSide p)) (\<lambda>r. if r \<noteq> 0 then closeClientConn p else act_return ()))
      (\<lambda>_. gs_inv) t" if "gs_inv t" "is_client t p" "CloseReq ClientSide p \<notin> set (g_pending t)" for t p
    using that by (auto simp: side_ok_def closeClientConn_def if_distribR intro!: wp_read_start close)
  have telling: "wp (act_bind (call_lua pc ''lua_onconn'' [LNum (of_int (g_session s))]) (\<lambda>_.
      act_bind (uv_call p (GReadStart ClientSide p)) (\<lambda>r. if r \<noteq> 0 then closeClientConn p else act_return ())))
      (\<lambda>_. gs_inv) (t\<lparr>g_heap := (g_heap t)(p \<mapsto> Client c), g_session := g_session t + 1,
        g_clientDataList := HASH_ADD_INT (g_clientDataList t) (g_session s) p\<rparr>)" (is "wp _ _ ?t")
    if "gs_inv t" "unknown t p" "g_session t = g_session s" "g_session s \<le> 2147483645" "cl_session c = g_session s" for t p c
  proof -
    have "wp (call_lua pc ''lua_onconn'' [LNum (of_int (g_session s))]) (\<lambda>_ u. gs_inv u \<and> keeps ?t u) ?t"
      using client_new [OF that(1,2), of c] that(3-5) by (intro wp_call_lua) simp
    moreover have "is_client u p \<and> CloseReq ClientSide p \<notin> set (g_pending u)" if "keeps ?t u" for u
      using keeps_heap [OF that, of p] that \<open>unknown t p\<close>
      by (force simp: keeps_def is_client_def unknown_def)
    ultimately show ?thesis
      by (subst wp_simps(4)) (elim wp_mono, use reading in blast)
  qed
  let ?rest = "\<lambda>p peer. act_bind (store p (Client \<lparr>cl_ip = ga_ip peer, cl_port = ga_port peer, cl_session = g_session s\<rparr>)) (\<lambda>_.
    act_bind (act_put (\<lambda>s. s\<lparr>g_session := g_session s + 1\<rparr>)) (\<lambda>_.
    act_bind (act_put (\<lambda>t. t\<lparr>g_clientDataList := HASH_ADD_INT (g_clientDataList t) (g_session s) p\<rparr>)) (\<lambda>_.
    act_bind (call_lua pc ''lua_onconn'' [LNum (of_int (g_session s))]) (\<lambda>_.
    act_bind (uv_call p (GReadStart ClientSide p)) (\<lambda>r. if r \<noteq> 0 then closeClientConn p else act_return ())))))"
  have told: "wp (?rest p peer) (\<lambda>_. gs_inv) u" if "g_session s \<le> 2147483645" "new_object (g_session s) p u" for u p peer
    using that telling [of u p "\<lparr>cl_ip = ga_ip peer, cl_port = ga_port peer, cl_session = g_session s\<rparr>"]
    by (auto simp: store_def new_object_def)
  show ?thesis
  proof (cases "status \<noteq> 0 \<or> g_session s > 2147483645")
    case False
    have "wp (uv_call p (GTcpInit p)) (\<lambda>r. wp (if r \<noteq> 0 then act_return ()
        else act_bind (uv_call p (GAccept p)) (\<lambda>r.
          if r \<noteq> 0 then act_return () else act_bind (gcall_answer (GPeerName p)) (?rest p))) (\<lambda>_. gs_inv)) t"
      if t: "new_object (g_session s) p t" for t p
      by (rule wp_tcp_init) (use t False in \<open>auto simp: new_object_def keeps_def simp del: wp_simps(4) intro!: wp_accepting told\<close>)
    then have "wp gmalloc (\<lambda>p. wp (if p = 0 then act_return () else act_bind (uv_call p (GTcpInit p)) (\<lambda>r.
        if r \<noteq> 0 then act_return ()
        else act_bind (uv_call p (GAccept p)) (\<lambda>r.
          if r \<noteq> 0 then act_return () else act_bind (gcall_answer (GPeerName p)) (?rest p)))) (\<lambda>_. gs_inv)) s"
      using assms by (intro wp_gmalloc)
        (auto simp: gs_inv_called neutral_def intro!: new_object_raw)
    then show ?thesis using False by (simp add: newClientConnection_def)
  qed (use assms in \<open>auto simp: newClientConnection_def\<close>)
qed

lemma event_ok:
  assumes "gs_inv s" "enabled ev s" "calm ev"
  shows "wp (dispatch env pc ev) (\<lambda>_. gs_inv) (consume ev s)"
proof (cases ev)
  case (EvRead sd p nread buf)
  then have r: "ReadReq sd p \<in> set (g_pending s)" using assms(2) by (simp add: enabled_def)
  have side: "side_ok s sd p" using req_okD [OF assms(1) r] by (simp add: req_ok_def)
  show ?thesis
  proof (cases sd)
    case ClientSide
    then obtain c where c: "g_heap s p = Some (Client c)" using side by (auto simp: side_ok_def is_client_def)
    have "life_step k (GLua (lit ''lua_oncloseconn'') [LNum (of_int (cl_session c))]) (told s k) = told s k" for k
    proof (cases "k = cl_session c")
      case True
      have "1 \<le> k \<and> k < g_session s" using gs_invD(2) [OF assms(1)] c True by (auto simp: clients_ok_def)
      then have "told s k = Alive" using c True by (auto simp: told_def)
      with True show ?thesis by (simp add: life_step_def lit_def)
    qed (simp add: life_step_def)
    then have "life_ok (s\<lparr>g_trace := g_trace s @ [GLua (lit ''lua_oncloseconn'') [LNum (of_int (cl_session c))]]\<rparr>)"
      using gs_invD(5) [OF assms(1)] by (simp add: life_ok_def told_def)
    then have "gs_inv (s\<lparr>g_trace := g_trace s @ [GLua (lit ''lua_oncloseconn'') [LNum (of_int (cl_session c))]]\<rparr>)"
      using assms(1) by (simp add: gs_inv_def clients_ok_def servers_ok_def reqs_ok_def owed_def req_ok_def side_ok_def
        is_client_def is_peer_def cong: uv_req.case_cong side.case_cong)
    then have "wp (call_lua pc ''lua_oncloseconn'' [LNum (of_int (cl_session c))]) (\<lambda>_. gs_inv) s"
      by (rule wp_mono [OF wp_call_lua]) blast
    with c lua_ok_inv [OF lua_ok_deliver assms(1)] ClientSide EvRead show ?thesis
      by (simp add: dispatch_def consume_def read_cb_def)
  next
    case ServerSide
    then obtain c where c: "g_heap s p = Some (Server c)" using side peer_object [OF assms(1)] by (auto simp: side_ok_def)
    with assms(3) lua_ok_inv [OF lua_ok_deliver assms(1)] ServerSide EvRead show ?thesis
      by (simp add: dispatch_def consume_def read_server_cb_def calm_def)
  qed
next
  case (EvShutdown sd p status)
  with shutdown_event [OF assms(1), of sd p] assms(2) show ?thesis
    by (cases sd) (auto simp: dispatch_def enabled_def shutdown_cb_def shutdownSC_cb_def)
next
  case (EvClosed sd p)
  with closed_event closed_server_event assms(1,2) show ?thesis
    by (cases sd) (auto simp: dispatch_def enabled_def)
qed (use assms(1,2) in \<open>auto simp: dispatch_def enabled_def after_write_def consume_def [of EvTimer] consume_def [of "EvConnection _"]
    consume_def [of "EvCtrl _"] simp del: wp_simps
    intro!: lua_ok_inv [OF lua_ok_enterFrame] lua_ok_inv [OF lua_ok_ctrl] connection_event connected_event written_event work_event worked_event\<close>)

lemma tmain_ok: "wp (tmain env pc) (\<lambda>_. gs_inv) (initial as runs)"
proof -
  let ?s = "(initial as runs)\<lparr>g_session := 1, g_luaHandel := True, g_loop := True\<rparr>"
  have "gs_inv ?s"
    by (simp add: gs_inv_def clients_ok_def servers_ok_def reqs_ok_def life_ok_def initial_def told_def owed_def life_def
      uthash.keyed_nothing uthash.nothing_law) linarith
  then have "wp (loadLuaScript env pc) (\<lambda>_. gs_inv) ?s" by (intro lua_ok_inv lua_ok_loadLuaScript)
  then show ?thesis by (simp add: tmain_def) (elim wp_mono, simp)
qed

end


section \<open>Runs\<close>

lemma wp_result: "wp m Q s \<Longrightarrow> m s = Some (Inr x, s') \<Longrightarrow> Q x s'"
  by (simp add: wp_def)

lemma run_inv: "server_run env n evs s \<Longrightarrow> \<forall>ev \<in> set evs. calm ev \<Longrightarrow> gs_inv s"
proof (induction rule: server_run.induct)
  case (start as runs s)
  then show ?case using wp_result [OF lua_vm_host.tmain_ok] by blast
next
  case (later evs s ev s')
  from later.hyps(2) have "enabled ev s" "dispatch env (lua_pcall n env) ev (consume ev s) = Some (Inr (), s')"
    by (auto elim: server_stepE)
  then show ?case using wp_result [OF lua_vm_host.event_ok] later.IH later.prems by simp
qed

text \<open>The table answers exactly for the connections there are.\<close>

lemma client_lookup:
  assumes "gs_inv s" "int_range k"
  shows "HASH_FIND_INT (g_clientDataList s) k = Some p \<longleftrightarrow> (\<exists>c. g_heap s p = Some (Client c) \<and> cl_session c = k)"
proof -
  note c = gs_invD(2) [OF assms(1)]
  have "HASH_FIND_INT (g_clientDataList s) k = uthash.lookup (g_clientDataList s) (int_key k)"
    using c by (simp add: HASH_FIND_INT_def uthash.find_lookup clients_ok_def)
  also have "\<dots> = Some p \<longleftrightarrow> (\<exists>c. g_heap s p = Some (Client c) \<and> int_key k = int_key (cl_session c))"
    using c by (simp add: uthash.lookup_iff clients_ok_def)
  also have "\<dots> \<longleftrightarrow> (\<exists>c. g_heap s p = Some (Client c) \<and> cl_session c = k)"
  proof -
    have "k = cl_session d" if "g_heap s p = Some (Client d)" "int_key k = int_key (cl_session d)" for d
    proof (rule int_key_inj [OF that(2)])
      have "1 \<le> cl_session d" "cl_session d < g_session s" "g_session s \<le> 2147483646"
        using c that(1) by (auto simp: clients_ok_def)
      then show "- (2 ^ 31) \<le> cl_session d" "cl_session d < 2 ^ 31" by simp_all
    qed (use assms(2) in \<open>simp_all add: int_range_def\<close>)
    then show ?thesis by auto
  qed
  finally show ?thesis .
qed

lemma told_lookup:
  assumes "gs_inv s"
  shows "told s k =
    (if k < 1 \<or> g_session s \<le> k then Unborn
     else if HASH_FIND_INT (g_clientDataList s) k = None then Dead else Alive)"
proof (cases "k < 1 \<or> g_session s \<le> k")
  case False
  then have "int_range k" using gs_invD(2) [OF assms] by (simp add: clients_ok_def int_range_def)
  then have "HASH_FIND_INT (g_clientDataList s) k \<noteq> None \<longleftrightarrow> (\<exists>p c. g_heap s p = Some (Client c) \<and> cl_session c = k)"
    using client_lookup [OF assms] by auto
  with False show ?thesis by (auto simp: told_def)
qed (simp add: told_def)


section \<open>Properties of the runs\<close>

text \<open>A run to apply the properties to: the server starts, a client connects, its handler prints.\<close>

definition sample_env :: genv where
  "sample_env = \<lparr>env_vm = plain_vm, env_cp = plain_cp, env_name = lit ''gs''\<rparr>"

definition granted :: "int \<Rightarrow> ganswer" where
  "granted r = \<lparr>ga_ret = r, ga_ip = lit ''10.0.0.9'', ga_port = 4000, ga_sql = sample_answer None\<rparr>"

definition sample_initial :: gs where
  "sample_initial = initial [granted 0, granted 100, granted 0, granted 0, granted 0, granted 0]
     [\<lparr>run_calls = [], run_error = None\<rparr>, \<lparr>run_calls = [((F_print, MainState), [LBool True])], run_error = None\<rparr>]"

definition sample_started :: gs where
  "sample_started = sample_initial
    \<lparr>g_luaHandel := True, g_loop := True, g_answers := tl (g_answers sample_initial), g_runs := tl (g_runs sample_initial),
     g_trace := [GLoadFile (lit ''gs.exe.cfg''), GLua (lit ''gs.exe.cfg'') []]\<rparr>"

definition sample_connected :: gs where
  "sample_connected = sample_started
    \<lparr>g_session := 2, g_clientDataList := HASH_ADD_INT None 1 100,
     g_heap := [100 \<mapsto> Client \<lparr>cl_ip = lit ''10.0.0.9'', cl_port = 4000, cl_session = 1\<rparr>],
     g_pending := [ReadReq ClientSide 100], g_answers := [], g_runs := [],
     g_trace := g_trace sample_started @ [GMalloc, GTcpInit 100, GAccept 100, GPeerName 100,
       GLua (lit ''lua_onconn'') [LNum 1], GLog (lit ''true''), GReadStart ClientSide 100]\<rparr>"

lemma sample_start: "tmain sample_env (lua_pcall 1 sample_env) sample_initial = Some (Inr (), sample_started)"
  by (simp add: sample_initial_def sample_started_def initial_def tmain_def loadLuaScript_def sample_env_def fits_def
      simple_call_def gcall_answer_def allowed_def granted_def accept_request_def ASSERT_def act_bind_def pcall_with_def Let_def)

lemma sample_connect:
  "dispatch sample_env (lua_pcall 1 sample_env) (EvConnection 0) sample_started = Some (Inr (), sample_connected)"
  by (simp add: sample_initial_def sample_started_def sample_connected_def initial_def dispatch_def newClientConnection_def
      gmalloc_def uv_call_def on_object_def store_def gcall_answer_def allowed_def granted_def accept_request_def
      act_bind_def pcall_with_def call_lua_def cpp_call_def lua_print_def note_call_def print_item_def Let_def lit_def)

lemma sample_run: "server_run sample_env 1 [EvConnection 0] sample_connected"
proof -
  have "server_run sample_env 1 [] sample_started"
    using server_run.start sample_start unfolding sample_initial_def by blast
  moreover have "server_step sample_env 1 sample_started (EvConnection 0) sample_connected"
    using sample_connect by (intro server_step.step) (simp_all add: enabled_def consume_def)
  ultimately show ?thesis using server_run.later by force
qed

lemma sample_found: "HASH_FIND_INT (g_clientDataList sample_connected) 1 = Some 100"
proof -
  have "uthash.keyed (HASH_ADD None (int_key 1) 100)" "uthash.lookup (HASH_ADD None (int_key 1) 100) (int_key 1) = Some 100"
    using uthash.keyed_add [OF uthash.keyed_nothing, of 100 "int_key 1"] uthash.nothing_law by (simp_all only: list.set image_empty empty_iff fun_upd_same simp_thms)
  from uthash.find_lookup [OF this(1), of "int_key 1"] this(2)
  have "HASH_FIND (HASH_ADD None (int_key 1) 100) (int_key 1) = Some 100" by (rule trans)
  then show ?thesis by (simp add: sample_connected_def HASH_FIND_INT_def HASH_ADD_INT_def)
qed

text \<open>C1: in a run in which no connection to another server breaks, the scripts have been told of every session
  number exactly what has happened to it: of no session before it began; \<open>lua_onconn\<close> once when it began;
  \<open>lua_onFinalClosed\<close> once when its structure was freed, and nothing after that; and
  \<open>lua_oncloseconn\<close> only in between. The session is in the table exactly while it is alive.\<close>

theorem session_life_told:
  assumes "server_run env n evs s" "\<forall>ev \<in> set evs. calm ev"
  shows "life k (g_trace s) =
    (if k < 1 \<or> g_session s \<le> k then Unborn
     else if HASH_FIND_INT (g_clientDataList s) k = None then Dead else Alive)"
  using told_lookup [OF run_inv [OF assms]] gs_invD(5) [OF run_inv [OF assms]] by (simp add: life_ok_def)

theorem session_life_told_witness: "life 1 (g_trace sample_connected) = Alive \<and> life 2 (g_trace sample_connected) = Unborn"
proof -
  have "g_session sample_connected = 2" by (simp add: sample_connected_def)
  then show ?thesis
    using session_life_told [OF sample_run, of 1] session_life_told [OF sample_run, of 2] sample_found by (simp add: calm_def)
qed

text \<open>C11: in such a run the table of sessions answers exactly for the connections that exist, and no two of
  them have the same number.\<close>

theorem sessions_exact:
  assumes "server_run env n evs s" "\<forall>ev \<in> set evs. calm ev" "- (2 ^ 31) \<le> k" "k < 2 ^ 31"
  shows "HASH_FIND_INT (g_clientDataList s) k = Some p \<longleftrightarrow> (\<exists>c. g_heap s p = Some (Client c) \<and> cl_session c = k)"
  using client_lookup [OF run_inv [OF assms(1,2)]] assms(3,4) by (simp add: int_range_def)

theorem sessions_exact_witness:
  "HASH_FIND_INT (g_clientDataList sample_connected) 1 = Some 100 \<longleftrightarrow>
    (\<exists>c. g_heap sample_connected 100 = Some (Client c) \<and> cl_session c = 1)"
  using sessions_exact [OF sample_run, of 1 100] by (simp add: calm_def)

text \<open>C3: after such a run, whatever libuv delivers next and whatever the scripts do in answer, short of
  breaking a connection to another server, no freed structure is used: not by the callback, not by
  anything the scripts call, and not by libuv through a handle given to it.\<close>

theorem no_use_after_free:
  assumes "server_run env n evs s" "\<forall>ev \<in> set evs. calm ev" "enabled ev s" "calm ev"
  shows "dispatch env (lua_pcall n env) ev (consume ev s) \<noteq> Some (Inl (UseAfterFree p), s')"
  using lua_vm_host.event_ok [OF run_inv [OF assms(1,2)] assms(3,4), of env n env] by (auto simp: wp_def)

theorem no_use_after_free_witness:
  "dispatch sample_env (lua_pcall 1 sample_env) (EvRead ClientSide 100 (- 1) []) sample_connected \<noteq> Some (Inl (UseAfterFree 100), sample_connected)"
proof -
  have "enabled (EvRead ClientSide 100 (- 1) []) sample_connected"
    by (simp add: enabled_def sample_connected_def alloc_cb_def)
  then show ?thesis
    using no_use_after_free [OF sample_run, of "EvRead ClientSide 100 (- 1) []" 100 sample_connected]
    by (simp add: calm_def consume_def)
qed

end
