(* ===== verification/GsProps.thy ===== *)
theory GsProps
  imports GsRuns Md5_Rfc
begin

text \<open>
  What single operations of the server do: sending, the small functions for the scripts, the name
  of the server; and two ways to undefined behaviour.
\<close>


section \<open>Sending\<close>

lemma four_args [simp]:
  "lua_arg [a, b, c, d] (Suc 0) = Some a" "lua_arg [a, b, c, d] 2 = Some b"
  "lua_arg [a, b, c, d] 3 = Some c" "lua_arg [a, b, c, d] 4 = Some d"
  by (simp_all add: lua_arg_def eval_nat_numeral)

lemma send_to_ok:
  assumes "g_heap s p \<noteq> None" "g_answers s = a # b # as" "ga_ret a = int q" "0 < q" "g_heap s q = None" "ga_ret b = 0"
  shows "send_to (Some p) d args s = Some (Inr (stack_top args), s\<lparr>g_heap := (g_heap s)(q \<mapsto> WriteReq),
    g_pending := AfterWriteReq q # g_pending s, g_answers := as, g_trace := g_trace s @ [GMalloc, GWrite p q d]\<rparr>)"
  using assms
  by (simp add: send_to_def gmalloc_def uv_call_def on_object_def store_def gcall_answer_def allowed_def
      accept_request_def act_bind_def)

text \<open>C21: \<open>onSend\<close> of \<open>len\<close> bytes of a text hands exactly its first \<open>len\<close> bytes to libuv, in one write on the
  handle of one client, and owes the release of its request until libuv reports the write. The client is that of
  the session found at index 3 of the main state. When the call comes from the main state that is the session it
  names; when it comes from a coroutine, it is whatever value the main state has there, whatever session the call names.\<close>

theorem onSend_session:
  assumes "lua_arg (main_frame th [LNum (of_nat len), LStr d, LNum x, LNum y]) 3 = Some (LNum (of_int k))"
    "lua_arg (main_frame th [LNum (of_nat len), LStr d, LNum x, LNum y]) 4 = Some (LNum 1)"
    "HASH_FIND_INT (g_clientDataList s) k = Some p" "g_heap s p \<noteq> None" "- (2 ^ 31) \<le> k" "k < 2 ^ 31"
    "len \<le> length d" "len \<le> 65536"
    "g_answers s = a # b # as" "ga_ret a = int q" "0 < q" "g_heap s q = None" "ga_ret b = 0"
  shows "onSend env th [LNum (of_nat len), LStr d, LNum x, LNum y] s =
    Some (Inr [LNum y], s\<lparr>g_heap := (g_heap s)(q \<mapsto> WriteReq), g_pending := AfterWriteReq q # g_pending s,
      g_answers := as, g_trace := g_trace s @ [GMalloc, GWrite p q (take len d)]\<rparr>)"
proof -
  let ?args = "[LNum (of_nat len), LStr d, LNum x, LNum y]"
  have n: "c_int (real len) = int len" "c_int (of_int k) = k" "c_int 1 = 1"
    using c_int_of_int [of "int len"] c_int_of_int [of k] c_int_of_int [of 1] assms(5-8) by simp_all
  have i: "lua_tointeger vm (main_frame th ?args) 3 = k" "lua_tointeger vm (main_frame th ?args) 4 = 1" for vm
    using assms(1,2) n by (simp_all add: lua_tointeger_def lua_tonumber_def lua_tonumber_opt_def)
  have "send_copy d (int len) = Inr (take len d)" using assms(7,8) by (simp add: send_copy_def)
  with send_to_ok [OF assms(4,9-13), of "take len d" ?args] assms(3) n(1)
  show ?thesis
    by (simp add: onSend_def Let_def i getClientDataBySession_def act_bind_def stack_top_def)
      (simp add: lua_tointeger_def lua_isnumber_def lua_isstring_def lua_tonumber_def lua_tonumber_opt_def lua_tostring_def)
qed

theorem onSend_session_witness:
  "\<exists>s'. onSend sample_env (Coroutine [LNil, LNil, LNum 1, LNum 1]) [LNum 2, LStr (lit ''abc''), LNum 9, LNum 0]
      (sample_connected\<lparr>g_answers := [granted 7, granted 0]\<rparr>) =
    Some (Inr [LNum 0], s') \<and> last (g_trace s') = GWrite 100 7 (lit ''ab'')"
  using onSend_session [of "Coroutine [LNil, LNil, LNum 1, LNum 1]" 2 "lit ''abc''" 9 0 1
      "sample_connected\<lparr>g_answers := [granted 7, granted 0]\<rparr>" 100 "granted 7" "granted 0" "[]" 7 sample_env]
    sample_found
  by (simp add: granted_def main_frame_def) (simp add: sample_connected_def lit_def)


section \<open>MD5 for the scripts\<close>

definition hex_digit :: "nat \<Rightarrow> byte" where
  "hex_digit n = of_nat (if n < 10 then 48 + n else 87 + n)"

definition hex_digits :: "bytes \<Rightarrow> bytes" where
  "hex_digits bs = concat (map (\<lambda>b. [hex_digit (unat b div 16), hex_digit (unat b mod 16)]) bs)"

lemma hextable_digit: "n < 16 \<Longrightarrow> hextable ! n = hex_digit n"
proof -
  have "\<forall>n \<in> set [0..<16]. hextable ! n = hex_digit n" by code_simp
  then show "n < 16 \<Longrightarrow> hextable ! n = hex_digit n" by simp
qed

lemma hex_nibbles: "unat (drop_bit 4 (c :: byte) AND 0x0f) = unat c div 16" "unat (c AND 0x0f) = unat c mod 16"
proof -
  have m: "(0x0f :: byte) = mask 4" by (simp add: mask_eq_exp_minus_1)
  have "unat c < 256" using unat_byte_less [of c] by simp
  then show "unat (drop_bit 4 c AND 0x0f) = unat c div 16"
    unfolding m by (simp add: unsigned_take_bit_eq unsigned_drop_bit_eq take_bit_eq_mod drop_bit_eq_div
      unat_mod_distrib unat_div_distrib flip: take_bit_eq_mask)
  show "unat (c AND 0x0f) = unat c mod 16"
    unfolding m by (simp add: take_bit_eq_mod unsigned_take_bit_eq unat_mod_distrib flip: take_bit_eq_mask)
qed

lemma hex_digits_bounds: "b \<in> set (hex_digits bs) \<Longrightarrow> b \<noteq> 0 \<and> b \<noteq> of_char CHR ''%''"
proof -
  have "\<forall>n \<in> set [0..<16]. hex_digit n \<noteq> 0 \<and> hex_digit n \<noteq> of_char CHR ''%''" by code_simp
  then have *: "n < 16 \<Longrightarrow> hex_digit n \<noteq> 0 \<and> hex_digit n \<noteq> of_char CHR ''%''" for n by simp
  have "unat (c :: byte) div 16 < 16" for c using unat_byte_less [of c] by simp
  with * show "b \<in> set (hex_digits bs) \<Longrightarrow> b \<noteq> 0 \<and> b \<noteq> of_char CHR ''%''"
    by (auto simp: hex_digits_def)
qed

lemma length_hex_digits [simp]: "length (hex_digits bs) = 2 * length bs"
  unfolding hex_digits_def by (induction bs) simp_all

lemma bin2hex_digits: "length bs = 16 \<Longrightarrow> bin2hex bs 16 = Inr (hex_digits bs)"
proof -
  assume len: "length bs = 16"
  have "unat c div 16 < 16" for c :: byte using unat_byte_less [of c] by simp
  then have "hextable ! unat (drop_bit 4 c AND 0x0f) = hex_digit (unat c div 16)"
    "hextable ! unat (c AND 0x0f) = hex_digit (unat c mod 16)" for c :: byte
    by (simp only: hex_nibbles(1) hextable_digit) (simp only: hex_nibbles(2) hextable_digit mod_less_divisor zero_less_numeral)
  then have "concat (map (\<lambda>c. [hextable ! unat (drop_bit 4 c AND 0x0f), hextable ! unat (c AND 0x0f)]) bs) = hex_digits bs"
    by (simp only: hex_digits_def)
  moreover have "memcpy_at (replicate 33 0) 0 (hex_digits bs) = hex_digits bs @ [0]"
    using len by (simp add: memcpy_at_def)
  moreover have "c_str (hex_digits bs @ [0]) = hex_digits bs"
    unfolding c_str_def using hex_digits_bounds [of _ bs] by (subst takeWhile_append2) auto
  ultimately show ?thesis using len by (simp add: bin2hex_def)
qed

lemma pushfstring_plain: "of_char CHR ''%'' \<notin> set s \<Longrightarrow> pushfstring s = Some s"
  by (induction s) auto

lemma length_rfc_md5: "length (rfc_md5 m) = 16"
  by (cases "rfc_blocks (length (rfc_pad m) div 64) rfc_init (rfc_pad m)") (simp add: rfc_md5_def Let_def)

text \<open>C34: \<open>md5\<close> returns the 32 hexadecimal digits, in lower case, of the MD5 of RFC 1321 of the text up to
  its first NUL.\<close>

theorem md5_lua_hex:
  assumes "length t < 2 ^ 32"
  shows "md5 env [LStr t] s = Some (Inr [LStr (hex_digits (rfc_md5 (c_str t)))], s)"
proof -
  have "length (c_str t) < 2 ^ 32"
    using assms length_takeWhile_le [of "\<lambda>b. b \<noteq> 0" t] by (simp add: c_str_def)
  then have "md5_run md5_zero [c_str t] = Some (rfc_md5 (c_str t))"
    using md5_run_correct [of md5_zero "[c_str t]"] by (simp add: md5_zero_def)
  then have "md5_hex t = Inr (hex_digits (rfc_md5 (c_str t)))"
    using bin2hex_digits [OF length_rfc_md5, of "c_str t"]
    by (auto simp: md5_hex_def md5_run_def split: option.splits)
  moreover have "pushfstring (hex_digits bs) = Some (hex_digits bs)" for bs
    using hex_digits_bounds by (intro pushfstring_plain) blast
  ultimately show ?thesis
    by (simp add: md5_def lua_isstring_def lua_tostring_def lua_arg_def act_bind_def)
qed

theorem md5_lua_hex_witness:
  "md5 sample_env [LStr (lit ''ab'' @ [0, 9])] sample_started = Some (Inr [LStr (hex_digits (rfc_md5 (lit ''ab'')))], sample_started)"
  using md5_lua_hex [of "lit ''ab'' @ [0, 9]" sample_env sample_started] by (simp add: lit_def c_str_def)


section \<open>The server's name\<close>

lemma find_last_of_split:
  assumes "c \<notin> set b"
  shows "find_last_of c (d @ c # b) = of_nat (length d)"
proof -
  have "takeWhile (\<lambda>x. x \<noteq> c) (rev b) = rev b" using assms by (auto simp: takeWhile_eq_all_conv)
  then have "takeWhile (\<lambda>x. x \<noteq> c) (rev (d @ c # b)) = rev b" by (simp add: takeWhile_tail)
  then show ?thesis by (simp add: find_last_of_def)
qed

lemma unat_u32: "n < 2 ^ 32 \<Longrightarrow> unat (of_nat n :: u32) = n"
  by (simp add: unat_of_nat)

text \<open>From the path of the executable, \<open>_tmain\<close> takes the file's name without its last four
  characters, whether or not the path has a directory.\<close>

theorem server_name_base:
  assumes "92 \<notin> set base" "length ext = 4" "92 \<notin> set ext" "length dir + length base + 5 < 2 ^ 32"
  shows "server_name (dir @ 92 # base @ ext) = base \<and> server_name (base @ ext) = base"
proof
  let ?d = "of_nat (length dir) :: u32" and ?b = "of_nat (length base) :: u32"
  have "find_last_of 92 (dir @ 92 # base @ ext) = ?d"
    using assms(1,3) by (intro find_last_of_split) simp
  moreover have "of_nat (length (dir @ 92 # base @ ext)) - ?d - 5 = ?b" using assms(2) by simp
  moreover have "unat (?d + 1) = length dir + 1"
  proof -
    have "unat (of_nat (length dir + 1) :: u32) = length dir + 1" by (rule unat_u32) (use assms(4) in simp)
    then show ?thesis by (simp only: of_nat_add of_nat_1)
  qed
  moreover have b: "unat ?b = length base" using assms(4) by (simp add: unat_of_nat)
  ultimately show "server_name (dir @ 92 # base @ ext) = base"
    by (simp add: server_name_def substr_def Let_def)
  have "of_nat (length (base @ ext)) - (- 1) - 5 = ?b" using assms(2) by simp
  with b assms(1,3) show "server_name (base @ ext) = base"
    by (simp add: server_name_def substr_def Let_def find_last_of_def)
qed

theorem server_name_base_witness:
  "server_name (lit ''c:'' @ 92 # lit ''gs'' @ lit ''.exe'') = lit ''gs''"
  using server_name_base [of "lit ''gs''" "lit ''.exe''" "lit ''c:''"] by (simp add: lit_def)


section \<open>Ways to undefined behaviour\<close>

text \<open>\<open>_U\<close> pushes the converted text as a format: it is returned as it is when it has no percent sign,
  and reads arguments that are not there when a percent sign is not followed by another one.\<close>

theorem U_format:
  assumes "U2G (env_cp env) t = Inr u" "c_str u = a @ b" "of_char CHR ''%'' \<notin> set a"
    "b = [] \<or> b = lit ''%'' \<or> (\<exists>c ds. b = of_char CHR ''%'' # c # ds \<and> c \<noteq> of_char CHR ''%'')"
  shows "U_lua env [LStr t] s = (if b = [] then Some (Inr [LStr a], s) else Some (Inl (Undefined (lit ''format'')), s))"
proof -
  have "pushfstring (a @ b) = map_option ((@) a) (pushfstring b)"
    using assms(3) by (cases "pushfstring b"; induction a) auto
  with assms(1,2,4) show ?thesis
    by (auto simp: U_lua_def lua_isstring_def lua_tostring_def lua_arg_def lit_def act_bind_def)
qed

theorem U_format_witness:
  "U_lua sample_env [LStr (lit ''50%d'')] sample_started = Some (Inl (Undefined (lit ''format'')), sample_started)"
  using U_format [of sample_env "lit ''50%d''" "lit ''50%d''" "lit ''50''" "lit ''%d''" sample_started]
  by (simp add: sample_env_def U2G_def plain_cp_def lit_def c_str_def)

text \<open>C33: a script that calls \<open>closeServerFinal\<close> from a callback closes the Lua state it is running in.\<close>

theorem closeServerFinal_in_callback:
  assumes "g_luaHandel s" "\<not> g_luaClosed s" "g_runs s = run # runs" "run_calls run = ((F_closeServerFinal, th), args) # calls"
  shows "\<exists>s'. lua_pcall (Suc n) env name as s = Some (Inl (Undefined (lit ''Lua state closed'')), s') \<and> g_luaClosed s'"
  using assms
  by (auto simp: pcall_with_def act_bind_def cpp_call_def closeServerFinal_def lua_close_def note_call_def)

theorem closeServerFinal_in_callback_witness:
  "\<exists>s'. lua_pcall 1 sample_env (lit ''lua_onServerClose'') []
    (sample_connected\<lparr>g_runs := [\<lparr>run_calls = [((F_closeServerFinal, MainState), [])], run_error = None\<rparr>]\<rparr>) =
    Some (Inl (Undefined (lit ''Lua state closed'')), s') \<and> g_luaClosed s'"
  using closeServerFinal_in_callback [of "sample_connected\<lparr>g_runs := [\<lparr>run_calls = [((F_closeServerFinal, MainState), [])], run_error = None\<rparr>]\<rparr>"
      _ "[]" MainState "[]" "[]" 0 sample_env "lit ''lua_onServerClose''" "[]"]
  by (simp add: sample_connected_def sample_started_def sample_initial_def initial_def)

text \<open>C32: when a connection to another server breaks and the reconnection gets under way, a new structure with the
  same address and number takes the place of the old one, which is removed from the table and
  freed; but its handle was never closed, and libuv goes on owing it the end of its reads.\<close>

theorem broken_peer_reconnects:
  assumes "g_heap s p = Some (Server c)" "ReadReq ServerSide p \<in> set (g_pending s)" "nread < 0"
    "g_answers s = a # b # d # e # as" "ga_ret a = int q" "0 < q" "g_heap s q = None"
    "ga_ret b = 0" "ga_ret d = 0" "length (sv_ip c) \<le> 15" "ga_ret e = 0"
  shows "\<exists>s'. read_server_cb pc p nread buf s = Some (Inr (), s') \<and>
    g_heap s' = (g_heap s)(q \<mapsto> Server c, p := None) \<and>
    g_serverDataList s' = HASH_DELETE (g_serverDataList s) p \<and>
    ConnectReq q \<in> set (g_pending s') \<and> ReadReq ServerSide p \<in> set (g_pending s') \<and>
    g_trace s' = g_trace s @ [GMalloc, GTcpInit q, GIp4Addr (sv_ip c) (sv_port c), GConnect q (sv_ip c) (sv_port c)]"
proof -
  have "p \<noteq> q" using assms(1,7) by auto
  have "\<lparr>sv_ip = sv_ip c, sv_port = sv_port c, sv_sno = sv_sno c\<rparr> = c" by (cases c) simp
  note copy = this
  from \<open>p \<noteq> q\<close> assms show ?thesis
    by (simp add: read_server_cb_def act_bind_def server_at_def gmalloc_def store_def on_object_def uv_call_def gfree_def
      gcall_answer_def allowed_def accept_request_def start_connect_def simple_call_def ASSERT_def copy)
qed

definition sample_peer :: serverData_t where
  "sample_peer = \<lparr>sv_ip = lit ''10.0.0.2'', sv_port = 7000, sv_sno = 3\<rparr>"

theorem broken_peer_reconnects_witness:
  "\<exists>s'. read_server_cb (lua_pcall 1 sample_env) 50 (- 1) [] (sample_started\<lparr>g_heap := [50 \<mapsto> Server sample_peer],
      g_serverDataList := HASH_ADD_INT None 3 50, g_pending := [ReadReq ServerSide 50],
      g_answers := [granted 60, granted 0, granted 0, granted 0]\<rparr>) = Some (Inr (), s') \<and>
    g_heap s' 50 = None \<and> ReadReq ServerSide 50 \<in> set (g_pending s')"
  using broken_peer_reconnects [of "sample_started\<lparr>g_heap := [50 \<mapsto> Server sample_peer],
      g_serverDataList := HASH_ADD_INT None 3 50, g_pending := [ReadReq ServerSide 50],
      g_answers := [granted 60, granted 0, granted 0, granted 0]\<rparr>" 50 sample_peer "- 1" "granted 60" "granted 0" "granted 0" "granted 0" "[]" 60
      "lua_pcall 1 sample_env" "[]"]
  by (auto simp: granted_def sample_peer_def lit_def)

end
