(* ===== verification/LinkedList.thy ===== *)
theory LinkedList
  imports Main
begin

text \<open>
  linked_list.h: the macros of a ring of items linked in both directions. The list is the address
  of the first item, 0 for \<open>NULL\<close>; \<open>prev\<close> and \<open>next\<close> are the fields of the item at an address. A
  ring refines the list of its items: inserting appends, removing removes, and the loop visits
  the items in order.
\<close>

record ring =
  r_list :: nat
  r_prev :: "nat \<Rightarrow> nat"
  r_next :: "nat \<Rightarrow> nat"


section \<open>The macros\<close>

definition set_prev :: "nat \<Rightarrow> nat \<Rightarrow> 'm ring_scheme \<Rightarrow> 'm ring_scheme" where
  "set_prev p q s = s\<lparr>r_prev := (r_prev s)(p := q)\<rparr>"

definition set_next :: "nat \<Rightarrow> nat \<Rightarrow> 'm ring_scheme \<Rightarrow> 'm ring_scheme" where
  "set_next p q s = s\<lparr>r_next := (r_next s)(p := q)\<rparr>"

definition INSERT_TO_LIST :: "nat \<Rightarrow> 'm ring_scheme \<Rightarrow> 'm ring_scheme" where
  "INSERT_TO_LIST item s =
    (if r_list s = 0 then
       let s = s\<lparr>r_list := item\<rparr>; s = set_next (r_list s) (r_list s) s
       in set_prev (r_list s) (r_next s (r_list s)) s
     else
       let s = set_prev item (r_prev s (r_list s)) s;
           s = set_next item (r_list s) s;
           s = set_prev (r_list s) item s
       in set_next (r_prev s item) item s)"

definition REMOVE_FROM_LIST :: "nat \<Rightarrow> 'm ring_scheme \<Rightarrow> 'm ring_scheme" where
  "REMOVE_FROM_LIST item s =
    (let s = (if item = r_list s then
                if item = r_next s item then s\<lparr>r_list := 0\<rparr> else s\<lparr>r_list := r_next s item\<rparr>
              else s)
     in if r_list s \<noteq> 0 then
          let s = set_next (r_prev s item) (r_next s item) s
          in set_prev (r_next s item) (r_prev s item) s
        else s)"

text \<open>\<open>LIST_WHILE\<close> and \<open>LIST_WHILEEND\<close> around a body; \<open>LIST_SKIP\<close> in the body ends it early. The
  loop need not end.\<close>

partial_function (option) list_do ::
  "(nat \<Rightarrow> 'm ring_scheme \<Rightarrow> 'm ring_scheme) \<Rightarrow> nat \<Rightarrow> 'm ring_scheme \<Rightarrow> 'm ring_scheme option" where
  "list_do body item s =
    (let temp_d = r_next s item; s = body item s; item = temp_d in
     if r_list s \<noteq> 0 \<and> item \<noteq> 0 \<and> item \<noteq> r_list s then list_do body item s else Some s)"

definition LIST_WHILE :: "(nat \<Rightarrow> 'm ring_scheme \<Rightarrow> 'm ring_scheme) \<Rightarrow> 'm ring_scheme \<Rightarrow> 'm ring_scheme option" where
  "LIST_WHILE body s = (let item = r_list s in if item \<noteq> 0 then list_do body item s else Some s)"


section \<open>Rings and lists\<close>

definition linked :: "'m ring_scheme \<Rightarrow> nat \<Rightarrow> nat \<Rightarrow> bool" where
  "linked s p q \<longleftrightarrow> r_next s p = q \<and> r_prev s q = p"

definition is_ring :: "'m ring_scheme \<Rightarrow> nat list \<Rightarrow> bool" where
  "is_ring s xs \<longleftrightarrow>
    distinct xs \<and> 0 \<notin> set xs \<and> r_list s = (if xs = [] then 0 else hd xs) \<and>
    (xs \<noteq> [] \<longrightarrow> successively (linked s) (xs @ [hd xs]))"

lemma set_simps [simp]:
  "r_list (set_prev p q s) = r_list s" "r_next (set_prev p q s) = r_next s" "r_prev (set_prev p q s) = (r_prev s)(p := q)"
  "r_list (set_next p q s) = r_list s" "r_prev (set_next p q s) = r_prev s" "r_next (set_next p q s) = (r_next s)(p := q)"
  by (simp_all add: set_prev_def set_next_def)

lemma successively_last: "successively R (xs @ [y]) \<longleftrightarrow> successively R xs \<and> (xs = [] \<or> R (last xs) y)"
  by (auto simp: successively_append_iff)

lemma links_cong:
  "successively (linked s) xs \<Longrightarrow> distinct xs \<Longrightarrow> (\<And>p. p \<in> set (butlast xs) \<Longrightarrow> r_next s' p = r_next s p) \<Longrightarrow>
    (\<And>p. p \<in> set (tl xs) \<Longrightarrow> r_prev s' p = r_prev s p) \<Longrightarrow> successively (linked s') xs"
proof (induction xs rule: induct_list012)
  case (3 x y zs)
  then show ?case by (cases zs) (auto simp: linked_def)
qed auto

lemma butlast_last: "distinct xs \<Longrightarrow> p \<in> set (butlast xs) \<Longrightarrow> p \<noteq> last xs"
  by (cases xs rule: rev_cases) auto

lemma insert_ring:
  assumes "is_ring s xs" "item \<noteq> 0" "item \<notin> set xs"
  shows "is_ring (INSERT_TO_LIST item s) (xs @ [item])"
proof (cases "xs = []")
  case True
  with assms show ?thesis by (simp add: is_ring_def INSERT_TO_LIST_def Let_def linked_def)
next
  case False
  let ?s = "INSERT_TO_LIST item s"
  have r: "distinct xs" "0 \<notin> set xs" "r_list s = hd xs" using assms(1) False by (simp_all add: is_ring_def)
  then have "hd xs \<noteq> 0" using hd_in_set [OF False] by metis
  note r = r this
  have links: "successively (linked s) xs" "linked s (last xs) (hd xs)"
    using assms(1) False by (auto simp: is_ring_def successively_last)
  have h: "hd xs \<noteq> item" "last xs \<noteq> item" using False assms(3) by auto
  have s: "r_list ?s = hd xs" "r_prev ?s = (r_prev s)(item := last xs, hd xs := item)"
    "r_next ?s = (r_next s)(item := hd xs, last xs := item)"
    using r(3,4) links(2) h by (simp_all add: INSERT_TO_LIST_def Let_def linked_def)
  have "successively (linked ?s) xs"
  proof (rule links_cong [OF links(1) r(1)])
    fix p assume "p \<in> set (butlast xs)"
    then have "p \<noteq> last xs" "p \<noteq> item" using butlast_last r(1) assms(3) in_set_butlastD by fast+
    then show "r_next ?s p = r_next s p" by (simp add: s)
  next
    fix p assume "p \<in> set (tl xs)"
    then have "p \<noteq> hd xs" "p \<noteq> item" using r(1) assms(3) False by (cases xs; auto)+
    then show "r_prev ?s p = r_prev s p" by (simp add: s)
  qed
  moreover have "linked ?s (last xs) item" "linked ?s item (hd xs)"
    using s h by (simp_all add: linked_def)
  ultimately have "successively (linked ?s) ((xs @ [item]) @ [hd xs])"
    using False by (simp only: successively_last) simp
  then show ?thesis using assms(2,3) r s False by (simp add: is_ring_def)
qed

lemma remove_links:
  assumes "is_ring s (as @ item # bs)" "as @ bs \<noteq> []"
  shows "r_prev s item = last (bs @ as)" "r_next s item = hd (bs @ as)"
    "successively (linked s) as" "successively (linked s) bs"
    "as \<noteq> [] \<Longrightarrow> bs \<noteq> [] \<Longrightarrow> linked s (last bs) (hd as)"
proof -
  have *: "successively (linked s) (as @ item # bs @ [hd (as @ [item])])"
    using assms(1) unfolding is_ring_def by (cases as) auto
  then have l: "successively (linked s) as" "successively (linked s) (item # bs @ [hd (as @ [item])])"
    "as \<noteq> [] \<Longrightarrow> linked s (last as) item"
    by (simp_all add: successively_append_iff)
  have r: "linked s item (hd (bs @ [hd (as @ [item])]))" "successively (linked s) bs" "bs \<noteq> [] \<Longrightarrow> linked s (last bs) (hd (as @ [item]))"
    using l(2) by (simp_all add: successively_Cons successively_last split: if_splits)
  show "successively (linked s) as" "successively (linked s) bs" by (fact l r)+
  show "as \<noteq> [] \<Longrightarrow> bs \<noteq> [] \<Longrightarrow> linked s (last bs) (hd as)" using r(3) by simp
  show "r_next s item = hd (bs @ as)" using r(1) assms(2) by (cases "bs = []"; cases "as = []") (simp_all add: linked_def)
  show "r_prev s item = last (bs @ as)" using l(3) r(3) assms(2) by (cases "bs = []"; cases "as = []") (simp_all add: linked_def)
qed

lemma remove_ring:
  assumes "is_ring s (as @ item # bs)"
  shows "is_ring (REMOVE_FROM_LIST item s) (as @ bs)"
proof (cases "as @ bs = []")
  case True
  with assms show ?thesis by (simp add: is_ring_def REMOVE_FROM_LIST_def Let_def linked_def)
next
  case False
  note l = remove_links [OF assms False]
  let ?s = "REMOVE_FROM_LIST item s" and ?p = "last (bs @ as)" and ?q = "hd (bs @ as)"
  have d: "distinct as" "distinct bs" "set as \<inter> set bs = {}" "item \<notin> set as" "item \<notin> set bs" "0 \<notin> set as" "0 \<notin> set bs"
    "item \<noteq> 0" "r_list s = hd (as @ [item])"
    using assms by (auto simp: is_ring_def hd_append)
  have "?q \<in> set bs \<union> set as" using False by (cases bs; cases as) auto
  then have q: "?q \<noteq> 0" "?q \<noteq> item" using d by auto
  have "hd as \<noteq> item \<and> hd as \<noteq> 0" if "as \<noteq> []" using hd_in_set [OF that] d by metis
  then have s: "r_list ?s = hd (as @ bs)" "r_next ?s = (r_next s)(?p := ?q)" "r_prev ?s = (r_prev s)(?q := ?p)"
    using l(1,2) d(9) q by (cases "as = []"; simp add: REMOVE_FROM_LIST_def Let_def)+
  have as: "successively (linked ?s) as"
  proof (rule links_cong [OF l(3) d(1)])
    fix p assume "p \<in> set (butlast as)"
    then have "p \<noteq> ?p" using butlast_last [OF d(1)] in_set_butlastD [of p as] d(3) by (cases "as = []") auto
    then show "r_next ?s p = r_next s p" by (simp add: s)
  next
    fix p assume "p \<in> set (tl as)"
    then have "p \<noteq> ?q" using d(1,3) by (cases as; cases bs) auto
    then show "r_prev ?s p = r_prev s p" by (simp add: s)
  qed
  have bs: "successively (linked ?s) bs"
  proof (rule links_cong [OF l(4) d(2)])
    fix p assume p: "p \<in> set (butlast bs)"
    have "p \<in> set bs" "p \<noteq> last bs" using butlast_last [OF d(2) p] in_set_butlastD [OF p] by simp_all
    moreover have "last as \<notin> set bs" if "as \<noteq> []" using last_in_set [OF that] d(3) by blast
    ultimately have "p \<noteq> ?p" by (cases "as = []") auto
    then show "r_next ?s p = r_next s p" by (simp add: s)
  next
    fix p assume "p \<in> set (tl bs)"
    then have "p \<noteq> ?q" using d(2) by (cases bs) auto
    then show "r_prev ?s p = r_prev s p" by (simp add: s)
  qed
  have new: "linked ?s ?p ?q" by (simp add: linked_def s)
  have old: "linked ?s (last bs) (hd as)" if "as \<noteq> []" "bs \<noteq> []"
  proof -
    have "last bs \<noteq> last as" "hd as \<noteq> hd bs"
      using d(3) last_in_set [OF that(1)] last_in_set [OF that(2)] hd_in_set [OF that(1)] hd_in_set [OF that(2)] by auto
    with l(5) [OF that] that show ?thesis by (simp add: linked_def s)
  qed
  have "successively (linked ?s) ((as @ bs) @ [hd (as @ bs)])"
    using as bs new old False by (cases "as = []"; cases "bs = []") (simp_all add: successively_append_iff)
  then show ?thesis using d s(1) False by (auto simp: is_ring_def)
qed


section \<open>The loop\<close>

lemma ring_next:
  assumes "is_ring s (as @ x # bs)"
  shows "r_next s x = hd (bs @ as @ [x])"
proof (cases "as @ bs = []")
  case True
  with assms show ?thesis by (simp add: is_ring_def linked_def)
next
  case False
  with remove_links(2) [OF assms] show ?thesis by (simp add: hd_append)
qed

text \<open>A body that leaves the links alone sees every item, in order.\<close>

lemma list_do_visits:
  assumes "is_ring s (as @ x # bs)"
    "\<And>p s. r_list (body p s) = r_list s \<and> r_prev (body p s) = r_prev s \<and> r_next (body p s) = r_next s"
  shows "list_do body x s = Some (fold body (x # bs) s)"
  using assms(1)
proof (induction bs arbitrary: as x s)
  case Nil
  have "r_next s x = hd (as @ [x])" using ring_next [OF Nil] by simp
  moreover have "r_list s = hd (as @ [x])" using Nil by (simp add: is_ring_def hd_append)
  ultimately show ?case using assms(2) by (subst list_do.simps) simp
next
  case (Cons y bs)
  have "r_next s x = y" using ring_next [OF Cons.prems] by simp
  moreover have "y \<noteq> 0" "y \<noteq> hd (as @ [x])" "hd (as @ [x]) \<noteq> 0" "r_list s = hd (as @ [x])"
    using Cons.prems hd_in_set [of "as @ [x]"] by (auto simp: is_ring_def hd_append)
  moreover have "is_ring (body x s) ((as @ [x]) @ y # bs)"
    using Cons.prems assms(2) [of x s] by (simp add: is_ring_def linked_def [abs_def])
  note Cons.IH [OF this]
  ultimately show ?case using assms(2) by (subst list_do.simps) simp
qed


section \<open>Properties\<close>

text \<open>Insertions and removals, on the ring and on the list of its items.\<close>

datatype list_op = Insert nat | Remove nat

definition ring_step :: "list_op \<Rightarrow> 'm ring_scheme \<Rightarrow> 'm ring_scheme" where
  "ring_step a s = (case a of Insert p \<Rightarrow> INSERT_TO_LIST p s | Remove p \<Rightarrow> REMOVE_FROM_LIST p s)"

definition items_step :: "list_op \<Rightarrow> nat list \<Rightarrow> nat list" where
  "items_step a xs = (case a of Insert p \<Rightarrow> xs @ [p] | Remove p \<Rightarrow> remove1 p xs)"

text \<open>An item is inserted when it is not in the list and removed when it is.\<close>

fun list_ops_ok :: "list_op list \<Rightarrow> nat list \<Rightarrow> bool" where
  "list_ops_ok [] xs \<longleftrightarrow> True"
| "list_ops_ok (a # as) xs \<longleftrightarrow>
    (case a of Insert p \<Rightarrow> p \<noteq> 0 \<and> p \<notin> set xs | Remove p \<Rightarrow> p \<in> set xs) \<and> list_ops_ok as (items_step a xs)"

lemma ring_ops: "is_ring s xs \<Longrightarrow> list_ops_ok ops xs \<Longrightarrow> is_ring (fold ring_step ops s) (fold items_step ops xs)"
proof (induction ops arbitrary: s xs)
  case (Cons a ops)
  have "is_ring (ring_step a s) (items_step a xs)"
  proof (cases a)
    case (Insert p)
    with Cons.prems show ?thesis by (simp add: ring_step_def items_step_def insert_ring)
  next
    case (Remove p)
    with Cons.prems(2) obtain as bs where "xs = as @ p # bs" "p \<notin> set as" by (auto dest: split_list_first)
    with Remove Cons.prems(1) show ?thesis by (simp add: ring_step_def items_step_def remove1_append remove_ring)
  qed
  with Cons show ?case by simp
qed simp

text \<open>C13: through any insertions and removals the ring holds exactly the items of the list they
  build, in order, and a loop whose body leaves the links alone ends after visiting each of them
  once, in that order.\<close>

theorem ring_refines_list:
  assumes "r_list s = 0" "list_ops_ok ops []"
    "\<And>p t. r_list (body p t) = r_list t \<and> r_prev (body p t) = r_prev t \<and> r_next (body p t) = r_next t"
  shows "LIST_WHILE body (fold ring_step ops s) = Some (fold body (fold items_step ops []) (fold ring_step ops s))"
proof -
  have "is_ring s []" using assms(1) by (simp add: is_ring_def)
  from ring_ops [OF this assms(2)] have r: "is_ring (fold ring_step ops s) (fold items_step ops [])" .
  show ?thesis
  proof (cases "fold items_step ops []")
    case Nil
    with r show ?thesis by (simp add: is_ring_def LIST_WHILE_def)
  next
    case (Cons x xs)
    with r have "r_list (fold ring_step ops s) = x" "x \<noteq> 0" by (auto simp: is_ring_def)
    with list_do_visits [of _ "[]" x xs body] r assms(3) Cons show ?thesis by (simp add: LIST_WHILE_def)
  qed
qed

text \<open>A loop that removes the items it visits ends after the first: the second has become the first of
  the list, which ends the loop.\<close>

theorem removing_loop_stops:
  assumes "is_ring s (x # y # ys)"
  shows "LIST_WHILE REMOVE_FROM_LIST s = Some (REMOVE_FROM_LIST x s) \<and> is_ring (REMOVE_FROM_LIST x s) (y # ys)"
proof
  show r: "is_ring (REMOVE_FROM_LIST x s) (y # ys)" using remove_ring [of s "[]" x "y # ys"] assms by simp
  have "r_next s x = y" using ring_next [of s "[]"] assms by simp
  moreover have "r_list s = x" "x \<noteq> 0" using assms by (auto simp: is_ring_def)
  moreover have "r_list (REMOVE_FROM_LIST x s) = y" using r by (simp add: is_ring_def)
  ultimately show "LIST_WHILE REMOVE_FROM_LIST s = Some (REMOVE_FROM_LIST x s)"
    by (simp add: LIST_WHILE_def list_do.simps)
qed

text \<open>A ring whose loop records the items it visits.\<close>

record logged = ring +
  r_seen :: "nat list"

definition empty_ring :: logged where
  "empty_ring = \<lparr>r_list = 0, r_prev = \<lambda>_. 0, r_next = \<lambda>_. 0, r_seen = []\<rparr>"

definition log_item :: "nat \<Rightarrow> logged \<Rightarrow> logged" where
  "log_item p s = s\<lparr>r_seen := r_seen s @ [p]\<rparr>"

theorem ring_refines_list_witness:
  "map_option r_seen (LIST_WHILE log_item (fold ring_step [Insert 8, Insert 4, Insert 6, Remove 8] empty_ring)) = Some [4, 6]"
proof -
  have seen: "r_seen (ring_step a s) = r_seen s" for a and s :: logged
    by (auto simp: ring_step_def INSERT_TO_LIST_def REMOVE_FROM_LIST_def set_prev_def set_next_def Let_def split: list_op.split)
  show ?thesis
    using ring_refines_list [of empty_ring "[Insert 8, Insert 4, Insert 6, Remove 8]" log_item]
    by (simp add: items_step_def log_item_def seen) (simp add: empty_ring_def)
qed

theorem removing_loop_stops_witness:
  "is_ring (REMOVE_FROM_LIST 8 (fold ring_step [Insert 8, Insert 4] empty_ring)) [4]"
proof -
  have "is_ring (fold ring_step [Insert 8, Insert 4] empty_ring) (fold items_step [Insert 8, Insert 4] [])"
    by (rule ring_ops) (simp_all add: is_ring_def empty_ring_def items_step_def)
  then have "is_ring (fold ring_step [Insert 8, Insert 4] empty_ring) [8, 4]" by (simp add: items_step_def)
  from removing_loop_stops [OF this] show ?thesis by blast
qed

end
