(* ===== verification/UthashSort.thy ===== *)
theory UthashSort
  imports Uthash
begin

text \<open>
  uthash.h, \<open>HASH_SRT\<close>: the merge sort of the elements in the order of addition, on the pointers
  of their handles. A handle is known by its address, 0 is \<open>NULL\<close>; an element and its handle have
  the same number, since they lie \<open>hho\<close> bytes apart. The comparison is a parameter.
\<close>

text \<open>\<open>o_list\<close> and \<open>o_tail\<close> are the ends of a chain: \<open>head\<close> and \<open>tbl->tail\<close> before and after the macro,
  \<open>_hs_list\<close> and \<open>_hs_tail\<close> in it.\<close>

record hh_order =
  o_list :: nat
  o_tail :: nat
  o_next :: "nat \<Rightarrow> nat"
  o_prev :: "nat \<Rightarrow> nat"

type_synonym cmpfcn = "nat \<Rightarrow> nat \<Rightarrow> int"


section \<open>The macro\<close>

definition srt_append :: "nat \<Rightarrow> hh_order \<Rightarrow> hh_order" where
  "srt_append e s =
    (let s' = (if o_tail s \<noteq> 0 then s\<lparr>o_next := (o_next s)(o_tail s := e)\<rparr> else s\<lparr>o_list := e\<rparr>);
         s' = (if e \<noteq> 0 then s'\<lparr>o_prev := (o_prev s')(e := (if o_tail s \<noteq> 0 then o_tail s else 0))\<rparr> else s')
     in s'\<lparr>o_tail := e\<rparr>)"

text \<open>The \<open>for\<close> loop that steps \<open>_hs_q\<close> over the first run.\<close>

fun srt_split :: "(nat \<Rightarrow> nat) \<Rightarrow> nat \<Rightarrow> nat \<Rightarrow> nat \<Rightarrow> nat \<times> nat" where
  "srt_split nx 0 q psize = (psize, q)"
| "srt_split nx (Suc i) q psize =
    (let psize = psize + 1; q = nx q in if q = 0 then (psize, q) else srt_split nx i q psize)"

text \<open>The merge of two runs; what is left is \<open>_hs_q\<close>, the start of the next one.\<close>

function srt_merge :: "cmpfcn \<Rightarrow> nat \<Rightarrow> nat \<Rightarrow> nat \<Rightarrow> nat \<Rightarrow> hh_order \<Rightarrow> nat \<times> hh_order" where
  "srt_merge cmp p psize q qsize s =
    (if psize > 0 \<or> (qsize > 0 \<and> q \<noteq> 0) then
       if psize = 0 then srt_merge cmp p psize (o_next s q) (qsize - 1) (srt_append q s)
       else if qsize = 0 \<or> q = 0 then
         srt_merge cmp (if p \<noteq> 0 then o_next s p else p) (psize - 1) q qsize (srt_append p s)
       else if cmp p q \<le> 0 then
         srt_merge cmp (if p \<noteq> 0 then o_next s p else p) (psize - 1) q qsize (srt_append p s)
       else srt_merge cmp p psize (o_next s q) (qsize - 1) (srt_append q s)
     else (q, s))"
  by pat_completeness auto
termination by (relation "measure (\<lambda>(cmp, p, psize, q, qsize, s). psize + qsize)") auto

declare srt_merge.simps [simp del]

text \<open>One pass over the list, counting the merges.\<close>

partial_function (option) srt_pass ::
  "cmpfcn \<Rightarrow> nat \<Rightarrow> nat \<Rightarrow> nat \<Rightarrow> hh_order \<Rightarrow> (nat \<times> hh_order) option" where
  "srt_pass cmp insize p nmerges s =
    (if p \<noteq> 0 then
       let (psize, q) = srt_split (o_next s) insize p 0;
           (q, s) = srt_merge cmp p psize q insize s
       in srt_pass cmp insize q (nmerges + 1) s
     else Some (nmerges, s))"

partial_function (option) srt_loop :: "cmpfcn \<Rightarrow> nat \<Rightarrow> hh_order \<Rightarrow> hh_order option" where
  "srt_loop cmp insize s =
    Option.bind (srt_pass cmp insize (o_list s) 0 (s\<lparr>o_list := 0, o_tail := 0\<rparr>)) (\<lambda>(nmerges, s).
      let s = (if o_tail s \<noteq> 0 then s\<lparr>o_next := (o_next s)(o_tail s := 0)\<rparr> else s)
      in if nmerges \<le> 1 then Some s else srt_loop cmp (insize * 2 mod 2 ^ 32) s)"

definition HASH_SRT :: "cmpfcn \<Rightarrow> hh_order \<Rightarrow> hh_order option" where
  "HASH_SRT cmp s = (if o_list s \<noteq> 0 then srt_loop cmp 1 s else Some s)"


section \<open>Sorting lists\<close>

text \<open>A comparison that is total and transitive, and the elements it does not tell apart.\<close>

definition cmp_ok :: "cmpfcn \<Rightarrow> bool" where
  "cmp_ok cmp \<longleftrightarrow> (\<forall>a b. cmp a b \<le> 0 \<or> cmp b a \<le> 0) \<and> (\<forall>a b c. cmp a b \<le> 0 \<longrightarrow> cmp b c \<le> 0 \<longrightarrow> cmp a c \<le> 0)"

abbreviation sorted_by :: "cmpfcn \<Rightarrow> nat list \<Rightarrow> bool" where
  "sorted_by cmp \<equiv> sorted_wrt (\<lambda>a b. cmp a b \<le> 0)"

definition same_rank :: "cmpfcn \<Rightarrow> nat \<Rightarrow> nat \<Rightarrow> bool" where
  "same_rank cmp a b \<longleftrightarrow> cmp a b \<le> 0 \<and> cmp b a \<le> 0"

fun merge_runs :: "cmpfcn \<Rightarrow> nat list \<Rightarrow> nat list \<Rightarrow> nat list" where
  "merge_runs cmp [] qs = qs"
| "merge_runs cmp (p # ps) [] = p # ps"
| "merge_runs cmp (p # ps) (q # qs) =
    (if cmp p q \<le> 0 then p # merge_runs cmp ps (q # qs) else q # merge_runs cmp (p # ps) qs)"

lemma mset_merge_runs [simp]: "mset (merge_runs cmp ps qs) = mset ps + mset qs"
  by (induction cmp ps qs rule: merge_runs.induct) auto

lemma set_merge_runs [simp]: "set (merge_runs cmp ps qs) = set ps \<union> set qs"
  by (metis mset_merge_runs set_mset_mset set_mset_union)

lemma length_merge_runs [simp]: "length (merge_runs cmp ps qs) = length ps + length qs"
  by (induction cmp ps qs rule: merge_runs.induct) auto

lemma cmp_trans: "cmp_ok cmp \<Longrightarrow> cmp a b \<le> 0 \<Longrightarrow> cmp b c \<le> 0 \<Longrightarrow> cmp a c \<le> 0"
  unfolding cmp_ok_def by blast

lemma cmp_flip: "cmp_ok cmp \<Longrightarrow> \<not> cmp a b \<le> 0 \<Longrightarrow> cmp b a \<le> 0"
  unfolding cmp_ok_def by blast

lemma sorted_merge_runs:
  "cmp_ok cmp \<Longrightarrow> sorted_by cmp ps \<Longrightarrow> sorted_by cmp qs \<Longrightarrow> sorted_by cmp (merge_runs cmp ps qs)"
proof (induction cmp ps qs rule: merge_runs.induct)
  case (3 cmp p ps q qs)
  show ?case
  proof (cases "cmp p q \<le> 0")
    case True
    have "cmp p y \<le> 0" if "y \<in> set (merge_runs cmp ps (q # qs))" for y
      using that True "3.prems" cmp_trans [OF "3.prems"(1) True, of y] by auto
    with "3.IH"(1) "3.prems" True show ?thesis by simp
  next
    case False
    note flip = cmp_flip [OF "3.prems"(1) False]
    have "cmp q y \<le> 0" if "y \<in> set (merge_runs cmp (p # ps) qs)" for y
      using that flip "3.prems" cmp_trans [OF "3.prems"(1) flip, of y] by auto
    with "3.IH"(2) "3.prems" False show ?thesis by simp
  qed
qed auto

text \<open>Elements of the same rank keep their order.\<close>

lemma stable_merge_runs:
  "cmp_ok cmp \<Longrightarrow> sorted_by cmp ps \<Longrightarrow>
    filter (same_rank cmp x) (merge_runs cmp ps qs) = filter (same_rank cmp x) ps @ filter (same_rank cmp x) qs"
proof (induction cmp ps qs rule: merge_runs.induct)
  case (3 cmp p ps q qs)
  show ?case
  proof (cases "cmp p q \<le> 0 \<or> \<not> same_rank cmp x q")
    case False
    have "\<not> same_rank cmp x y" if "y \<in> set (p # ps)" for y
    proof
      assume "same_rank cmp x y"
      with False have "cmp y q \<le> 0" using cmp_trans [OF "3.prems"(1), of y x q] by (simp add: same_rank_def)
      moreover have "cmp p y \<le> 0" using that "3.prems" cmp_flip [of cmp p p] by auto
      ultimately show False using False cmp_trans [OF "3.prems"(1)] by blast
    qed
    then have "filter (same_rank cmp x) (p # ps) = []" by (simp add: filter_empty_conv del: filter.simps)
    with 3 False show ?thesis by simp
  qed (use 3 in auto)
qed auto

text \<open>The pass over a list whose runs have length \<open>n\<close>, and the number of its merges.\<close>

function pass_list :: "cmpfcn \<Rightarrow> nat \<Rightarrow> nat list \<Rightarrow> nat list" where
  "pass_list cmp n xs =
    (if xs = [] \<or> n = 0 then xs
     else merge_runs cmp (take n xs) (take n (drop n xs)) @ pass_list cmp n (drop (2 * n) xs))"
  by pat_completeness auto
termination by (relation "measure (\<lambda>(cmp, n, xs). length xs)") auto

declare pass_list.simps [simp del]

function runs_sorted :: "cmpfcn \<Rightarrow> nat \<Rightarrow> nat list \<Rightarrow> bool" where
  "runs_sorted cmp n xs \<longleftrightarrow>
    (if xs = [] \<or> n = 0 then True else sorted_by cmp (take n xs) \<and> runs_sorted cmp n (drop n xs))"
  by pat_completeness auto
termination by (relation "measure (\<lambda>(cmp, n, xs). length xs)") auto

declare runs_sorted.simps [simp del]

lemma two_runs: "xs = take n xs @ take n (drop n xs) @ drop (2 * n) xs"
  using append_take_drop_id [of n xs] append_take_drop_id [of n "drop n xs"] by (simp add: mult_2)

lemma runs_sorted_two:
  "runs_sorted cmp n xs \<Longrightarrow> 0 < n \<Longrightarrow> sorted_by cmp (take n xs) \<and> sorted_by cmp (take n (drop n xs)) \<and> runs_sorted cmp n (drop (2 * n) xs)"
  using runs_sorted.simps [of cmp n xs] runs_sorted.simps [of cmp n "drop n xs"] runs_sorted.simps [of cmp n "[]"]
  by (cases "xs = []"; cases "drop n xs = []") (auto simp: mult_2)

lemma mset_pass_list: "mset (pass_list cmp n xs) = mset xs"
proof (induction cmp n xs rule: pass_list.induct)
  case (1 cmp n xs)
  show ?case
  proof (cases "xs = [] \<or> n = 0")
    case False
    have "mset xs = mset (take n xs @ take n (drop n xs) @ drop (2 * n) xs)" by (subst two_runs [of xs n]) (rule refl)
    also have "\<dots> = mset (pass_list cmp n xs)"
      unfolding mset_append by (subst pass_list.simps) (use 1 False in simp)
    finally show ?thesis ..
  qed (simp add: pass_list.simps)
qed

lemma runs_pass:
  "cmp_ok cmp \<Longrightarrow> runs_sorted cmp n xs \<Longrightarrow> 0 < n \<Longrightarrow> runs_sorted cmp (2 * n) (pass_list cmp n xs)"
proof (induction cmp n xs rule: pass_list.induct)
  case (1 cmp n xs)
  show ?case
  proof (cases "xs = []")
    case False
    let ?m = "merge_runs cmp (take n xs) (take n (drop n xs))" and ?r = "drop (2 * n) xs"
    have runs: "sorted_by cmp (take n xs)" "sorted_by cmp (take n (drop n xs))" "runs_sorted cmp n ?r"
      using runs_sorted_two "1.prems" by blast+
    have m: "sorted_by cmp ?m" using sorted_merge_runs "1.prems"(1) runs(1,2) by blast
    have rest: "runs_sorted cmp (2 * n) (pass_list cmp n ?r)" using "1.IH" "1.prems" False runs(3) by simp
    have p: "pass_list cmp n xs = ?m @ pass_list cmp n ?r" using False "1.prems" by (subst pass_list.simps) simp
    have cut: "take (2 * n) (?m @ pass_list cmp n ?r) = ?m \<and> drop (2 * n) (?m @ pass_list cmp n ?r) = pass_list cmp n ?r"
    proof (cases "?r = []")
      case True
      then show ?thesis by (simp add: pass_list.simps)
    next
      case False
      then show ?thesis by simp
    qed
    show ?thesis unfolding p by (subst runs_sorted.simps) (simp only: cut m rest simp_thms if_cancel)
  qed (simp add: pass_list.simps runs_sorted.simps)
qed

lemma stable_pass:
  "cmp_ok cmp \<Longrightarrow> runs_sorted cmp n xs \<Longrightarrow> filter (same_rank cmp x) (pass_list cmp n xs) = filter (same_rank cmp x) xs"
proof (induction cmp n xs rule: pass_list.induct)
  case (1 cmp n xs)
  show ?case
  proof (cases "xs = [] \<or> n = 0")
    case False
    let ?r = "drop (2 * n) xs"
    have runs: "sorted_by cmp (take n xs)" "runs_sorted cmp n ?r"
      using runs_sorted_two "1.prems" False by blast+
    have "filter (same_rank cmp x) xs = filter (same_rank cmp x) (take n xs @ take n (drop n xs) @ ?r)"
      by (subst two_runs [of xs n]) (rule refl)
    also have "\<dots> = filter (same_rank cmp x) (pass_list cmp n xs)"
      unfolding filter_append
      by (subst pass_list.simps) (simp add: False stable_merge_runs [OF "1.prems"(1) runs(1)] "1.IH" [OF False "1.prems"(1) runs(2)])
    finally show ?thesis ..
  qed (simp add: pass_list.simps)
qed


section \<open>Chains of pointers\<close>

fun path :: "(nat \<Rightarrow> nat) \<Rightarrow> nat \<Rightarrow> nat list \<Rightarrow> nat \<Rightarrow> bool" where
  "path nx p [] z \<longleftrightarrow> p = z"
| "path nx p (x # xs) z \<longleftrightarrow> p = x \<and> x \<noteq> 0 \<and> path nx (nx x) xs z"

text \<open>The chain built so far; the last handle's \<open>next\<close> is whatever it was.\<close>

definition built :: "hh_order \<Rightarrow> nat list \<Rightarrow> bool" where
  "built s xs \<longleftrightarrow>
    distinct xs \<and> 0 \<notin> set xs \<and> o_list s = (if xs = [] then 0 else hd xs) \<and> o_tail s = (if xs = [] then 0 else last xs) \<and>
    successively (\<lambda>x y. o_next s x = y \<and> o_prev s y = x) xs \<and> (xs \<noteq> [] \<longrightarrow> o_prev s (hd xs) = 0)"

text \<open>The elements of a table in their order.\<close>

definition in_order :: "hh_order \<Rightarrow> nat list \<Rightarrow> bool" where
  "in_order s xs \<longleftrightarrow> built s xs \<and> (xs \<noteq> [] \<longrightarrow> o_next s (last xs) = 0)"

lemma path_append: "path nx p (xs @ ys) z \<longleftrightarrow> (\<exists>m. path nx p xs m \<and> path nx m ys z)"
  by (induction xs arbitrary: p) auto

lemma path_cong: "path nx p xs z \<Longrightarrow> (\<And>x. x \<in> set xs \<Longrightarrow> nx' x = nx x) \<Longrightarrow> path nx' p xs z"
  by (induction xs arbitrary: p) auto

lemma path_zero: "path nx p xs 0 \<Longrightarrow> (p = 0) = (xs = [])"
  by (cases xs) auto

lemma built_append:
  assumes "built s xs" "e \<noteq> 0" "e \<notin> set xs"
  shows "built (srt_append e s) (xs @ [e])" "y \<notin> set xs \<Longrightarrow> o_next (srt_append e s) y = o_next s y"
proof -
  have t: "o_tail s = 0 \<longleftrightarrow> xs = []" using assms(1) by (cases xs rule: rev_cases) (auto simp: built_def)
  then have s: "o_next (srt_append e s) = (if xs = [] then o_next s else (o_next s)(last xs := e))"
    "o_prev (srt_append e s) = (o_prev s)(e := (if xs = [] then 0 else last xs))" "o_tail (srt_append e s) = e"
    "o_list (srt_append e s) = (if xs = [] then e else hd xs)"
    using assms by (auto simp: srt_append_def Let_def built_def)
  show "y \<notin> set xs \<Longrightarrow> o_next (srt_append e s) y = o_next s y" by (auto simp: s)
  show "built (srt_append e s) (xs @ [e])"
  proof (cases xs rule: rev_cases)
    case (snoc ys l)
    with assms have d: "l \<notin> set ys" "e \<notin> set ys" "e \<noteq> l" "l \<noteq> 0" by (auto simp: built_def)
    have "successively (\<lambda>x y. o_next (srt_append e s) x = y \<and> o_prev (srt_append e s) y = x) ys =
      successively (\<lambda>x y. o_next s x = y \<and> o_prev s y = x) ys"
      by (intro successively_cong refl) (use d snoc in \<open>auto simp: s\<close>)
    moreover have "ys \<noteq> [] \<Longrightarrow> last ys \<noteq> l \<and> hd ys \<noteq> e" using d by auto
    ultimately show ?thesis using assms snoc d s
      by (cases "ys = []") (auto simp: built_def successively_append_iff)
  qed (use assms(2) in \<open>simp add: built_def s\<close>)
qed

lemma srt_split_path:
  "path nx q xs 0 \<Longrightarrow> xs \<noteq> [] \<Longrightarrow>
    \<exists>q'. srt_split nx n q k = (k + min n (length xs), q') \<and> path nx q (take n xs) q' \<and> path nx q' (drop n xs) 0"
proof (induction n arbitrary: q xs k)
  case (Suc n)
  then obtain x ys where xs: "xs = x # ys" "q = x" "x \<noteq> 0" "path nx (nx x) ys 0" by (cases xs) auto
  show ?case
  proof (cases "ys = []")
    case False
    with path_zero [OF xs(4)] Suc.IH [OF xs(4), of "k + 1"] xs show ?thesis by auto
  qed (use xs in auto)
qed simp

lemma merge_runs_Nil [simp]: "merge_runs cmp ps [] = ps"
  by (cases ps) simp_all

text \<open>Appending an element that is next on its path keeps the paths of what is left.\<close>

lemma append_paths:
  assumes "built s out" "path (o_next s) x (x # xs) z" "distinct (out @ x # xs @ ys)" "path (o_next s) y ys z'"
  shows "built (srt_append x s) (out @ [x])" "path (o_next (srt_append x s)) (o_next s x) xs z"
    "path (o_next (srt_append x s)) y ys z'"
proof -
  have x: "x \<noteq> 0" "x \<notin> set out" "path (o_next s) (o_next s x) xs z" using assms(2,3) by auto
  note b = built_append [OF assms(1) x(1,2)]
  show "built (srt_append x s) (out @ [x])" by (fact b)
  show "path (o_next (srt_append x s)) (o_next s x) xs z" "path (o_next (srt_append x s)) y ys z'"
    using assms(3) by (auto intro!: path_cong [OF x(3)] path_cong [OF assms(4)] b(2))
qed

lemma srt_merge_built:
  "built s out \<Longrightarrow> path (o_next s) p ps z \<Longrightarrow> length ps = psize \<Longrightarrow> path (o_next s) q qs 0 \<Longrightarrow> distinct (out @ ps @ qs) \<Longrightarrow>
    \<exists>q' s'. srt_merge cmp p psize q qsize s = (q', s') \<and> built s' (out @ merge_runs cmp ps (take qsize qs)) \<and>
      path (o_next s') q' (drop qsize qs) 0"
proof (induction "psize + qsize" arbitrary: s out p ps psize q qs qsize rule: less_induct)
  case less
  note q0 = path_zero [OF less.prems(4)]
  consider (stop) "psize = 0" "qsize = 0 \<or> q = 0" | (p) "0 < psize" "qsize = 0 \<or> q = 0 \<or> cmp p q \<le> 0"
    | (q) "0 < qsize" "q \<noteq> 0" "psize = 0 \<or> \<not> cmp p q \<le> 0" by blast
  then show ?case
  proof cases
    case stop
    with less.prems q0 show ?thesis by (subst srt_merge.simps) auto
  next
    case p
    then obtain ps' where ps: "ps = p # ps'" "p \<noteq> 0" using less.prems(2,3) by (cases ps) auto
    have d: "distinct (out @ p # ps' @ qs)" using less.prems(5) ps by simp
    note a = append_paths [OF less.prems(1) less.prems(2) [unfolded ps(1)] d less.prems(4)]
    have m: "merge_runs cmp ps (take qsize qs) = p # merge_runs cmp ps' (take qsize qs)"
      using p(2) ps q0 less.prems(4) by (cases qs; cases qsize) auto
    have run: "srt_merge cmp p psize q qsize s = srt_merge cmp (o_next s p) (psize - 1) q qsize (srt_append p s)"
      using p ps by (subst srt_merge.simps) auto
    show ?thesis
      using less.hyps [of "psize - 1" qsize "srt_append p s" "out @ [p]" "o_next s p" ps' q qs, OF _ a(1,2) _ a(3)]
        p(1) ps less.prems(3,5) unfolding run m by auto
  next
    case q
    then obtain qs' where qs: "qs = q # qs'" using less.prems(4) by (cases qs) auto
    have d: "distinct (out @ q # qs' @ ps)" using less.prems(5) qs by auto
    note a = append_paths [OF less.prems(1) less.prems(4) [unfolded qs] d less.prems(2)]
    have m: "merge_runs cmp ps (take qsize qs) = q # merge_runs cmp ps (take (qsize - 1) qs')"
      using q(1,3) qs less.prems(2,3) by (cases ps; cases qsize) auto
    have run: "srt_merge cmp p psize q qsize s = srt_merge cmp p psize (o_next s q) (qsize - 1) (srt_append q s)"
      using q by (subst srt_merge.simps) auto
    have "drop qsize qs = drop (qsize - 1) qs'" using q(1) qs by (cases qsize) auto
    then show ?thesis
      using less.hyps [of psize "qsize - 1" "srt_append q s" "out @ [q]" p ps "o_next s q" qs', OF _ a(1,3) _ a(2)]
        q(1) qs less.prems(3,5) unfolding run m by auto
  qed
qed

function merges :: "nat \<Rightarrow> nat list \<Rightarrow> nat" where
  "merges n xs = (if xs = [] \<or> n = 0 then 0 else merges n (drop (2 * n) xs) + 1)"
  by pat_completeness auto
termination by (relation "measure (\<lambda>(n, xs). length xs)") auto

declare merges.simps [simp del]

lemma merges_one: "0 < n \<Longrightarrow> merges n xs \<le> Suc 0 \<longleftrightarrow> length xs \<le> 2 * n"
  by (subst merges.simps) (simp add: merges.simps [of n "drop (2 * n) xs"])

lemma srt_pass_built:
  "0 < n \<Longrightarrow> built s out \<Longrightarrow> path (o_next s) p xs 0 \<Longrightarrow> distinct (out @ xs) \<Longrightarrow>
    \<exists>s'. srt_pass cmp n p k s = Some (k + merges n xs, s') \<and> built s' (out @ pass_list cmp n xs)"
proof (induction cmp n xs arbitrary: s out p k rule: pass_list.induct)
  case (1 cmp n xs)
  show ?case
  proof (cases "xs = []")
    case True
    with 1 show ?thesis by (simp add: srt_pass.simps pass_list.simps merges.simps)
  next
    case False
    then have "p \<noteq> 0" using "1.prems"(3) path_zero by blast
    let ?ps = "take n xs" and ?qs = "drop n xs"
    from srt_split_path [OF "1.prems"(3) False, of n 0] obtain q where
      q: "srt_split (o_next s) n p 0 = (min n (length xs), q)" "path (o_next s) p ?ps q" "path (o_next s) q ?qs 0" by auto
    have "distinct (out @ ?ps @ ?qs)" using "1.prems"(4) by simp
    from srt_merge_built [OF "1.prems"(2) q(2) _ q(3) this, of "min n (length xs)" cmp n] obtain q' s1 where
      s1: "srt_merge cmp p (min n (length xs)) q n s = (q', s1)" "built s1 (out @ merge_runs cmp ?ps (take n ?qs))"
        "path (o_next s1) q' (drop (2 * n) xs) 0"
      by (auto simp: mult_2 min.commute)
    have "mset (out @ merge_runs cmp ?ps (take n ?qs) @ drop (2 * n) xs) = mset (out @ xs)"
      by (subst (3) two_runs [of xs n]) simp
    then have "distinct ((out @ merge_runs cmp ?ps (take n ?qs)) @ drop (2 * n) xs)"
      using "1.prems"(4) by (metis append.assoc mset_eq_imp_distinct_iff)
    with "1.IH" [OF _ "1.prems"(1) s1(2,3), of "k + 1"] False "1.prems"(1) obtain s2 where
      "srt_pass cmp n q' (k + 1) s1 = Some (k + 1 + merges n (drop (2 * n) xs), s2)"
      "built s2 ((out @ merge_runs cmp ?ps (take n ?qs)) @ pass_list cmp n (drop (2 * n) xs))" by auto
    then show ?thesis using \<open>p \<noteq> 0\<close> False "1.prems"(1) q(1) s1(1)
      by (subst srt_pass.simps, subst pass_list.simps, subst merges.simps) (simp add: Let_def)
  qed
qed

lemma built_path: "in_order s xs \<Longrightarrow> path (o_next s) (o_list s) xs 0"
proof -
  have *: "successively (\<lambda>x y. o_next s x = y \<and> o_prev s y = x) xs \<Longrightarrow> 0 \<notin> set xs \<Longrightarrow> xs \<noteq> [] \<Longrightarrow>
    path (o_next s) (hd xs) xs (o_next s (last xs))" for xs
    by (induction xs rule: induct_list012) auto
  then show "in_order s xs \<Longrightarrow> path (o_next s) (o_list s) xs 0"
    using * [of xs] by (cases "xs = []") (auto simp: in_order_def built_def)
qed

lemma built_end:
  assumes "built s xs"
  shows "in_order (if o_tail s \<noteq> 0 then s\<lparr>o_next := (o_next s)(o_tail s := 0)\<rparr> else s) xs"
proof (cases xs rule: rev_cases)
  case (snoc ys l)
  with assms have l: "l \<notin> set ys" "l \<noteq> 0" "o_tail s = l" by (auto simp: built_def)
  have "successively (\<lambda>x y. ((o_next s)(l := 0)) x = y \<and> o_prev s y = x) ys =
    successively (\<lambda>x y. o_next s x = y \<and> o_prev s y = x) ys"
    by (intro successively_cong refl) (use l in auto)
  moreover have "ys \<noteq> [] \<Longrightarrow> last ys \<noteq> l" using l(1) by auto
  ultimately show ?thesis using assms snoc l
    by (cases "ys = []") (auto simp: in_order_def built_def successively_append_iff)
qed (use assms in \<open>simp add: in_order_def built_def\<close>)

lemma srt_loop_sorts:
  "cmp_ok cmp \<Longrightarrow> in_order s xs \<Longrightarrow> runs_sorted cmp n xs \<Longrightarrow> 0 < n \<Longrightarrow> length xs < 2 ^ 32 \<Longrightarrow> n = 1 \<or> n < length xs \<Longrightarrow>
    \<exists>s' ys. srt_loop cmp n s = Some s' \<and> in_order s' ys \<and> mset ys = mset xs \<and> sorted_by cmp ys \<and>
      (\<forall>x. filter (same_rank cmp x) ys = filter (same_rank cmp x) xs)"
proof (induction "length xs - n" arbitrary: s xs n rule: less_induct)
  case less
  have "built (s\<lparr>o_list := 0, o_tail := 0\<rparr>) []" by (simp add: built_def)
  moreover have "path (o_next (s\<lparr>o_list := 0, o_tail := 0\<rparr>)) (o_list s) xs 0" using built_path less.prems(2) by simp
  moreover have "distinct ([] @ xs)" using less.prems(2) by (simp add: in_order_def built_def)
  ultimately obtain s1 where s1: "srt_pass cmp n (o_list s) 0 (s\<lparr>o_list := 0, o_tail := 0\<rparr>) = Some (merges n xs, s1)"
    "built s1 (pass_list cmp n xs)"
    using srt_pass_built [OF less.prems(4), of _ "[]" _ xs cmp 0] by fastforce
  let ?ys = "pass_list cmp n xs"
  define s2 where "s2 = (if o_tail s1 \<noteq> 0 then s1\<lparr>o_next := (o_next s1)(o_tail s1 := 0)\<rparr> else s1)"
  have ys: "mset ?ys = mset xs" "\<forall>x. filter (same_rank cmp x) ?ys = filter (same_rank cmp x) xs" "runs_sorted cmp (2 * n) ?ys"
    using mset_pass_list stable_pass [OF less.prems(1,3)] runs_pass [OF less.prems(1,3,4)] by auto
  then have len: "length ?ys = length xs" by (metis size_mset)
  have order: "in_order s2 ?ys" unfolding s2_def by (rule built_end [OF s1(2)])
  have run: "srt_loop cmp n s = (if merges n xs \<le> 1 then Some s2 else srt_loop cmp (n * 2 mod 2 ^ 32) s2)"
    by (subst srt_loop.simps) (simp add: s1(1) s2_def)
  show ?case
  proof (cases "length xs \<le> 2 * n")
    case True
    then have "sorted_by cmp ?ys" using ys(3) less.prems(4) len by (auto simp: runs_sorted.simps [of cmp "2 * n"] split: if_splits)
    moreover have "srt_loop cmp n s = Some s2" unfolding run using True merges_one [OF less.prems(4)] by simp
    ultimately show ?thesis using order ys(1,2) by blast
  next
    case False
    then have "n * 2 mod 2 ^ 32 = 2 * n" using less.prems(5) by simp
    with run False have run: "srt_loop cmp n s = srt_loop cmp (2 * n) s2" by (simp add: merges_one [OF less.prems(4)])
    from less.hyps [of ?ys "2 * n" s2, OF _ less.prems(1) order ys(3)] False less.prems(4,5) len ys(1,2)
    show ?thesis unfolding run by auto
  qed
qed

lemma runs_one: "runs_sorted cmp 1 xs"
proof (induction xs)
  case (Cons x xs)
  then show ?case by (subst runs_sorted.simps) simp
qed (simp add: runs_sorted.simps)


section \<open>Properties\<close>

text \<open>Sorting changes neither what the table holds nor what it finds.\<close>

lemma sorting_keeps_table:
  assumes "table_inv t" "mset hs = mset (app_order t)"
  shows "table_inv (t\<lparr>app_order := hs\<rparr>)" "HASH_FIND (Some (t\<lparr>app_order := hs\<rparr>)) key = HASH_FIND (Some t) key"
proof -
  have eq: "length hs = length (app_order t)" "set hs = set (app_order t)"
    using assms(2) mset_eq_length mset_eq_setD by blast+
  then have "hs = [] \<longleftrightarrow> app_order t = []" by auto
  moreover have "distinct (map hh_el hs) = distinct (map hh_el (app_order t))"
    by (rule mset_eq_imp_distinct_iff) (simp add: assms(2))
  ultimately show "table_inv (t\<lparr>app_order := hs\<rparr>)"
    using assms(1) eq by (auto simp: table_inv_def assms(2))
qed (simp add: HASH_FIND_def)

text \<open>C12: \<open>HASH_SRT\<close> sorts: on a table of fewer than $2^{32}$ elements and with a comparison that is total and transitive the
  macro ends, the handles are again one doubly linked chain from the head to the tail, of the same
  elements, in ascending order, and elements the comparison does not tell apart keep their order.\<close>

theorem HASH_SRT_sorts:
  assumes "cmp_ok cmp" "in_order s xs" "length xs < 2 ^ 32"
  shows "\<exists>s' ys. HASH_SRT cmp s = Some s' \<and> in_order s' ys \<and> mset ys = mset xs \<and> sorted_by cmp ys \<and>
    (\<forall>x. filter (same_rank cmp x) ys = filter (same_rank cmp x) xs)"
proof (cases "xs = []")
  case True
  with assms show ?thesis by (simp add: HASH_SRT_def in_order_def built_def)
next
  case False
  with assms(2) have "o_list s \<noteq> 0" unfolding in_order_def built_def by (metis hd_in_set)
  then show ?thesis using srt_loop_sorts [OF assms(1,2) runs_one _ assms(3)] by (simp add: HASH_SRT_def)
qed

text \<open>Three elements, compared by their number divided by ten.\<close>

definition sample_order :: hh_order where
  "sample_order = \<lparr>o_list = 21, o_tail = 22, o_next = (\<lambda>_. 0)(21 := 10, 10 := 22), o_prev = (\<lambda>_. 0)(10 := 21, 22 := 10)\<rparr>"

definition by_tens :: cmpfcn where
  "by_tens a b = int (a div 10) - int (b div 10)"

theorem HASH_SRT_sorts_witness:
  "\<exists>s'. HASH_SRT by_tens sample_order = Some s' \<and> in_order s' [10, 21, 22]"
proof -
  have "cmp_ok by_tens" by (auto simp: cmp_ok_def by_tens_def)
  moreover have "in_order sample_order [21, 10, 22]" by (simp add: in_order_def built_def sample_order_def)
  ultimately obtain s' ys where r: "HASH_SRT by_tens sample_order = Some s'" "in_order s' ys" "mset ys = mset [21, 10, 22]"
    "sorted_by by_tens ys" "\<forall>x. filter (same_rank by_tens x) ys = filter (same_rank by_tens x) [21, 10, 22]"
    using HASH_SRT_sorts [of by_tens sample_order "[21, 10, 22]"] by auto
  from r(3) have "length ys = 3" by (metis length_Cons list.size(3) numeral_3_eq_3 size_mset)
  then obtain a b c where "ys = [a, b, c]" by (auto simp: numeral_3_eq_3 length_Suc_conv)
  with r(3,4) spec [OF r(5), of 21] have "ys = [10, 21, 22]"
    by (auto simp: by_tens_def same_rank_def add_eq_conv_ex split: if_splits)
  with r show ?thesis by blast
qed

end
