(* ===== verification/UthashMore.thy ===== *)
theory UthashMore
  imports UthashSort
begin

text \<open>
  uthash.h, the macros the server does not use: replacing, counting and clearing, the iteration
  that survives deletions, \<open>HASH_SELECT\<close> on the order and on the buckets, the Bloom filter and the other hash functions. A \<open>char\<close> is signed.
\<close>


section \<open>Other hash functions\<close>

definition HASH_BER :: "bytes \<Rightarrow> u32" where
  "HASH_BER key = fold (\<lambda>b h. (push_bit 5 h + h) + scast b) key 0"

definition HASH_SAX :: "bytes \<Rightarrow> u32" where
  "HASH_SAX key = fold (\<lambda>b h. h XOR (push_bit 5 h + drop_bit 2 h + scast b)) key 0"

text \<open>Without braces the loop has one statement, and the multiplication comes after it.\<close>

definition HASH_FNV :: "bytes \<Rightarrow> u32" where
  "HASH_FNV key = fold (\<lambda>b h. h XOR scast b) key 2166136261 * 16777619"

definition HASH_OAT :: "bytes \<Rightarrow> u32" where
  "HASH_OAT key =
    (let h = fold (\<lambda>b h. let h = h + scast b; h = h + push_bit 10 h in h XOR drop_bit 6 h) key 0;
         h = h + push_bit 3 h; h = h XOR drop_bit 11 h
     in h + push_bit 15 h)"

text \<open>\<open>get16bits\<close> reads the two bytes as one little-endian word.\<close>

definition get16bits :: "bytes \<Rightarrow> nat \<Rightarrow> u32" where
  "get16bits d i = ucast (d ! i) + push_bit 8 (ucast (d ! (i + 1)))"

fun sfh_loop :: "bytes \<Rightarrow> u32 \<Rightarrow> bytes \<times> u32" where
  "sfh_loop (a # b # c # d # key) h =
    (let h = h + get16bits [a, b, c, d] 0;
         tmp = push_bit 11 (get16bits [a, b, c, d] 2) XOR h;
         h = push_bit 16 h XOR tmp
     in sfh_loop key (h + drop_bit 11 h))"
| "sfh_loop key h = (key, h)"

definition HASH_SFH :: "bytes \<Rightarrow> u32" where
  "HASH_SFH key =
    (case sfh_loop key 0xcafebabe of (k, h) \<Rightarrow>
       let h = (if length k = 3 then
                  let h = h + get16bits k 0; h = h XOR push_bit 16 h; h = h XOR push_bit 18 (ucast (k ! 2))
                  in h + drop_bit 11 h
                else if length k = 2 then
                  let h = h + get16bits k 0; h = h XOR push_bit 11 h in h + drop_bit 17 h
                else if length k = 1 then
                  let h = h + ucast (k ! 0); h = h XOR push_bit 10 h in h + drop_bit 1 h
                else h);
           h = h XOR push_bit 3 h; h = h + drop_bit 5 h;
           h = h XOR push_bit 4 h; h = h + drop_bit 17 h;
           h = h XOR push_bit 25 h
       in h + drop_bit 6 h)"

definition MUR_ROTL32 :: "u32 \<Rightarrow> nat \<Rightarrow> u32" where
  "MUR_ROTL32 x r = push_bit r x OR drop_bit (32 - r) x"

definition MUR_FMIX :: "u32 \<Rightarrow> u32" where
  "MUR_FMIX h =
    (let h = h XOR drop_bit 16 h; h = h * 0x85ebca6b;
         h = h XOR drop_bit 13 h; h = h * 0xc2b2ae35
     in h XOR drop_bit 16 h)"

definition mur_mix :: "u32 \<Rightarrow> u32" where
  "mur_mix k = MUR_ROTL32 (k * 0xcc9e2d51) 15 * 0x1b873593"

fun mur_loop :: "bytes \<Rightarrow> u32 \<Rightarrow> bytes \<times> u32" where
  "mur_loop (a # b # c # d # key) h =
    (let h = h XOR mur_mix (of_nat (le_val [a, b, c, d])); h = MUR_ROTL32 h 13
     in mur_loop key (h * 5 + 0xe6546b64))"
| "mur_loop key h = (key, h)"

definition HASH_MUR :: "bytes \<Rightarrow> u32" where
  "HASH_MUR key =
    (case mur_loop key 0xf88D5353 of (t, h) \<Rightarrow>
       let k = 0;
           k = (if length t \<ge> 3 then k XOR push_bit 16 (ucast (t ! 2)) else k);
           k = (if length t \<ge> 2 then k XOR push_bit 8 (ucast (t ! 1)) else k);
           h = (if length t \<ge> 1 then h XOR mur_mix (k XOR ucast (t ! 0)) else h)
       in MUR_FMIX (h XOR of_nat (length key)))"

text \<open>\<open>HASH_FNV\<close> cannot tell keys apart whose bytes are the same in another order.\<close>

lemma HASH_FNV_permuted: "mset k = mset l \<Longrightarrow> HASH_FNV k = HASH_FNV l"
proof -
  have "mset k = mset l \<Longrightarrow> fold (\<lambda>b h. h XOR scast b) k = (fold (\<lambda>b h. h XOR scast b) l :: u32 \<Rightarrow> u32)"
    by (rule fold_multiset_equiv) (auto simp: fun_eq_iff ac_simps)
  then show "mset k = mset l \<Longrightarrow> HASH_FNV k = HASH_FNV l" by (simp add: HASH_FNV_def)
qed


section \<open>The Bloom filter\<close>

text \<open>\<open>k\<close> is \<open>HASH_BLOOM\<close>, a number of bits.\<close>

definition HASH_BLOOM_BYTELEN :: "nat \<Rightarrow> nat" where
  "HASH_BLOOM_BYTELEN k = 2 ^ k div 8 + (if 2 ^ k mod 8 \<noteq> (0 :: nat) then 1 else 0)"

definition HASH_BLOOM_MAKE :: "nat \<Rightarrow> bytes" where
  "HASH_BLOOM_MAKE k = replicate (HASH_BLOOM_BYTELEN k) 0"

definition HASH_BLOOM_BITSET :: "bytes \<Rightarrow> nat \<Rightarrow> bytes" where
  "HASH_BLOOM_BITSET bv idx = bv[idx div 8 := bv ! (idx div 8) OR push_bit (idx mod 8) 1]"

definition HASH_BLOOM_BITTEST :: "bytes \<Rightarrow> nat \<Rightarrow> bool" where
  "HASH_BLOOM_BITTEST bv idx \<longleftrightarrow> bv ! (idx div 8) AND push_bit (idx mod 8) 1 \<noteq> 0"

definition bloom_index :: "nat \<Rightarrow> u32 \<Rightarrow> nat" where
  "bloom_index k h = unat (h AND of_nat (2 ^ k - 1))"

definition HASH_BLOOM_ADD :: "nat \<Rightarrow> u32 \<Rightarrow> bytes \<Rightarrow> bytes" where
  "HASH_BLOOM_ADD k h bv = HASH_BLOOM_BITSET bv (bloom_index k h)"

definition HASH_BLOOM_TEST :: "nat \<Rightarrow> bytes \<Rightarrow> u32 \<Rightarrow> bool" where
  "HASH_BLOOM_TEST k bv h \<longleftrightarrow> HASH_BLOOM_BITTEST bv (bloom_index k h)"

lemma bit_test: "HASH_BLOOM_BITTEST bv i \<longleftrightarrow> bit (bv ! (i div 8)) (i mod 8)"
proof -
  have "w AND push_bit n 1 = (if bit w n then push_bit n 1 else 0)" for w :: "8 word" and n
    by (rule bit_word_eqI) (auto simp: bit_simps)
  moreover have "push_bit (i mod 8) (1 :: 8 word) \<noteq> 0" by (simp add: push_bit_eq_mult)
  ultimately show ?thesis by (simp add: HASH_BLOOM_BITTEST_def)
qed

lemma byte_of_bit: "i < n \<Longrightarrow> i div 8 < n div 8 + (if n mod 8 \<noteq> 0 then 1 else (0 :: nat))"
proof (cases "n mod 8 = 0")
  case True
  assume "i < n"
  with True have "i < n div 8 * 8" using div_mult_mod_eq [of n 8] by simp
  with True show ?thesis using less_mult_imp_div_less [of i "n div 8" 8] by simp
next
  case False
  assume "i < n"
  with False show ?thesis using div_le_mono [of i n 8] by simp
qed

lemma bloom_in_bounds: "bloom_index k h div 8 < HASH_BLOOM_BYTELEN k"
proof -
  have "unat (of_nat n :: u32) \<le> n" for n by (simp add: unat_of_nat)
  from this [of "2 ^ k - 1"] have "unat (of_nat (2 ^ k - 1) :: u32) \<le> 2 ^ k - 1" .
  then have "bloom_index k h \<le> 2 ^ k - 1"
    unfolding bloom_index_def using word_and_le1 [of h "of_nat (2 ^ k - 1)"] by (auto simp: word_le_nat_alt)
  moreover have "0 < (2 :: nat) ^ k" by simp
  ultimately have "bloom_index k h < 2 ^ k" by linarith
  then show ?thesis unfolding HASH_BLOOM_BYTELEN_def by (rule byte_of_bit)
qed

lemma length_bloom_add: "length (HASH_BLOOM_ADD k h bv) = length bv"
  by (simp add: HASH_BLOOM_ADD_def HASH_BLOOM_BITSET_def)

lemma bloom_test_add:
  assumes "length bv = HASH_BLOOM_BYTELEN k"
  shows "HASH_BLOOM_TEST k (HASH_BLOOM_ADD k h bv) h' \<longleftrightarrow> bloom_index k h' = bloom_index k h \<or> HASH_BLOOM_TEST k bv h'"
proof -
  define i j where "i = bloom_index k h" and "j = bloom_index k h'"
  have i: "i div 8 < length bv" using bloom_in_bounds assms by (simp add: i_def)
  have "bit (bv[i div 8 := bv ! (i div 8) OR push_bit (i mod 8) 1] ! (j div 8)) (j mod 8) \<longleftrightarrow> j = i \<or> bit (bv ! (j div 8)) (j mod 8)"
  proof (cases "j div 8 = i div 8")
    case True
    then have "j mod 8 = i mod 8 \<longleftrightarrow> j = i" by (metis div_mult_mod_eq)
    moreover have "bit (push_bit n 1 :: 8 word) m \<longleftrightarrow> m = n \<and> m < 8" for n m by (auto simp: bit_simps)
    ultimately show ?thesis using i True by (auto simp: bit_or_iff)
  qed auto
  then show ?thesis
    by (simp add: HASH_BLOOM_TEST_def HASH_BLOOM_ADD_def HASH_BLOOM_BITSET_def bit_test flip: i_def j_def)
qed

text \<open>The filter says yes to exactly the hash values that share their low bits with one that was
  added: it never misses one.\<close>

lemma bloom_exact:
  "HASH_BLOOM_TEST k (fold (HASH_BLOOM_ADD k) hs (HASH_BLOOM_MAKE k)) h \<longleftrightarrow> bloom_index k h \<in> bloom_index k ` set hs"
proof -
  have "length bv = HASH_BLOOM_BYTELEN k \<Longrightarrow>
    HASH_BLOOM_TEST k (fold (HASH_BLOOM_ADD k) hs bv) h \<longleftrightarrow> bloom_index k h \<in> bloom_index k ` set hs \<or> HASH_BLOOM_TEST k bv h" for bv
    by (induction hs arbitrary: bv) (auto simp: length_bloom_add bloom_test_add)
  moreover have "\<not> HASH_BLOOM_TEST k (HASH_BLOOM_MAKE k) h"
    using bloom_in_bounds [of k h] by (simp add: HASH_BLOOM_TEST_def HASH_BLOOM_MAKE_def bit_test)
  ultimately show ?thesis by (simp add: HASH_BLOOM_MAKE_def)
qed


section \<open>Replacing, counting, clearing\<close>

text \<open>The element replaced, or \<open>None\<close>, and the table.\<close>

definition HASH_REPLACE :: "UT_hash_table option \<Rightarrow> bytes \<Rightarrow> nat \<Rightarrow> nat option \<times> UT_hash_table option" where
  "HASH_REPLACE head key add =
    (let replaced = HASH_FIND head key;
         head = (case replaced of None \<Rightarrow> head | Some p \<Rightarrow> HASH_DELETE head p)
     in (replaced, HASH_ADD head key add))"

definition HASH_CLEAR :: "UT_hash_table option \<Rightarrow> UT_hash_table option" where
  "HASH_CLEAR head = None"

definition HASH_CNT :: "UT_hash_table option \<Rightarrow> nat" where
  "HASH_CNT head = (case head of None \<Rightarrow> 0 | Some t \<Rightarrow> num_items t)"

context registry
begin

lemma keyed_replace:
  assumes "keyed t" "p \<notin> fst ` set (elems t)"
    and "t' = (case find t k of None \<Rightarrow> t | Some q \<Rightarrow> del t q)"
  shows "keyed (add t' k p) \<and> lookup (add t' k p) = (lookup t)(k \<mapsto> p)"
proof (cases "find t k")
  case None
  then have "k \<notin> snd ` set (elems t)" using assms(1) find_None by (simp add: keyed_def)
  from keyed_add [OF assms(1,2) this] None show ?thesis by (simp add: assms(3))
next
  case (Some q)
  then have q: "(q, k) \<in> set (elems t)" using assms(1) find_Some by (simp add: keyed_def)
  note d = keyed_del [OF assms(1) q]
  have "elems (del t q) = filter (\<lambda>m. fst m \<noteq> q) (elems t)"
    using assms(1) del_law q by (force simp: keyed_def)
  moreover have "(q', k) \<in> set (elems t) \<Longrightarrow> q' = q" for q'
    using assms(1) q by (auto simp: keyed_def intro: distinct_map_snd_eq)
  ultimately have "p \<notin> fst ` set (elems (del t q))" "k \<notin> snd ` set (elems (del t q))"
    using assms(2) by auto
  from keyed_add [OF d(1) this] d(2) Some show ?thesis by (simp add: assms(3))
qed

end

text \<open>Replacing updates the map; the old element, if there was one, is handed back.\<close>

lemma HASH_REPLACE_updates:
  assumes "uthash.keyed head" "p \<notin> fst ` set (members head)"
  shows "fst (HASH_REPLACE head key p) = uthash.lookup head key \<and>
    uthash.lookup (snd (HASH_REPLACE head key p)) = (uthash.lookup head)(key \<mapsto> p)"
  using uthash.keyed_replace [OF assms refl, of key] uthash.find_lookup [OF assms(1), of key]
  by (simp add: HASH_REPLACE_def Let_def)

lemma HASH_CNT_members: "hash_inv head \<Longrightarrow> HASH_CNT head = length (members head)"
  by (auto simp: HASH_CNT_def members_def hash_inv_def table_inv_def split: option.splits)


section \<open>The order of the elements\<close>

text \<open>What \<open>HASH_ADD\<close> and \<open>HASH_DELETE\<close> do to the chain of all elements. The last deletion frees the
  table with its tail.\<close>

definition order_add :: "nat \<Rightarrow> hh_order \<Rightarrow> hh_order" where
  "order_add e s =
    (let s = s\<lparr>o_next := (o_next s)(e := 0)\<rparr>
     in if o_list s = 0 then s\<lparr>o_list := e, o_prev := (o_prev s)(e := 0), o_tail := e\<rparr>
        else let s = s\<lparr>o_next := (o_next s)(o_tail s := e)\<rparr>;
                 s = s\<lparr>o_prev := (o_prev s)(e := o_tail s)\<rparr>
             in s\<lparr>o_tail := e\<rparr>)"

definition order_delete :: "nat \<Rightarrow> hh_order \<Rightarrow> hh_order" where
  "order_delete p s =
    (if o_prev s p = 0 \<and> o_next s p = 0 then s\<lparr>o_list := 0, o_tail := 0\<rparr>
     else
       let s = (if p = o_tail s then s\<lparr>o_tail := o_prev s p\<rparr> else s);
           s = (if o_prev s p \<noteq> 0 then s\<lparr>o_next := (o_next s)(o_prev s p := o_next s p)\<rparr>
                else s\<lparr>o_list := o_next s p\<rparr>)
       in if o_next s p \<noteq> 0 then s\<lparr>o_prev := (o_prev s)(o_next s p := o_prev s p)\<rparr> else s)"

text \<open>\<open>HASH_ITER\<close>: \<open>tmp\<close> is read before the body runs, so the body may delete its element.\<close>

partial_function (option) iter_loop ::
  "(nat \<Rightarrow> hh_order \<Rightarrow> hh_order) \<Rightarrow> nat \<Rightarrow> nat \<Rightarrow> hh_order \<Rightarrow> hh_order option" where
  "iter_loop body el tmp s =
    (if el \<noteq> 0 then
       let s = body el s; el = tmp; tmp = (if tmp \<noteq> 0 then o_next s tmp else 0)
       in iter_loop body el tmp s
     else Some s)"

definition HASH_ITER :: "(nat \<Rightarrow> hh_order \<Rightarrow> hh_order) \<Rightarrow> hh_order \<Rightarrow> hh_order option" where
  "HASH_ITER body s = iter_loop body (o_list s) (if o_list s \<noteq> 0 then o_next s (o_list s) else 0) s"

text \<open>\<open>HASH_SELECT\<close> into a table without elements, of the elements \<open>es\<close> its condition takes. The table
  is made, with its tail, at the first of them.\<close>

fun select_loop :: "nat \<Rightarrow> nat list \<Rightarrow> hh_order \<Rightarrow> hh_order" where
  "select_loop last_elt [] s = s"
| "select_loop last_elt (e # es) s =
    (let s = s\<lparr>o_prev := (o_prev s)(e := last_elt)\<rparr>;
         s = s\<lparr>o_next := (o_next s)(e := 0)\<rparr>;
         s = (if last_elt \<noteq> 0 then s\<lparr>o_next := (o_next s)(last_elt := e)\<rparr> else s);
         s = (if o_list s = 0 then s\<lparr>o_list := e, o_tail := e\<rparr> else s)
     in select_loop e es s)"

definition HASH_SELECT :: "nat list \<Rightarrow> hh_order \<Rightarrow> hh_order" where
  "HASH_SELECT es s = select_loop 0 es s"

text \<open>The neighbours of an element.\<close>

definition links :: "hh_order \<Rightarrow> nat \<Rightarrow> nat \<Rightarrow> bool" where
  "links s x y \<longleftrightarrow> o_next s x = y \<and> o_prev s y = x"

lemma in_order_iff:
  "in_order s xs \<longleftrightarrow>
    distinct xs \<and> 0 \<notin> set xs \<and> o_list s = (if xs = [] then 0 else hd xs) \<and> o_tail s = (if xs = [] then 0 else last xs) \<and>
    successively (links s) xs \<and> (xs \<noteq> [] \<longrightarrow> o_prev s (hd xs) = 0 \<and> o_next s (last xs) = 0)"
  unfolding in_order_def built_def links_def by auto

lemma neighbours:
  assumes "in_order s (as @ p # bs)"
  shows "o_prev s p = (if as = [] then 0 else last as)" "o_next s p = (if bs = [] then 0 else hd bs)"
  using assms unfolding in_order_iff by (auto simp: successively_append_iff successively_Cons links_def split: if_splits)

lemma order_add_in_order:
  assumes "in_order s xs" "e \<noteq> 0" "e \<notin> set xs"
  shows "in_order (order_add e s) (xs @ [e])"
proof (cases xs rule: rev_cases)
  case Nil
  with assms show ?thesis by (simp add: in_order_iff order_add_def)
next
  case (snoc ys l)
  with assms have d: "l \<notin> set ys" "e \<notin> set ys" "e \<noteq> l" "l \<noteq> 0" by (auto simp: in_order_iff)
  have s: "o_tail s = l" "o_list s \<noteq> 0" "o_list s = hd xs"
    using assms(1) snoc by (cases ys; auto simp: in_order_iff)+
  then have a: "o_list (order_add e s) = hd xs" "o_tail (order_add e s) = e"
    "o_next (order_add e s) = (o_next s)(e := 0, l := e)" "o_prev (order_add e s) = (o_prev s)(e := l)"
    by (simp_all add: order_add_def Let_def)
  have "successively (links (order_add e s)) ys = successively (links s) ys"
    by (intro successively_cong refl) (use d in \<open>auto simp: links_def a\<close>)
  moreover have "ys \<noteq> [] \<Longrightarrow> last ys \<noteq> l \<and> last ys \<noteq> e \<and> hd ys \<noteq> e" using d by auto
  ultimately show ?thesis using assms(1,2) snoc d a
    by (cases "ys = []") (auto simp: in_order_iff successively_append_iff links_def)
qed

lemma order_links_cong:
  "successively (links s) xs \<Longrightarrow> (\<And>x. x \<in> set (butlast xs) \<Longrightarrow> o_next s' x = o_next s x) \<Longrightarrow>
    (\<And>x. x \<in> set (tl xs) \<Longrightarrow> o_prev s' x = o_prev s x) \<Longrightarrow> successively (links s') xs"
proof (induction xs rule: induct_list012)
  case (3 x y zs)
  then show ?case by (cases zs) (auto simp: links_def)
qed auto

lemma order_delete_in_order:
  assumes "in_order s (as @ p # bs)"
  shows "in_order (order_delete p s) (as @ bs)"
proof (cases "as @ bs = []")
  case True
  with assms show ?thesis by (simp add: in_order_iff order_delete_def)
next
  case False
  note n = neighbours [OF assms]
  have d: "distinct (as @ p # bs)" "0 \<notin> set (as @ p # bs)" using assms unfolding in_order_iff by blast+
  have end_neq: "xs \<noteq> [] \<Longrightarrow> x \<notin> set xs \<Longrightarrow> last xs \<noteq> x \<and> hd xs \<noteq> x" for xs :: "nat list" and x
    by (metis last_in_set hd_in_set)
  have z: "as \<noteq> [] \<Longrightarrow> last as \<noteq> 0" "bs \<noteq> [] \<Longrightarrow> hd bs \<noteq> 0" "bs \<noteq> [] \<Longrightarrow> last bs \<noteq> p" "as \<noteq> [] \<Longrightarrow> last as \<noteq> p"
    using d end_neq by simp_all
  have t: "o_tail s = (if bs = [] then p else last bs)" "o_list s = (if as = [] then p else hd as)"
    using assms unfolding in_order_iff by (auto simp: hd_append)
  let ?s = "order_delete p s"
  have a: "o_next ?s = (if as = [] then o_next s else (o_next s)(last as := (if bs = [] then 0 else hd bs)))"
    "o_prev ?s = (if bs = [] then o_prev s else (o_prev s)(hd bs := (if as = [] then 0 else last as)))"
    "o_list ?s = (if as = [] then hd bs else hd as)" "o_tail ?s = (if bs = [] then last as else last bs)"
    using False n z t by (cases "as = []"; cases "bs = []"; simp add: order_delete_def Let_def)+
  have l: "successively (links s) as" "successively (links s) bs"
    using assms unfolding in_order_iff by (auto simp: successively_append_iff successively_Cons)
  have "successively (links ?s) as"
  proof (rule order_links_cong [OF l(1)])
    fix x assume x: "x \<in> set (butlast as)"
    then have "x \<noteq> last as" using d(1) by (cases as rule: rev_cases) auto
    then show "o_next ?s x = o_next s x" by (simp add: a)
  next
    fix x assume "x \<in> set (tl as)"
    then have "bs \<noteq> [] \<Longrightarrow> x \<noteq> hd bs" using d(1) by (cases as; cases bs) auto
    then show "o_prev ?s x = o_prev s x" by (simp add: a)
  qed
  moreover have "successively (links ?s) bs"
  proof (rule order_links_cong [OF l(2)])
    fix x assume "x \<in> set (butlast bs)"
    then have "x \<in> set bs" by (rule in_set_butlastD)
    then have "as \<noteq> [] \<Longrightarrow> x \<noteq> last as" using d(1) end_neq [of as x] by auto
    then show "o_next ?s x = o_next s x" by (simp add: a)
  next
    fix x assume "x \<in> set (tl bs)"
    then have "x \<noteq> hd bs" using d(1) by (cases bs) auto
    then show "o_prev ?s x = o_prev s x" by (simp add: a)
  qed
  moreover have "bs \<noteq> [] \<Longrightarrow> as \<noteq> [] \<Longrightarrow> last bs \<noteq> last as \<and> hd as \<noteq> hd bs"
  proof -
    assume "bs \<noteq> []" "as \<noteq> []"
    then have "last as \<in> set as" "hd as \<in> set as" by simp_all
    then have "last as \<notin> set bs" "hd as \<notin> set bs" using d(1) by auto
    with \<open>bs \<noteq> []\<close> show ?thesis using end_neq by metis
  qed
  moreover have "as \<noteq> [] \<Longrightarrow> o_prev s (hd as) = 0" "bs \<noteq> [] \<Longrightarrow> o_next s (last bs) = 0"
    using assms unfolding in_order_iff by (auto simp: hd_append)
  ultimately show ?thesis
    using False d unfolding in_order_iff
    by (cases "as = []"; cases "bs = []"; simp add: a successively_append_iff links_def)
qed

text \<open>The loop visits every element, whether or not its body deletes the one it is at.\<close>

lemma iter_deleting:
  "in_order s (kept @ rest) \<Longrightarrow>
    \<exists>s'. iter_loop (\<lambda>p s. if gone p then order_delete p s else s) (if rest = [] then 0 else hd rest)
        (if rest = [] \<or> tl rest = [] then 0 else hd (tl rest)) s = Some s' \<and>
      in_order s' (kept @ filter (\<lambda>p. \<not> gone p) rest)"
proof (induction rest arbitrary: s kept)
  case Nil
  then show ?case by (simp add: iter_loop.simps)
next
  case (Cons p rest)
  let ?s = "if gone p then order_delete p s else s" and ?kept = "if gone p then kept else kept @ [p]"
  have p: "p \<noteq> 0" using Cons.prems by (auto simp: in_order_iff)
  have s: "in_order ?s (?kept @ rest)" using Cons.prems order_delete_in_order by simp
  have tmp: "(if (if rest = [] then 0 else hd rest) \<noteq> 0 then o_next ?s (if rest = [] then 0 else hd rest) else 0) =
    (if rest = [] \<or> tl rest = [] then 0 else hd (tl rest))"
  proof (cases rest)
    case (Cons y ys)
    have "y \<noteq> 0" using s Cons by (auto simp: in_order_iff)
    moreover have "o_next ?s y = (if ys = [] then 0 else hd ys)" using neighbours(2) [of ?s ?kept y ys] s Cons by simp
    ultimately show ?thesis using Cons by simp
  qed simp
  from Cons.IH [OF s] obtain s' where "iter_loop (\<lambda>p s. if gone p then order_delete p s else s) (if rest = [] then 0 else hd rest)
      (if rest = [] \<or> tl rest = [] then 0 else hd (tl rest)) ?s = Some s'" "in_order s' (?kept @ filter (\<lambda>p. \<not> gone p) rest)" by blast
  then show ?case using p tmp by (subst iter_loop.simps) (auto simp: Let_def)
qed

lemma HASH_ITER_deleting:
  assumes "in_order s xs"
  shows "\<exists>s'. HASH_ITER (\<lambda>p s. if gone p then order_delete p s else s) s = Some s' \<and> in_order s' (filter (\<lambda>p. \<not> gone p) xs)"
proof -
  have "o_list s = (if xs = [] then 0 else hd xs)" using assms by (simp add: in_order_iff)
  moreover have "(if o_list s \<noteq> 0 then o_next s (o_list s) else 0) = (if xs = [] \<or> tl xs = [] then 0 else hd (tl xs))"
    using assms neighbours(2) [of s "[]" "hd xs" "tl xs"] by (cases xs) (auto simp: in_order_iff)
  ultimately show ?thesis using iter_deleting [of s "[]" xs gone] assms by (simp add: HASH_ITER_def)
qed

text \<open>An element added after \<open>HASH_SELECT\<close> goes behind the first selected one and cuts the others off.\<close>

lemma select_then_add:
  assumes "distinct [a, b, c]" "0 \<notin> {a, b, c}" "o_list s = 0"
  shows "path (o_next (order_add c (HASH_SELECT [a, b] s))) (o_list (order_add c (HASH_SELECT [a, b] s))) [a, c] 0"
  using assms by (auto simp: HASH_SELECT_def order_add_def Let_def)


section \<open>HASH_SELECT on the buckets\<close>

text \<open>The handles of the elements the condition takes, in the order of the loops over the buckets of
  \<open>src\<close>; a handle of \<open>dst\<close> gets the key and the hash value of that of \<open>src\<close>.\<close>

definition select_src :: "(nat \<Rightarrow> bool) \<Rightarrow> UT_hash_table option \<Rightarrow> UT_hash_handle list" where
  "select_src cond src =
    (case src of
       None \<Rightarrow> []
     | Some t \<Rightarrow> concat (map (\<lambda>b. filter (\<lambda>h. cond (hh_el h)) (chain b)) (buckets t)))"

text \<open>The chain in application order goes on from the last selected element. It is that of \<open>dst\<close>, so that
  \<open>linked\<close> holds, only when the table was made for the first of them.\<close>

fun select_into :: "bool \<Rightarrow> UT_hash_handle list \<Rightarrow> UT_hash_table option \<Rightarrow> UT_hash_table option" where
  "select_into linked [] dst = dst"
| "select_into linked (h # hs) dst =
    (let t = (case dst of
                None \<Rightarrow> HASH_MAKE_TABLE h
              | Some t \<Rightarrow> if linked then t\<lparr>app_order := app_order t @ [h]\<rparr> else t);
         t = HASH_ADD_TO_BKT t (HASH_TO_BKT (hashv h) (num_buckets t)) h;
         t = t\<lparr>num_items := num_items t + 1\<rparr>
     in select_into (linked \<or> dst = None) hs (Some t))"

definition HASH_SELECT_TBL :: "(nat \<Rightarrow> bool) \<Rightarrow> UT_hash_table option \<Rightarrow> UT_hash_table option \<Rightarrow> UT_hash_table option" where
  "HASH_SELECT_TBL cond src dst = select_into False (select_src cond src) dst"

lemma select_src_set:
  "hash_inv src \<Longrightarrow> mset (select_src cond src) =
    (case src of None \<Rightarrow> {#} | Some t \<Rightarrow> filter_mset (\<lambda>h. cond (hh_el h)) (mset (app_order t)))"
proof (cases src)
  case (Some t)
  assume "hash_inv src"
  with Some have "mset (concat (map chain (buckets t))) = mset (app_order t)"
    by (auto simp: hash_inv_def table_inv_def intro: buckets_ok_all)
  moreover have "concat (map (\<lambda>b. filter P (chain b)) bs) = filter P (concat (map chain bs))" for P and bs :: "UT_hash_bucket list"
    by (induction bs) simp_all
  ultimately show ?thesis by (simp add: Some select_src_def)
qed (simp add: select_src_def)

text \<open>One selected element.\<close>

lemma select_into_step:
  assumes "case dst of None \<Rightarrow> True | Some t \<Rightarrow> table_inv t \<and> linked"
    "distinct (map hh_el ((case dst of None \<Rightarrow> [] | Some t \<Rightarrow> app_order t) @ [h]))" "hashv h = HASH_JEN (hh_key h)"
  shows "\<exists>t. select_into linked (h # hs) dst = select_into True hs (Some t) \<and> table_inv t \<and>
    app_order t = (case dst of None \<Rightarrow> [] | Some t \<Rightarrow> app_order t) @ [h]"
proof -
  define old where "old = (case dst of None \<Rightarrow> [] | Some t \<Rightarrow> app_order t)"
  define t where "t = (case dst of None \<Rightarrow> HASH_MAKE_TABLE h | Some t \<Rightarrow> if linked then t\<lparr>app_order := app_order t @ [h]\<rparr> else t)"
  define i where "i = HASH_TO_BKT (hashv h) (num_buckets t)"
  define v where "v = HASH_ADD_TO_BKT t i h"
  have t: "num_buckets t = 2 ^ log2_num_buckets t" "buckets_ok (buckets t) (num_buckets t) (mset old)"
    "app_order t = old @ [h]" "num_items t = length old" "\<forall>h \<in> set old. hashv h = HASH_JEN (hh_key h)"
    using assms(1) buckets_ok_empty [of 32]
    by (auto simp: t_def old_def HASH_MAKE_TABLE_def table_inv_def split: option.splits)
  have v: "num_buckets v = 2 ^ log2_num_buckets v" "buckets_ok (buckets v) (num_buckets v) (add_mset h (mset old))"
    "app_order v = old @ [h]" "num_items v = length old"
    using HASH_ADD_TO_BKT_inv [OF t(1,2) i_def] t(3,4) unfolding v_def by simp_all
  have "linked \<or> dst = None" using assms(1) by (cases dst) auto
  then have "select_into linked (h # hs) dst = select_into True hs (Some (v\<lparr>num_items := num_items v + 1\<rparr>))"
    by (simp add: t_def v_def i_def Let_def)
  moreover have "table_inv (v\<lparr>num_items := num_items v + 1\<rparr>)"
    using v t(5) assms(2,3) unfolding table_inv_def old_def [symmetric] by simp
  ultimately show ?thesis using v(3) by (intro exI [of _ "v\<lparr>num_items := num_items v + 1\<rparr>"]) (simp add: old_def)
qed

lemma select_into_linked:
  assumes "table_inv t" "distinct (map hh_el (app_order t @ hs))" "\<forall>h \<in> set hs. hashv h = HASH_JEN (hh_key h)"
  shows "\<exists>u. select_into True hs (Some t) = Some u \<and> table_inv u \<and> app_order u = app_order t @ hs"
  using assms
proof (induction hs arbitrary: t)
  case (Cons h hs)
  from select_into_step [where dst = "Some t" and linked = True and h = h and hs = hs] Cons.prems obtain v where
    v: "select_into True (h # hs) (Some t) = select_into True hs (Some v)" "table_inv v" "app_order v = app_order t @ [h]"
    by auto
  from Cons.IH [OF v(2)] v(1,3) Cons.prems(2,3) show ?case by simp
qed simp

lemma HASH_SELECT_TBL_inv:
  assumes "hash_inv src"
  shows "hash_inv (HASH_SELECT_TBL cond src None)"
    "mset (members (HASH_SELECT_TBL cond src None)) = filter_mset (\<lambda>m. cond (fst m)) (mset (members src))"
proof -
  let ?hs = "select_src cond src"
  have m: "mset ?hs = (case src of None \<Rightarrow> {#} | Some t \<Rightarrow> filter_mset (\<lambda>h. cond (hh_el h)) (mset (app_order t)))"
    by (rule select_src_set [OF assms])
  then have "set_mset (mset ?hs) = set_mset (case src of None \<Rightarrow> {#} | Some t \<Rightarrow> filter_mset (\<lambda>h. cond (hh_el h)) (mset (app_order t)))"
    by (rule arg_cong)
  then have h: "\<forall>h \<in> set ?hs. hashv h = HASH_JEN (hh_key h)"
    using assms by (auto simp: hash_inv_def table_inv_def split: option.splits)
  have d: "distinct (map hh_el ?hs)"
  proof (cases src)
    case (Some t)
    with m have "mset (map hh_el ?hs) = mset (map hh_el (filter (\<lambda>h. cond (hh_el h)) (app_order t)))" by simp
    then have "distinct (map hh_el ?hs) \<longleftrightarrow> distinct (map hh_el (filter (\<lambda>h. cond (hh_el h)) (app_order t)))"
      by (rule mset_eq_imp_distinct_iff)
    with assms Some show ?thesis by (simp add: hash_inv_def table_inv_def distinct_map_filter)
  qed (simp add: select_src_def)
  have "hash_inv (HASH_SELECT_TBL cond src None) \<and>
    members (HASH_SELECT_TBL cond src None) = map (\<lambda>h. (hh_el h, hh_key h)) ?hs"
  proof (cases ?hs)
    case Nil
    then show ?thesis by (simp add: HASH_SELECT_TBL_def hash_inv_def members_def)
  next
    case (Cons a hs)
    with select_into_step [where dst = None and linked = False and h = a and hs = hs] h obtain t where
      t: "select_into False ?hs None = select_into True hs (Some t)" "table_inv t" "app_order t = [a]" by auto
    from select_into_linked [OF t(2), of hs] t(3) d h Cons obtain u where
      "select_into True hs (Some t) = Some u" "table_inv u" "app_order u = a # hs" by auto
    with t(1) Cons show ?thesis by (simp add: HASH_SELECT_TBL_def hash_inv_def members_def)
  qed
  then have s: "hash_inv (HASH_SELECT_TBL cond src None)"
    "mset (members (HASH_SELECT_TBL cond src None)) = image_mset (\<lambda>h. (hh_el h, hh_key h)) (mset ?hs)" by simp_all
  show "hash_inv (HASH_SELECT_TBL cond src None)" by (rule s(1))
  show "mset (members (HASH_SELECT_TBL cond src None)) = filter_mset (\<lambda>m. cond (fst m)) (mset (members src))"
    unfolding s(2) m members_def [of src] by (cases src) (simp_all add: filter_mset_image_mset o_def)
qed

text \<open>The new table answers like the old one for the selected elements, and for no others.\<close>

lemma HASH_SELECT_find:
  assumes "uthash.keyed src"
  shows "HASH_FIND (HASH_SELECT_TBL cond src None) key =
    (case HASH_FIND src key of None \<Rightarrow> None | Some p \<Rightarrow> if cond p then Some p else None)"
proof -
  let ?dst = "HASH_SELECT_TBL cond src None"
  have inv: "hash_inv src" using assms by (simp add: uthash.keyed_def)
  note s = HASH_SELECT_TBL_inv [OF inv, of cond]
  have m: "set (members ?dst) = {m \<in> set (members src). cond (fst m)}"
    using arg_cong [OF s(2), of set_mset] by simp
  have only: "HASH_FIND src key = Some p" if "(p, key) \<in> set (members src)" for p
    using that assms uthash.find_lookup [OF assms] uthash.lookup_iff [OF assms] by metis
  show ?thesis
  proof (cases "HASH_FIND ?dst key")
    case None
    then have "key \<notin> snd ` set (members ?dst)" using s(1) by (simp add: HASH_FIND_None)
    with m have "\<not> cond p" if "HASH_FIND src key = Some p" for p
      using HASH_FIND_Some [OF inv that] by force
    with None show ?thesis by (auto split: option.split)
  next
    case (Some p)
    then have "(p, key) \<in> set (members src)" "cond p" using HASH_FIND_Some [OF s(1)] m by auto
    with only Some show ?thesis by simp
  qed
qed

text \<open>Into a table that has elements already: the selected ones are found by their keys, but no iteration
  reaches them.\<close>

lemma app_order_ADD_TO_BKT: "app_order (HASH_ADD_TO_BKT t i h) = app_order t"
  by (simp add: HASH_ADD_TO_BKT_def HASH_EXPAND_BUCKETS_def Let_def split_beta)

lemma select_into_used:
  "\<exists>t. select_into False (h # hs) (Some u) = select_into False hs (Some t) \<and> app_order t = app_order u"
  by (rule exI, rule conjI, simp add: Let_def) (simp add: app_order_ADD_TO_BKT)

lemma HASH_SELECT_unreachable: "members (HASH_SELECT_TBL cond src (Some t)) = members (Some t)"
proof -
  have "members (select_into False hs (Some t)) = members (Some t)" for hs
  proof (induction hs arbitrary: t)
    case (Cons h hs)
    obtain u where "select_into False (h # hs) (Some t) = select_into False hs (Some u)" "app_order u = app_order t"
      using select_into_used by blast
    with Cons.IH [of u] show ?case by (simp add: members_def)
  qed simp
  then show ?thesis by (simp add: HASH_SELECT_TBL_def)
qed

end
