(* ===== verification/Auxiliar.thy ===== *)
theory Auxiliar
  imports Buffer Utils
begin

text \<open>
  auxiliar.c: classes and groups of userdata. A class is a metatable in the registry, under its
  name; a group is a field of the metatables of its classes. \<open>meta\<close> gives the name of the
  metatable of the userdata at an address.
\<close>

record metatable =
  mt_fields :: "bytes \<rightharpoonup> lua_value"
  mt_index :: "(bytes \<rightharpoonup> lua_value) option"

record aux_sys = buf_sys +
  registry :: "bytes \<rightharpoonup> metatable"
  meta :: "nat \<rightharpoonup> bytes"

text \<open>\<open>luaL_typename\<close> of an argument, and \<open>%p\<close>.\<close>

definition typename :: "lua_value option \<Rightarrow> bytes" where
  "typename v =
    (case v of
       None \<Rightarrow> lit ''no value''
     | Some LNil \<Rightarrow> lit ''nil''
     | Some (LBool b) \<Rightarrow> lit ''boolean''
     | Some (LNum x) \<Rightarrow> lit ''number''
     | Some (LStr s) \<Rightarrow> lit ''string''
     | Some (LTable t) \<Rightarrow> lit ''table''
     | Some (LUserdata p) \<Rightarrow> lit ''userdata''
     | Some (LFunction f) \<Rightarrow> lit ''function'')"

definition fmt_p :: "nat \<Rightarrow> bytes" where
  "fmt_p p = map (\<lambda>i. lit ''0123456789ABCDEF'' ! (p div 16 ^ (7 - i) mod 16)) [0..<8]"


section \<open>Classes and groups\<close>

text \<open>Methods whose names start with an underscore go to the metatable, the others to its \<open>__index\<close>.\<close>

definition add_method :: "bytes \<times> lua_value \<Rightarrow> metatable \<Rightarrow> metatable" where
  "add_method nf mt =
    (case nf of (name, f) \<Rightarrow>
       if name \<noteq> [] \<and> hd name = of_char CHR ''_'' then mt\<lparr>mt_fields := (mt_fields mt)(name \<mapsto> f)\<rparr>
       else mt\<lparr>mt_index := Some ((case mt_index mt of None \<Rightarrow> Map.empty | Some it \<Rightarrow> it)(name \<mapsto> f))\<rparr>)"

definition auxiliar_newclass :: "bytes \<Rightarrow> (bytes \<times> lua_value) list \<Rightarrow> ('m aux_sys_scheme, unit) act" where
  "auxiliar_newclass classname func =
    act_put (\<lambda>s.
      let mt = (case registry s classname of
                  None \<Rightarrow> \<lparr>mt_fields = Map.empty, mt_index = None\<rparr>
                | Some mt \<Rightarrow> mt);
          mt = mt\<lparr>mt_index := Some [lit ''class'' \<mapsto> LStr classname]\<rparr>
      in s\<lparr>registry := (registry s)(classname \<mapsto> fold add_method func mt)\<rparr>)"

definition auxiliar_add2group :: "bytes \<Rightarrow> bytes \<Rightarrow> ('m aux_sys_scheme, unit) act" where
  "auxiliar_add2group classname groupname =
    act_bind (act_get registry) (\<lambda>reg.
      case reg classname of
        None \<Rightarrow> act_error (Undefined (lit ''lua_rawset on nil''))
      | Some mt \<Rightarrow>
          act_put (\<lambda>s. s\<lparr>registry := reg(classname \<mapsto> mt\<lparr>mt_fields := (mt_fields mt)(groupname \<mapsto> LBool True)\<rparr>)\<rparr>))"

definition auxiliar_setclass :: "bytes \<Rightarrow> nat \<Rightarrow> ('m aux_sys_scheme, unit) act" where
  "auxiliar_setclass classname p =
    act_put (\<lambda>s. s\<lparr>meta := (meta s)(p := (if registry s classname = None then None else Some classname))\<rparr>)"


section \<open>Checks\<close>

text \<open>The address of a userdata whose metatable is that of the class.\<close>

definition auxiliar_getclassudata :: "bytes \<Rightarrow> lua_value list \<Rightarrow> nat \<Rightarrow> ('m aux_sys_scheme, nat) act" where
  "auxiliar_getclassudata classname args objidx s =
    (case lua_arg args objidx of
       Some (LUserdata p) \<Rightarrow>
         if meta s p = Some classname then Some (Inr p, s) else Some (Inl (TypeError objidx classname), s)
     | _ \<Rightarrow> Some (Inl (TypeError objidx classname), s))"

definition auxiliar_checkclass :: "bytes \<Rightarrow> lua_value list \<Rightarrow> nat \<Rightarrow> ('m aux_sys_scheme, nat) act" where
  "auxiliar_checkclass classname args objidx = auxiliar_getclassudata classname args objidx"

text \<open>\<open>None\<close> is \<open>NULL\<close>.\<close>

definition auxiliar_getgroupudata :: "bytes \<Rightarrow> lua_value list \<Rightarrow> nat \<Rightarrow> ('m aux_sys_scheme, nat option) act" where
  "auxiliar_getgroupudata groupname args objidx =
    act_get (\<lambda>s.
      case lua_arg args objidx of
        Some (LUserdata p) \<Rightarrow>
          (case Option.bind (meta s p) (registry s) of
             None \<Rightarrow> None
           | Some mt \<Rightarrow> if mt_fields mt groupname \<in> {None, Some LNil} then None else Some p)
      | _ \<Rightarrow> None)"

definition auxiliar_checkgroup :: "bytes \<Rightarrow> lua_value list \<Rightarrow> nat \<Rightarrow> ('m aux_sys_scheme, nat) act" where
  "auxiliar_checkgroup groupname args objidx =
    act_bind (auxiliar_getgroupudata groupname args objidx) (\<lambda>d.
      case d of
        Some p \<Rightarrow> act_return p
      | None \<Rightarrow>
          let msg = take 35 groupname @ lit '' expected''
          in if fits msg 45 then act_error (ArgError objidx msg) else act_error (Undefined (lit ''msg overflow'')))"

definition auxiliar_typeerror :: "lua_value list \<Rightarrow> nat \<Rightarrow> bytes \<Rightarrow> lua_error" where
  "auxiliar_typeerror args narg tname = ArgError narg (tname @ lit '' expected, got '' @ typename (lua_arg args narg))"

definition auxiliar_checkboolean :: "lua_value list \<Rightarrow> nat \<Rightarrow> bool lua" where
  "auxiliar_checkboolean args objidx =
    (case lua_arg args objidx of
       Some (LBool b) \<Rightarrow> Inr b
     | _ \<Rightarrow> Inl (auxiliar_typeerror args objidx (lit ''boolean'')))"

definition auxiliar_tostring :: "lua_vm \<Rightarrow> lua_value list \<Rightarrow> ('m aux_sys_scheme, lua_value list) act" where
  "auxiliar_tostring vm args s =
    (let invalid = Some (Inl (RunError (lit ''invalid object passed to '' @ [39] @ lit ''auxiliar.c:__tostring'' @ [39])), s) in
     case lua_arg args 1 of
       Some (LUserdata p) \<Rightarrow>
         (case Option.bind (Option.bind (meta s p) (registry s)) mt_index of
            None \<Rightarrow> invalid
          | Some it \<Rightarrow>
              (case Option.bind (it (lit ''class'')) (value_tostring vm) of
                 None \<Rightarrow> invalid
               | Some cls \<Rightarrow> Some (Inr [LStr (c_str cls @ lit '': '' @ fmt_p p)], s)))
     | _ \<Rightarrow> invalid)"


section \<open>Facts\<close>

lemma checkclass_cases:
  "auxiliar_checkclass cls args i s = Some (r, s') \<Longrightarrow> s' = s \<and>
    (r = Inl (TypeError i cls) \<or> (\<exists>p. r = Inr p \<and> lua_arg args i = Some (LUserdata p) \<and> meta s p = Some cls))"
  by (auto simp: auxiliar_checkclass_def auxiliar_getclassudata_def split: option.splits lua_value.splits if_splits)

lemma checkgroup_cases:
  "auxiliar_checkgroup g args i s = Some (r, s') \<Longrightarrow> s' = s \<and>
    (r = Inl (ArgError i (take 35 g @ lit '' expected'')) \<or>
     (\<exists>p c mt. r = Inr p \<and> lua_arg args i = Some (LUserdata p) \<and> meta s p = Some c \<and> registry s c = Some mt \<and>
        mt_fields mt g \<notin> {None, Some LNil}))"
  by (auto simp: auxiliar_checkgroup_def auxiliar_getgroupudata_def act_bind_def Let_def fits_def bind_eq_Some_conv
      split: option.splits lua_value.splits if_splits)

end
