(* ===== verification/Inet.thy ===== *)
theory Inet
  imports Auxiliar
begin

text \<open>
  inet.c: host name resolution, the names of the two ends of a socket, and creating, connecting,
  accepting and binding internet sockets over the Winsock layer. The resolver's answers are system
  calls. A \<open>struct sockaddr\<close> is its bytes.
\<close>

abbreviation (input) PF_UNSPEC :: int where "PF_UNSPEC \<equiv> 0"
abbreviation (input) PF_INET :: int where "PF_INET \<equiv> 2"
abbreviation (input) PF_INET6 :: int where "PF_INET6 \<equiv> 23"
abbreviation (input) SOCK_STREAM :: int where "SOCK_STREAM \<equiv> 1"
abbreviation (input) SOCK_DGRAM :: int where "SOCK_DGRAM \<equiv> 2"
abbreviation (input) AI_PASSIVE :: int where "AI_PASSIVE \<equiv> 1"

text \<open>What the functions take from the C library beside the calls: the value of \<open>errno\<close>, which
  Winsock does not set; what \<open>sscanf\<close> makes of a number that does not fit \<open>unsigned int\<close>; the
  fallback text of \<open>gai_strerrorA\<close>; and the text \<open>inet_ntoa\<close> makes of an address.\<close>

record inet_env =
  crt_errno :: int
  scan_wide :: "nat \<Rightarrow> u32"
  gai_text :: "int \<Rightarrow> bytes"
  ntoa :: "bytes \<Rightarrow> bytes"


section \<open>Addresses\<close>

text \<open>\<open>sscanf("%u")\<close>: white space, a sign, digits.\<close>

definition is_space :: "byte \<Rightarrow> bool" where
  "is_space c \<longleftrightarrow> c \<in> {32, 9, 10, 11, 12, 13}"

definition is_digit :: "byte \<Rightarrow> bool" where
  "is_digit c \<longleftrightarrow> 48 \<le> c \<and> c \<le> 57"

definition scan_u :: "inet_env \<Rightarrow> bytes \<Rightarrow> (u32 \<times> bytes) option" where
  "scan_u env cp =
    (let cp = dropWhile is_space cp;
         neg = (cp \<noteq> [] \<and> hd cp = 45);
         cp = (if cp \<noteq> [] \<and> (hd cp = 45 \<or> hd cp = 43) then tl cp else cp);
         ds = takeWhile is_digit cp;
         v = dec_val (map (\<lambda>c. unat c - 48) ds);
         w = (if v < 2 ^ 32 then of_nat v else scan_wide env v)
     in if ds = [] then None else Some (if neg then - w else w, drop (length ds) cp))"

definition scan_dot :: "bytes \<Rightarrow> bytes option" where
  "scan_dot cp = (if cp \<noteq> [] \<and> hd cp = 46 then Some (tl cp) else None)"

text \<open>\<open>%n\<close> is only reached after four numbers, so \<open>n = 0\<close> otherwise. \<open>None\<close> is the result 0; the
  address is in network order.\<close>

definition inet_aton :: "inet_env \<Rightarrow> bytes \<Rightarrow> bytes option" where
  "inet_aton env cp =
    Option.bind (scan_u env cp) (\<lambda>(a, cp).
    Option.bind (scan_dot cp) (\<lambda>cp.
    Option.bind (scan_u env cp) (\<lambda>(b, cp).
    Option.bind (scan_dot cp) (\<lambda>cp.
    Option.bind (scan_u env cp) (\<lambda>(c, cp).
    Option.bind (scan_dot cp) (\<lambda>cp.
    Option.bind (scan_u env cp) (\<lambda>(d, cp).
      if cp \<noteq> [] then None
      else if a > 255 \<or> b > 255 \<or> c > 255 \<or> d > 255 then None
      else Some [ucast a, ucast b, ucast c, ucast d])))))))"

text \<open>The replacements for Windows XP ignore the family.\<close>

definition win32xp_inet_ntop :: "inet_env \<Rightarrow> int \<Rightarrow> bytes \<Rightarrow> bytes" where
  "win32xp_inet_ntop env family src = ntoa env (take 4 src)"

definition win32xp_inet_pton :: "inet_env \<Rightarrow> int \<Rightarrow> bytes \<Rightarrow> bytes option" where
  "win32xp_inet_pton env family s = inet_aton env s"

text \<open>\<open>struct sockaddr_in\<close> and \<open>struct sockaddr_in6\<close>; the port, at the same place in both, is big
  endian.\<close>

definition be16 :: "nat \<Rightarrow> bytes" where
  "be16 p = [of_nat (p div 256), of_nat p]"

definition sockaddr_in :: "int \<Rightarrow> nat \<Rightarrow> bytes \<Rightarrow> bytes" where
  "sockaddr_in family port addr = le_bytes 2 (nat family) @ be16 port @ addr @ replicate 8 0"

definition sockaddr_in6 :: "int \<Rightarrow> nat \<Rightarrow> bytes \<Rightarrow> bytes" where
  "sockaddr_in6 family port addr =
    le_bytes 2 (nat family) @ be16 port @ replicate 4 0 @ addr @ replicate (20 - length addr) 0"

definition sin_port :: "bytes \<Rightarrow> nat" where
  "sin_port sa = unat (sa ! 2) * 256 + unat (sa ! 3)"

definition sin_addr :: "bytes \<Rightarrow> bytes" where
  "sin_addr sa = take 4 (drop 4 sa)"

definition sin6_addr :: "bytes \<Rightarrow> bytes" where
  "sin6_addr sa = take 16 (drop 8 sa)"


section \<open>Resolver functions\<close>

definition seq_table :: "lua_value list \<Rightarrow> lua_value" where
  "seq_table vs = LTable (zip (map (\<lambda>i. LNum (of_nat i)) [1..<length vs + 1]) vs)"

definition inet_gethost :: "inet_env \<Rightarrow> bytes \<Rightarrow> ('m sys_scheme, int \<times> hostent option) act" where
  "inet_gethost env address =
    (case inet_aton env address of
       Some addr \<Rightarrow> socket_gethostbyaddr addr
     | None \<Rightarrow> socket_gethostbyname address)"

text \<open>The key \<open>"ip"\<close> waits under \<open>"alias"\<close> on the stack for its table.\<close>

definition inet_pushresolved :: "inet_env \<Rightarrow> hostent \<Rightarrow> lua_value" where
  "inet_pushresolved env hp =
    LTable [(LStr (lit ''name''), LStr (c_str (h_name hp))),
            (LStr (lit ''alias''), seq_table (map (\<lambda>a. LStr (c_str a)) (h_aliases hp))),
            (LStr (lit ''ip''), seq_table (map (\<lambda>a. LStr (ntoa env a)) (h_addr_list hp)))]"

definition inet_global_tohostname :: "lua_vm \<Rightarrow> inet_env \<Rightarrow> lua_value list \<Rightarrow> ('m sys_scheme, lua_value list) act" where
  "inet_global_tohostname vm env args =
    act_bind (act_lua (luaL_checkstring vm args 1)) (\<lambda>address.
    act_bind (inet_gethost env address) (\<lambda>(err, hp).
      if err \<noteq> IO_DONE then act_return [LNil, push_error (socket_hoststrerror err)]
      else case hp of
        None \<Rightarrow> act_error (Undefined (lit ''hp''))
      | Some hp \<Rightarrow> act_return [LStr (c_str (h_name hp)), inet_pushresolved env hp]))"

definition inet_global_toip :: "lua_vm \<Rightarrow> inet_env \<Rightarrow> lua_value list \<Rightarrow> ('m sys_scheme, lua_value list) act" where
  "inet_global_toip vm env args =
    act_bind (act_lua (luaL_checkstring vm args 1)) (\<lambda>address.
    act_bind (inet_gethost env address) (\<lambda>(err, hp).
      if err \<noteq> IO_DONE then act_return [LNil, push_error (socket_hoststrerror err)]
      else case hp of
        None \<Rightarrow> act_error (Undefined (lit ''hp''))
      | Some hp \<Rightarrow>
          (case h_addr_list hp of
             [] \<Rightarrow> act_error (Undefined (lit ''h_addr''))
           | addr # _ \<Rightarrow> act_return [LStr (ntoa env addr), inet_pushresolved env hp])))"

text \<open>The position of the argument in the list of options.\<close>

definition luaL_checkoption :: "lua_vm \<Rightarrow> lua_value list \<Rightarrow> nat \<Rightarrow> string \<Rightarrow> string list \<Rightarrow> nat lua" where
  "luaL_checkoption vm args n d opts =
    lua_bind (luaL_optstring vm args n (lit d)) (\<lambda>name.
      let i = length (takeWhile (\<lambda>x. lit x \<noteq> name) opts)
      in if i < length opts then Inr i else Inl (ArgError n (lit ''invalid option '' @ [39] @ name @ [39])))"

definition inet_optfamily :: "lua_vm \<Rightarrow> lua_value list \<Rightarrow> nat \<Rightarrow> string \<Rightarrow> int lua" where
  "inet_optfamily vm args narg d =
    lua_bind (luaL_checkoption vm args narg d [''unspec'', ''inet'', ''inet6''])
      (\<lambda>i. Inr ([PF_UNSPEC, PF_INET, PF_INET6] ! i))"

definition inet_optsocktype :: "lua_vm \<Rightarrow> lua_value list \<Rightarrow> nat \<Rightarrow> string \<Rightarrow> int lua" where
  "inet_optsocktype vm args narg d =
    lua_bind (luaL_checkoption vm args narg d [''stream'', ''dgram''])
      (\<lambda>i. Inr ([SOCK_STREAM, SOCK_DGRAM] ! i))"

definition zero_hints :: addrinfo where
  "zero_hints = \<lparr>ai_family = 0, ai_socktype = 0, ai_protocol = 0, ai_flags = 0, ai_addr = []\<rparr>"

text \<open>\<open>getnameinfo\<close> answers the host name in \<open>sr_data\<close> and the service in \<open>sr_addr\<close>. The buffers
  start uninitialised (\<open>None\<close>), and a failed call leaves them as they are.\<close>

definition name_buffer :: "bool \<Rightarrow> sysres \<Rightarrow> bytes \<Rightarrow> bytes option \<Rightarrow> bytes option" where
  "name_buffer wanted r new old = (if wanted \<and> sr_ret r = 0 then Some (c_str new) else old)"

fun nameinfo_loop ::
  "bool \<Rightarrow> bool \<Rightarrow> addrinfo list \<Rightarrow> bytes option \<Rightarrow> bytes option \<Rightarrow> lua_value list \<Rightarrow>
   ('m sys_scheme, lua_value list \<times> bytes option) act" where
  "nameinfo_loop node service [] host serv tab = act_return (tab, serv)"
| "nameinfo_loop node service (iter # rest) host serv tab =
    act_bind (syscall (CGetnameinfo (ai_addr iter))) (\<lambda>r.
      let host = name_buffer node r (sr_data r) host; serv = name_buffer service r (sr_addr r) serv in
      if node then
        (case host of
           None \<Rightarrow> act_error (Undefined (lit ''host''))
         | Some h \<Rightarrow> nameinfo_loop node service rest host serv (tab @ [LStr h]))
      else nameinfo_loop node service rest host serv tab)"

definition inet_global_getnameinfo :: "lua_vm \<Rightarrow> inet_env \<Rightarrow> lua_value list \<Rightarrow> ('m sys_scheme, lua_value list) act" where
  "inet_global_getnameinfo vm env args =
    act_bind (act_lua (luaL_optlstring vm args 1)) (\<lambda>node.
    act_bind (act_lua (luaL_optlstring vm args 2)) (\<lambda>service.
      if node = None \<and> service = None
      then act_error (RunError (lit ''You have to specify a hostname, a service, or both''))
      else
        let name = (case node of Some n \<Rightarrow> c_str n | None \<Rightarrow> lit ''127.0.0.1'');
            serv = (case service of Some n \<Rightarrow> c_str n | None \<Rightarrow> lit ''7'')
        in act_bind (syscall (CGetaddrinfo (Some name) (Some serv)
                      (zero_hints\<lparr>ai_socktype := SOCK_STREAM, ai_family := PF_UNSPEC\<rparr>))) (\<lambda>r.
          if sr_ret r \<noteq> 0 then act_return [LNil, push_error (socket_gaistrerror (gai_text env) (sr_ret r))]
          else
            act_bind (nameinfo_loop (node \<noteq> None) (service \<noteq> None) (sr_info r) None None []) (\<lambda>(tab, serv).
              if service = None then act_return [seq_table tab]
              else case serv of
                None \<Rightarrow> act_error (Undefined (lit ''serv''))
              | Some s \<Rightarrow> act_return [seq_table tab, LStr s]))))"

fun addrinfo_loop :: "addrinfo list \<Rightarrow> lua_value list \<Rightarrow> ('m sys_scheme, lua_value list) act" where
  "addrinfo_loop [] tab = act_return tab"
| "addrinfo_loop (iterator # rest) tab =
    act_bind (syscall (CGetnameinfo (ai_addr iterator))) (\<lambda>r.
      case name_buffer True r (sr_data r) None of
        None \<Rightarrow> act_error (Undefined (lit ''hbuf''))
      | Some hbuf \<Rightarrow>
          let family = (if ai_family iterator = PF_INET then [(LStr (lit ''family''), LStr (lit ''inet''))]
                        else if ai_family iterator = PF_INET6 then [(LStr (lit ''family''), LStr (lit ''inet6''))]
                        else [])
          in addrinfo_loop rest (tab @ [LTable (family @ [(LStr (lit ''addr''), LStr hbuf)])]))"

definition inet_global_getaddrinfo :: "lua_vm \<Rightarrow> inet_env \<Rightarrow> lua_value list \<Rightarrow> ('m sys_scheme, lua_value list) act" where
  "inet_global_getaddrinfo vm env args =
    act_bind (act_lua (luaL_checkstring vm args 1)) (\<lambda>hostname.
    act_bind (syscall (CGetaddrinfo (Some hostname) None
               (zero_hints\<lparr>ai_socktype := SOCK_STREAM, ai_family := PF_UNSPEC\<rparr>))) (\<lambda>r.
      if sr_ret r \<noteq> 0 then act_return [LNil, push_error (socket_gaistrerror (gai_text env) (sr_ret r))]
      else act_bind (addrinfo_loop (sr_info r) []) (\<lambda>tab. act_return [seq_table tab])))"

definition inet_global_gethostname :: "inet_env \<Rightarrow> ('m sys_scheme, lua_value list) act" where
  "inet_global_gethostname env =
    act_bind (syscall CGethostname) (\<lambda>r.
      if sr_ret r < 0 then act_return [LNil, push_error (socket_strerror (crt_errno env))]
      else act_return [LStr (c_str (take 256 (sr_data r)))])"


section \<open>The two ends of a socket\<close>

definition unknown_family :: "int \<Rightarrow> lua_value list" where
  "unknown_family family = [LNil, LStr (lit ''unknown family '' @ fmt_d family)]"

definition inet_meth_getpeername :: "inet_env \<Rightarrow> t_socket \<Rightarrow> int \<Rightarrow> ('m sys_scheme, lua_value list) act" where
  "inet_meth_getpeername env ps family =
    (if family = PF_INET then
       act_bind (syscall (CGetpeername ps)) (\<lambda>r.
         if sr_ret r < 0 then act_return [LNil, push_error (socket_strerror (crt_errno env))]
         else act_return [LStr (win32xp_inet_ntop env family (sin_addr (sr_addr r))),
                          LNum (of_nat (sin_port (sr_addr r))), LStr (lit ''inet'')])
     else if family = PF_INET6 then
       act_bind (syscall (CGetpeername ps)) (\<lambda>r.
         if sr_ret r < 0 then act_return [LNil, push_error (socket_strerror (crt_errno env))]
         else act_return [LStr (win32xp_inet_ntop env family (sin6_addr (sr_addr r))),
                          LNum (of_nat (sin_port (sr_addr r))), LStr (lit ''inet6'')])
     else act_return (unknown_family family))"

definition inet_meth_getsockname :: "inet_env \<Rightarrow> t_socket \<Rightarrow> int \<Rightarrow> ('m sys_scheme, lua_value list) act" where
  "inet_meth_getsockname env ps family =
    (if family = PF_INET then
       act_bind (syscall (CGetsockname ps)) (\<lambda>r.
         if sr_ret r < 0 then act_return [LNil, push_error (socket_strerror (crt_errno env))]
         else act_return [LStr (win32xp_inet_ntop env family (sin_addr (sr_addr r))),
                          LNum (of_nat (sin_port (sr_addr r))), LStr (lit ''inet'')])
     else if family = PF_INET6 then
       act_bind (syscall (CGetsockname ps)) (\<lambda>r.
         if sr_ret r < 0 then act_return [LNil, push_error (socket_strerror (crt_errno env))]
         else act_return [LStr (win32xp_inet_ntop env family (sin6_addr (sr_addr r))),
                          LNum (of_nat (sin_port (sr_addr r))), LStr (lit ''inet6'')])
     else act_return (unknown_family family))"


section \<open>Creating, connecting, accepting, binding\<close>

text \<open>The error strings: \<open>None\<close> is \<open>NULL\<close>, success.\<close>

definition inet_trycreate :: "int \<Rightarrow> int \<Rightarrow> ('m sys_scheme, bytes option \<times> t_socket) act" where
  "inet_trycreate family type =
    act_bind (socket_create family type 0) (\<lambda>(err, ps). act_return (socket_strerror err, ps))"

definition inet_trydisconnect :: "t_socket \<Rightarrow> int \<Rightarrow> ('m tm_sys_scheme, bytes option) act" where
  "inet_trydisconnect ps family =
    (if family = PF_INET then
       act_bind (socket_connect ps (sockaddr_in PF_UNSPEC 0 (replicate 4 0))) (\<lambda>err. act_return (socket_strerror err))
     else if family = PF_INET6 then
       act_bind (socket_connect ps (sockaddr_in6 PF_UNSPEC 0 (replicate 16 0))) (\<lambda>err. act_return (socket_strerror err))
     else act_return None)"

fun connect_loop :: "t_socket \<Rightarrow> addrinfo list \<Rightarrow> bytes option \<Rightarrow> ('m tm_sys_scheme, bytes option) act" where
  "connect_loop ps [] err = act_return err"
| "connect_loop ps (iterator # rest) err =
    act_bind timeout_markstart (\<lambda>_.
    act_bind (socket_connect ps (ai_addr iterator)) (\<lambda>e.
      let err = socket_strerror e in if err = None then act_return err else connect_loop ps rest err))"

definition inet_tryconnect ::
  "inet_env \<Rightarrow> t_socket \<Rightarrow> bytes \<Rightarrow> bytes \<Rightarrow> addrinfo \<Rightarrow> ('m tm_sys_scheme, bytes option) act" where
  "inet_tryconnect env ps address serv connecthints =
    act_bind (syscall (CGetaddrinfo (Some address) (Some serv) connecthints)) (\<lambda>r.
      let err = socket_gaistrerror (gai_text env) (sr_ret r) in
      if err \<noteq> None then act_return err else connect_loop ps (sr_info r) err)"

definition inet_tryaccept :: "t_socket \<Rightarrow> int \<Rightarrow> ('m tm_sys_scheme, bytes option \<times> t_socket) act" where
  "inet_tryaccept server family =
    act_bind (socket_accept server) (\<lambda>(err, client). act_return (socket_strerror err, client))"

text \<open>\<open>ps\<close> is \<open>*ps\<close>, which keeps its value until the end. Returns the error, the socket and the hints.\<close>

fun bind_loop ::
  "t_socket \<Rightarrow> addrinfo list \<Rightarrow> t_socket \<Rightarrow> addrinfo \<Rightarrow> bytes option \<Rightarrow>
   ('m sys_scheme, bytes option \<times> t_socket \<times> addrinfo) act" where
  "bind_loop ps [] sock bindhints err = act_return (err, sock, bindhints)"
| "bind_loop ps (iterator # rest) sock bindhints err =
    act_bind
      (if sock = SOCKET_INVALID then
         act_bind (socket_create (ai_family iterator) (ai_socktype iterator) (ai_protocol iterator))
           (\<lambda>(e, sock). act_return (socket_strerror e, sock))
       else act_return (None, sock))
      (\<lambda>(err, sock).
        if err \<noteq> None then bind_loop ps rest sock bindhints err
        else
          act_bind (socket_bind sock (ai_addr iterator)) (\<lambda>e.
            let err = socket_strerror e in
            if err \<noteq> None then
              act_bind (if sock \<noteq> ps then socket_destroy sock else act_return sock) (\<lambda>sock.
                bind_loop ps rest sock bindhints err)
            else act_return (err, sock, iterator)))"

definition inet_trybind ::
  "inet_env \<Rightarrow> t_socket \<Rightarrow> bytes option \<Rightarrow> bytes \<Rightarrow> addrinfo \<Rightarrow>
   ('m sys_scheme, bytes option \<times> t_socket \<times> addrinfo) act" where
  "inet_trybind env ps address serv bindhints =
    act_bind (syscall (CGetaddrinfo address (Some serv) bindhints)) (\<lambda>r.
      let err = socket_gaistrerror (gai_text env) (sr_ret r) in
      if err \<noteq> None then act_return (err, ps, bindhints)
      else bind_loop ps (sr_info r) ps bindhints err)"


section \<open>Facts\<close>

lemma is_digit_char: "d < 10 \<Longrightarrow> is_digit (digit_char d) \<and> \<not> is_space (digit_char d) \<and> digit_char d \<noteq> 45 \<and> digit_char d \<noteq> 43 \<and>
    unat (digit_char d) - 48 = d"
  by (drule digit_char_cases) (auto simp: is_digit_def is_space_def digit_char_def word_le_nat_alt)

lemma nat_digits_not_Nil: "nat_digits n \<noteq> []"
  by (subst nat_digits.simps) simp

lemma scan_u_dec:
  assumes "n < 2 ^ 32" "rest = [] \<or> \<not> is_digit (hd rest)"
  shows "scan_u env (dec_digits n @ rest) = Some (of_nat n, rest)"
proof -
  let ?ds = "nat_digits n"
  obtain d ds where ds: "?ds = d # ds" using nat_digits_not_Nil by (cases ?ds) auto
  have d: "\<forall>x \<in> set ?ds. x < 10" by (rule nat_digits_less)
  then have digits: "\<forall>c \<in> set (map digit_char ?ds). is_digit c" by (simp add: is_digit_char)
  have all: "takeWhile is_digit (map digit_char ?ds @ rest) = map digit_char ?ds"
    using digits assms(2) by (subst takeWhile_append2) (auto simp: takeWhile_eq_Nil_iff)
  have "map (\<lambda>c. unat c - 48) (map digit_char ?ds) = ?ds"
    using d by (simp add: map_idI is_digit_char)
  moreover have "dropWhile is_space (map digit_char ?ds @ rest) = map digit_char ?ds @ rest"
    "hd (map digit_char ?ds @ rest) \<noteq> 45" "hd (map digit_char ?ds @ rest) \<noteq> 43"
    using d by (auto simp: ds is_digit_char)
  ultimately show ?thesis
    using assms(1) all nat_digits_not_Nil [of n] unfolding scan_u_def dec_digits_eq
    by (simp add: Let_def dec_val_nat_digits del: map_map)
qed

text \<open>Dotted decimal.\<close>

fun dotted :: "nat list \<Rightarrow> bytes" where
  "dotted [] = []"
| "dotted [n] = dec_digits n"
| "dotted (n # ns) = dec_digits n @ [46] @ dotted ns"

lemma aton_dotted:
  assumes "length ns = 4" "\<forall>n \<in> set ns. n < 2 ^ 32" "rest = [] \<or> \<not> is_digit (hd rest)"
  shows "inet_aton env (dotted ns @ rest) =
    (if rest = [] \<and> (\<forall>n \<in> set ns. n \<le> 255) then Some (map of_nat ns) else None)"
proof -
  obtain p q u v where ns: "ns = [p, q, u, v]"
    using assms(1) by (auto simp: length_Suc_conv numeral_eq_Suc)
  with assms(2) have small: "p < 2 ^ 32" "q < 2 ^ 32" "u < 2 ^ 32" "v < 2 ^ 32" by simp_all
  have dot: "\<not> is_digit 46" by (simp add: is_digit_def)
  have over: "of_nat n > (255 :: u32) \<longleftrightarrow> \<not> n \<le> 255" if "n < 2 ^ 32" for n
    using that by (simp add: word_less_nat_alt unat_of_nat not_le)
  have low: "ucast (of_nat n :: u32) = (of_nat n :: byte)" if "n < 2 ^ 32" for n
    by (rule bit_word_eqI) (simp add: bit_simps)
  show ?thesis
    unfolding ns inet_aton_def
    using dot small assms(3) over low scan_u_dec [of v rest env]
    by (auto simp: scan_u_dec scan_dot_def)
qed

text \<open>An IPv6 peer is named by the first four bytes of its address, and with \<open>errno\<close> untouched a
  failure has no message.\<close>

lemma inet6_peer_name:
  "0 \<le> sr_ret r \<Longrightarrow> answers s = r # rs \<Longrightarrow>
    \<exists>s'. inet_meth_getpeername env ps PF_INET6 s =
      Some (Inr [LStr (ntoa env (take 4 (sin6_addr (sr_addr r)))), LNum (of_nat (sin_port (sr_addr r))), LStr (lit ''inet6'')], s')"
  "sr_ret r < 0 \<Longrightarrow> crt_errno env = 0 \<Longrightarrow> answers s = r # rs \<Longrightarrow>
    \<exists>s'. inet_meth_getpeername env ps PF_INET6 s = Some (Inr [LNil, LNil], s')"
  by (simp_all add: inet_meth_getpeername_def act_bind_def syscall_def win32xp_inet_ntop_def socket_strerror_def
      io_strerror_def push_error_def)


section \<open>Properties\<close>


text \<open>A host whose \<open>inet_ntoa\<close> writes dotted decimal.\<close>

definition plain_env :: inet_env where
  "plain_env = \<lparr>crt_errno = 0, scan_wide = (\<lambda>_. 0), gai_text = (\<lambda>_. []), ntoa = (\<lambda>a. dotted (map unat a))\<rparr>"


end
