(* ===== verification/Options.thy ===== *)
theory Options
  imports Inet
begin

text \<open>
  options.c: the socket options scripts may set and read, by name. A handler takes the arguments
  of the method (object, name, value) and the descriptor; option values are the bytes handed to the
  kernel.
\<close>

abbreviation (input) IPPROTO_IP :: int where "IPPROTO_IP \<equiv> 0"
abbreviation (input) IPPROTO_TCP :: int where "IPPROTO_TCP \<equiv> 6"
abbreviation (input) IPPROTO_IPV6 :: int where "IPPROTO_IPV6 \<equiv> 41"
abbreviation (input) SO_REUSEADDR :: int where "SO_REUSEADDR \<equiv> 4"
abbreviation (input) SO_KEEPALIVE :: int where "SO_KEEPALIVE \<equiv> 8"
abbreviation (input) SO_DONTROUTE :: int where "SO_DONTROUTE \<equiv> 16"
abbreviation (input) SO_BROADCAST :: int where "SO_BROADCAST \<equiv> 32"
abbreviation (input) SO_LINGER :: int where "SO_LINGER \<equiv> 128"
abbreviation (input) SO_REUSEPORT :: int where "SO_REUSEPORT \<equiv> SO_REUSEADDR"
abbreviation (input) TCP_NODELAY :: int where "TCP_NODELAY \<equiv> 1"
abbreviation (input) IP_MULTICAST_IF :: int where "IP_MULTICAST_IF \<equiv> 9"
abbreviation (input) IP_MULTICAST_TTL :: int where "IP_MULTICAST_TTL \<equiv> 10"
abbreviation (input) IP_MULTICAST_LOOP :: int where "IP_MULTICAST_LOOP \<equiv> 11"
abbreviation (input) IP_ADD_MEMBERSHIP :: int where "IP_ADD_MEMBERSHIP \<equiv> 12"
abbreviation (input) IP_DROP_MEMBERSHIP :: int where "IP_DROP_MEMBERSHIP \<equiv> 13"
abbreviation (input) IPV6_V6ONLY :: int where "IPV6_V6ONLY \<equiv> 27"


section \<open>Auxiliary functions\<close>

definition opt_set :: "t_socket \<Rightarrow> int \<Rightarrow> int \<Rightarrow> bytes \<Rightarrow> ('m sys_scheme, lua_value list) act" where
  "opt_set ps level name val =
    act_bind (syscall (CSetsockopt ps level name val)) (\<lambda>r.
      act_return (if sr_ret r < 0 then [LNil, LStr (lit ''setsockopt failed'')] else [LNum 1]))"

text \<open>The value, whose bytes the kernel overwrites from the front; \<open>Inl\<close> is the pushed error.\<close>

definition opt_get ::
  "t_socket \<Rightarrow> int \<Rightarrow> int \<Rightarrow> bytes \<Rightarrow> ('m sys_scheme, lua_value list + bytes) act" where
  "opt_get ps level name val =
    act_bind (syscall (CGetsockopt ps level name)) (\<lambda>r.
      act_return (if sr_ret r < 0 then Inl [LNil, LStr (lit ''getsockopt failed'')]
                  else Inr (memcpy_at val 0 (take (length val) (sr_data r)))))"

definition opt_getboolean :: "t_socket \<Rightarrow> int \<Rightarrow> int \<Rightarrow> ('m sys_scheme, lua_value list) act" where
  "opt_getboolean ps level name =
    act_bind (opt_get ps level name (le_bytes 4 0)) (\<lambda>e.
      act_return (case e of Inl err \<Rightarrow> err | Inr val \<Rightarrow> [LBool (le_val val \<noteq> 0)]))"

definition opt_setboolean :: "lua_value list \<Rightarrow> t_socket \<Rightarrow> int \<Rightarrow> int \<Rightarrow> ('m sys_scheme, lua_value list) act" where
  "opt_setboolean args ps level name =
    act_bind (act_lua (auxiliar_checkboolean args 3)) (\<lambda>b.
      opt_set ps level name (le_bytes 4 (if b then 1 else 0)))"

definition table_arg :: "lua_value list \<Rightarrow> lua_value lua" where
  "table_arg args =
    (case lua_arg args 3 of
       Some (LTable t) \<Rightarrow> Inr (LTable t)
     | _ \<Rightarrow> Inl (auxiliar_typeerror args 3 (lit ''table'')))"

definition quoted :: "string \<Rightarrow> bytes" where
  "quoted s = [39] @ lit s @ [39]"

text \<open>\<open>INADDR_ANY\<close> unless the address is not \<open>"*"\<close>.\<close>

definition interface_addr :: "inet_env \<Rightarrow> bytes \<Rightarrow> bytes option" where
  "interface_addr env address = (if address = lit ''*'' then Some (replicate 4 0) else inet_aton env address)"

definition opt_setmembership ::
  "lua_vm \<Rightarrow> inet_env \<Rightarrow> lua_value list \<Rightarrow> t_socket \<Rightarrow> int \<Rightarrow> int \<Rightarrow> ('m sys_scheme, lua_value list) act" where
  "opt_setmembership vm env args ps level name =
    act_bind (act_lua (table_arg args)) (\<lambda>t.
      case value_tostring vm (lua_gettable t (LStr (lit ''multiaddr''))) of
        None \<Rightarrow> act_error (ArgError 3 (lit ''string '' @ quoted ''multiaddr'' @ lit '' field expected''))
      | Some m \<Rightarrow>
          (case inet_aton env (c_str m) of
             None \<Rightarrow> act_error (ArgError 3 (lit ''invalid '' @ quoted ''multiaddr'' @ lit '' ip address''))
           | Some imr_multiaddr \<Rightarrow>
               (case value_tostring vm (lua_gettable t (LStr (lit ''interface''))) of
                  None \<Rightarrow> act_error (ArgError 3 (lit ''string '' @ quoted ''interface'' @ lit '' field expected''))
                | Some i \<Rightarrow>
                    (case interface_addr env (c_str i) of
                       None \<Rightarrow> act_error (ArgError 3 (lit ''invalid '' @ quoted ''interface'' @ lit '' ip address''))
                     | Some imr_interface \<Rightarrow> opt_set ps level name (imr_multiaddr @ imr_interface)))))"


section \<open>Options\<close>

text \<open>A handler of the option tables.\<close>

type_synonym ('s) opt_func = "lua_vm \<Rightarrow> inet_env \<Rightarrow> lua_value list \<Rightarrow> t_socket \<Rightarrow> ('s, lua_value list) act"

definition opt_set_reuseaddr :: "'m sys_scheme opt_func" where
  "opt_set_reuseaddr vm env args ps = opt_setboolean args ps SOL_SOCKET SO_REUSEADDR"

definition opt_get_reuseaddr :: "'m sys_scheme opt_func" where
  "opt_get_reuseaddr vm env args ps = opt_getboolean ps SOL_SOCKET SO_REUSEADDR"

definition opt_set_reuseport :: "'m sys_scheme opt_func" where
  "opt_set_reuseport vm env args ps = opt_setboolean args ps SOL_SOCKET SO_REUSEPORT"

definition opt_get_reuseport :: "'m sys_scheme opt_func" where
  "opt_get_reuseport vm env args ps = opt_getboolean ps SOL_SOCKET SO_REUSEPORT"

definition opt_set_tcp_nodelay :: "'m sys_scheme opt_func" where
  "opt_set_tcp_nodelay vm env args ps = opt_setboolean args ps IPPROTO_TCP TCP_NODELAY"

definition opt_get_tcp_nodelay :: "'m sys_scheme opt_func" where
  "opt_get_tcp_nodelay vm env args ps = opt_getboolean ps IPPROTO_TCP TCP_NODELAY"

definition opt_set_keepalive :: "'m sys_scheme opt_func" where
  "opt_set_keepalive vm env args ps = opt_setboolean args ps SOL_SOCKET SO_KEEPALIVE"

definition opt_get_keepalive :: "'m sys_scheme opt_func" where
  "opt_get_keepalive vm env args ps = opt_getboolean ps SOL_SOCKET SO_KEEPALIVE"

definition opt_set_dontroute :: "'m sys_scheme opt_func" where
  "opt_set_dontroute vm env args ps = opt_setboolean args ps SOL_SOCKET SO_DONTROUTE"

definition opt_set_broadcast :: "'m sys_scheme opt_func" where
  "opt_set_broadcast vm env args ps = opt_setboolean args ps SOL_SOCKET SO_BROADCAST"

definition opt_set_ip_multicast_loop :: "'m sys_scheme opt_func" where
  "opt_set_ip_multicast_loop vm env args ps = opt_setboolean args ps IPPROTO_IP IP_MULTICAST_LOOP"

definition opt_get_ip_multicast_loop :: "'m sys_scheme opt_func" where
  "opt_get_ip_multicast_loop vm env args ps = opt_getboolean ps IPPROTO_IP IP_MULTICAST_LOOP"

text \<open>\<open>struct linger\<close> is two 16-bit fields.\<close>

definition opt_set_linger :: "'m sys_scheme opt_func" where
  "opt_set_linger vm env args ps =
    act_bind (act_lua (table_arg args)) (\<lambda>t.
      case lua_gettable t (LStr (lit ''on'')) of
        LBool on \<Rightarrow>
          (case value_tonumber vm (lua_gettable t (LStr (lit ''timeout''))) of
             None \<Rightarrow> act_error (ArgError 3 (lit ''number '' @ quoted ''timeout'' @ lit '' field expected''))
           | Some x \<Rightarrow> opt_set ps SOL_SOCKET SO_LINGER (le_bytes 2 (if on then 1 else 0) @ le_bytes 2 (c_ushort x)))
      | _ \<Rightarrow> act_error (ArgError 3 (lit ''boolean '' @ quoted ''on'' @ lit '' field expected'')))"

text \<open>The structure is uninitialised: bytes the kernel leaves unwritten are undefined.\<close>

definition opt_get_linger :: "'m sys_scheme opt_func" where
  "opt_get_linger vm env args ps =
    act_bind (syscall (CGetsockopt ps SOL_SOCKET SO_LINGER)) (\<lambda>r.
      if sr_ret r < 0 then act_return [LNil, LStr (lit ''getsockopt failed'')]
      else if length (sr_data r) < 4 then act_error (Undefined (lit ''linger''))
      else act_return
        [LTable [(LStr (lit ''on''), LBool (le_val (take 2 (sr_data r)) \<noteq> 0)),
                 (LStr (lit ''timeout''), LNum (of_nat (le_val (take 2 (drop 2 (sr_data r))))))]])"

definition opt_set_ip_multicast_ttl :: "'m sys_scheme opt_func" where
  "opt_set_ip_multicast_ttl vm env args ps =
    act_bind (act_lua (luaL_checknumber vm args 3)) (\<lambda>x.
      opt_set ps IPPROTO_IP IP_MULTICAST_TTL (le_bytes 4 (nat (c_int x mod 2 ^ 32))))"

definition opt_set_ip_multicast_if :: "'m sys_scheme opt_func" where
  "opt_set_ip_multicast_if vm env args ps =
    act_bind (act_lua (luaL_checkstring vm args 3)) (\<lambda>address.
      case interface_addr env address of
        None \<Rightarrow> act_error (ArgError 3 (lit ''ip expected''))
      | Some val \<Rightarrow> opt_set ps IPPROTO_IP IP_MULTICAST_IF val)"

definition opt_get_ip_multicast_if :: "'m sys_scheme opt_func" where
  "opt_get_ip_multicast_if vm env args ps =
    act_bind (syscall (CGetsockopt ps IPPROTO_IP IP_MULTICAST_IF)) (\<lambda>r.
      if sr_ret r < 0 then act_return [LNil, LStr (lit ''getsockopt failed'')]
      else if length (sr_data r) < 4 then act_error (Undefined (lit ''in_addr''))
      else act_return [LStr (ntoa env (take 4 (sr_data r)))])"

definition opt_set_ip_add_membership :: "'m sys_scheme opt_func" where
  "opt_set_ip_add_membership vm env args ps = opt_setmembership vm env args ps IPPROTO_IP IP_ADD_MEMBERSHIP"

definition opt_set_ip_drop_membersip :: "'m sys_scheme opt_func" where
  "opt_set_ip_drop_membersip vm env args ps = opt_setmembership vm env args ps IPPROTO_IP IP_DROP_MEMBERSHIP"

definition opt_set_ip6_v6only :: "'m sys_scheme opt_func" where
  "opt_set_ip6_v6only vm env args ps = opt_setboolean args ps IPPROTO_IPV6 IPV6_V6ONLY"


section \<open>Dispatch\<close>

text \<open>The message goes to \<open>char msg[45]\<close>; writing past it is undefined.\<close>

definition unsupported_option :: "bytes \<Rightarrow> lua_error" where
  "unsupported_option name =
    (let msg = lit ''unsupported option `'' @ take 35 name @ [39]
     in if fits msg 45 then ArgError 2 msg else Undefined (lit ''msg overflow''))"

definition opt_meth_setoption ::
  "(bytes \<times> 'm sys_scheme opt_func) list \<Rightarrow> 'm sys_scheme opt_func" where
  "opt_meth_setoption opt vm env args ps =
    act_bind (act_lua (luaL_checkstring vm args 2)) (\<lambda>name.
      case map_of opt name of
        None \<Rightarrow> act_error (unsupported_option name)
      | Some func \<Rightarrow> func vm env args ps)"

definition opt_meth_getoption ::
  "(bytes \<times> 'm sys_scheme opt_func) list \<Rightarrow> 'm sys_scheme opt_func" where
  "opt_meth_getoption opt vm env args ps =
    act_bind (act_lua (luaL_checkstring vm args 2)) (\<lambda>name.
      case map_of opt name of
        None \<Rightarrow> act_error (unsupported_option name)
      | Some func \<Rightarrow> func vm env args ps)"


section \<open>Properties\<close>

text \<open>C31: an option name no table has makes the method write its message past the end of the buffer as
  soon as it has 24 characters; shorter ones are reported.\<close>

theorem option_name_overflow:
  assumes "map_of opt name = None" "0 \<notin> set name"
  shows "opt_meth_setoption opt vm env [obj, LStr name] ps s =
      Some (Inl (if length name < 24 then ArgError 2 (lit ''unsupported option `'' @ name @ [39])
                 else Undefined (lit ''msg overflow'')), s) \<and>
    opt_meth_getoption opt vm env [obj, LStr name] ps s = opt_meth_setoption opt vm env [obj, LStr name] ps s"
  using assms
  by (simp add: opt_meth_setoption_def opt_meth_getoption_def lua_arg_simps c_str_id unsupported_option_def
      fits_def Let_def act_bind_def not_less min_def)

theorem option_name_overflow_witness:
  "opt_meth_setoption [] plain_vm plain_env [LNil, LStr (lit ''ip-multicast-source-group'')] 7
     \<lparr>clock = [], answers = [], trace = []\<rparr> =
   Some (Inl (Undefined (lit ''msg overflow'')), \<lparr>clock = [], answers = [], trace = []\<rparr>)"
  using option_name_overflow [of "[]" "lit ''ip-multicast-source-group''" plain_vm plain_env LNil 7
      "\<lparr>clock = [], answers = [], trace = []\<rparr>"]
  by simp

end
