(* ===== verification/Objects.thy ===== *)
theory Objects
  imports Options
begin

text \<open>
  The userdata of the socket modules, \<open>t_tcp\<close> of tcp.h and \<open>t_udp\<close> of udp.h. They live in a heap, a
  userdata's address is its position; nothing is collected. While a function works on an object,
  the object's timeout and buffer are the fields of that name in the state, and go back to the heap
  when it is done.
\<close>

record t_tcp =
  tcp_sock :: t_socket
  tcp_family :: int
  tcp_block :: real
  tcp_total :: real
  tcp_start :: real
  tcp_birthday :: real
  tcp_sent :: u32
  tcp_received :: u32
  tcp_first :: nat
  tcp_last :: nat
  tcp_data :: bytes

record t_udp =
  udp_sock :: t_socket
  udp_family :: int
  udp_block :: real
  udp_total :: real
  udp_start :: real

datatype userdata = Tcp t_tcp | Udp t_udp

record sock_sys = aux_sys +
  heap :: "userdata list"

text \<open>\<open>memset(tcp, 0, sizeof(t_tcp))\<close>.\<close>

definition zero_tcp :: t_tcp where
  "zero_tcp = \<lparr>tcp_sock = 0, tcp_family = 0, tcp_block = 0, tcp_total = 0, tcp_start = 0, tcp_birthday = 0,
     tcp_sent = 0, tcp_received = 0, tcp_first = 0, tcp_last = 0, tcp_data = replicate BUF_SIZE 0\<rparr>"

fun sock_of :: "userdata \<Rightarrow> t_socket" where
  "sock_of (Tcp t) = tcp_sock t"
| "sock_of (Udp u) = udp_sock u"

fun put_sock :: "t_socket \<Rightarrow> userdata \<Rightarrow> userdata" where
  "put_sock ps (Tcp t) = Tcp (t\<lparr>tcp_sock := ps\<rparr>)"
| "put_sock ps (Udp u) = Udp (u\<lparr>udp_sock := ps\<rparr>)"

fun put_family :: "int \<Rightarrow> userdata \<Rightarrow> userdata" where
  "put_family f (Tcp t) = Tcp (t\<lparr>tcp_family := f\<rparr>)"
| "put_family f (Udp u) = Udp (u\<lparr>udp_family := f\<rparr>)"


section \<open>Working on an object\<close>

definition load_tcp :: "t_tcp \<Rightarrow> 'm sock_sys_scheme \<Rightarrow> 'm sock_sys_scheme" where
  "load_tcp t s = s\<lparr>tm_block := tcp_block t, tm_total := tcp_total t, tm_start := tcp_start t,
     buf_birthday := tcp_birthday t, buf_sent := tcp_sent t, buf_received := tcp_received t,
     buf_first := tcp_first t, buf_last := tcp_last t, buf_data := tcp_data t\<rparr>"

definition load_udp :: "t_udp \<Rightarrow> 'm sock_sys_scheme \<Rightarrow> 'm sock_sys_scheme" where
  "load_udp u s = s\<lparr>tm_block := udp_block u, tm_total := udp_total u, tm_start := udp_start u\<rparr>"

fun saved :: "'m sock_sys_scheme \<Rightarrow> userdata \<Rightarrow> userdata" where
  "saved s (Tcp t) = Tcp (t\<lparr>tcp_block := tm_block s, tcp_total := tm_total s, tcp_start := tm_start s,
     tcp_birthday := buf_birthday s, tcp_sent := buf_sent s, tcp_received := buf_received s,
     tcp_first := buf_first s, tcp_last := buf_last s, tcp_data := buf_data s\<rparr>)"
| "saved s (Udp u) = Udp (u\<lparr>udp_block := tm_block s, udp_total := tm_total s, udp_start := tm_start s\<rparr>)"

text \<open>The object at \<open>p\<close> takes the fields; those of \<open>s0\<close>, of the function's caller, come back.\<close>

definition save_object :: "'m sock_sys_scheme \<Rightarrow> nat \<Rightarrow> 'm sock_sys_scheme \<Rightarrow> 'm sock_sys_scheme" where
  "save_object s0 p s = s\<lparr>tm_block := tm_block s0, tm_total := tm_total s0, tm_start := tm_start s0,
     buf_birthday := buf_birthday s0, buf_sent := buf_sent s0, buf_received := buf_received s0,
     buf_first := buf_first s0, buf_last := buf_last s0, buf_data := buf_data s0,
     heap := (heap s)[p := saved s (heap s ! p)]\<rparr>"

definition cast_error :: lua_error where
  "cast_error = Undefined (lit ''cast'')"

text \<open>A cast of the address to \<open>p_tcp\<close> or \<open>p_udp\<close>; one that is wrong is undefined.\<close>

definition with_tcp :: "nat \<Rightarrow> (t_tcp \<Rightarrow> ('m sock_sys_scheme, 'a) act) \<Rightarrow> ('m sock_sys_scheme, 'a) act" where
  "with_tcp p f s =
    (case (if p < length (heap s) then Some (heap s ! p) else None) of
       Some (Tcp t) \<Rightarrow>
         (case f t (load_tcp t s) of None \<Rightarrow> None | Some (r, s') \<Rightarrow> Some (r, save_object s p s'))
     | _ \<Rightarrow> Some (Inl cast_error, s))"

definition with_udp :: "nat \<Rightarrow> (t_udp \<Rightarrow> ('m sock_sys_scheme, 'a) act) \<Rightarrow> ('m sock_sys_scheme, 'a) act" where
  "with_udp p f s =
    (case (if p < length (heap s) then Some (heap s ! p) else None) of
       Some (Udp u) \<Rightarrow>
         (case f u (load_udp u s) of None \<Rightarrow> None | Some (r, s') \<Rightarrow> Some (r, save_object s p s'))
     | _ \<Rightarrow> Some (Inl cast_error, s))"

definition newuserdata :: "userdata \<Rightarrow> ('m sock_sys_scheme, nat) act" where
  "newuserdata u s = Some (Inr (length (heap s)), s\<lparr>heap := heap s @ [u], meta := (meta s)(length (heap s) := None)\<rparr>)"

definition set_sock :: "nat \<Rightarrow> t_socket \<Rightarrow> ('m sock_sys_scheme, unit) act" where
  "set_sock p ps = act_put (\<lambda>s. s\<lparr>heap := (heap s)[p := put_sock ps (heap s ! p)]\<rparr>)"

definition set_family :: "nat \<Rightarrow> int \<Rightarrow> ('m sock_sys_scheme, unit) act" where
  "set_family p f = act_put (\<lambda>s. s\<lparr>heap := (heap s)[p := put_family f (heap s ! p)]\<rparr>)"


section \<open>The first argument of a method\<close>

type_synonym ('m) meth = "lua_value list \<Rightarrow> ('m sock_sys_scheme, lua_value list) act"

definition tcp_class :: "string \<Rightarrow> (nat \<Rightarrow> t_tcp \<Rightarrow> 'm meth) \<Rightarrow> 'm meth" where
  "tcp_class cls f args = act_bind (auxiliar_checkclass (lit cls) args 1) (\<lambda>p. with_tcp p (\<lambda>t. f p t args))"

definition tcp_group :: "string \<Rightarrow> (nat \<Rightarrow> t_tcp \<Rightarrow> 'm meth) \<Rightarrow> 'm meth" where
  "tcp_group grp f args = act_bind (auxiliar_checkgroup (lit grp) args 1) (\<lambda>p. with_tcp p (\<lambda>t. f p t args))"

definition udp_class :: "string \<Rightarrow> (nat \<Rightarrow> t_udp \<Rightarrow> 'm meth) \<Rightarrow> 'm meth" where
  "udp_class cls f args = act_bind (auxiliar_checkclass (lit cls) args 1) (\<lambda>p. with_udp p (\<lambda>u. f p u args))"

definition udp_group :: "string \<Rightarrow> (nat \<Rightarrow> t_udp \<Rightarrow> 'm meth) \<Rightarrow> 'm meth" where
  "udp_group grp f args = act_bind (auxiliar_checkgroup (lit grp) args 1) (\<lambda>p. with_udp p (\<lambda>u. f p u args))"

end
