(* ===== verification/Tcp.thy ===== *)
theory Tcp
  imports Objects
begin

text \<open>
  tcp.c: the methods of TCP objects and the functions that create them. The three classes are the
  three states of an object: a master is neither bound nor connected, a listening one is a server, a
  connected one, or one accepted, a client.
\<close>


section \<open>Methods\<close>

text \<open>The result of a function that pushes \<open>nil\<close> and the error, or 1.\<close>

definition one_or_error :: "bytes option \<Rightarrow> lua_value list" where
  "one_or_error err = (case err of None \<Rightarrow> [LNum 1] | Some e \<Rightarrow> [LNil, LStr e])"

definition tcp_meth_send :: "lua_vm \<Rightarrow> 'm meth" where
  "tcp_meth_send vm = tcp_class ''tcp{client}'' (\<lambda>p tcp args. buffer_meth_send vm (socket_io (tcp_sock tcp)) args)"

definition tcp_meth_receive :: "lua_vm \<Rightarrow> 'm meth" where
  "tcp_meth_receive vm = tcp_class ''tcp{client}'' (\<lambda>p tcp args. buffer_meth_receive vm (socket_io (tcp_sock tcp)) args)"

definition tcp_meth_getstats :: "'m meth" where
  "tcp_meth_getstats = tcp_class ''tcp{client}'' (\<lambda>p tcp args. buffer_meth_getstats)"

definition tcp_meth_setstats :: "lua_vm \<Rightarrow> 'm meth" where
  "tcp_meth_setstats vm = tcp_class ''tcp{client}'' (\<lambda>p tcp args. buffer_meth_setstats vm args)"

definition tcp_optget :: "(bytes \<times> 'm sys_scheme opt_func) list" where
  "tcp_optget =
    [(lit ''keepalive'', opt_get_keepalive),
     (lit ''reuseaddr'', opt_get_reuseaddr),
     (lit ''tcp-nodelay'', opt_get_tcp_nodelay),
     (lit ''linger'', opt_get_linger)]"

definition tcp_optset :: "(bytes \<times> 'm sys_scheme opt_func) list" where
  "tcp_optset =
    [(lit ''keepalive'', opt_set_keepalive),
     (lit ''reuseaddr'', opt_set_reuseaddr),
     (lit ''tcp-nodelay'', opt_set_tcp_nodelay),
     (lit ''ipv6-v6only'', opt_set_ip6_v6only),
     (lit ''linger'', opt_set_linger)]"

definition tcp_meth_getoption :: "lua_vm \<Rightarrow> inet_env \<Rightarrow> 'm meth" where
  "tcp_meth_getoption vm env =
    tcp_group ''tcp{any}'' (\<lambda>p tcp args. opt_meth_getoption tcp_optget vm env args (tcp_sock tcp))"

definition tcp_meth_setoption :: "lua_vm \<Rightarrow> inet_env \<Rightarrow> 'm meth" where
  "tcp_meth_setoption vm env =
    tcp_group ''tcp{any}'' (\<lambda>p tcp args. opt_meth_setoption tcp_optset vm env args (tcp_sock tcp))"

definition tcp_meth_getfd :: "'m meth" where
  "tcp_meth_getfd = tcp_group ''tcp{any}'' (\<lambda>p tcp args. act_return [LNum (of_int (sint (tcp_sock tcp)))])"

definition tcp_meth_setfd :: "lua_vm \<Rightarrow> 'm meth" where
  "tcp_meth_setfd vm = tcp_group ''tcp{any}'' (\<lambda>p tcp args.
    act_bind (act_lua (luaL_checknumber vm args 2)) (\<lambda>x.
    act_bind (set_sock p (of_nat (c_size x))) (\<lambda>_. act_return [])))"

definition tcp_meth_dirty :: "'m meth" where
  "tcp_meth_dirty = tcp_group ''tcp{any}'' (\<lambda>p tcp args. act_get (\<lambda>s. [LBool (\<not> buffer_isempty s)]))"

definition tcp_meth_accept :: "'m meth" where
  "tcp_meth_accept = tcp_class ''tcp{server}'' (\<lambda>p server args.
    act_bind timeout_markstart (\<lambda>_.
    act_bind (inet_tryaccept (tcp_sock server) (tcp_family server)) (\<lambda>(err, sock).
      case err of
        Some e \<Rightarrow> act_return [LNil, LStr e]
      | None \<Rightarrow>
          act_bind (newuserdata (Tcp zero_tcp)) (\<lambda>clnt.
          act_bind (auxiliar_setclass (lit ''tcp{client}'') clnt) (\<lambda>_.
          act_bind (socket_setnonblocking sock) (\<lambda>_.
          act_bind (set_sock clnt sock) (\<lambda>_.
          act_bind (with_tcp clnt (\<lambda>_. act_bind (timeout_init (- 1) (- 1)) (\<lambda>_. buffer_init))) (\<lambda>_.
          act_bind (set_family clnt (tcp_family server)) (\<lambda>_.
            act_return [LUserdata clnt])))))))))"

definition tcp_meth_bind :: "lua_vm \<Rightarrow> inet_env \<Rightarrow> 'm meth" where
  "tcp_meth_bind vm env = tcp_class ''tcp{master}'' (\<lambda>p tcp args.
    act_bind (act_lua (luaL_checkstring vm args 2)) (\<lambda>address.
    act_bind (act_lua (luaL_checkstring vm args 3)) (\<lambda>port.
      let bindhints = zero_hints\<lparr>ai_socktype := SOCK_STREAM, ai_family := tcp_family tcp, ai_flags := AI_PASSIVE\<rparr>;
          address = (if address = lit ''*'' then None else Some address)
      in act_bind (inet_trybind env (tcp_sock tcp) address port bindhints) (\<lambda>(err, sock, _).
         act_bind (set_sock p sock) (\<lambda>_. act_return (one_or_error err))))))"

text \<open>The class is set even when connecting failed: the connect may be in progress.\<close>

definition tcp_meth_connect :: "lua_vm \<Rightarrow> inet_env \<Rightarrow> 'm meth" where
  "tcp_meth_connect vm env = tcp_group ''tcp{any}'' (\<lambda>p tcp args.
    act_bind (act_lua (luaL_checkstring vm args 2)) (\<lambda>address.
    act_bind (act_lua (luaL_checkstring vm args 3)) (\<lambda>port.
      let connecthints = zero_hints\<lparr>ai_socktype := SOCK_STREAM, ai_family := tcp_family tcp\<rparr> in
      act_bind timeout_markstart (\<lambda>_.
      act_bind (inet_tryconnect env (tcp_sock tcp) address port connecthints) (\<lambda>err.
      act_bind (auxiliar_setclass (lit ''tcp{client}'') p) (\<lambda>_.
        act_return (one_or_error err)))))))"

definition tcp_meth_close :: "'m meth" where
  "tcp_meth_close = tcp_group ''tcp{any}'' (\<lambda>p tcp args.
    act_bind (socket_destroy (tcp_sock tcp)) (\<lambda>ps.
    act_bind (set_sock p ps) (\<lambda>_. act_return [LNum 1])))"

definition tcp_meth_getfamily :: "'m meth" where
  "tcp_meth_getfamily = tcp_group ''tcp{any}'' (\<lambda>p tcp args.
    act_return [LStr (if tcp_family tcp = PF_INET6 then lit ''inet6'' else lit ''inet4'')])"

definition tcp_meth_listen :: "lua_vm \<Rightarrow> 'm meth" where
  "tcp_meth_listen vm = tcp_class ''tcp{master}'' (\<lambda>p tcp args.
    act_bind (act_lua (luaL_optnumber vm args 2 32)) (\<lambda>backlog.
    act_bind (socket_listen (tcp_sock tcp) (c_int backlog)) (\<lambda>err.
      if err \<noteq> IO_DONE then act_return [LNil, push_error (socket_strerror err)]
      else act_bind (auxiliar_setclass (lit ''tcp{server}'') p) (\<lambda>_. act_return [LNum 1]))))"

definition tcp_meth_shutdown :: "lua_vm \<Rightarrow> 'm meth" where
  "tcp_meth_shutdown vm = tcp_class ''tcp{client}'' (\<lambda>p tcp args.
    act_bind (act_lua (luaL_checkoption vm args 2 ''both'' [''receive'', ''send'', ''both''])) (\<lambda>how.
    act_bind (socket_shutdown (tcp_sock tcp) (int how)) (\<lambda>_. act_return [LNum 1])))"

definition tcp_meth_getpeername :: "inet_env \<Rightarrow> 'm meth" where
  "tcp_meth_getpeername env =
    tcp_group ''tcp{any}'' (\<lambda>p tcp args. inet_meth_getpeername env (tcp_sock tcp) (tcp_family tcp))"

definition tcp_meth_getsockname :: "inet_env \<Rightarrow> 'm meth" where
  "tcp_meth_getsockname env =
    tcp_group ''tcp{any}'' (\<lambda>p tcp args. inet_meth_getsockname env (tcp_sock tcp) (tcp_family tcp))"

definition tcp_meth_settimeout :: "lua_vm \<Rightarrow> 'm meth" where
  "tcp_meth_settimeout vm = tcp_group ''tcp{any}'' (\<lambda>p tcp args. timeout_meth_settimeout vm args)"

definition tcp_methods :: "lua_vm \<Rightarrow> inet_env \<Rightarrow> (string \<times> 'm meth) list" where
  "tcp_methods vm env =
    [(''__gc'', tcp_meth_close),
     (''__tostring'', auxiliar_tostring vm),
     (''accept'', tcp_meth_accept),
     (''bind'', tcp_meth_bind vm env),
     (''close'', tcp_meth_close),
     (''connect'', tcp_meth_connect vm env),
     (''dirty'', tcp_meth_dirty),
     (''getfamily'', tcp_meth_getfamily),
     (''getfd'', tcp_meth_getfd),
     (''getoption'', tcp_meth_getoption vm env),
     (''getpeername'', tcp_meth_getpeername env),
     (''getsockname'', tcp_meth_getsockname env),
     (''getstats'', tcp_meth_getstats),
     (''setstats'', tcp_meth_setstats vm),
     (''listen'', tcp_meth_listen vm),
     (''receive'', tcp_meth_receive vm),
     (''send'', tcp_meth_send vm),
     (''setfd'', tcp_meth_setfd vm),
     (''setoption'', tcp_meth_setoption vm env),
     (''setpeername'', tcp_meth_connect vm env),
     (''setsockname'', tcp_meth_bind vm env),
     (''settimeout'', tcp_meth_settimeout vm),
     (''shutdown'', tcp_meth_shutdown vm)]"


section \<open>Library functions\<close>

definition tcp_create :: "int \<Rightarrow> ('m sock_sys_scheme, lua_value list) act" where
  "tcp_create family =
    act_bind (inet_trycreate family SOCK_STREAM) (\<lambda>(err, sock).
      case err of
        Some e \<Rightarrow> act_return [LNil, LStr e]
      | None \<Rightarrow>
          act_bind (newuserdata (Tcp zero_tcp)) (\<lambda>tcp.
          act_bind (auxiliar_setclass (lit ''tcp{master}'') tcp) (\<lambda>_.
          act_bind (socket_setnonblocking sock) (\<lambda>_.
          act_bind
            (if family = PF_INET6
             then act_bind (syscall (CSetsockopt sock IPPROTO_IPV6 IPV6_V6ONLY (le_bytes 4 1))) (\<lambda>_. act_return ())
             else act_return ()) (\<lambda>_.
          act_bind (set_sock tcp sock) (\<lambda>_.
          act_bind (with_tcp tcp (\<lambda>_. act_bind (timeout_init (- 1) (- 1)) (\<lambda>_. buffer_init))) (\<lambda>_.
          act_bind (set_family tcp family) (\<lambda>_.
            act_return [LUserdata tcp]))))))))"

definition tcp_global_create :: "'m meth" where
  "tcp_global_create args = tcp_create PF_INET"

definition tcp_global_create6 :: "'m meth" where
  "tcp_global_create6 args = tcp_create PF_INET6"

text \<open>Works on the object at \<open>p\<close>: the socket and the family are read and written there.\<close>

fun connect6_loop :: "nat \<Rightarrow> addrinfo list \<Rightarrow> bytes option \<Rightarrow> ('m sock_sys_scheme, bytes option) act" where
  "connect6_loop p [] err = act_return err"
| "connect6_loop p (iterator # rest) err =
    act_bind (act_get (\<lambda>s. sock_of (heap s ! p))) (\<lambda>sock.
    act_bind timeout_markstart (\<lambda>_.
    act_bind
      (if sock = SOCKET_INVALID then
         act_bind (socket_create (ai_family iterator) (ai_socktype iterator) (ai_protocol iterator)) (\<lambda>(e, ps).
         act_bind (set_sock p ps) (\<lambda>_.
           if socket_strerror e \<noteq> None then act_return (Inl (socket_strerror e))
           else
             act_bind (set_family p (ai_family iterator)) (\<lambda>_.
             act_bind (socket_setnonblocking ps) (\<lambda>_. act_return (Inr ps)))))
       else act_return (Inr sock))
      (\<lambda>res.
        case res of
          Inl err \<Rightarrow> act_return err
        | Inr ps \<Rightarrow>
            act_bind (socket_connect ps (ai_addr iterator)) (\<lambda>e.
              let err = socket_strerror e in
              if err = None then act_return err else connect6_loop p rest err))))"

definition tryconnect6 ::
  "inet_env \<Rightarrow> bytes \<Rightarrow> bytes \<Rightarrow> addrinfo \<Rightarrow> nat \<Rightarrow> ('m sock_sys_scheme, bytes option) act" where
  "tryconnect6 env remoteaddr remoteserv connecthints p =
    act_bind (syscall (CGetaddrinfo (Some remoteaddr) (Some remoteserv) connecthints)) (\<lambda>r.
      let err = socket_gaistrerror (gai_text env) (sr_ret r) in
      if err \<noteq> None then act_return err else connect6_loop p (sr_info r) err)"

definition tcp_global_connect :: "lua_vm \<Rightarrow> inet_env \<Rightarrow> 'm meth" where
  "tcp_global_connect vm env args =
    act_bind (act_lua (luaL_checkstring vm args 1)) (\<lambda>remoteaddr.
    act_bind (act_lua (luaL_checkstring vm args 2)) (\<lambda>remoteserv.
    act_bind (act_lua (luaL_optlstring vm args 3)) (\<lambda>localaddr.
    act_bind (act_lua (luaL_optstring vm args 4 (lit ''0''))) (\<lambda>localserv.
    act_bind (act_lua (inet_optfamily vm args 5 ''unspec'')) (\<lambda>family.
    act_bind (newuserdata (Tcp zero_tcp)) (\<lambda>p.
    act_bind (with_tcp p (\<lambda>_. act_bind (timeout_init (- 1) (- 1)) (\<lambda>_. buffer_init))) (\<lambda>_.
    act_bind (set_sock p SOCKET_INVALID) (\<lambda>_.
    with_tcp p (\<lambda>_.
      let bindhints = zero_hints\<lparr>ai_socktype := SOCK_STREAM, ai_family := family, ai_flags := AI_PASSIVE\<rparr> in
      act_bind
        (case localaddr of
           None \<Rightarrow> act_return (None, bindhints)
         | Some a \<Rightarrow>
             act_bind (inet_trybind env SOCKET_INVALID (Some (c_str a)) localserv bindhints) (\<lambda>(err, sock, bindhints).
             act_bind (set_sock p sock) (\<lambda>_.
               if err \<noteq> None then act_return (err, bindhints)
               else act_bind (set_family p (ai_family bindhints)) (\<lambda>_. act_return (None, bindhints)))))
        (\<lambda>(err, bindhints).
          case err of
            Some e \<Rightarrow> act_return [LNil, LStr e]
          | None \<Rightarrow>
              let connecthints = zero_hints\<lparr>ai_socktype := SOCK_STREAM, ai_family := ai_family bindhints\<rparr> in
              act_bind (tryconnect6 env remoteaddr remoteserv connecthints p) (\<lambda>err.
                case err of
                  Some e \<Rightarrow>
                    act_bind (act_get (\<lambda>s. sock_of (heap s ! p))) (\<lambda>sock.
                    act_bind (socket_destroy sock) (\<lambda>ps.
                    act_bind (set_sock p ps) (\<lambda>_. act_return [LNil, LStr e])))
                | None \<Rightarrow>
                    act_bind (auxiliar_setclass (lit ''tcp{client}'') p) (\<lambda>_.
                      act_return [LUserdata p]))))))))))))"

definition tcp_func :: "lua_vm \<Rightarrow> inet_env \<Rightarrow> (string \<times> 'm meth) list" where
  "tcp_func vm env = [(''tcp'', tcp_global_create), (''tcp6'', tcp_global_create6), (''connect'', tcp_global_connect vm env)]"

text \<open>The functions a metatable holds are numbered by their place in the table.\<close>

definition luaL_Reg :: "(string \<times> 'm meth) list \<Rightarrow> (bytes \<times> lua_value) list" where
  "luaL_Reg fs = map (\<lambda>(i, nf). (lit (fst nf), LFunction i)) (enumerate 0 fs)"

definition tcp_open :: "lua_vm \<Rightarrow> inet_env \<Rightarrow> ('m sock_sys_scheme, unit) act" where
  "tcp_open vm env =
    (let methods = luaL_Reg (tcp_methods vm env :: (string \<times> 'm meth) list) in
    act_bind (auxiliar_newclass (lit ''tcp{master}'') methods) (\<lambda>_.
    act_bind (auxiliar_newclass (lit ''tcp{client}'') methods) (\<lambda>_.
    act_bind (auxiliar_newclass (lit ''tcp{server}'') methods) (\<lambda>_.
    act_bind (auxiliar_add2group (lit ''tcp{master}'') (lit ''tcp{any}'')) (\<lambda>_.
    act_bind (auxiliar_add2group (lit ''tcp{client}'') (lit ''tcp{any}'')) (\<lambda>_.
    auxiliar_add2group (lit ''tcp{server}'') (lit ''tcp{any}'')))))))"

end
