(* ===== verification/Udp.thy ===== *)
theory Udp
  imports Tcp
begin

text \<open>
  udp.c: the methods of UDP objects, connected and unconnected, and the functions that create them.
\<close>

abbreviation (input) UDP_DATAGRAMSIZE :: nat where "UDP_DATAGRAMSIZE \<equiv> 8192"


section \<open>Methods\<close>

definition udp_strerror :: "int \<Rightarrow> bytes option" where
  "udp_strerror err = (if err = IO_CLOSED then Some (lit ''refused'') else socket_strerror err)"

definition udp_meth_send :: "lua_vm \<Rightarrow> 'm meth" where
  "udp_meth_send vm = udp_class ''udp{connected}'' (\<lambda>p udp args.
    act_bind (act_lua (luaL_checklstring vm args 2)) (\<lambda>d.
    act_bind timeout_markstart (\<lambda>_.
    act_bind (socket_send (udp_sock udp) d) (\<lambda>(err, sent).
      act_return (if err \<noteq> IO_DONE then [LNil, push_error (udp_strerror err)] else [LNum (of_nat sent)])))))"

definition send_datagram :: "t_socket \<Rightarrow> bytes \<Rightarrow> bytes \<Rightarrow> ('m sock_sys_scheme, lua_value list) act" where
  "send_datagram ps d addr =
    act_bind timeout_markstart (\<lambda>_.
    act_bind (socket_sendto ps d addr) (\<lambda>(err, sent).
      act_return (if err \<noteq> IO_DONE then [LNil, push_error (udp_strerror err)] else [LNum (of_nat sent)])))"

definition udp_meth_sendto :: "lua_vm \<Rightarrow> inet_env \<Rightarrow> 'm meth" where
  "udp_meth_sendto vm env = udp_class ''udp{unconnected}'' (\<lambda>p udp args.
    act_bind (act_lua (luaL_checklstring vm args 2)) (\<lambda>d.
    act_bind (act_lua (luaL_checkstring vm args 3)) (\<lambda>ip.
    act_bind (act_lua (luaL_checknumber vm args 4)) (\<lambda>x.
      let port = c_ushort x in
      if udp_family udp = PF_INET then
        (case win32xp_inet_pton env PF_INET ip of
           None \<Rightarrow> act_error (ArgError 3 (lit ''invalid ip address''))
         | Some a \<Rightarrow> send_datagram (udp_sock udp) d (sockaddr_in PF_INET port a))
      else if udp_family udp = PF_INET6 then
        (case win32xp_inet_pton env PF_INET6 ip of
           None \<Rightarrow> act_error (ArgError 3 (lit ''invalid ip address''))
         | Some a \<Rightarrow> send_datagram (udp_sock udp) d (sockaddr_in6 PF_INET6 port a))
      else act_return (unknown_family (udp_family udp))))))"

definition udp_meth_receive :: "lua_vm \<Rightarrow> 'm meth" where
  "udp_meth_receive vm = udp_group ''udp{any}'' (\<lambda>p udp args.
    act_bind (act_lua (luaL_optnumber vm args 2 (of_nat UDP_DATAGRAMSIZE))) (\<lambda>x.
    act_bind timeout_markstart (\<lambda>_.
    act_bind (socket_recv (udp_sock udp) (min (c_size x) UDP_DATAGRAMSIZE)) (\<lambda>(err, got).
      let err = (if err = IO_CLOSED then IO_DONE else err)
      in act_return (if err \<noteq> IO_DONE then [LNil, push_error (udp_strerror err)] else [LStr got])))))"

text \<open>The sender's address is a local structure: what the kernel does not write is undefined.\<close>

definition udp_meth_receivefrom :: "lua_vm \<Rightarrow> inet_env \<Rightarrow> 'm meth" where
  "udp_meth_receivefrom vm env = udp_class ''udp{unconnected}'' (\<lambda>p udp args.
    act_bind (act_lua (luaL_optnumber vm args 2 (of_nat UDP_DATAGRAMSIZE))) (\<lambda>x.
    act_bind timeout_markstart (\<lambda>_.
      let count = min (c_size x) UDP_DATAGRAMSIZE in
      if udp_family udp = PF_INET then
        act_bind (socket_recvfrom (udp_sock udp) count) (\<lambda>(err, got, addr).
          let err = (if err = IO_CLOSED then IO_DONE else err) in
          if err \<noteq> IO_DONE then act_return [LNil, push_error (udp_strerror err)]
          else if length addr < 16 then act_error (Undefined (lit ''addr''))
          else act_return [LStr got, LStr (win32xp_inet_ntop env PF_INET (sin_addr addr)), LNum (of_nat (sin_port addr))])
      else if udp_family udp = PF_INET6 then
        act_bind (socket_recvfrom (udp_sock udp) count) (\<lambda>(err, got, addr).
          let err = (if err = IO_CLOSED then IO_DONE else err) in
          if err \<noteq> IO_DONE then act_return [LNil, push_error (udp_strerror err)]
          else if length addr < 28 then act_error (Undefined (lit ''addr''))
          else act_return [LStr got, LStr (win32xp_inet_ntop env PF_INET6 (sin6_addr addr)), LNum (of_nat (sin_port addr))])
      else act_return (unknown_family (udp_family udp)))))"

definition udp_meth_getfamily :: "'m meth" where
  "udp_meth_getfamily = udp_group ''udp{any}'' (\<lambda>p udp args.
    act_return [LStr (if udp_family udp = PF_INET6 then lit ''inet6'' else lit ''inet4'')])"

definition udp_meth_getfd :: "'m meth" where
  "udp_meth_getfd = udp_group ''udp{any}'' (\<lambda>p udp args. act_return [LNum (of_int (sint (udp_sock udp)))])"

definition udp_meth_setfd :: "lua_vm \<Rightarrow> 'm meth" where
  "udp_meth_setfd vm = udp_group ''udp{any}'' (\<lambda>p udp args.
    act_bind (act_lua (luaL_checknumber vm args 2)) (\<lambda>x.
    act_bind (set_sock p (of_nat (c_size x))) (\<lambda>_. act_return [])))"

definition udp_meth_dirty :: "'m meth" where
  "udp_meth_dirty = udp_group ''udp{any}'' (\<lambda>p udp args. act_return [LBool False])"

definition udp_meth_getpeername :: "inet_env \<Rightarrow> 'm meth" where
  "udp_meth_getpeername env =
    udp_class ''udp{connected}'' (\<lambda>p udp args. inet_meth_getpeername env (udp_sock udp) (udp_family udp))"

definition udp_meth_getsockname :: "inet_env \<Rightarrow> 'm meth" where
  "udp_meth_getsockname env =
    udp_group ''udp{any}'' (\<lambda>p udp args. inet_meth_getsockname env (udp_sock udp) (udp_family udp))"

definition udp_optset :: "(bytes \<times> 'm sys_scheme opt_func) list" where
  "udp_optset =
    [(lit ''dontroute'', opt_set_dontroute),
     (lit ''broadcast'', opt_set_broadcast),
     (lit ''reuseaddr'', opt_set_reuseaddr),
     (lit ''reuseport'', opt_set_reuseport),
     (lit ''ip-multicast-if'', opt_set_ip_multicast_if),
     (lit ''ip-multicast-ttl'', opt_set_ip_multicast_ttl),
     (lit ''ip-multicast-loop'', opt_set_ip_multicast_loop),
     (lit ''ip-add-membership'', opt_set_ip_add_membership),
     (lit ''ip-drop-membership'', opt_set_ip_drop_membersip),
     (lit ''ipv6-v6only'', opt_set_ip6_v6only)]"

definition udp_optget :: "(bytes \<times> 'm sys_scheme opt_func) list" where
  "udp_optget =
    [(lit ''ip-multicast-if'', opt_get_ip_multicast_if),
     (lit ''ip-multicast-loop'', opt_get_ip_multicast_loop)]"

definition udp_meth_setoption :: "lua_vm \<Rightarrow> inet_env \<Rightarrow> 'm meth" where
  "udp_meth_setoption vm env =
    udp_group ''udp{any}'' (\<lambda>p udp args. opt_meth_setoption udp_optset vm env args (udp_sock udp))"

definition udp_meth_getoption :: "lua_vm \<Rightarrow> inet_env \<Rightarrow> 'm meth" where
  "udp_meth_getoption vm env =
    udp_group ''udp{any}'' (\<lambda>p udp args. opt_meth_getoption udp_optget vm env args (udp_sock udp))"

definition udp_meth_settimeout :: "lua_vm \<Rightarrow> 'm meth" where
  "udp_meth_settimeout vm = udp_group ''udp{any}'' (\<lambda>p udp args. timeout_meth_settimeout vm args)"

definition udp_meth_setpeername :: "lua_vm \<Rightarrow> inet_env \<Rightarrow> 'm meth" where
  "udp_meth_setpeername vm env = udp_group ''udp{any}'' (\<lambda>p udp args.
    act_bind (act_lua (luaL_checkstring vm args 2)) (\<lambda>address.
      let connecting = (address \<noteq> lit ''*'') in
      act_bind (act_lua (if connecting then luaL_checkstring vm args 3 else Inr (lit ''0''))) (\<lambda>port.
        let connecthints = zero_hints\<lparr>ai_socktype := SOCK_DGRAM, ai_family := udp_family udp\<rparr> in
        if connecting then
          act_bind (inet_tryconnect env (udp_sock udp) address port connecthints) (\<lambda>err.
            case err of
              Some e \<Rightarrow> act_return [LNil, LStr e]
            | None \<Rightarrow> act_bind (auxiliar_setclass (lit ''udp{connected}'') p) (\<lambda>_. act_return [LNum 1]))
        else
          act_bind (inet_trydisconnect (udp_sock udp) (udp_family udp)) (\<lambda>_.
          act_bind (auxiliar_setclass (lit ''udp{unconnected}'') p) (\<lambda>_. act_return [LNum 1])))))"

definition udp_meth_close :: "'m meth" where
  "udp_meth_close = udp_group ''udp{any}'' (\<lambda>p udp args.
    act_bind (socket_destroy (udp_sock udp)) (\<lambda>ps.
    act_bind (set_sock p ps) (\<lambda>_. act_return [LNum 1])))"

definition udp_meth_setsockname :: "lua_vm \<Rightarrow> inet_env \<Rightarrow> 'm meth" where
  "udp_meth_setsockname vm env = udp_class ''udp{unconnected}'' (\<lambda>p udp args.
    act_bind (act_lua (luaL_checkstring vm args 2)) (\<lambda>address.
    act_bind (act_lua (luaL_checkstring vm args 3)) (\<lambda>port.
      let bindhints = zero_hints\<lparr>ai_socktype := SOCK_DGRAM, ai_family := udp_family udp, ai_flags := AI_PASSIVE\<rparr> in
      act_bind (inet_trybind env (udp_sock udp) (Some address) port bindhints) (\<lambda>(err, sock, _).
      act_bind (set_sock p sock) (\<lambda>_. act_return (one_or_error err))))))"

definition udp_methods :: "lua_vm \<Rightarrow> inet_env \<Rightarrow> (string \<times> 'm meth) list" where
  "udp_methods vm env =
    [(''__gc'', udp_meth_close),
     (''__tostring'', auxiliar_tostring vm),
     (''close'', udp_meth_close),
     (''dirty'', udp_meth_dirty),
     (''getfamily'', udp_meth_getfamily),
     (''getfd'', udp_meth_getfd),
     (''getpeername'', udp_meth_getpeername env),
     (''getsockname'', udp_meth_getsockname env),
     (''receive'', udp_meth_receive vm),
     (''receivefrom'', udp_meth_receivefrom vm env),
     (''send'', udp_meth_send vm),
     (''sendto'', udp_meth_sendto vm env),
     (''setfd'', udp_meth_setfd vm),
     (''setoption'', udp_meth_setoption vm env),
     (''getoption'', udp_meth_getoption vm env),
     (''setpeername'', udp_meth_setpeername vm env),
     (''setsockname'', udp_meth_setsockname vm env),
     (''settimeout'', udp_meth_settimeout vm)]"


section \<open>Library functions\<close>

text \<open>\<open>fresh\<close> is what the memory of the new userdata holds; \<open>tm.start\<close> keeps it.\<close>

definition udp_create :: "t_udp \<Rightarrow> int \<Rightarrow> ('m sock_sys_scheme, lua_value list) act" where
  "udp_create fresh family =
    act_bind (inet_trycreate family SOCK_DGRAM) (\<lambda>(err, sock).
      case err of
        Some e \<Rightarrow> act_return [LNil, LStr e]
      | None \<Rightarrow>
          act_bind (newuserdata (Udp fresh)) (\<lambda>udp.
          act_bind (auxiliar_setclass (lit ''udp{unconnected}'') udp) (\<lambda>_.
          act_bind (socket_setnonblocking sock) (\<lambda>_.
          act_bind
            (if family = PF_INET6
             then act_bind (syscall (CSetsockopt sock IPPROTO_IPV6 IPV6_V6ONLY (le_bytes 4 1))) (\<lambda>_. act_return ())
             else act_return ()) (\<lambda>_.
          act_bind (set_sock udp sock) (\<lambda>_.
          act_bind (with_udp udp (\<lambda>_. timeout_init (- 1) (- 1))) (\<lambda>_.
          act_bind (set_family udp family) (\<lambda>_.
            act_return [LUserdata udp]))))))))"

definition udp_global_create :: "t_udp \<Rightarrow> 'm meth" where
  "udp_global_create fresh args = udp_create fresh PF_INET"

definition udp_global_create6 :: "t_udp \<Rightarrow> 'm meth" where
  "udp_global_create6 fresh args = udp_create fresh PF_INET6"

definition udp_func :: "t_udp \<Rightarrow> (string \<times> 'm meth) list" where
  "udp_func fresh = [(''udp'', udp_global_create fresh), (''udp6'', udp_global_create6 fresh)]"

definition udp_open :: "lua_vm \<Rightarrow> inet_env \<Rightarrow> ('m sock_sys_scheme, unit) act" where
  "udp_open vm env =
    (let methods = luaL_Reg (udp_methods vm env :: (string \<times> 'm meth) list) in
    act_bind (auxiliar_newclass (lit ''udp{connected}'') methods) (\<lambda>_.
    act_bind (auxiliar_newclass (lit ''udp{unconnected}'') methods) (\<lambda>_.
    act_bind (auxiliar_add2group (lit ''udp{connected}'') (lit ''udp{any}'')) (\<lambda>_.
    act_bind (auxiliar_add2group (lit ''udp{unconnected}'') (lit ''udp{any}'')) (\<lambda>_.
    act_bind (auxiliar_add2group (lit ''udp{connected}'') (lit ''select{able}'')) (\<lambda>_.
    auxiliar_add2group (lit ''udp{unconnected}'') (lit ''select{able}'')))))))"

end
