(* ===== verification/Ownership.thy ===== *)
theory Ownership
  imports Objects "HOL-Library.Multiset"
begin

text \<open>
  Accounting of descriptors. A run creates the descriptors its \<open>socket\<close>, \<open>accept\<close> and \<open>open\<close> calls
  return and closes those it calls \<open>closesocket\<close> or \<open>close\<close> on. \<open>hand e P m Q\<close> says of a step that leaves the objects
  alone: starting with the descriptors \<open>P\<close> in hand it ends with \<open>Q x\<close> in hand, and what it created
  and closed makes up the difference; it raises a Lua error only when \<open>e\<close>, never that of a wrong
  cast, and then holds nothing.
\<close>

definition live :: "t_socket \<Rightarrow> t_socket multiset" where
  "live k = (if k = SOCKET_INVALID then {#} else {#k#})"

fun created1 :: "call \<times> sysres \<Rightarrow> t_socket multiset" where
  "created1 (CSocket d t p, r) = live (of_int (sr_ret r))"
| "created1 (CAccept k, r) = live (of_int (sr_ret r))"
| "created1 (COpen path flags, r) = (let k = of_int (sr_ret r) in if sint k < 0 then {#} else {#k#})"
| "created1 _ = {#}"

fun closed1 :: "call \<times> sysres \<Rightarrow> t_socket multiset" where
  "closed1 (CClose k, r) = {#k#}"
| "closed1 _ = {#}"

definition created :: "(call \<times> sysres) list \<Rightarrow> t_socket multiset" where
  "created cs = sum_list (map created1 cs)"

definition closed :: "(call \<times> sysres) list \<Rightarrow> t_socket multiset" where
  "closed cs = sum_list (map closed1 cs)"

lemma created_simps [simp]: "created [] = {#}" "created (x # cs) = created1 x + created cs" "created (cs @ ds) = created cs + created ds"
  by (simp_all add: created_def)

lemma closed_simps [simp]: "closed [] = {#}" "closed (x # cs) = closed1 x + closed cs" "closed (cs @ ds) = closed cs + closed ds"
  by (simp_all add: closed_def)

lemma live_simps [simp]: "live SOCKET_INVALID = {#}" "k \<noteq> SOCKET_INVALID \<Longrightarrow> live k = {#k#}"
  by (simp_all add: live_def)

definition owned :: "'m sock_sys_scheme \<Rightarrow> t_socket multiset" where
  "owned s = sum_list (map (\<lambda>u. live (sock_of u)) (heap s))"

lemma cast_error_simps [simp]:
  "ArgError n m \<noteq> cast_error" "TypeError n m \<noteq> cast_error" "RunError m \<noteq> cast_error"
  "Undefined m = cast_error \<longleftrightarrow> m = lit ''cast''" "cast_error \<noteq> ArgError n m" "cast_error \<noteq> TypeError n m"
  by (simp_all add: cast_error_def)

definition outcome :: "bool \<Rightarrow> lua_error + 'a \<Rightarrow> bool" where
  "outcome e r \<longleftrightarrow> (\<forall>x. r = Inl x \<longrightarrow> e \<and> x \<noteq> cast_error)"

lemma outcome_simps [simp]: "outcome e (Inr x)" "outcome e (Inl y) \<longleftrightarrow> e \<and> y \<noteq> cast_error"
  "outcome False r \<longleftrightarrow> (\<exists>x. r = Inr x)"
  by (cases r; simp add: outcome_def)+

definition hand ::
  "bool \<Rightarrow> t_socket multiset \<Rightarrow> ('m buf_sys_scheme, 'a) act \<Rightarrow> ('a \<Rightarrow> t_socket multiset) \<Rightarrow> bool" where
  "hand e P m Q \<longleftrightarrow>
    (\<forall>s r s'. m s = Some (r, s') \<longrightarrow> buf_sys.more s' = buf_sys.more s \<and>
      (\<exists>cs. ran s s' cs \<and> P + created cs = (case r of Inl x \<Rightarrow> {#} | Inr x \<Rightarrow> Q x) + closed cs \<and>
        outcome e r))"

named_theorems hand_intros \<open>rules of the descriptor accounting\<close>


section \<open>Rules\<close>

lemma hand_bind:
  assumes "hand e P m Q" "\<And>x. hand e (Q x) (f x) R"
  shows "hand e P (act_bind m f) R"
  unfolding hand_def
proof (intro allI impI)
  fix s r s' assume "act_bind m f s = Some (r, s')"
  then consider x s1 where "m s = Some (Inr x, s1)" "f x s1 = Some (r, s')"
    | err where "m s = Some (Inl err, s')" "r = Inl err" by (auto simp: act_bind_Some_iff)
  then show "buf_sys.more s' = buf_sys.more s \<and>
      (\<exists>cs. ran s s' cs \<and> P + created cs = (case r of Inl x \<Rightarrow> {#} | Inr x \<Rightarrow> R x) + closed cs \<and> outcome e r)"
  proof cases
    case 1
    from assms(1) 1(1) obtain cs where cs: "ran s s1 cs" "P + created cs = Q x + closed cs" "buf_sys.more s1 = buf_sys.more s"
      unfolding hand_def by fastforce
    from assms(2) 1(2) obtain ds where ds: "ran s1 s' ds" "Q x + created ds = (case r of Inl x \<Rightarrow> {#} | Inr x \<Rightarrow> R x) + closed ds"
      "buf_sys.more s' = buf_sys.more s1" "outcome e r"
      unfolding hand_def by metis
    have "P + created (cs @ ds) = (case r of Inl x \<Rightarrow> {#} | Inr x \<Rightarrow> R x) + closed (cs @ ds)"
      using cs(2) ds(2) by (simp add: ac_simps) (metis add.assoc add.commute)
    with cs ds show ?thesis using ran_trans by fastforce
  next
    case 2
    with assms(1) show ?thesis unfolding hand_def by fastforce
  qed
qed

lemma hand_frame:
  assumes "hand False P m Q"
  shows "hand e (P + F) m (\<lambda>x. Q x + F)"
  unfolding hand_def
proof (intro allI impI)
  fix s r s' assume "m s = Some (r, s')"
  with assms obtain cs x where "ran s s' cs" "r = Inr x" "P + created cs = Q x + closed cs" "buf_sys.more s' = buf_sys.more s"
    unfolding hand_def by fastforce
  then show "buf_sys.more s' = buf_sys.more s \<and>
      (\<exists>cs. ran s s' cs \<and> P + F + created cs = (case r of Inl x \<Rightarrow> {#} | Inr x \<Rightarrow> Q x + F) + closed cs \<and> outcome e r)"
    by (auto simp: ac_simps intro!: exI [of _ cs])
qed

text \<open>What a step that touches no descriptor is done with in hand.\<close>

lemma hand_keep: "hand False {#} m (\<lambda>_. {#}) \<Longrightarrow> hand e F m (\<lambda>_. F)"
  using hand_frame [of "{#}" m "\<lambda>_. {#}" e F] by simp

lemma hand_weaken: "hand False P m Q \<Longrightarrow> hand e P m Q"
  using hand_frame [of P m Q e "{#}"] by simp

lemma hand_return [hand_intros]: "P = Q x \<Longrightarrow> hand e P (act_return x) Q"
  by (auto simp: hand_def intro!: exI [of _ "[]"])

lemma hand_get [hand_intros]: "(\<And>s. P = Q (f s)) \<Longrightarrow> hand e P (act_get f) Q"
  by (auto simp: hand_def intro!: exI [of _ "[]"])

lemma hand_lua [hand_intros]: "x \<noteq> Inl cast_error \<Longrightarrow> hand True {#} (act_lua x) (\<lambda>_. {#})"
  by (cases x) (auto simp: hand_def intro!: exI [of _ "[]"])

lemma hand_error [hand_intros]: "x \<noteq> cast_error \<Longrightarrow> hand True {#} (act_error x) Q"
  by (auto simp: hand_def intro!: exI [of _ "[]"])

lemma hand_put: "(\<And>s. buf_sys.more (g s) = buf_sys.more s \<and> trace (g s) = trace s \<and> answers (g s) = answers s) \<Longrightarrow>
    hand e P (act_put g) (\<lambda>_. P)"
  by (auto simp: hand_def ran_def intro!: exI [of _ "[]"])

lemma hand_syscall: "(\<And>r. P + created1 (c, r) = Q r + closed1 (c, r)) \<Longrightarrow> hand e P (syscall c) Q"
  by (fastforce simp: hand_def syscall_Some ran_def intro!: exI [of _ "[(c, _)]"])

lemma hand_clock [hand_intros]: "hand e P read_clock (\<lambda>_. P)"
  by (auto simp: hand_def read_clock_Some ran_def intro!: exI [of _ "[]"])

lemma hand_if [hand_intros]: "(b \<Longrightarrow> hand e P m Q) \<Longrightarrow> (\<not> b \<Longrightarrow> hand e P n Q) \<Longrightarrow> hand e P (if b then m else n) Q"
  by simp

lemma hand_state_if [hand_intros]:
  "hand e P m Q \<Longrightarrow> hand e P n Q \<Longrightarrow> hand e P (\<lambda>s. if b s then m s else n s) Q"
  by (auto simp: hand_def)

lemma hand_state: "(\<And>x. hand e P (m x) Q) \<Longrightarrow> hand e P (\<lambda>s. m s s) Q"
  by (auto simp: hand_def)

lemma hand_option [hand_intros]:
  "(x = None \<Longrightarrow> hand e P m Q) \<Longrightarrow> (\<And>y. x = Some y \<Longrightarrow> hand e P (f y) Q) \<Longrightarrow> hand e P (case x of None \<Rightarrow> m | Some y \<Rightarrow> f y) Q"
  by (cases x) auto

lemma hand_prod [hand_intros]: "(\<And>a b. x = (a, b) \<Longrightarrow> hand e P (f a b) Q) \<Longrightarrow> hand e P (case x of (a, b) \<Rightarrow> f a b) Q"
  by (cases x) auto

lemma hand_Let [hand_intros]: "(\<And>y. y = x \<Longrightarrow> hand e P (f y) Q) \<Longrightarrow> hand e P (let y = x in f y) Q"
  by simp


text \<open>The argument checks raise other errors.\<close>

lemma check_no_cast [simp]:
  "luaL_checklstring vm args n \<noteq> Inl cast_error" "luaL_checkstring vm args n \<noteq> Inl cast_error"
  "luaL_optlstring vm args n \<noteq> Inl cast_error" "luaL_optstring vm args n d \<noteq> Inl cast_error"
  "luaL_checknumber vm args n \<noteq> Inl cast_error" "luaL_optnumber vm args n x \<noteq> Inl cast_error"
  "auxiliar_checkboolean args n \<noteq> Inl cast_error" "table_arg args \<noteq> Inl cast_error"
  "luaL_checkoption vm args n d' opts \<noteq> Inl cast_error" "inet_optfamily vm args n d' \<noteq> Inl cast_error"
  by (auto simp: lua_arg_simps auxiliar_checkboolean_def auxiliar_typeerror_def table_arg_def luaL_checkoption_def
      inet_optfamily_def lua_bind_def Let_def split: option.splits lua_value.splits sum.splits)

lemma unsupported_no_cast [simp]: "unsupported_option name \<noteq> cast_error"
  by (auto simp: unsupported_option_def Let_def)


section \<open>The layers below the objects\<close>

lemma hand_timeouts [hand_intros]:
  "hand e P timeout_gettime (\<lambda>_. P)" "hand e P timeout_get (\<lambda>_. P)" "hand e P timeout_markstart (\<lambda>_. P)"
  "hand e P (timeout_init x y) (\<lambda>_. P)"
proof -
  show gettime: "hand e P timeout_gettime (\<lambda>_. P)" for e
    unfolding timeout_gettime_def by (rule hand_bind, rule hand_intros, rule hand_intros, rule refl)
  show "hand e P timeout_get (\<lambda>_. P)"
    unfolding timeout_get_def [abs_def] Let_def
    by (intro hand_intros hand_bind [OF gettime] hand_state [where m = "\<lambda>s. act_bind timeout_gettime (_ s)"]
        hand_state [where m = "\<lambda>s. act_return (_ s)"] refl)
  show "hand e P timeout_markstart (\<lambda>_. P)"
    unfolding timeout_markstart_def by (rule hand_bind [OF gettime]) (rule hand_put, simp)
  show "hand e P (timeout_init x y) (\<lambda>_. P)"
    unfolding timeout_init_def by (rule hand_put) simp
qed

lemma hand_waitfd [hand_intros]: "hand e P (socket_waitfd ps sw) (\<lambda>_. P)"
  unfolding socket_waitfd_def [abs_def] Let_def
  by (intro hand_intros hand_bind [OF hand_timeouts(2)] hand_bind [OF hand_syscall [where Q = "\<lambda>_. P"]] refl) simp_all

lemma hand_retry_loop:
  assumes fin: "\<And>r x. finished r = Some x \<Longrightarrow> P + created1 (c, r) = Q x + closed1 (c, r)"
    and go: "\<And>r. finished r = None \<Longrightarrow> created1 (c, r) = {#} \<and> closed1 (c, r) = {#}"
    and give: "\<And>err. Q (err, fail) = P"
  shows "hand e P (retry_loop ps c sw finished again fail :: ('m buf_sys_scheme, _) act) Q"
  unfolding hand_def
proof (intro allI impI)
  fix s :: "'m buf_sys_scheme" and r s' assume "retry_loop ps c sw finished again fail s = Some (r, s')"
  then show "buf_sys.more s' = buf_sys.more s \<and>
      (\<exists>cs. ran s s' cs \<and> P + created cs = (case r of Inl x \<Rightarrow> {#} | Inr x \<Rightarrow> Q x) + closed cs \<and> outcome e r)"
  proof (induction s rule: measure_induct_rule [where f = "\<lambda>s. length (answers s)"])
    case (less s)
    from less.prems obtain a s1 where c: "syscall c s = Some (Inr a, s1)"
      by (subst (asm) retry_loop.simps) (auto split: option.splits sum.splits)
    then have s1: "ran s s1 [(c, a)]" "buf_sys.more s1 = buf_sys.more s" by (auto simp: syscall_Some ran_def)
    consider (fin) x where "finished a = Some x" | (stop) "finished a = None" "\<not> again (sr_err a)"
      | (wait) "finished a = None" "again (sr_err a)" by (cases "finished a") auto
    then show ?case
    proof cases
      case fin
      with less.prems c have "r = Inr x" "s' = s1" by (subst (asm) retry_loop.simps; simp)+
      with s1 assms(1) [OF fin] show ?thesis by (intro conjI exI [of _ "[(c, a)]"]) auto
    next
      case stop
      with less.prems c have "r = Inr (sr_err a, fail)" "s' = s1" by (subst (asm) retry_loop.simps; simp)+
      with s1 go [OF stop(1)] give show ?thesis by (intro conjI exI [of _ "[(c, a)]"]) auto
    next
      case wait
      with less.prems c obtain q s2 where w: "socket_waitfd ps sw s1 = Some (q, s2)"
        by (subst (asm) retry_loop.simps) (auto split: option.splits)
      from hand_waitfd [of False "{#}" ps sw, unfolded hand_def] w obtain ws err where
        ws: "ran s1 s2 ws" "created ws = closed ws" "buf_sys.more s2 = buf_sys.more s1" "q = Inr err" by fastforce
      have s2: "ran s s2 ((c, a) # ws)" "created ((c, a) # ws) = closed ((c, a) # ws)"
        using ran_trans [OF s1(1) ws(1)] go [OF wait(1)] ws(2) by simp_all
      show ?thesis
      proof (cases "err = IO_DONE")
        case False
        with less.prems c wait w ws(4) have "r = Inr (err, fail)" "s' = s2"
          by (subst (asm) retry_loop.simps; simp)+
        with s1 s2 ws give show ?thesis by (intro conjI exI [of _ "(c, a) # ws"]) auto
      next
        case True
        with less.prems c wait w ws(4) have rec: "retry_loop ps c sw finished again fail s2 = Some (r, s')"
          by (subst (asm) retry_loop.simps) simp
        have "length (answers s2) < length (answers s)" using ran_length [OF s2(1)] by simp
        from less.IH [OF this rec] obtain cs where cs: "ran s2 s' cs" "buf_sys.more s' = buf_sys.more s2"
          "P + created cs = (case r of Inl x \<Rightarrow> {#} | Inr x \<Rightarrow> Q x) + closed cs" "outcome e r" by blast
        let ?cs = "((c, a) # ws) @ cs"
        have "P + created ?cs = closed ((c, a) # ws) + (P + created cs)"
          unfolding created_simps(3) s2(2) by (simp only: ac_simps)
        also have "\<dots> = (case r of Inl x \<Rightarrow> {#} | Inr x \<Rightarrow> Q x) + closed ?cs"
          unfolding cs(3) closed_simps(3) by (simp only: ac_simps)
        finally have "P + created ?cs = (case r of Inl x \<Rightarrow> {#} | Inr x \<Rightarrow> Q x) + closed ?cs" .
        with ran_trans [OF s2(1) cs(1)] cs(2,4) s1(2) ws(3) show ?thesis by (intro conjI exI [of _ ?cs]) simp_all
      qed
    qed
  qed
qed


lemma hand_call [hand_intros]:
  "(\<And>r. created1 (c, r) = {#}) \<Longrightarrow> (\<And>r. closed1 (c, r) = {#}) \<Longrightarrow> hand e P (syscall c) (\<lambda>_. P)"
  by (rule hand_syscall) simp

lemma hand_blocking [hand_intros]:
  "hand e P (socket_setblocking ps) (\<lambda>_. P)" "hand e P (socket_setnonblocking ps) (\<lambda>_. P)"
  unfolding socket_setblocking_def socket_setnonblocking_def by - ((rule hand_bind | rule hand_intros | simp)+)

lemma hand_socket_neutral [hand_intros]:
  "hand e P (socket_shutdown ps how) (\<lambda>_. P)" "hand e P (socket_connect ps addr) (\<lambda>_. P)"
  "hand e P (socket_bind ps addr) (\<lambda>_. P)" "hand e P (socket_listen ps backlog) (\<lambda>_. P)"
  "hand e P (socket_gethostbyaddr addr) (\<lambda>_. P)" "hand e P (socket_gethostbyname addr) (\<lambda>_. P)"
  unfolding socket_shutdown_def socket_connect_def socket_bind_def socket_listen_def socket_gethostbyaddr_def
    socket_gethostbyname_def
  by - ((rule hand_bind | rule hand_intros | simp)+)

lemma hand_transfers [hand_intros]:
  "hand e P (socket_send ps d) (\<lambda>_. P)" "hand e P (socket_sendto ps d addr) (\<lambda>_. P)"
  "hand e P (socket_recv ps k) (\<lambda>_. P)" "hand e P (socket_recvfrom ps k) (\<lambda>_. P)"
  unfolding socket_send_def socket_sendto_def socket_recv_def socket_recvfrom_def
  by - ((rule hand_if hand_return hand_retry_loop | simp add: Let_def split: if_splits)+)

text \<open>The three steps that touch descriptors.\<close>

lemma hand_create: "hand e P (socket_create d t p) (\<lambda>(err, ps). P + live ps)"
  unfolding socket_create_def Let_def
  by (rule hand_bind [OF hand_syscall [where Q = "\<lambda>r. P + live (of_int (sr_ret r))"]]) (auto intro: hand_intros)

text \<open>A failed call returns no descriptor.\<close>

definition got_sock :: "int \<Rightarrow> t_socket \<Rightarrow> t_socket multiset" where
  "got_sock err k = (if err = IO_DONE then live k else {#})"

lemma hand_create_done: "hand e P (socket_create d t p) (\<lambda>(err, ps). P + got_sock err ps)"
  unfolding socket_create_def Let_def
  by (rule hand_bind [OF hand_syscall [where Q = "\<lambda>r. P + live (of_int (sr_ret r))"]])
    (auto simp: got_sock_def intro: hand_intros)

lemma hand_accept_done: "hand e P (socket_accept ps) (\<lambda>(err, pa). P + got_sock err pa)"
  unfolding socket_accept_def
  by (intro hand_if hand_retry_loop hand_return) (auto simp: Let_def got_sock_def split: if_splits)

lemma hand_destroy: "hand e (P + live ps) (socket_destroy ps) (\<lambda>ps'. P + live ps')"
  unfolding socket_destroy_def
  by (intro hand_if hand_bind [OF hand_blocking(1)]
      hand_bind [OF hand_syscall [where Q = "\<lambda>_. P"]] hand_return) (auto simp: live_def)


section \<open>The buffered methods over a driver that touches no descriptor\<close>

text \<open>One result of such a step.\<close>

definition calm :: "'m buf_sys_scheme \<Rightarrow> (lua_error + 'a) \<times> 'm buf_sys_scheme \<Rightarrow> bool" where
  "calm s q \<longleftrightarrow> buf_sys.more (snd q) = buf_sys.more s \<and>
    (\<exists>cs. ran s (snd q) cs \<and> created cs = closed cs) \<and> (\<exists>x. fst q = Inr x)"

lemma hand_calm: "hand False {#} m (\<lambda>_. {#}) \<longleftrightarrow> (\<forall>s q. m s = Some q \<longrightarrow> calm s q)"
  by (fastforce simp: hand_def calm_def)

lemma calm_trans: "calm s (Inr x, s1) \<Longrightarrow> calm s1 q \<Longrightarrow> calm s q"
  unfolding calm_def by (auto dest: ran_trans)

lemma calm_refl [simp]: "calm s (Inr x, s)"
  by (auto simp: calm_def intro!: exI [of _ "[]"])

lemma calm_skip: "calm s (Inr x, buffer_skip k s')  \<longleftrightarrow> calm s (Inr y, s')"
  by (auto simp: calm_def buffer_skip_def Let_def ran_def)

locale calm_driver =
  fixes io :: "'m buf_sys_scheme t_io"
  assumes send_hand: "hand False {#} (io_send io d) (\<lambda>_. {#})"
    and recv_hand: "hand False {#} (io_recv io k) (\<lambda>_. {#})"

context calm_driver
begin

lemma hand_buffer_get: "hand False {#} (buffer_get io) (\<lambda>_. {#})"
  unfolding buffer_get_def [abs_def]
  by (rule hand_state [where m = "\<lambda>s. act_bind (if buffer_isempty s then _ else _) _"])
    ((rule hand_bind recv_hand hand_put | rule hand_intros | simp)+)

lemma calm_sendraw_loop: "sendraw_loop io d tot err s = Some q \<Longrightarrow> calm s q"
proof -
  assume run: "sendraw_loop io d tot err s = Some q"
  have "io = io \<longrightarrow> calm s q"
  proof (rule sendraw_loop.raw_induct [where P = "\<lambda>io' d tot err s q. io' = io \<longrightarrow> calm s q", OF _ run], rule impI)
    fix rec io' d tot err q and s :: "'m buf_sys_scheme"
    assume IH: "\<And>io' d tot err s q. rec io' d tot err s = Some q \<Longrightarrow> io' = io \<longrightarrow> calm s q"
      and eq: "(if tot < length d \<and> err = IO_DONE then
         let step = (if length d - tot \<le> STEPSIZE then length d - tot else STEPSIZE) in
         case io_send io' (take step (drop tot d)) s of None \<Rightarrow> None | Some (Inl e, s1) \<Rightarrow> Some (Inl e, s1)
         | Some (Inr (err, n), s1) \<Rightarrow> rec io' d (tot + n) err s1
       else Some (Inr (err, tot), s)) = Some q"
      and io': "io' = io"
    show "calm s q"
    proof (cases "tot < length d \<and> err = IO_DONE")
      case True
      define step where "step = (if length d - tot \<le> STEPSIZE then length d - tot else STEPSIZE)"
      with True eq io' obtain p where p: "io_send io (take step (drop tot d)) s = Some p"
        by (cases "io_send io (take step (drop tot d)) s") (auto simp: Let_def)
      with send_hand have "calm s p" unfolding hand_calm by blast
      then obtain err' n s1 where s1: "p = (Inr (err', n), s1)" "calm s (Inr (err', n), s1)"
        by (cases p) (auto simp: calm_def)
      with p True eq io' step_def have "rec io' d (tot + n) err' s1 = Some q" by (simp add: Let_def)
      with IH io' s1(2) show ?thesis by (blast intro: calm_trans)
    qed (use eq in auto)
  qed
  then show ?thesis by simp
qed


lemma buffer_get_calm:
  assumes "buffer_get io s \<noteq> None"
  obtains err d s1 where "buffer_get io s = Some (Inr (err, d), s1)"
    "\<And>x k. calm s (Inr (x :: int \<times> bytes), buffer_skip k s1)"
proof -
  from assms obtain q where q: "buffer_get io s = Some q" by blast
  then have "calm s q" using hand_buffer_get unfolding hand_calm by blast
  then obtain err d s1 where "q = (Inr (err, d), s1)" "calm s (Inr (err, d), s1)"
    by (cases q) (auto simp: calm_def)
  with q show thesis by (intro that) (simp_all add: calm_skip [where y = "(err, d)"])
qed

lemma calm_recvraw: "recvraw io wanted tot b s = Some q \<Longrightarrow> calm s q"
proof -
  assume run: "recvraw io wanted tot b s = Some q"
  have "io = io \<longrightarrow> calm s q"
  proof (rule recvraw.raw_induct [where P = "\<lambda>io' w t b s q. io' = io \<longrightarrow> calm s q", OF _ run], rule impI)
    fix rec io' wanted tot b q and s :: "'m buf_sys_scheme"
    assume IH: "\<And>io' w t b s q. rec io' w t b s = Some q \<Longrightarrow> io' = io \<longrightarrow> calm s q"
      and eq: "(case buffer_get io' s of None \<Rightarrow> None | Some (Inl e, s1) \<Rightarrow> Some (Inl e, s1)
       | Some (Inr (err, d), s1) \<Rightarrow>
         let count = min (length d) (wanted - tot); b = b @ take count d; s2 = buffer_skip count s1; tot = tot + count
         in if tot \<ge> wanted then Some (Inr (err, b), s2)
            else if err = IO_DONE then rec io' wanted tot b s2 else Some (Inr (err, b), s2)) = Some q"
      and io': "io' = io"
    from eq io' have "buffer_get io s \<noteq> None" by (intro notI) simp
    then obtain err d s1 where g: "buffer_get io s = Some (Inr (err, d), s1)"
      "\<And>x k. calm s (Inr (x :: int \<times> bytes), buffer_skip k s1)" by (rule buffer_get_calm) blast
    have "calm s q" if "rec io w t b (buffer_skip k s1) = Some q" for w t b k
      using that IH io' calm_trans [OF g(2)] by blast
    with g eq io' show "calm s q" by (auto simp: Let_def split: if_splits)
  qed
  then show ?thesis by simp
qed

lemma calm_recvall: "recvall io tot b s = Some q \<Longrightarrow> calm s q"
proof -
  assume run: "recvall io tot b s = Some q"
  have "io = io \<longrightarrow> calm s q"
  proof (rule recvall.raw_induct [where P = "\<lambda>io' t b s q. io' = io \<longrightarrow> calm s q", OF _ run], rule impI)
    fix rec io' tot b q and s :: "'m buf_sys_scheme"
    assume IH: "\<And>io' t b s q. rec io' t b s = Some q \<Longrightarrow> io' = io \<longrightarrow> calm s q"
      and eq: "(case buffer_get io' s of None \<Rightarrow> None | Some (Inl e, s1) \<Rightarrow> Some (Inl e, s1)
       | Some (Inr (err, d), s1) \<Rightarrow>
         let tot = tot + length d; b = b @ d; s2 = buffer_skip (length d) s1 in
         if err = IO_DONE then rec io' tot b s2
         else if err = IO_CLOSED then Some (Inr (if tot > 0 then IO_DONE else IO_CLOSED, b), s2)
         else Some (Inr (err, b), s2)) = Some q"
      and io': "io' = io"
    from eq io' have "buffer_get io s \<noteq> None" by (intro notI) simp
    then obtain err d s1 where g: "buffer_get io s = Some (Inr (err, d), s1)"
      "\<And>x k. calm s (Inr (x :: int \<times> bytes), buffer_skip k s1)" by (rule buffer_get_calm) blast
    have "calm s q" if "rec io t b (buffer_skip k s1) = Some q" for t b k
      using that IH io' calm_trans [OF g(2)] by blast
    with g eq io' show "calm s q" by (auto simp: Let_def split: if_splits)
  qed
  then show ?thesis by simp
qed

lemma calm_recvline: "recvline io b s = Some q \<Longrightarrow> calm s q"
proof -
  assume run: "recvline io b s = Some q"
  have "io = io \<longrightarrow> calm s q"
  proof (rule recvline.raw_induct [where P = "\<lambda>io' b s q. io' = io \<longrightarrow> calm s q", OF _ run], rule impI)
    fix rec io' b q and s :: "'m buf_sys_scheme"
    assume IH: "\<And>io' b s q. rec io' b s = Some q \<Longrightarrow> io' = io \<longrightarrow> calm s q"
      and eq: "(case buffer_get io' s of None \<Rightarrow> None | Some (Inl e, s1) \<Rightarrow> Some (Inl e, s1)
       | Some (Inr (err, d), s1) \<Rightarrow>
         (case line_scan d of (add, pos) \<Rightarrow>
            let b = b @ add in
            if pos < length d then Some (Inr (err, b), buffer_skip (pos + 1) s1)
            else let s2 = buffer_skip pos s1 in
                 if err = IO_DONE then rec io' b s2 else Some (Inr (err, b), s2))) = Some q"
      and io': "io' = io"
    from eq io' have "buffer_get io s \<noteq> None" by (intro notI) simp
    then obtain err d s1 where g: "buffer_get io s = Some (Inr (err, d), s1)"
      "\<And>x k. calm s (Inr (x :: int \<times> bytes), buffer_skip k s1)" by (rule buffer_get_calm) blast
    have "calm s q" if "rec io b (buffer_skip k s1) = Some q" for b k
      using that IH io' calm_trans [OF g(2)] by blast
    with g eq io' show "calm s q" by (auto simp: Let_def split: if_splits prod.splits)
  qed
  then show ?thesis by simp
qed

lemma hand_loops:
  "hand e P (sendraw io d) (\<lambda>_. P)" "hand e P (recvraw io wanted tot b) (\<lambda>_. P)"
  "hand e P (recvall io tot b) (\<lambda>_. P)" "hand e P (recvline io b) (\<lambda>_. P)"
proof -
  have "hand False {#} (sendraw_loop io d tot err) (\<lambda>_. {#})" for d tot err
    unfolding hand_calm using calm_sendraw_loop by blast
  from hand_keep [OF this] show "hand e P (sendraw io d) (\<lambda>_. P)"
    unfolding sendraw_def by - ((rule hand_bind hand_put | assumption | rule hand_intros | simp)+)
qed (rule hand_keep, unfold hand_calm, use calm_recvraw calm_recvall calm_recvline in blast)+

lemma hand_buffer_methods:
  "hand True {#} (buffer_meth_send vm io args) (\<lambda>_. {#})" "hand True {#} (buffer_meth_receive vm io args) (\<lambda>_. {#})"
  unfolding buffer_meth_send_def buffer_meth_receive_def
  by - ((rule hand_bind hand_loops | rule hand_intros | simp)+)

end

interpretation socket_calm: calm_driver "socket_io ps" for ps
  by unfold_locales (simp_all add: socket_io_def io_init_def hand_transfers)


section \<open>Limits, statistics, names, options\<close>

lemma hand_timeout_methods: "hand True {#} (timeout_meth_settimeout vm args) (\<lambda>_. {#})"
  unfolding timeout_meth_settimeout_def by - ((rule hand_bind hand_put | rule hand_intros | simp)+)

lemma hand_buffer_init [hand_intros]: "hand e P buffer_init (\<lambda>_. P)"
  unfolding buffer_init_def by - ((rule hand_bind hand_put | rule hand_intros | simp)+)

lemma hand_stats:
  "hand True {#} buffer_meth_getstats (\<lambda>_. {#})" "hand True {#} (buffer_meth_setstats vm args) (\<lambda>_. {#})"
  unfolding buffer_meth_getstats_def buffer_meth_setstats_def
  by - ((rule hand_bind hand_put | rule hand_intros | simp)+)

lemma hand_names:
  "hand e P (inet_meth_getpeername env ps family) (\<lambda>_. P)" "hand e P (inet_meth_getsockname env ps family) (\<lambda>_. P)"
  unfolding inet_meth_getpeername_def inet_meth_getsockname_def
  by - ((rule hand_bind | rule hand_intros | simp)+)

lemma hand_opt [hand_intros]:
  "hand e P (opt_set ps level name val) (\<lambda>_. P)" "hand e P (opt_get ps level name val) (\<lambda>_. P)"
  "hand e P (opt_getboolean ps level name) (\<lambda>_. P)"
  "hand True {#} (opt_setboolean args ps level name) (\<lambda>_. {#})"
  "hand True {#} (opt_setmembership vm env args ps level name) (\<lambda>_. {#})"
proof -
  show 1: "hand e P (opt_set ps level name val) (\<lambda>_. P)" for e P val
    unfolding opt_set_def by - ((rule hand_bind | rule hand_intros | simp)+)
  show 2: "hand e P (opt_get ps level name val) (\<lambda>_. P)" for val
    unfolding opt_get_def by - ((rule hand_bind | rule hand_intros | simp)+)
  show "hand e P (opt_getboolean ps level name) (\<lambda>_. P)"
    unfolding opt_getboolean_def by (rule hand_bind [OF 2]) (rule hand_return, rule refl)
  show "hand True {#} (opt_setboolean args ps level name) (\<lambda>_. {#})"
    unfolding opt_setboolean_def by (rule hand_bind [OF hand_lua], simp) (rule 1)
  show "hand True {#} (opt_setmembership vm env args ps level name) (\<lambda>_. {#})"
    unfolding opt_setmembership_def by (rule hand_bind [OF hand_lua], simp) (rule 1 | rule hand_intros | simp)+
qed

lemma hand_bool_case [hand_intros]:
  "(\<And>b. v = LBool b \<Longrightarrow> hand e P (f b) Q) \<Longrightarrow> hand e P m Q \<Longrightarrow> hand e P (case v of LBool b \<Rightarrow> f b | _ \<Rightarrow> m) Q"
  by (cases v) auto

lemma hand_handlers [hand_intros]:
  "hand True {#} (opt_set_reuseaddr vm env args ps) (\<lambda>_. {#})" "hand True {#} (opt_get_reuseaddr vm env args ps) (\<lambda>_. {#})"
  "hand True {#} (opt_set_reuseport vm env args ps) (\<lambda>_. {#})" "hand True {#} (opt_get_reuseport vm env args ps) (\<lambda>_. {#})"
  "hand True {#} (opt_set_tcp_nodelay vm env args ps) (\<lambda>_. {#})" "hand True {#} (opt_get_tcp_nodelay vm env args ps) (\<lambda>_. {#})"
  "hand True {#} (opt_set_keepalive vm env args ps) (\<lambda>_. {#})" "hand True {#} (opt_get_keepalive vm env args ps) (\<lambda>_. {#})"
  "hand True {#} (opt_set_dontroute vm env args ps) (\<lambda>_. {#})" "hand True {#} (opt_set_broadcast vm env args ps) (\<lambda>_. {#})"
  "hand True {#} (opt_set_ip_multicast_loop vm env args ps) (\<lambda>_. {#})"
  "hand True {#} (opt_get_ip_multicast_loop vm env args ps) (\<lambda>_. {#})"
  "hand True {#} (opt_set_linger vm env args ps) (\<lambda>_. {#})" "hand True {#} (opt_get_linger vm env args ps) (\<lambda>_. {#})"
  "hand True {#} (opt_set_ip_multicast_ttl vm env args ps) (\<lambda>_. {#})"
  "hand True {#} (opt_set_ip_multicast_if vm env args ps) (\<lambda>_. {#})"
  "hand True {#} (opt_get_ip_multicast_if vm env args ps) (\<lambda>_. {#})"
  "hand True {#} (opt_set_ip_add_membership vm env args ps) (\<lambda>_. {#})"
  "hand True {#} (opt_set_ip_drop_membersip vm env args ps) (\<lambda>_. {#})"
  "hand True {#} (opt_set_ip6_v6only vm env args ps) (\<lambda>_. {#})"
  unfolding opt_set_reuseaddr_def opt_get_reuseaddr_def opt_set_reuseport_def opt_get_reuseport_def opt_set_tcp_nodelay_def
    opt_get_tcp_nodelay_def opt_set_keepalive_def opt_get_keepalive_def opt_set_dontroute_def opt_set_broadcast_def
    opt_set_ip_multicast_loop_def opt_get_ip_multicast_loop_def opt_set_linger_def opt_get_linger_def
    opt_set_ip_multicast_ttl_def opt_set_ip_multicast_if_def opt_get_ip_multicast_if_def opt_set_ip_add_membership_def
    opt_set_ip_drop_membersip_def opt_set_ip6_v6only_def
  by - ((rule hand_bind | rule hand_intros | simp)+)

lemma hand_options:
  assumes "\<And>name f. map_of opt name = Some f \<Longrightarrow> hand True {#} (f vm env args ps) (\<lambda>_. {#})"
  shows "hand True {#} (opt_meth_setoption opt vm env args ps) (\<lambda>_. {#})"
    "hand True {#} (opt_meth_getoption opt vm env args ps) (\<lambda>_. {#})"
  unfolding opt_meth_setoption_def opt_meth_getoption_def
  by - ((rule hand_bind [OF hand_lua] hand_option hand_error | erule assms | rule check_no_cast unsupported_no_cast)+)


section \<open>Creating, connecting, accepting, binding\<close>

lemma hand_connect_loop: "hand e P (connect_loop ps ais err) (\<lambda>_. P)"
  by (induction ais arbitrary: err)
    ((simp only: connect_loop.simps | assumption | rule hand_bind | rule hand_intros | simp)+)

lemma hand_trycalls [hand_intros]:
  "hand e P (inet_trydisconnect ps family) (\<lambda>_. P)" "hand e P (inet_tryconnect env ps address serv hints) (\<lambda>_. P)"
  unfolding inet_trydisconnect_def inet_tryconnect_def
  by - ((rule hand_bind hand_connect_loop | rule hand_intros | simp)+)

lemma hand_trycreate: "hand e P (inet_trycreate family type) (\<lambda>(err, ps). P + (if err = None then live ps else {#}))"
  unfolding inet_trycreate_def
  by (rule hand_bind [OF hand_create_done]) (auto simp: socket_strerror_None got_sock_def intro!: hand_intros)

lemma hand_tryaccept: "hand e P (inet_tryaccept server family) (\<lambda>(err, client). P + (if err = None then live client else {#}))"
  unfolding inet_tryaccept_def
  by (rule hand_bind [OF hand_accept_done]) (auto simp: socket_strerror_None got_sock_def intro!: hand_intros)

lemma act_bind_return_left [simp]: "act_bind (act_return x) f = f x"
  by (simp add: fun_eq_iff)

lemma hand_bind_loop:
  "hand e (P + live sock) (bind_loop ps ais sock hints err) (\<lambda>(err, sock', hints'). P + live sock')"
proof (induction ais arbitrary: sock hints err)
  case (Cons iterator rest)
  have create: "hand e (P + live sock)
      (if sock = SOCKET_INVALID then
         act_bind (socket_create (ai_family iterator) (ai_socktype iterator) (ai_protocol iterator))
           (\<lambda>(e, sock). act_return (socket_strerror e, sock))
       else act_return (None, sock)) (\<lambda>(err, sock). P + live sock)"
    by (rule hand_if; (rule hand_bind, simp, rule hand_create)?) (auto intro: hand_intros)
  show ?case
    unfolding bind_loop.simps
    by (rule hand_bind [OF create])
      (auto simp: Let_def intro!: hand_bind [OF hand_socket_neutral(3)] hand_bind [OF hand_destroy] hand_return Cons.IH)
qed (simp add: hand_return)

lemma hand_trybind:
  "hand e (P + live ps) (inet_trybind env ps address serv hints) (\<lambda>(err, sock, hints'). P + live sock)"
  unfolding inet_trybind_def
  by (rule hand_bind [OF hand_call]) (auto simp: Let_def intro: hand_return hand_bind_loop)

end
