(* ===== verification/SockRuns.thy ===== *)
theory SockRuns
  imports Udp Ownership
begin

text \<open>
  The socket modules as a whole: a script calls any of their functions with any arguments, any
  number of times. Two invariants are followed through the runs: the userdata of a class are the
  structures its methods cast them to, and every descriptor the kernel handed out is in exactly one
  object until it is closed.
\<close>

definition tcp_classes :: "bytes set" where
  "tcp_classes = {lit ''tcp{master}'', lit ''tcp{client}'', lit ''tcp{server}''}"

definition udp_classes :: "bytes set" where
  "udp_classes = {lit ''udp{connected}'', lit ''udp{unconnected}''}"

fun is_tcp :: "userdata \<Rightarrow> bool" where
  "is_tcp (Tcp t) = True"
| "is_tcp (Udp u) = False"

text \<open>Metatables tell the types: of the userdata, and, through the group fields, of the classes.\<close>

definition in_group :: "string \<Rightarrow> metatable \<Rightarrow> bool" where
  "in_group grp mt \<longleftrightarrow> mt_fields mt (lit grp) \<notin> {None, Some LNil}"

definition groups_ok :: "(bytes \<rightharpoonup> metatable) \<Rightarrow> bool" where
  "groups_ok reg \<longleftrightarrow> (\<forall>c mt. reg c = Some mt \<longrightarrow>
     (in_group ''tcp{any}'' mt \<longrightarrow> c \<in> tcp_classes) \<and> (in_group ''udp{any}'' mt \<longrightarrow> c \<in> udp_classes))"

definition typed :: "'m sock_sys_scheme \<Rightarrow> bool" where
  "typed s \<longleftrightarrow> groups_ok (registry s) \<and>
     (\<forall>p c. meta s p = Some c \<longrightarrow> p < length (heap s) \<and>
        (c \<in> tcp_classes \<longrightarrow> is_tcp (heap s ! p)) \<and> (c \<in> udp_classes \<longrightarrow> \<not> is_tcp (heap s ! p)))"

definition account :: "'m sock_sys_scheme \<Rightarrow> 'm sock_sys_scheme \<Rightarrow> bool" where
  "account s s' \<longleftrightarrow> (\<exists>cs. ran s s' cs \<and> owned s + created cs = owned s' + closed cs)"

lemma account_refl [simp]: "account s s"
  by (auto simp: account_def intro!: exI [of _ "[]"])

lemma account_trans: "account s s1 \<Longrightarrow> account s1 s2 \<Longrightarrow> account s s2"
proof -
  assume "account s s1" "account s1 s2"
  then obtain cs ds where *: "ran s s1 cs" "owned s + created cs = owned s1 + closed cs"
    "ran s1 s2 ds" "owned s1 + created ds = owned s2 + closed ds" by (auto simp: account_def)
  have "owned s + created (cs @ ds) = closed cs + (owned s1 + created ds)"
    unfolding created_simps(3) using *(2) by (metis add.assoc add.commute)
  also have "\<dots> = owned s2 + closed (cs @ ds)" unfolding *(4) closed_simps(3) by (simp only: ac_simps)
  finally show ?thesis using ran_trans [OF *(1,3)] by (auto simp: account_def)
qed


section \<open>Steps on an object\<close>

text \<open>
  A step of a method working on the object at \<open>p\<close>, a TCP object when \<open>b\<close>; \<open>k\<close> is its descriptor,
  if that is known.
\<close>

definition works :: "nat \<Rightarrow> bool \<Rightarrow> t_socket option \<Rightarrow> 'm sock_sys_scheme \<Rightarrow> bool" where
  "works p b k s \<longleftrightarrow> typed s \<and> p < length (heap s) \<and> is_tcp (heap s ! p) = b \<and>
     (\<forall>d. k = Some d \<longrightarrow> sock_of (heap s ! p) = d)"

definition fine :: "nat \<Rightarrow> bool \<Rightarrow> t_socket option \<Rightarrow> ('m sock_sys_scheme, 'a) act \<Rightarrow> t_socket option \<Rightarrow> bool" where
  "fine p b k m k' \<longleftrightarrow> (\<forall>s r s'. works p b k s \<longrightarrow> m s = Some (r, s') \<longrightarrow>
     account s s' \<and> (case r of Inl e \<Rightarrow> works p b None s' \<and> e \<noteq> cast_error | Inr x \<Rightarrow> works p b k' s'))"

named_theorems fine_intros \<open>steps on an object\<close>

lemma works_weaken: "works p b k s \<Longrightarrow> works p b None s"
  by (simp add: works_def)

lemma fine_weaken:
  assumes "fine p b k m k'"
  shows "fine p b k m None"
  unfolding fine_def
proof (intro allI impI)
  fix s r s' assume "works p b k s" "m s = Some (r, s')"
  with assms have "account s s' \<and> (case r of Inl e \<Rightarrow> works p b None s' \<and> e \<noteq> cast_error | Inr x \<Rightarrow> works p b k' s')"
    unfolding fine_def by blast
  then show "account s s' \<and> (case r of Inl e \<Rightarrow> works p b None s' \<and> e \<noteq> cast_error | Inr x \<Rightarrow> works p b None s')"
    by (cases r) (auto dest: works_weaken)
qed

lemma fine_bind:
  assumes "fine p b k m k1" "\<And>x. fine p b k1 (f x) k2"
  shows "fine p b k (act_bind m f) k2"
  unfolding fine_def
proof (intro allI impI)
  fix s r s' assume w: "works p b k s" and "act_bind m f s = Some (r, s')"
  then consider x s1 where "m s = Some (Inr x, s1)" "f x s1 = Some (r, s')"
    | err where "m s = Some (Inl err, s')" "r = Inl err" by (auto simp: act_bind_Some_iff)
  then show "account s s' \<and> (case r of Inl e \<Rightarrow> works p b None s' \<and> e \<noteq> cast_error | Inr x \<Rightarrow> works p b k2 s')"
  proof cases
    case 1
    with assms(1) w have 2: "account s s1" "works p b k1 s1" unfolding fine_def by fastforce+
    with assms(2) 1(2) have "account s1 s' \<and> (case r of Inl e \<Rightarrow> works p b None s' \<and> e \<noteq> cast_error | Inr x \<Rightarrow> works p b k2 s')"
      unfolding fine_def by blast
    with account_trans [OF 2(1)] show ?thesis by blast
  next
    case 2
    with assms(1) w show ?thesis unfolding fine_def by fastforce
  qed
qed

lemma sock_fields_of_more:
  fixes s s' :: "'m sock_sys_scheme"
  assumes "buf_sys.more s' = buf_sys.more s"
  shows "heap s' = heap s" "registry s' = registry s" "meta s' = meta s" "owned s' = owned s"
  using assms by (cases s; cases s'; simp add: owned_def)+

lemma fine_hand:
  fixes m :: "('m sock_sys_scheme, 'a) act"
  assumes "hand True {#} m (\<lambda>_. {#})"
  shows "fine p b k m k"
  unfolding fine_def
proof (intro allI impI)
  fix s s' :: "'m sock_sys_scheme" and r
  assume w: "works p b k s" and m: "m s = Some (r, s')"
  from assms m have *: "buf_sys.more s' = buf_sys.more s" "outcome True r" "\<exists>cs. ran s s' cs \<and> created cs = closed cs"
    unfolding hand_def by (fastforce split: sum.splits)+
  have f: "heap s' = heap s" "registry s' = registry s" "meta s' = meta s" "owned s' = owned s"
    by (rule sock_fields_of_more [OF *(1)])+
  from w f have "works p b k s'" by (simp add: works_def typed_def)
  with * f show "account s s' \<and> (case r of Inl e \<Rightarrow> works p b None s' \<and> e \<noteq> cast_error | Inr x \<Rightarrow> works p b k s')"
    by (auto simp: account_def split: sum.split dest: works_weaken)
qed

lemmas fine_neutral = fine_hand [OF hand_weaken]

lemma fine_return [fine_intros]: "fine p b k (act_return x) k"
  by (simp add: fine_def)

lemma fine_error [fine_intros]: "x \<noteq> cast_error \<Longrightarrow> fine p b k (act_error x) k'"
  by (auto simp: fine_def dest: works_weaken)

lemma fine_lua [fine_intros]: "x \<noteq> Inl cast_error \<Longrightarrow> fine p b k (act_lua x) k"
  by (rule fine_hand) (rule hand_lua)

lemma fine_get [fine_intros]: "fine p b k (act_get f) k"
  by (simp add: fine_def)

lemma fine_if [fine_intros]: "(c \<Longrightarrow> fine p b k m k') \<Longrightarrow> (\<not> c \<Longrightarrow> fine p b k n k') \<Longrightarrow> fine p b k (if c then m else n) k'"
  by simp

lemma fine_option [fine_intros]:
  "(x = None \<Longrightarrow> fine p b k m k') \<Longrightarrow> (\<And>y. x = Some y \<Longrightarrow> fine p b k (f y) k') \<Longrightarrow>
    fine p b k (case x of None \<Rightarrow> m | Some y \<Rightarrow> f y) k'"
  by (cases x) auto

lemma fine_prod [fine_intros]: "(\<And>y z. x = (y, z) \<Longrightarrow> fine p b k (f y z) k') \<Longrightarrow> fine p b k (case x of (y, z) \<Rightarrow> f y z) k'"
  by (cases x) auto

lemma fine_Let [fine_intros]: "(\<And>y. y = x \<Longrightarrow> fine p b k (f y) k') \<Longrightarrow> fine p b k (let y = x in f y) k'"
  by simp

lemma fine_setclass [fine_intros]:
  assumes "c \<in> tcp_classes \<and> b \<or> c \<in> udp_classes \<and> \<not> b"
  shows "fine p b k (auxiliar_setclass c p) k"
proof -
  have "tcp_classes \<inter> udp_classes = {}" by (auto simp: tcp_classes_def udp_classes_def)
  with assms show ?thesis
    by (auto simp: fine_def auxiliar_setclass_def works_def typed_def account_def owned_def ran_def intro!: exI [of _ "[]"])
qed


section \<open>Replacing the descriptor\<close>

lemma sum_list_update_add:
  "i < length xs \<Longrightarrow> sum_list (xs[i := x]) + xs ! i = sum_list xs + (x :: 'a :: comm_monoid_add)"
  by (induction xs arbitrary: i) (auto split: nat.split simp: ac_simps)

lemma is_tcp_put [simp]: "is_tcp (put_sock ps u) = is_tcp u" "sock_of (put_sock ps u) = ps"
    "is_tcp (put_family f u) = is_tcp u" "sock_of (put_family f u) = sock_of u"
  by (cases u; simp)+

lemma typed_update:
  assumes "typed s" "meta s' = meta s" "registry s' = registry s" "heap s' = (heap s)[p := u]"
    "p < length (heap s) \<Longrightarrow> is_tcp u = is_tcp (heap s ! p)"
  shows "typed s'"
proof -
  have "is_tcp ((heap s)[p := u] ! q) = is_tcp (heap s ! q)" for q
    using assms(5) by (cases "p < length (heap s)"; cases "q = p") (auto simp: not_less list_update_beyond)
  with assms show ?thesis unfolding typed_def by simp
qed

lemma owned_update:
  assumes "heap s' = (heap s)[p := u]" "p < length (heap s)"
  shows "owned s' + live (sock_of (heap s ! p)) = owned s + live (sock_of u)"
  using sum_list_update_add [of p "map (\<lambda>u. live (sock_of u)) (heap s)" "live (sock_of u)"] assms
  by (simp add: owned_def map_update)

text \<open>A call that trades the descriptor in hand for another, which then goes into the object.\<close>

lemma fine_replace:
  fixes m :: "('m sock_sys_scheme, 'x) act"
  assumes "hand False (live k) m (\<lambda>x. live (g x))"
  shows "fine p b (Some k) (act_bind m (\<lambda>x. act_bind (set_sock p (g x)) (\<lambda>_. act_return (h x)))) None"
  unfolding fine_def
proof (intro allI impI)
  fix s s' :: "'m sock_sys_scheme" and r
  assume w: "works p b (Some k) s" and run: "act_bind m (\<lambda>x. act_bind (set_sock p (g x)) (\<lambda>_. act_return (h x))) s = Some (r, s')"
  from run obtain q s1 where m: "m s = Some (q, s1)" by (auto simp: act_bind_Some_iff)
  with assms obtain x cs where *: "q = Inr x" "buf_sys.more s1 = buf_sys.more s" "ran s s1 cs"
    "live k + created cs = live (g x) + closed cs" unfolding hand_def by fastforce
  have f: "heap s1 = heap s" "registry s1 = registry s" "meta s1 = meta s" "owned s1 = owned s"
    by (rule sock_fields_of_more [OF *(2)])+
  from run m *(1) have s': "s' = s1\<lparr>heap := (heap s1)[p := put_sock (g x) (heap s1 ! p)]\<rparr>" and r: "r = Inr (h x)"
    by (auto simp: act_bind_def set_sock_def)
  have "owned s' + live k = owned s + live (g x)"
    using owned_update [of s' s p "put_sock (g x) (heap s ! p)"] w by (simp add: s' f works_def)
  then have "owned s + created cs + live (g x) = owned s' + closed cs + live (g x)"
    using *(4) by (metis add.assoc add.commute)
  then have "owned s + created cs = owned s' + closed cs" by simp
  moreover have "ran s s' cs" using *(3) by (simp add: s' ran_def)
  moreover have "typed s'"
    by (rule typed_update [of s _ p "put_sock (g x) (heap s ! p)"]) (use w in \<open>auto simp: s' f works_def\<close>)
  ultimately show "account s s' \<and> (case r of Inl e \<Rightarrow> works p b None s' \<and> e \<noteq> cast_error | Inr x \<Rightarrow> works p b None s')"
    using w by (auto simp: r account_def works_def s' f)
qed

lemma act_bind_assoc_fun: "act_bind (act_bind m f) g = act_bind m (\<lambda>x. act_bind (f x) g)"
  by (rule ext) (rule act_bind_assoc)

lemma fine_replace_then:
  fixes m :: "('m sock_sys_scheme, 'x) act"
  assumes "hand False (live k) m (\<lambda>x. live (g x))" "\<And>x. fine p b None (F x) k'"
  shows "fine p b (Some k) (act_bind m (\<lambda>x. act_bind (set_sock p (g x)) (\<lambda>_. F x))) k'"
proof -
  have "act_bind m (\<lambda>x. act_bind (set_sock p (g x)) (\<lambda>_. F x)) =
      act_bind (act_bind m (\<lambda>x. act_bind (set_sock p (g x)) (\<lambda>_. act_return x))) F"
    by (simp only: act_bind_assoc_fun act_bind_return_left)
  with fine_bind [OF fine_replace [OF assms(1), where h = "\<lambda>x. x"] assms(2)] show ?thesis by simp
qed

text \<open>Writing the family, and reading the descriptor.\<close>

lemma fine_set_family [fine_intros]: "fine p b k (set_family p f) k"
  unfolding fine_def
proof (intro allI impI)
  fix s s' :: "'a sock_sys_scheme" and r
  assume w: "works p b k s" and "set_family p f s = Some (r, s')"
  then have s': "s' = s\<lparr>heap := (heap s)[p := put_family f (heap s ! p)]\<rparr>" "r = Inr ()" by (simp_all add: set_family_def)
  have "typed s'"
    by (rule typed_update [of s s' p "put_family f (heap s ! p)"]) (use w in \<open>auto simp: s' works_def\<close>)
  moreover have "owned s' = owned s"
    using owned_update [of s' s p "put_family f (heap s ! p)"] w by (simp add: s' works_def)
  moreover have "ran s s' []" by (simp add: s' ran_def)
  ultimately have "works p b k s'" "account s s'"
    using w by (simp add: works_def s'(1), unfold account_def, metis closed_simps(1) created_simps(1))
  then show "account s s' \<and> (case r of Inl e \<Rightarrow> works p b None s' \<and> e \<noteq> cast_error | Inr x \<Rightarrow> works p b k s')"
    by (simp add: s'(2))
qed

lemma fine_get_sock:
  assumes "\<And>d. fine p b (Some d) (f d) k'"
  shows "fine p b k (act_bind (act_get (\<lambda>s. sock_of (heap s ! p))) f) k'"
  unfolding fine_def
proof (intro allI impI)
  fix s r s' assume w: "works p b k s" and run: "act_bind (act_get (\<lambda>s. sock_of (heap s ! p))) f s = Some (r, s')"
  have "works p b (Some (sock_of (heap s ! p))) s" using w by (simp add: works_def)
  moreover have "f (sock_of (heap s ! p)) s = Some (r, s')" using run by (simp add: act_bind_def)
  ultimately show "account s s' \<and> (case r of Inl e \<Rightarrow> works p b None s' \<and> e \<noteq> cast_error | Inr x \<Rightarrow> works p b k' s')"
    using assms unfolding fine_def by blast
qed


section \<open>Creating an object\<close>

text \<open>Since \<open>s0\<close> one object was appended, with the class \<open>c\<close>, and no descriptor moved.\<close>

definition chain :: "'m sock_sys_scheme \<Rightarrow> userdata \<Rightarrow> bytes option \<Rightarrow> 'm sock_sys_scheme \<Rightarrow> bool" where
  "chain s0 u c s \<longleftrightarrow> heap s = heap s0 @ [u] \<and> registry s = registry s0 \<and> meta s = (meta s0)(length (heap s0) := c) \<and>
     (\<exists>cs. ran s0 s cs \<and> created cs = closed cs)"

lemma chain_new: "newuserdata u s0 = Some (r, s) \<Longrightarrow> r = Inr (length (heap s0)) \<and> chain s0 u None s"
  by (auto simp: newuserdata_def chain_def ran_def intro!: exI [of _ "[]"])

lemma chain_setclass:
  "chain s0 u c s \<Longrightarrow> auxiliar_setclass cls (length (heap s0)) s = Some (r, s') \<Longrightarrow>
    r = Inr () \<and> chain s0 u (if registry s0 cls = None then None else Some cls) s'"
  by (auto simp: auxiliar_setclass_def chain_def ran_def)

lemma chain_set_sock: "chain s0 u c s \<Longrightarrow> set_sock (length (heap s0)) k s = Some (r, s') \<Longrightarrow> r = Inr () \<and> chain s0 (put_sock k u) c s'"
  by (auto simp: set_sock_def chain_def ran_def nth_append)

lemma chain_set_family: "chain s0 u c s \<Longrightarrow> set_family (length (heap s0)) f s = Some (r, s') \<Longrightarrow> r = Inr () \<and> chain s0 (put_family f u) c s'"
  by (auto simp: set_family_def chain_def ran_def nth_append)

lemma chain_hand:
  assumes "hand False {#} m (\<lambda>_. {#})" "chain s0 u c s" "m s = Some (r, s')"
  shows "(\<exists>x. r = Inr x) \<and> chain s0 u c s'"
proof -
  from assms(1,3) obtain cs where *: "buf_sys.more s' = buf_sys.more s" "ran s s' cs" "created cs = closed cs" "\<exists>x. r = Inr x"
    unfolding hand_def by fastforce
  have f: "heap s' = heap s" "registry s' = registry s" "meta s' = meta s"
    by (rule sock_fields_of_more [OF *(1)])+
  from assms(2) obtain ds where "ran s0 s ds" "created ds = closed ds" by (auto simp: chain_def)
  with *(2,3) have "ran s0 s' (ds @ cs) \<and> created (ds @ cs) = closed (ds @ cs)" by (auto intro: ran_trans)
  with assms(2) * f show ?thesis unfolding chain_def by metis
qed

lemma works_load:
  "works p b k (load_tcp t s) = works p b k s" "works p b k (load_udp u s) = works p b k s"
  "account (load_tcp t s) s' = account s s'" "account (load_udp u s) s' = account s s'"
  "ran (load_tcp t s) s' cs = ran s s' cs" "ran (load_udp u s) s' cs = ran s s' cs"
  "chain s0 v c (load_tcp t s) = chain s0 v c s" "chain s0 v c (load_udp u s) = chain s0 v c s"
  by (simp_all add: load_tcp_def load_udp_def works_def typed_def account_def ran_def owned_def chain_def)

lemma saved_simps [simp]: "is_tcp (saved s u) = is_tcp u" "sock_of (saved s u) = sock_of u"
  by (cases u; simp)+

lemma chain_init_tcp:
  assumes "chain s0 u c s" "is_tcp u"
    "with_tcp (length (heap s0)) (\<lambda>_. act_bind (timeout_init x y) (\<lambda>_. buffer_init)) s = Some (r, s')"
  shows "(\<exists>x. r = Inr x) \<and> (\<exists>u'. chain s0 u' c s' \<and> is_tcp u' \<and> sock_of u' = sock_of u)"
proof -
  from assms(2) obtain t where u: "u = Tcp t" by (cases u) auto
  from assms(1) have "length (heap s0) < length (heap s) \<and> heap s ! length (heap s0) = Tcp t" by (simp add: chain_def u nth_append)
  with assms(3) obtain s1 where run: "act_bind (timeout_init x y) (\<lambda>_. buffer_init) (load_tcp t s) = Some (r, s1)"
    and s': "s' = save_object s (length (heap s0)) s1"
    by (auto simp: with_tcp_def split: option.splits)
  have "hand False {#} (act_bind (timeout_init x y) (\<lambda>_. buffer_init)) (\<lambda>_. {#})"
    by ((rule hand_bind | rule hand_intros)+)
  from chain_hand [OF this _ run, of s0 u c] assms(1) have 1: "\<exists>x. r = Inr x" "chain s0 u c s1" by (auto simp: works_load)
  then have "chain s0 (saved s1 u) c s'" by (auto simp: s' chain_def save_object_def nth_append ran_def)
  with 1 assms(2) show ?thesis by auto
qed

lemma chain_init_udp:
  assumes "chain s0 u c s" "\<not> is_tcp u" "with_udp (length (heap s0)) (\<lambda>_. timeout_init x y) s = Some (r, s')"
  shows "(\<exists>x. r = Inr x) \<and> (\<exists>u'. chain s0 u' c s' \<and> \<not> is_tcp u' \<and> sock_of u' = sock_of u)"
proof -
  from assms(2) obtain t where u: "u = Udp t" by (cases u) auto
  from assms(1) have "length (heap s0) < length (heap s) \<and> heap s ! length (heap s0) = Udp t" by (simp add: chain_def u nth_append)
  with assms(3) obtain s1 where run: "timeout_init x y (load_udp t s) = Some (r, s1)"
    and s': "s' = save_object s (length (heap s0)) s1"
    by (auto simp: with_udp_def split: option.splits)
  from chain_hand [OF hand_timeouts(4) _ run, of s0 u c] assms(1) have 1: "\<exists>x. r = Inr x" "chain s0 u c s1"
    by (auto simp: works_load)
  then have "chain s0 (saved s1 u) c s'" by (auto simp: s' chain_def save_object_def nth_append ran_def)
  with 1 assms(2) show ?thesis by auto
qed

text \<open>The new object has the descriptor: it is typed, and owns one descriptor more.\<close>

lemma chain_typed:
  assumes "chain s0 u c s" "typed s0"
    "\<And>cls. c = Some cls \<Longrightarrow> (cls \<in> tcp_classes \<longrightarrow> is_tcp u) \<and> (cls \<in> udp_classes \<longrightarrow> \<not> is_tcp u)"
  shows "typed s" "p < length (heap s0) \<Longrightarrow> heap s ! p = heap s0 ! p"
    "\<exists>cs. ran s0 s cs \<and> created cs = closed cs" "owned s = owned s0 + live (sock_of u)"
  using assms by (auto simp: chain_def typed_def nth_append owned_def less_Suc_eq)


text \<open>The steps of a creation, as functions of the address: from an object and class with \<open>P\<close> to
  ones with \<open>Q\<close>.\<close>

definition builds ::
  "(userdata \<Rightarrow> bytes option \<Rightarrow> bool) \<Rightarrow> (nat \<Rightarrow> ('m sock_sys_scheme, 'a) act) \<Rightarrow> (userdata \<Rightarrow> bytes option \<Rightarrow> bool) \<Rightarrow> bool" where
  "builds P m Q \<longleftrightarrow> (\<forall>s0 u c s r s'. chain s0 u c s \<longrightarrow> P u c \<longrightarrow> m (length (heap s0)) s = Some (r, s') \<longrightarrow>
     (\<exists>x. r = Inr x) \<and> (\<exists>u' c'. chain s0 u' c' s' \<and> Q u' c'))"

text \<open>An object of type \<open>b\<close> under a class for it, with the descriptor \<open>k\<close> if that is known.\<close>

definition built :: "bool \<Rightarrow> t_socket option \<Rightarrow> userdata \<Rightarrow> bytes option \<Rightarrow> bool" where
  "built b k u c \<longleftrightarrow> is_tcp u = b \<and> (\<forall>d. k = Some d \<longrightarrow> sock_of u = d) \<and>
     (\<forall>cls. c = Some cls \<longrightarrow> (cls \<in> tcp_classes \<longrightarrow> b) \<and> (cls \<in> udp_classes \<longrightarrow> \<not> b))"

lemma builds_bind:
  assumes "builds P m Q" "\<And>x. builds Q (f x) R"
  shows "builds P (\<lambda>q. act_bind (m q) (\<lambda>x. f x q)) R"
  unfolding builds_def
proof (intro allI impI)
  fix s0 u c s r s'
  assume c: "chain s0 u c s" "P u c" and run: "act_bind (m (length (heap s0))) (\<lambda>x. f x (length (heap s0))) s = Some (r, s')"
  from run obtain q s1 where m: "m (length (heap s0)) s = Some (q, s1)" by (auto simp: act_bind_Some_iff)
  with assms(1) c obtain x u' c' where *: "q = Inr x" "chain s0 u' c' s1" "Q u' c'" unfolding builds_def by blast
  with m run have "f x (length (heap s0)) s1 = Some (r, s')" by simp
  with assms(2) * show "(\<exists>x. r = Inr x) \<and> (\<exists>u' c'. chain s0 u' c' s' \<and> R u' c')" unfolding builds_def by blast
qed

lemma builds_hand: "hand False {#} m (\<lambda>_. {#}) \<Longrightarrow> builds P (\<lambda>q. m) P"
  unfolding builds_def using chain_hand by blast

lemma buildsI:
  "(\<And>s0 u c s r s'. chain s0 u c s \<Longrightarrow> P u c \<Longrightarrow> m (length (heap s0)) s = Some (r, s') \<Longrightarrow>
     \<exists>x u' c'. r = Inr x \<and> chain s0 u' c' s' \<and> Q u' c') \<Longrightarrow> builds P m Q"
  unfolding builds_def by blast

lemma built_update: "built b k u c \<Longrightarrow> built b (Some d) (put_sock d u) c" "built b k u c \<Longrightarrow> built b k (put_family f u) c"
  by (simp_all add: built_def)

lemma builds_setclass:
  assumes "cls \<in> tcp_classes \<and> b \<or> cls \<in> udp_classes \<and> \<not> b"
  shows "builds (built b k) (auxiliar_setclass cls) (built b k)"
proof (rule buildsI)
  fix s0 u c s r s'
  assume c: "chain s0 u c s" and b: "built b k u c" and run: "auxiliar_setclass cls (length (heap s0)) s = Some (r, s')"
  have "tcp_classes \<inter> udp_classes = {}" by (auto simp: tcp_classes_def udp_classes_def)
  with assms b have "built b k u (if registry s0 cls = None then None else Some cls)" by (auto simp: built_def)
  with chain_setclass [OF c run] show "\<exists>x u' c'. r = Inr x \<and> chain s0 u' c' s' \<and> built b k u' c'" by blast
qed

lemma builds_set_sock:
  "builds (built b k) (\<lambda>q. set_sock q d) (built b (Some d))"
proof (rule buildsI)
  fix s0 u c s r s'
  assume c: "chain s0 u c s" and b: "built b k u c" and run: "set_sock (length (heap s0)) d s = Some (r, s')"
  from chain_set_sock [OF c run] built_update(1) [OF b]
  show "\<exists>x u' c'. r = Inr x \<and> chain s0 u' c' s' \<and> built b (Some d) u' c'" by blast
qed

lemma builds_set_family:
  "builds (built b k) (\<lambda>q. set_family q f) (built b k)"
proof (rule buildsI)
  fix s0 u c s r s'
  assume c: "chain s0 u c s" and b: "built b k u c" and run: "set_family (length (heap s0)) f s = Some (r, s')"
  from chain_set_family [OF c run] built_update(2) [OF b]
  show "\<exists>x u' c'. r = Inr x \<and> chain s0 u' c' s' \<and> built b k u' c'" by blast
qed

lemma builds_init_tcp:
  "builds (built True k) (\<lambda>q. with_tcp q (\<lambda>_. act_bind (timeout_init x y) (\<lambda>_. buffer_init))) (built True k)"
proof (rule buildsI)
  fix s0 u c s r s'
  assume c: "chain s0 u c s" and b: "built True k u c" and run: "with_tcp (length (heap s0)) (\<lambda>_. act_bind (timeout_init x y) (\<lambda>_. buffer_init)) s = Some (r, s')"
  from b have "is_tcp u" by (simp add: built_def)
  from chain_init_tcp [OF c this run] obtain v u' where "r = Inr v" "chain s0 u' c s'" "is_tcp u'" "sock_of u' = sock_of u" by blast
  with b show "\<exists>x u' c'. r = Inr x \<and> chain s0 u' c' s' \<and> built True k u' c'" by (auto simp: built_def)
qed

lemma builds_init_udp:
  "builds (built False k) (\<lambda>q. with_udp q (\<lambda>_. timeout_init x y)) (built False k)"
proof (rule buildsI)
  fix s0 u c s r s'
  assume c: "chain s0 u c s" and b: "built False k u c" and run: "with_udp (length (heap s0)) (\<lambda>_. timeout_init x y) s = Some (r, s')"
  from b have "\<not> is_tcp u" by (simp add: built_def)
  from chain_init_udp [OF c this run] obtain v u' where "r = Inr v" "chain s0 u' c s'" "\<not> is_tcp u'" "sock_of u' = sock_of u" by blast
  with b show "\<exists>x u' c'. r = Inr x \<and> chain s0 u' c' s' \<and> built False k u' c'" by (auto simp: built_def)
qed

lemma builds_return: "builds P (\<lambda>q. act_return (f q)) P"
  unfolding builds_def by auto

text \<open>A function that ends by creating an object for a descriptor it was given.\<close>

definition spawns :: "t_socket \<Rightarrow> ('m sock_sys_scheme, 'a) act \<Rightarrow> bool" where
  "spawns k m \<longleftrightarrow> (\<forall>s r s'. m s = Some (r, s') \<longrightarrow> (\<exists>x. r = Inr x) \<and> (\<exists>b u c. chain s u c s' \<and> built b (Some k) u c))"

lemma spawns_new:
  assumes "builds (built b None) body (built b (Some k))" "is_tcp u = b"
  shows "spawns k (act_bind (newuserdata u) body)"
  unfolding spawns_def
proof (intro allI impI)
  fix s r s' assume run: "act_bind (newuserdata u) body s = Some (r, s')"
  then obtain q s1 where q: "newuserdata u s = Some (q, s1)" by (auto simp: act_bind_Some_iff)
  from chain_new [OF q] have *: "q = Inr (length (heap s))" "chain s u None s1" by auto
  with q run have "body (length (heap s)) s1 = Some (r, s')" by simp
  moreover have "built b None u None" using assms(2) by (simp add: built_def)
  ultimately show "(\<exists>x. r = Inr x) \<and> (\<exists>b u c. chain s u c s' \<and> built b (Some k) u c)"
    using assms(1) *(2) unfolding builds_def by blast
qed

lemma spawns_typed:
  assumes "spawns k m" "m s = Some (r, s')" "typed s"
  shows "\<exists>x. r = Inr x" "typed s'" "p < length (heap s) \<Longrightarrow> p < length (heap s') \<and> heap s' ! p = heap s ! p"
    "\<exists>cs. ran s s' cs \<and> live k + created cs = {#} + closed cs + live k \<and> owned s' = owned s + live k"
proof -
  from assms(1,2) obtain x b u c where *: "r = Inr x" "chain s u c s'" "built b (Some k) u c" unfolding spawns_def by blast
  have cls: "(cls \<in> tcp_classes \<longrightarrow> is_tcp u) \<and> (cls \<in> udp_classes \<longrightarrow> \<not> is_tcp u)" if "c = Some cls" for cls
    using *(3) that by (auto simp: built_def)
  have "sock_of u = k" using *(3) by (simp add: built_def)
  with chain_typed [OF *(2) assms(3) cls] show "typed s'"
    "p < length (heap s) \<Longrightarrow> p < length (heap s') \<and> heap s' ! p = heap s ! p"
    "\<exists>cs. ran s s' cs \<and> live k + created cs = {#} + closed cs + live k \<and> owned s' = owned s + live k"
    using *(2) by (auto simp: chain_def)
qed (use assms in \<open>auto simp: spawns_def\<close>)


section \<open>Functions\<close>

definition behaves :: "('m sock_sys_scheme, 'a) act \<Rightarrow> bool" where
  "behaves m \<longleftrightarrow> (\<forall>s r s'. typed s \<longrightarrow> m s = Some (r, s') \<longrightarrow> typed s' \<and> account s s' \<and> r \<noteq> Inl cast_error)"

lemma behavesI:
  "(\<And>s r s'. typed s \<Longrightarrow> m s = Some (r, s') \<Longrightarrow> typed s' \<and> account s s' \<and> r \<noteq> Inl cast_error) \<Longrightarrow> behaves m"
  by (simp add: behaves_def)

lemma save_object_works:
  assumes "works p b k s"
  shows "typed (save_object s0 p s)" "owned (save_object s0 p s) = owned s" "ran s1 (save_object s0 p s) cs = ran s1 s cs"
proof -
  let ?s = "save_object s0 p s"
  show "typed ?s"
    by (rule typed_update [of s ?s p "saved s (heap s ! p)"]) (use assms in \<open>auto simp: works_def save_object_def\<close>)
  have "owned ?s + live (sock_of (heap s ! p)) = owned s + live (sock_of (saved s (heap s ! p)))"
    by (rule owned_update) (use assms in \<open>auto simp: works_def save_object_def\<close>)
  then show "owned ?s = owned s" by simp
qed (simp add: save_object_def ran_def)

lemma fine_object:
  assumes "works p b (Some k) s" "fine p b (Some k) m k'" "m s = Some (r, s1)"
  shows "typed (save_object s0 p s1) \<and> account s (save_object s0 p s1) \<and> r \<noteq> Inl cast_error"
proof -
  from assms have "account s s1 \<and> (case r of Inl e \<Rightarrow> works p b None s1 \<and> e \<noteq> cast_error | Inr x \<Rightarrow> works p b k' s1)"
    unfolding fine_def by blast
  then have *: "account s s1" "r \<noteq> Inl cast_error" "works p b None s1"
    by (cases r; auto dest: works_weaken)+
  from save_object_works [OF *(3)] * show ?thesis by (auto simp: account_def)
qed

lemma with_tcp_fine:
  assumes "\<And>t. fine p True (Some (tcp_sock t)) (f t) (k' t)" "typed s" "p < length (heap s)" "is_tcp (heap s ! p)"
    "with_tcp p f s = Some (r, s')"
  shows "typed s' \<and> account s s' \<and> r \<noteq> Inl cast_error"
proof -
  from assms(4) obtain t where t: "heap s ! p = Tcp t" by (cases "heap s ! p") auto
  with assms(3,5) obtain s1 where run: "f t (load_tcp t s) = Some (r, s1)" and s': "s' = save_object s p s1"
    by (auto simp: with_tcp_def split: option.splits)
  have "works p True (Some (tcp_sock t)) (load_tcp t s)" unfolding works_load using assms(2-4) t by (simp add: works_def)
  from fine_object [OF this assms(1) run] show ?thesis by (simp add: s' works_load)
qed

lemma with_tcp_known:
  assumes "\<And>t. tcp_sock t = k \<Longrightarrow> fine p True (Some k) (f t) k'" "typed s" "p < length (heap s)" "is_tcp (heap s ! p)"
    "sock_of (heap s ! p) = k" "with_tcp p f s = Some (r, s')"
  shows "typed s' \<and> account s s' \<and> r \<noteq> Inl cast_error"
proof -
  from assms(4,5) obtain t where t: "heap s ! p = Tcp t" "tcp_sock t = k" by (cases "heap s ! p") auto
  with assms(3,6) obtain s1 where run: "f t (load_tcp t s) = Some (r, s1)" and s': "s' = save_object s p s1"
    by (auto simp: with_tcp_def split: option.splits)
  have "works p True (Some k) (load_tcp t s)" unfolding works_load using assms(2-4) t by (simp add: works_def)
  from fine_object [OF this assms(1) [OF t(2)] run] show ?thesis by (simp add: s' works_load)
qed

lemma with_udp_fine:
  assumes "\<And>u. fine p False (Some (udp_sock u)) (f u) (k' u)" "typed s" "p < length (heap s)" "\<not> is_tcp (heap s ! p)"
    "with_udp p f s = Some (r, s')"
  shows "typed s' \<and> account s s' \<and> r \<noteq> Inl cast_error"
proof -
  from assms(4) obtain u where u: "heap s ! p = Udp u" by (cases "heap s ! p") auto
  with assms(3,5) obtain s1 where run: "f u (load_udp u s) = Some (r, s1)" and s': "s' = save_object s p s1"
    by (auto simp: with_udp_def split: option.splits)
  have "works p False (Some (udp_sock u)) (load_udp u s)" unfolding works_load using assms(2-4) u by (simp add: works_def)
  from fine_object [OF this assms(1) run] show ?thesis by (simp add: s' works_load)
qed

lemma typed_class:
  assumes "typed s" "auxiliar_checkclass cls args i s = Some (r, s1)"
  shows "s1 = s \<and> (case r of Inl e \<Rightarrow> e \<noteq> cast_error
    | Inr p \<Rightarrow> p < length (heap s) \<and> (cls \<in> tcp_classes \<longrightarrow> is_tcp (heap s ! p)) \<and> (cls \<in> udp_classes \<longrightarrow> \<not> is_tcp (heap s ! p)))"
  using assms(1) checkclass_cases [OF assms(2)] by (auto simp: typed_def)

lemma typed_group:
  assumes "typed s" "auxiliar_checkgroup (lit grp) args i s = Some (r, s1)"
  shows "s1 = s \<and> (case r of Inl e \<Rightarrow> e \<noteq> cast_error
    | Inr p \<Rightarrow> p < length (heap s) \<and> (grp = ''tcp{any}'' \<longrightarrow> is_tcp (heap s ! p)) \<and> (grp = ''udp{any}'' \<longrightarrow> \<not> is_tcp (heap s ! p)))"
  using assms(1) checkgroup_cases [OF assms(2)] by (fastforce simp: typed_def groups_ok_def in_group_def)

lemma behaves_check:
  assumes "\<And>s r s1. typed s \<Longrightarrow> chk s = Some (r, s1) \<Longrightarrow> s1 = s \<and> (case r of Inl e \<Rightarrow> e \<noteq> cast_error | Inr p \<Rightarrow> G p s)"
    and "\<And>p s r s'. typed s \<Longrightarrow> G p s \<Longrightarrow> body p s = Some (r, s') \<Longrightarrow> typed s' \<and> account s s' \<and> r \<noteq> Inl cast_error"
  shows "behaves (act_bind chk body)"
proof (rule behavesI)
  fix s r s' assume t: "typed s" and "act_bind chk body s = Some (r, s')"
  then consider p s1 where "chk s = Some (Inr p, s1)" "body p s1 = Some (r, s')"
    | e where "chk s = Some (Inl e, s')" "r = Inl e" by (auto simp: act_bind_Some_iff)
  then show "typed s' \<and> account s s' \<and> r \<noteq> Inl cast_error"
  proof cases
    case 1
    from assms(1) [OF t 1(1)] have "s1 = s" "G p s" by auto
    with assms(2) [OF t this(2)] 1(2) show ?thesis by blast
  next
    case 2
    with assms(1) [OF t 2(1)] t show ?thesis by simp
  qed
qed

lemma behaves_tcp_class:
  assumes "\<And>p t. fine p True (Some (tcp_sock t)) (f p t args) None" "lit cls \<in> tcp_classes"
  shows "behaves (tcp_class cls f args)"
  unfolding tcp_class_def
proof (rule behaves_check [where G = "\<lambda>p s. p < length (heap s) \<and> is_tcp (heap s ! p)"])
  fix s r s1 assume "typed s" "auxiliar_checkclass (lit cls) args 1 s = Some (r, s1)"
  from typed_class [OF this] assms(2)
  show "s1 = s \<and> (case r of Inl e \<Rightarrow> e \<noteq> cast_error | Inr p \<Rightarrow> p < length (heap s) \<and> is_tcp (heap s ! p))"
    by (auto split: sum.splits)
qed (elim conjE, rule with_tcp_fine [OF assms(1)])

lemma behaves_tcp_group:
  assumes "\<And>p t. fine p True (Some (tcp_sock t)) (f p t args) None"
  shows "behaves (tcp_group ''tcp{any}'' f args)"
  unfolding tcp_group_def
proof (rule behaves_check [where G = "\<lambda>p s. p < length (heap s) \<and> is_tcp (heap s ! p)"])
  fix s r s1 assume "typed s" "auxiliar_checkgroup (lit ''tcp{any}'') args 1 s = Some (r, s1)"
  from typed_group [OF this]
  show "s1 = s \<and> (case r of Inl e \<Rightarrow> e \<noteq> cast_error | Inr p \<Rightarrow> p < length (heap s) \<and> is_tcp (heap s ! p))"
    by (auto split: sum.splits)
qed (elim conjE, rule with_tcp_fine [OF assms])

lemma behaves_udp_class:
  assumes "\<And>p t. fine p False (Some (udp_sock t)) (f p t args) None" "lit cls \<in> udp_classes"
  shows "behaves (udp_class cls f args)"
  unfolding udp_class_def
proof (rule behaves_check [where G = "\<lambda>p s. p < length (heap s) \<and> \<not> is_tcp (heap s ! p)"])
  fix s r s1 assume "typed s" "auxiliar_checkclass (lit cls) args 1 s = Some (r, s1)"
  from typed_class [OF this] assms(2)
  show "s1 = s \<and> (case r of Inl e \<Rightarrow> e \<noteq> cast_error | Inr p \<Rightarrow> p < length (heap s) \<and> \<not> is_tcp (heap s ! p))"
    by (auto split: sum.splits)
qed (elim conjE, rule with_udp_fine [OF assms(1)])

lemma behaves_udp_group:
  assumes "\<And>p t. fine p False (Some (udp_sock t)) (f p t args) None"
  shows "behaves (udp_group ''udp{any}'' f args)"
  unfolding udp_group_def
proof (rule behaves_check [where G = "\<lambda>p s. p < length (heap s) \<and> \<not> is_tcp (heap s ! p)"])
  fix s r s1 assume "typed s" "auxiliar_checkgroup (lit ''udp{any}'') args 1 s = Some (r, s1)"
  from typed_group [OF this]
  show "s1 = s \<and> (case r of Inl e \<Rightarrow> e \<noteq> cast_error | Inr p \<Rightarrow> p < length (heap s) \<and> \<not> is_tcp (heap s ! p))"
    by (auto split: sum.splits)
qed (elim conjE, rule with_udp_fine [OF assms])


lemma spawn_run:
  fixes m :: "('m sock_sys_scheme, bytes option \<times> t_socket) act"
  assumes "hand False {#} m (\<lambda>(err, sock). if err = None then live sock else {#})" "\<And>sock. spawns sock (f sock)"
    and "typed s" "act_bind m (\<lambda>(err, sock). case err of Some e \<Rightarrow> act_return (g e) | None \<Rightarrow> f sock) s = Some (r, s')"
  shows "typed s' \<and> account s s' \<and> (\<exists>x. r = Inr x) \<and> (p < length (heap s) \<longrightarrow> p < length (heap s') \<and> heap s' ! p = heap s ! p)"
proof -
  from assms(4) obtain q s1 where m: "m s = Some (q, s1)" by (auto simp: act_bind_Some_iff)
  with assms(1) obtain err sock cs where *: "q = Inr (err, sock)" "buf_sys.more s1 = buf_sys.more s" "ran s s1 cs"
    "created cs = (if err = None then live sock else {#}) + closed cs"
    unfolding hand_def by fastforce
  have f: "heap s1 = heap s" "registry s1 = registry s" "meta s1 = meta s" "owned s1 = owned s"
    by (rule sock_fields_of_more [OF *(2)])+
  have t: "typed s1" using assms(3) f by (simp add: typed_def)
  show ?thesis
  proof (cases err)
    case (Some e)
    with assms(4) m *(1) have "r = Inr (g e)" "s' = s1" by auto
    with * f t Some show ?thesis by (auto simp: account_def)
  next
    case None
    with assms(4) m *(1) have run: "f sock s1 = Some (r, s')" by simp
    from spawns_typed(4) [OF assms(2) run t] obtain ds where ds: "ran s1 s' ds" "created ds = closed ds" "owned s' = owned s1 + live sock"
      by auto
    then have "owned s + created (cs @ ds) = owned s' + closed (cs @ ds)" using *(4) None f(4) by simp
    with ran_trans [OF *(3) ds(1)] have "account s s'" unfolding account_def by blast
    with spawns_typed(1,2) [OF assms(2) run t] spawns_typed(3) [OF assms(2) run t, where p = p] f show ?thesis by simp
  qed
qed

lemma fine_spawn:
  fixes m :: "('m sock_sys_scheme, bytes option \<times> t_socket) act"
  assumes "hand False {#} m (\<lambda>(err, sock). if err = None then live sock else {#})" "\<And>sock. spawns sock (f sock)"
  shows "fine p b k (act_bind m (\<lambda>(err, sock). case err of Some e \<Rightarrow> act_return (g e) | None \<Rightarrow> f sock)) k"
  unfolding fine_def
proof (intro allI impI)
  fix s r s' assume w: "works p b k s"
    and "act_bind m (\<lambda>(err, sock). case err of Some e \<Rightarrow> act_return (g e) | None \<Rightarrow> f sock) s = Some (r, s')"
  with spawn_run [OF assms _ this(2), where p = p]
  show "account s s' \<and> (case r of Inl e \<Rightarrow> works p b None s' \<and> e \<noteq> cast_error | Inr x \<Rightarrow> works p b k s')"
    by (auto simp: works_def)
qed

lemma behaves_spawn:
  fixes m :: "('m sock_sys_scheme, bytes option \<times> t_socket) act"
  assumes "hand False {#} m (\<lambda>(err, sock). if err = None then live sock else {#})" "\<And>sock. spawns sock (f sock)"
  shows "behaves (act_bind m (\<lambda>(err, sock). case err of Some e \<Rightarrow> act_return (g e) | None \<Rightarrow> f sock))"
  by (rule behavesI) (use spawn_run [OF assms] in fastforce)

lemma behaves_hand:
  fixes m :: "('m sock_sys_scheme, 'a) act"
  assumes "hand True {#} m (\<lambda>_. {#})"
  shows "behaves m"
proof (rule behavesI)
  fix s s' :: "'m sock_sys_scheme" and r assume t: "typed s" and m: "m s = Some (r, s')"
  from assms m have *: "buf_sys.more s' = buf_sys.more s" "outcome True r" "\<exists>cs. ran s s' cs \<and> created cs = closed cs"
    unfolding hand_def by (fastforce split: sum.splits)+
  have f: "heap s' = heap s" "registry s' = registry s" "meta s' = meta s" "owned s' = owned s"
    by (rule sock_fields_of_more [OF *(1)])+
  with t * show "typed s' \<and> account s s' \<and> r \<noteq> Inl cast_error" by (auto simp: typed_def account_def)
qed


section \<open>The methods of TCP objects\<close>

lemma class_names [simp]:
  "lit ''tcp{master}'' \<in> tcp_classes" "lit ''tcp{client}'' \<in> tcp_classes" "lit ''tcp{server}'' \<in> tcp_classes"
  "lit ''udp{connected}'' \<in> udp_classes" "lit ''udp{unconnected}'' \<in> udp_classes"
  by (simp_all add: tcp_classes_def udp_classes_def del: lit_simps)

lemmas fine_ops = fine_hand [OF hand_timeouts(3)] fine_hand [OF hand_socket_neutral(1)] fine_hand [OF hand_socket_neutral(2)]
  fine_hand [OF hand_socket_neutral(4)] fine_hand [OF hand_trycalls(1)] fine_hand [OF hand_trycalls(2)]
  fine_hand [OF hand_transfers(1)] fine_hand [OF hand_transfers(2)] fine_hand [OF hand_transfers(3)] fine_hand [OF hand_transfers(4)]

lemma behaves_tcp_calls:
  "behaves (tcp_meth_send vm args)" "behaves (tcp_meth_receive vm args)" "behaves (tcp_meth_getstats args)"
  "behaves (tcp_meth_setstats vm args)" "behaves (tcp_meth_settimeout vm args)"
  "behaves (tcp_meth_getpeername env args)" "behaves (tcp_meth_getsockname env args)"
  unfolding tcp_meth_send_def tcp_meth_receive_def tcp_meth_getstats_def tcp_meth_setstats_def tcp_meth_settimeout_def
    tcp_meth_getpeername_def tcp_meth_getsockname_def
  by - ((rule behaves_tcp_class behaves_tcp_group, rule fine_weaken, rule fine_hand,
      rule socket_calm.hand_buffer_methods hand_stats hand_timeout_methods hand_names; (rule class_names)?)+)

lemma behaves_tcp_options: "behaves (tcp_meth_getoption vm env args)" "behaves (tcp_meth_setoption vm env args)"
  unfolding tcp_meth_getoption_def tcp_meth_setoption_def
  by - ((rule behaves_tcp_group, rule fine_weaken, rule fine_hand, rule hand_options,
      auto simp: tcp_optget_def tcp_optset_def split: if_splits intro: hand_handlers)+)

lemma behaves_tcp_plain: "behaves (tcp_meth_getfd args)" "behaves (tcp_meth_dirty args)" "behaves (tcp_meth_getfamily args)"
  unfolding tcp_meth_getfd_def tcp_meth_dirty_def tcp_meth_getfamily_def
  by - ((rule behaves_tcp_group, rule fine_weaken, rule fine_intros)+)

lemma behaves_tcp_states:
  "behaves (tcp_meth_connect vm env args)" "behaves (tcp_meth_listen vm args)" "behaves (tcp_meth_shutdown vm args)"
  unfolding tcp_meth_connect_def tcp_meth_listen_def tcp_meth_shutdown_def
  by - ((rule behaves_tcp_class behaves_tcp_group, rule fine_weaken,
      (rule fine_bind fine_ops | rule fine_intros | simp del: lit_simps)+; (rule class_names)?)+)


lemmas builds_rules = builds_bind builds_setclass builds_set_sock builds_set_family builds_init_tcp builds_init_udp
  builds_return builds_hand [OF hand_blocking(2)]

lemma tryaccept_in_hand: "hand False {#} (inet_tryaccept k f) (\<lambda>(err, sock). if err = None then live sock else {#})"
  using hand_tryaccept [of False "{#}" k f] by simp

lemma trycreate_in_hand: "hand False {#} (inet_trycreate f t) (\<lambda>(err, sock). if err = None then live sock else {#})"
  using hand_trycreate [of False "{#}" f t] by simp

lemma behaves_tcp_accept: "behaves (tcp_meth_accept args)"
  unfolding tcp_meth_accept_def
  by (rule behaves_tcp_class, rule fine_weaken, rule fine_bind, rule fine_ops, rule fine_spawn [OF tryaccept_in_hand],
      rule spawns_new [where b = True]) (rule builds_rules | simp del: lit_simps)+

lemma hand_option_call:
  "hand False {#} (if family = PF_INET6 then act_bind (syscall (CSetsockopt k l n v)) (\<lambda>_. act_return ()) else act_return ()) (\<lambda>_. {#})"
  by ((rule hand_bind | rule hand_intros | simp)+)

lemma behaves_tcp_create: "behaves (tcp_create family)"
  unfolding tcp_create_def
  by (rule behaves_spawn [OF trycreate_in_hand], rule spawns_new [where b = True])
    (rule builds_rules builds_hand [OF hand_option_call] | simp del: lit_simps)+

lemma trybind_in_hand:
  "hand False (live k) (inet_trybind env k a sv h) (\<lambda>x. live (fst (snd x)))"
  using hand_trybind [of False "{#}" k env a sv h] by (simp add: split_def)

lemma destroy_in_hand: "hand False (live k) (socket_destroy k) (\<lambda>x. live x)"
  using hand_destroy [of False "{#}" k] by simp

lemma create_in_hand: "hand False (live SOCKET_INVALID) (socket_create d t p) (\<lambda>x. live (snd x))"
  using hand_create [of False "{#}" d t p] by (simp add: split_def)

lemma behaves_tcp_bind: "behaves (tcp_meth_bind vm env args)"
  unfolding tcp_meth_bind_def split_def Let_def
  by (rule behaves_tcp_class, (rule fine_bind, rule fine_lua, rule check_no_cast)+, rule fine_replace, rule trybind_in_hand)
    (rule class_names)

lemma behaves_tcp_close: "behaves (tcp_meth_close args)"
  unfolding tcp_meth_close_def by (rule behaves_tcp_group, rule fine_replace, rule destroy_in_hand)


lemma fine_connect6_loop: "fine p True k (connect6_loop p ais err :: ('m sock_sys_scheme, bytes option) act) None"
proof (induction ais arbitrary: err k)
  case Nil
  show ?case unfolding connect6_loop.simps by (rule fine_weaken, rule fine_return)
next
  case (Cons iterator rest)
  have create: "fine p True (Some SOCKET_INVALID)
      (act_bind (socket_create d t pr) (\<lambda>x. act_bind (set_sock p (snd x)) (\<lambda>_.
         if socket_strerror (fst x) \<noteq> None then act_return (Inl (socket_strerror (fst x)))
         else act_bind (set_family p d) (\<lambda>_. act_bind (socket_setnonblocking (snd x)) (\<lambda>_. act_return (Inr (snd x))))))) None"
    for d t pr
    by (rule fine_replace_then, rule create_in_hand)
      (rule fine_bind | rule fine_intros | rule fine_hand [OF hand_blocking(2)])+
  have go: "fine p True None
      (case res of Inl err \<Rightarrow> act_return err
       | Inr ps \<Rightarrow> act_bind (socket_connect ps (ai_addr iterator)) (\<lambda>e.
           let err = socket_strerror e in
           if err = None then act_return err else (connect6_loop p rest err :: ('m sock_sys_scheme, bytes option) act))) None" for res
    unfolding Let_def
    by (cases res) (simp_all add: fine_return, rule fine_bind, rule fine_ops, (rule fine_intros | rule Cons.IH)+)
  show ?case
    unfolding connect6_loop.simps split_def
    by (rule fine_get_sock, rule fine_bind, rule fine_ops, rule fine_bind [OF _ go], rule fine_if)
      (erule ssubst, rule create, rule fine_weaken, rule fine_return)
qed


lemma fine_tryconnect6: "fine p True k (tryconnect6 env a sv h p) None"
  unfolding tryconnect6_def Let_def
  by (rule fine_bind, rule fine_hand, rule hand_call)
    (simp_all add: fine_weaken [OF fine_return] fine_connect6_loop split: if_splits del: act_simps)

lemma fine_destroy_own:
  "fine p b k (act_bind (act_get (\<lambda>s. sock_of (heap s ! p))) (\<lambda>sock.
     act_bind (socket_destroy sock) (\<lambda>ps. act_bind (set_sock p ps) (\<lambda>_. act_return x)))) None"
  by (rule fine_get_sock, rule fine_replace, rule destroy_in_hand)

text \<open>The start of \<open>connect\<close>: a TCP object without a descriptor.\<close>

lemma behaves_connect_start:
  assumes "\<And>p t. tcp_sock t = SOCKET_INVALID \<Longrightarrow> fine p True (Some SOCKET_INVALID) (f p t) None"
  shows "behaves (act_bind (newuserdata (Tcp zero_tcp)) (\<lambda>p.
    act_bind (with_tcp p (\<lambda>_. act_bind (timeout_init x y) (\<lambda>_. buffer_init))) (\<lambda>_.
    act_bind (set_sock p SOCKET_INVALID) (\<lambda>_. with_tcp p (f p)))))" (is "behaves ?m")
proof (rule behavesI)
  let ?init = "\<lambda>q. with_tcp q (\<lambda>_. act_bind (timeout_init x y) (\<lambda>_. buffer_init))"
  let ?start = "\<lambda>q. act_bind (?init q) (\<lambda>_. set_sock q SOCKET_INVALID)"
  fix s r s' assume t: "typed s" and run: "?m s = Some (r, s')"
  let ?p = "length (heap s)"
  from run obtain s0 where new: "newuserdata (Tcp zero_tcp) s = Some (Inr ?p, s0)"
    by (simp add: newuserdata_def)
  with run have run0: "act_bind (?start ?p) (\<lambda>_. with_tcp ?p (f ?p)) s0 = Some (r, s')"
    by (simp add: act_bind_assoc_fun)
  then obtain q s1 where q: "?start ?p s0 = Some (q, s1)" by (auto simp: act_bind_Some_iff)
  have "builds (built True None) ?start (built True (Some SOCKET_INVALID))"
    by (rule builds_bind, rule builds_init_tcp, rule builds_set_sock)
  moreover have "chain s (Tcp zero_tcp) None s0" "built True None (Tcp zero_tcp) None"
    using chain_new [OF new] by (simp_all add: built_def)
  ultimately obtain z u c where u: "q = Inr z" "chain s u c s1" "built True (Some SOCKET_INVALID) u c"
    using q unfolding builds_def by blast
  have cls: "(cls \<in> tcp_classes \<longrightarrow> is_tcp u) \<and> (cls \<in> udp_classes \<longrightarrow> \<not> is_tcp u)" if "c = Some cls" for cls
    using u(3) that by (auto simp: built_def)
  have s1: "typed s1" "owned s1 = owned s" "\<exists>cs. ran s s1 cs \<and> created cs = closed cs"
    using chain_typed [OF u(2) t cls] u(3) by (auto simp: built_def)
  then have a: "account s s1" by (auto simp: account_def)
  have p: "?p < length (heap s1)" "is_tcp (heap s1 ! ?p)" "sock_of (heap s1 ! ?p) = SOCKET_INVALID"
    using u(2,3) by (simp_all add: chain_def built_def)
  from run0 q u(1) have "with_tcp ?p (f ?p) s1 = Some (r, s')" by simp
  from with_tcp_known [OF assms s1(1) p this] account_trans [OF a] show "typed s' \<and> account s s' \<and> r \<noteq> Inl cast_error"
    by blast
qed


lemma behaves_lua: "x \<noteq> Inl cast_error \<Longrightarrow> (\<And>y. behaves (f y)) \<Longrightarrow> behaves (act_bind (act_lua x) f)"
  by (cases x) (auto simp: behaves_def act_bind_def)

lemma behaves_tcp_connect: "behaves (tcp_global_connect vm env args)"
proof -
  have close: "fine p True k (case err of
        Some e \<Rightarrow> act_bind (act_get (\<lambda>s. sock_of (heap s ! p))) (\<lambda>sock.
          act_bind (socket_destroy sock) (\<lambda>ps. act_bind (set_sock p ps) (\<lambda>_. act_return [LNil, LStr e])))
      | None \<Rightarrow> act_bind (auxiliar_setclass (lit ''tcp{client}'') p) (\<lambda>_. act_return [LUserdata p])) None" for p k err
    by (rule fine_option, rule fine_bind, rule fine_setclass, simp del: lit_simps, rule fine_weaken, rule fine_return)
      (rule fine_destroy_own)
  have rest: "fine p True k (case fst x of
         Some e \<Rightarrow> act_return [LNil, LStr e]
       | None \<Rightarrow>
           act_bind (tryconnect6 env a sv (zero_hints\<lparr>ai_socktype := SOCK_STREAM, ai_family := ai_family (snd x)\<rparr>) p) (\<lambda>err. case err of
             Some e \<Rightarrow> act_bind (act_get (\<lambda>s. sock_of (heap s ! p))) (\<lambda>sock.
               act_bind (socket_destroy sock) (\<lambda>ps. act_bind (set_sock p ps) (\<lambda>_. act_return [LNil, LStr e])))
           | None \<Rightarrow> act_bind (auxiliar_setclass (lit ''tcp{client}'') p) (\<lambda>_. act_return [LUserdata p]))) None"
    for p k x a sv
    by (rule fine_option, rule fine_bind [OF fine_tryconnect6 close], rule fine_weaken, rule fine_return)
  have bnd: "fine p True (Some SOCKET_INVALID) (case localaddr of
        None \<Rightarrow> act_return (None, bindhints)
      | Some a \<Rightarrow> act_bind (inet_trybind env SOCKET_INVALID (Some (c_str a)) sv bindhints) (\<lambda>x.
          act_bind (set_sock p (fst (snd x))) (\<lambda>_.
            if fst x \<noteq> None then act_return (fst x, snd (snd x))
            else act_bind (set_family p (ai_family (snd (snd x)))) (\<lambda>_. act_return (None, snd (snd x)))))) None"
    for p localaddr bindhints sv
    by (rule fine_option, rule fine_weaken, rule fine_return, rule fine_replace_then, rule trybind_in_hand)
      (rule fine_bind | rule fine_intros)+
  show ?thesis
    unfolding tcp_global_connect_def split_def Let_def
    by ((rule behaves_lua, rule check_no_cast)+, rule behaves_connect_start, rule fine_bind [OF bnd rest])
qed


section \<open>The methods of UDP objects\<close>

lemma fine_send_datagram: "fine p b k (send_datagram ps d addr) k"
  unfolding send_datagram_def by (rule fine_bind fine_ops | rule fine_intros)+

lemma behaves_udp_send: "behaves (udp_meth_send vm args)"
  unfolding udp_meth_send_def
  by (rule behaves_udp_class, rule fine_weaken)
    (rule fine_bind fine_ops fine_send_datagram | rule fine_intros | simp del: lit_simps)+

lemma behaves_udp_sendto: "behaves (udp_meth_sendto vm env args)"
  unfolding udp_meth_sendto_def
  by (rule behaves_udp_class, rule fine_weaken)
    (rule fine_bind fine_ops fine_send_datagram | rule fine_intros | simp del: lit_simps)+

lemma behaves_udp_receive: "behaves (udp_meth_receive vm args)"
  unfolding udp_meth_receive_def
  by (rule behaves_udp_group, rule fine_weaken)
    (rule fine_bind fine_ops fine_send_datagram | rule fine_intros | simp del: lit_simps)+

lemma behaves_udp_receivefrom: "behaves (udp_meth_receivefrom vm env args)"
  unfolding udp_meth_receivefrom_def
  by (rule behaves_udp_class, rule fine_weaken)
    (rule fine_bind fine_ops fine_send_datagram | rule fine_intros class_names | simp)+

lemmas behaves_udp_transfers = behaves_udp_send behaves_udp_sendto behaves_udp_receive behaves_udp_receivefrom

lemma behaves_udp_options: "behaves (udp_meth_getoption vm env args)" "behaves (udp_meth_setoption vm env args)"
  unfolding udp_meth_getoption_def udp_meth_setoption_def
  by - ((rule behaves_udp_group, rule fine_weaken, rule fine_hand, rule hand_options,
      auto simp: udp_optget_def udp_optset_def split: if_splits intro: hand_handlers)+)

lemma behaves_udp_plain:
  "behaves (udp_meth_getfd args)" "behaves (udp_meth_dirty args)" "behaves (udp_meth_getfamily args)"
  unfolding udp_meth_getfd_def udp_meth_dirty_def udp_meth_getfamily_def
  by - ((rule behaves_udp_group, rule fine_weaken, rule fine_intros)+)

lemma behaves_udp_names:
  "behaves (udp_meth_getpeername env args)" "behaves (udp_meth_getsockname env args)" "behaves (udp_meth_settimeout vm args)"
  unfolding udp_meth_getpeername_def udp_meth_getsockname_def udp_meth_settimeout_def
  by - ((rule behaves_udp_class behaves_udp_group, rule fine_weaken, rule fine_hand,
      rule hand_names hand_timeout_methods; (rule class_names)?)+)

lemma behaves_udp_setpeername: "behaves (udp_meth_setpeername vm env args)"
  unfolding udp_meth_setpeername_def
  by (rule behaves_udp_group, rule fine_weaken)
    (rule fine_bind fine_ops | rule fine_intros | simp del: lit_simps)+

lemma behaves_udp_setsockname: "behaves (udp_meth_setsockname vm env args)"
  unfolding udp_meth_setsockname_def split_def Let_def
  by (rule behaves_udp_class, (rule fine_bind, rule fine_lua, rule check_no_cast)+, rule fine_replace, rule trybind_in_hand)
    (rule class_names)

lemma behaves_udp_close: "behaves (udp_meth_close args)"
  unfolding udp_meth_close_def by (rule behaves_udp_group, rule fine_replace, rule destroy_in_hand)

lemma behaves_udp_create: "behaves (udp_create fresh family)"
  unfolding udp_create_def
  by (rule behaves_spawn [OF trycreate_in_hand], rule spawns_new [where b = False])
    (rule builds_rules builds_hand [OF hand_option_call] | simp del: lit_simps)+

lemma behaves_tostring: "behaves (auxiliar_tostring vm args)"
proof (rule behavesI)
  fix s r s' assume "typed s" "auxiliar_tostring vm args s = Some (r, s')"
  moreover from this have "s' = s \<and> (\<forall>e. r = Inl e \<longrightarrow> e \<noteq> cast_error)"
    by (auto simp: auxiliar_tostring_def Let_def split: option.splits lua_value.splits)
  ultimately show "typed s' \<and> account s s' \<and> r \<noteq> Inl cast_error" by auto
qed


section \<open>Runs\<close>

text \<open>What scripts can call: the methods of both classes and the functions of the two modules.\<close>

definition sock_funcs :: "lua_vm \<Rightarrow> inet_env \<Rightarrow> t_udp \<Rightarrow> (string \<times> 'm meth) list" where
  "sock_funcs vm env fresh = tcp_methods vm env @ udp_methods vm env @ tcp_func vm env @ udp_func fresh"

lemma sock_funcs_behave:
  "(name, f) \<in> set (sock_funcs vm env fresh) \<Longrightarrow> name \<noteq> ''setfd'' \<Longrightarrow> behaves (f args)"
  unfolding sock_funcs_def tcp_methods_def udp_methods_def tcp_func_def udp_func_def
  by (auto simp: behaves_tcp_calls behaves_tcp_options behaves_tcp_plain behaves_tcp_states behaves_tcp_accept
      behaves_tcp_bind behaves_tcp_close behaves_tcp_connect tcp_global_create_def tcp_global_create6_def behaves_tcp_create
      behaves_udp_transfers behaves_udp_options behaves_udp_plain behaves_udp_names behaves_udp_setpeername
      behaves_udp_setsockname behaves_udp_close udp_global_create_def udp_global_create6_def behaves_udp_create behaves_tostring)

text \<open>\<open>setfd\<close> puts a number in the place of the object's descriptor, without a system call: the new
  number and the old one.\<close>

definition setfd_trade :: "lua_vm \<Rightarrow> lua_value list \<Rightarrow> 'm sock_sys_scheme \<Rightarrow> t_socket \<times> t_socket" where
  "setfd_trade vm args s =
    (case luaL_checknumber vm args 2 of Inr x \<Rightarrow> of_nat (c_size x) | Inl _ \<Rightarrow> SOCKET_INVALID,
     case lua_arg args 1 of Some (LUserdata p) \<Rightarrow> sock_of (heap s ! p) | _ \<Rightarrow> SOCKET_INVALID)"

definition traded :: "(t_socket \<times> t_socket) list \<Rightarrow> t_socket multiset \<times> t_socket multiset" where
  "traded ts = (sum_list (map (\<lambda>t. live (fst t)) ts), sum_list (map (\<lambda>t. live (snd t)) ts))"

text \<open>Runs of calls of any of the functions, each with any arguments; the results are left to the script.
  The list has what successful calls of \<open>setfd\<close> have traded.\<close>

inductive sock_run ::
  "lua_vm \<Rightarrow> inet_env \<Rightarrow> t_udp \<Rightarrow> 'm sock_sys_scheme \<Rightarrow> (t_socket \<times> t_socket) list \<Rightarrow> 'm sock_sys_scheme \<Rightarrow> bool"
  for vm env fresh where
  start: "sock_run vm env fresh s [] s"
| call: "sock_run vm env fresh s ts s1 \<Longrightarrow> (name, f) \<in> set (sock_funcs vm env fresh) \<Longrightarrow> f args s1 = Some (r, s2) \<Longrightarrow>
    sock_run vm env fresh s (ts @ (if name = ''setfd'' \<and> \<not> isl r then [setfd_trade vm args s1] else [])) s2"

definition balanced :: "'m sock_sys_scheme \<Rightarrow> (t_socket \<times> t_socket) list \<Rightarrow> 'm sock_sys_scheme \<Rightarrow> bool" where
  "balanced s ts s' \<longleftrightarrow>
    (\<exists>cs. ran s s' cs \<and> owned s + created cs + fst (traded ts) = owned s' + closed cs + snd (traded ts))"

lemma balanced_account: "balanced s [] s' \<longleftrightarrow> account s s'"
  by (simp add: balanced_def account_def traded_def)

lemma balanced_trans:
  assumes "balanced s ts s1" "balanced s1 us s2"
  shows "balanced s (ts @ us) s2"
proof -
  from assms obtain cs ds where *: "ran s s1 cs" "owned s + created cs + fst (traded ts) = owned s1 + closed cs + snd (traded ts)"
    "ran s1 s2 ds" "owned s1 + created ds + fst (traded us) = owned s2 + closed ds + snd (traded us)"
    unfolding balanced_def by blast
  have "owned s + created (cs @ ds) + fst (traded (ts @ us)) =
      (owned s + created cs + fst (traded ts)) + created ds + fst (traded us)"
    by (simp add: traded_def ac_simps)
  also have "\<dots> = closed cs + snd (traded ts) + (owned s1 + created ds + fst (traded us))"
    unfolding *(2) by (simp add: ac_simps)
  also have "\<dots> = owned s2 + closed (cs @ ds) + snd (traded (ts @ us))"
    unfolding *(4) by (simp add: traded_def ac_simps)
  finally show ?thesis using ran_trans [OF *(1,3)] unfolding balanced_def by blast
qed

lemma setfd_object:
  assumes "works p b None s" "s' = save_object s0 p (s\<lparr>heap := (heap s)[p := put_sock k (heap s ! p)]\<rparr>)"
  shows "typed s' \<and> ran s s' [] \<and> owned s' + live (sock_of (heap s ! p)) = owned s + live k"
proof -
  let ?s = "s\<lparr>heap := (heap s)[p := put_sock k (heap s ! p)]\<rparr>"
  have "typed ?s"
    by (rule typed_update [of s ?s p "put_sock k (heap s ! p)"]) (use assms(1) in \<open>auto simp: works_def\<close>)
  then have "works p b None ?s" using assms(1) by (simp add: works_def)
  note saved = save_object_works(1,2) [OF this, of s0]
  have "typed s'" "owned s' = owned ?s" "ran s s' []"
    using saved unfolding assms(2) by (simp_all add: save_object_def ran_def)
  moreover have "owned ?s + live (sock_of (heap s ! p)) = owned s + live k"
    using owned_update [of ?s s p "put_sock k (heap s ! p)"] assms(1) by (simp add: works_def)
  ultimately show ?thesis by simp
qed

lemma setfd_at:
  fixes s l :: "'m sock_sys_scheme"
  assumes "lua_arg args 1 = Some (LUserdata p)" "works p b None l" "heap l = heap s" "owned l = owned s"
    "\<And>(x :: 'm sock_sys_scheme) cs. ran l x cs = ran s x cs"
    and run: "act_bind (act_lua (luaL_checknumber vm args 2)) (\<lambda>x. act_bind (set_sock p (of_nat (c_size x))) (\<lambda>_. act_return [])) l = Some (r, s1)"
    and s': "s' = save_object s p s1"
  shows "typed s' \<and> r \<noteq> Inl cast_error \<and> balanced s (if isl r then [] else [setfd_trade vm args s]) s'"
proof (cases "luaL_checknumber vm args 2")
  case (Inl e)
  with run have "r = Inl e" "s1 = l" by simp_all
  moreover have "e \<noteq> cast_error" using Inl by (auto simp: luaL_checknumber_def split: option.splits)
  moreover have "ran s s' []" using save_object_works(3) [OF assms(2), of l s "[]"] assms(5) by (simp add: s' \<open>s1 = l\<close>)
  ultimately show ?thesis
    using save_object_works(1,2) [OF assms(2), of s] assms(4) by (auto simp: s' balanced_account account_def intro!: exI [of _ "[]"])
next
  case (Inr x)
  with run have r: "r = Inr []" and s1: "s1 = l\<lparr>heap := (heap l)[p := put_sock (of_nat (c_size x)) (heap l ! p)]\<rparr>"
    by (auto simp: set_sock_def)
  from setfd_object [OF assms(2), of s' s "of_nat (c_size x)"]
  have *: "typed s'" "ran s s' []" "owned s' + live (sock_of (heap s ! p)) = owned s + live (of_nat (c_size x))"
    unfolding s' s1 assms(3-5) by simp_all
  have "setfd_trade vm args s = (of_nat (c_size x), sock_of (heap s ! p))" using assms(1) by (simp add: setfd_trade_def Inr)
  with * r show ?thesis by (auto simp: balanced_def traded_def intro!: exI [of _ "[]"])
qed

lemma behaves_balanced:
  "behaves m \<Longrightarrow> typed s \<Longrightarrow> m s = Some (r, s') \<Longrightarrow> typed s' \<and> r \<noteq> Inl cast_error \<and> balanced s [] s'"
  by (simp add: behaves_def balanced_account)

lemma setfd_tcp:
  assumes "typed s" "tcp_meth_setfd vm args s = Some (r, s')"
  shows "typed s' \<and> r \<noteq> Inl cast_error \<and> balanced s (if isl r then [] else [setfd_trade vm args s]) s'"
proof -
  from assms(2) obtain q s1 where chk: "auxiliar_checkgroup (lit ''tcp{any}'') args 1 s = Some (q, s1)"
    by (auto simp: tcp_meth_setfd_def tcp_group_def act_bind_Some_iff)
  note g = typed_group [OF assms(1) chk] checkgroup_cases [OF chk]
  show ?thesis
  proof (cases q)
    case (Inl e)
    with chk assms(2) g(1) have "r = Inl e" "s' = s" "e \<noteq> cast_error" by (auto simp: tcp_meth_setfd_def tcp_group_def)
    then show ?thesis using assms(1) by (simp add: balanced_account)
  next
    case (Inr p)
    with g have p: "s1 = s" "p < length (heap s)" "is_tcp (heap s ! p)" "lua_arg args 1 = Some (LUserdata p)" by auto
    then obtain t where t: "heap s ! p = Tcp t" by (cases "heap s ! p") auto
    with chk Inr assms(2) p obtain s2 where
      run: "act_bind (act_lua (luaL_checknumber vm args 2)) (\<lambda>x. act_bind (set_sock p (of_nat (c_size x))) (\<lambda>_. act_return []))
          (load_tcp t s) = Some (r, s2)" and s': "s' = save_object s p s2"
      by (auto simp: tcp_meth_setfd_def tcp_group_def with_tcp_def split: option.splits)
    have w: "works p True None (load_tcp t s)" unfolding works_load using assms(1) p by (simp add: works_def)
    show ?thesis
      by (rule setfd_at [OF p(4) w _ _ _ run s'])
        (simp add: load_tcp_def, simp add: load_tcp_def owned_def, rule works_load)
  qed
qed

lemma setfd_udp:
  assumes "typed s" "udp_meth_setfd vm args s = Some (r, s')"
  shows "typed s' \<and> r \<noteq> Inl cast_error \<and> balanced s (if isl r then [] else [setfd_trade vm args s]) s'"
proof -
  from assms(2) obtain q s1 where chk: "auxiliar_checkgroup (lit ''udp{any}'') args 1 s = Some (q, s1)"
    by (auto simp: udp_meth_setfd_def udp_group_def act_bind_Some_iff)
  note g = typed_group [OF assms(1) chk] checkgroup_cases [OF chk]
  show ?thesis
  proof (cases q)
    case (Inl e)
    with chk assms(2) g(1) have "r = Inl e" "s' = s" "e \<noteq> cast_error" by (auto simp: udp_meth_setfd_def udp_group_def)
    then show ?thesis using assms(1) by (simp add: balanced_account)
  next
    case (Inr p)
    with g have p: "s1 = s" "p < length (heap s)" "\<not> is_tcp (heap s ! p)" "lua_arg args 1 = Some (LUserdata p)" by auto
    then obtain u where u: "heap s ! p = Udp u" by (cases "heap s ! p") auto
    with chk Inr assms(2) p obtain s2 where
      run: "act_bind (act_lua (luaL_checknumber vm args 2)) (\<lambda>x. act_bind (set_sock p (of_nat (c_size x))) (\<lambda>_. act_return []))
          (load_udp u s) = Some (r, s2)" and s': "s' = save_object s p s2"
      by (auto simp: udp_meth_setfd_def udp_group_def with_udp_def split: option.splits)
    have w: "works p False None (load_udp u s)" unfolding works_load using assms(1) p by (simp add: works_def)
    show ?thesis
      by (rule setfd_at [OF p(4) w _ _ _ run s'])
        (simp add: load_udp_def, simp add: load_udp_def owned_def, rule works_load)
  qed
qed

lemma call_behaves:
  assumes "(name, f) \<in> set (sock_funcs vm env fresh)" "typed s" "f args s = Some (r, s')"
  shows "typed s' \<and> r \<noteq> Inl cast_error \<and>
    balanced s (if name = ''setfd'' \<and> \<not> isl r then [setfd_trade vm args s] else []) s'"
proof (cases "name = ''setfd''")
  case False
  with behaves_balanced [OF sock_funcs_behave [OF assms(1) False] assms(2,3)] show ?thesis by simp
next
  case True
  with assms(1) have "f = tcp_meth_setfd vm \<or> f = udp_meth_setfd vm"
    by (auto simp: sock_funcs_def tcp_methods_def udp_methods_def tcp_func_def udp_func_def)
  then have "typed s' \<and> r \<noteq> Inl cast_error \<and> balanced s (if isl r then [] else [setfd_trade vm args s]) s'"
    using setfd_tcp [OF assms(2), of vm args r s'] setfd_udp [OF assms(2), of vm args r s'] assms(3) by blast
  with True show ?thesis by (cases r) simp_all
qed

lemma sock_run_behaves: "sock_run vm env fresh s ts s' \<Longrightarrow> typed s \<Longrightarrow> typed s' \<and> balanced s ts s'"
proof (induction rule: sock_run.induct)
  case (start s)
  then show ?case by (simp add: balanced_account)
next
  case (call s ts s1 name f args r s2)
  then have s1: "typed s1" "balanced s ts s1" by blast+
  from call_behaves [OF call.hyps(2) s1(1) call.hyps(3)] balanced_trans [OF s1(2)] show ?case by blast
qed


section \<open>Opening the modules\<close>

definition sock_open :: "lua_vm \<Rightarrow> inet_env \<Rightarrow> ('m sock_sys_scheme, unit) act" where
  "sock_open vm env = act_bind (tcp_open vm env) (\<lambda>_. udp_open vm env)"

text \<open>A registry without classes, no objects.\<close>

definition blank :: "'m sock_sys_scheme \<Rightarrow> bool" where
  "blank s \<longleftrightarrow> registry s = Map.empty \<and> meta s = Map.empty \<and> heap s = []"

text \<open>What opening changes is the registry.\<close>

definition registers :: "bytes set \<Rightarrow> bytes set \<Rightarrow> ('m sock_sys_scheme, 'a) act \<Rightarrow> bool" where
  "registers C D m \<longleftrightarrow> (\<forall>s. C \<subseteq> dom (registry s) \<longrightarrow>
     (\<exists>x reg. m s = Some (Inr x, s\<lparr>registry := reg\<rparr>) \<and> D \<subseteq> dom reg \<and> (groups_ok (registry s) \<longrightarrow> groups_ok reg)))"

lemma registers_bind:
  fixes m :: "('m sock_sys_scheme, 'a) act"
  assumes "registers C D m" "\<And>x. registers D E (f x)"
  shows "registers C E (act_bind m f)"
  unfolding registers_def
proof (intro allI impI)
  fix s :: "'m sock_sys_scheme" assume "C \<subseteq> dom (registry s)"
  with assms(1) obtain x reg where 1: "m s = Some (Inr x, s\<lparr>registry := reg\<rparr>)" "D \<subseteq> dom reg"
    "groups_ok (registry s) \<longrightarrow> groups_ok reg" unfolding registers_def by blast
  have "D \<subseteq> dom (registry (s\<lparr>registry := reg\<rparr>))" using 1(2) by simp
  with assms(2) [of x] obtain y reg' where "f x (s\<lparr>registry := reg\<rparr>) = Some (Inr y, s\<lparr>registry := reg\<rparr>\<lparr>registry := reg'\<rparr>)"
    "E \<subseteq> dom reg'" "groups_ok (registry (s\<lparr>registry := reg\<rparr>)) \<longrightarrow> groups_ok reg'" unfolding registers_def by blast
  with 1 show "\<exists>x reg. act_bind m f s = Some (Inr x, s\<lparr>registry := reg\<rparr>) \<and> E \<subseteq> dom reg \<and> (groups_ok (registry s) \<longrightarrow> groups_ok reg)"
    by auto
qed

lemma in_group_methods:
  "grp \<in> {''tcp{any}'', ''udp{any}''} \<Longrightarrow> in_group grp (fold add_method ms mt) = in_group grp mt"
proof (induction ms arbitrary: mt)
  case (Cons m ms)
  have "in_group grp (add_method m mt) = in_group grp mt"
    using Cons.prems by (cases m) (auto simp: in_group_def add_method_def)
  with Cons show ?case by simp
qed simp

lemma registers_newclass: "registers C (insert c C) (auxiliar_newclass c ms)"
  unfolding registers_def
proof (intro allI impI)
  fix s :: "'a sock_sys_scheme" assume C: "C \<subseteq> dom (registry s)"
  obtain mt where run: "auxiliar_newclass c ms s = Some (Inr (), s\<lparr>registry := (registry s)(c \<mapsto> fold add_method ms mt)\<rparr>)"
    and mt: "mt_fields mt = (case registry s c of None \<Rightarrow> Map.empty | Some m \<Rightarrow> mt_fields m)"
    by (cases "registry s c") (auto simp: auxiliar_newclass_def Let_def)
  have "groups_ok ((registry s)(c \<mapsto> fold add_method ms mt))" if "groups_ok (registry s)"
    using that mt by (cases "registry s c") (auto simp: groups_ok_def in_group_methods, simp_all add: in_group_def)
  with C show "\<exists>x reg. auxiliar_newclass c ms s = Some (Inr x, s\<lparr>registry := reg\<rparr>) \<and> insert c C \<subseteq> dom reg \<and>
      (groups_ok (registry s) \<longrightarrow> groups_ok reg)" unfolding run by fastforce
qed

lemma registers_add2group:
  assumes "c \<in> C" "g = lit ''tcp{any}'' \<longrightarrow> c \<in> tcp_classes" "g = lit ''udp{any}'' \<longrightarrow> c \<in> udp_classes"
  shows "registers C C (auxiliar_add2group c g)"
  unfolding registers_def
proof (intro allI impI)
  fix s :: "'a sock_sys_scheme" assume C: "C \<subseteq> dom (registry s)"
  with assms(1) obtain mt where mt: "registry s c = Some mt" by blast
  let ?reg = "(registry s)(c \<mapsto> mt\<lparr>mt_fields := (mt_fields mt)(g \<mapsto> LBool True)\<rparr>)"
  have run: "auxiliar_add2group c g s = Some (Inr (), s\<lparr>registry := ?reg\<rparr>)" by (simp add: auxiliar_add2group_def mt)
  have "groups_ok ?reg" if "groups_ok (registry s)"
    using that assms(2,3) mt by (auto simp: groups_ok_def in_group_def)
  with C run show "\<exists>x reg. auxiliar_add2group c g s = Some (Inr x, s\<lparr>registry := reg\<rparr>) \<and> C \<subseteq> dom reg \<and>
      (groups_ok (registry s) \<longrightarrow> groups_ok reg)" by fastforce
qed

lemma registers_weaken: "registers C D m \<Longrightarrow> registers C {} m"
  unfolding registers_def by (metis empty_subsetI)

lemma registers_sock_open: "registers {} {} (sock_open vm env)"
  unfolding sock_open_def tcp_open_def udp_open_def Let_def act_bind_assoc_fun
  by (rule registers_weaken)
    (rule registers_bind registers_newclass registers_add2group | (simp add: tcp_classes_def udp_classes_def; fail))+

text \<open>The state a server starts its scripts in.\<close>

lemma sock_open_run:
  assumes "blank s0"
  obtains reg where "sock_open vm env s0 = Some (Inr (), s0\<lparr>registry := reg\<rparr>)"
    "typed (s0\<lparr>registry := reg\<rparr>)" "owned (s0\<lparr>registry := reg\<rparr>) = {#}"
proof -
  have "groups_ok (registry s0)" using assms by (simp add: blank_def groups_ok_def)
  with registers_sock_open [of vm env] obtain x reg where "sock_open vm env s0 = Some (Inr x, s0\<lparr>registry := reg\<rparr>)" "groups_ok reg"
    unfolding registers_def by blast
  with assms show thesis by (intro that [of reg]) (auto simp: blank_def typed_def owned_def)
qed


section \<open>Properties\<close>

text \<open>C2: no descriptor is lost or closed twice, but through \<open>setfd\<close>. Along any run of calls of any of the TCP and UDP
  functions, failing ones included: the descriptors the kernel handed out and the numbers \<open>setfd\<close> put into
  objects are those the objects hold, those that were closed, and those \<open>setfd\<close> overwrote, each counted once.
  So in a run without \<open>setfd\<close> every descriptor is in exactly one object until it is closed, once; and when every
  object has been closed, so has every descriptor.\<close>

theorem descriptors_accounted:
  assumes "blank s0" "sock_open vm env s0 = Some (Inr (), s)" "sock_run vm env fresh s ts s1"
  shows "created (new_calls s s1) + fst (traded ts) = owned s1 + closed (new_calls s s1) + snd (traded ts) \<and>
    (ts = [] \<longrightarrow> created (new_calls s s1) = owned s1 + closed (new_calls s s1)) \<and>
    (ts = [] \<longrightarrow> (\<forall>u \<in> set (heap s1). sock_of u = SOCKET_INVALID) \<longrightarrow> created (new_calls s s1) = closed (new_calls s s1))"
proof -
  from assms(2) sock_open_run [OF assms(1), of vm env] have s: "typed s" "owned s = {#}" by auto
  with sock_run_behaves [OF assms(3)]
  obtain cs where "ran s s1 cs" "created cs + fst (traded ts) = owned s1 + closed cs + snd (traded ts)"
    by (auto simp: balanced_def)
  moreover have "owned s1 = {#}" if "\<forall>u \<in> set (heap s1). sock_of u = SOCKET_INVALID"
    using that by (simp add: owned_def cong: map_cong)
  ultimately show ?thesis by (auto simp: new_calls_ran traded_def)
qed

text \<open>C5: the casts of the methods are right. Whatever scripts call, \<open>setfd\<close> included, and with whatever arguments, an
  object under a class of tcp.c is a \<open>t_tcp\<close> and one under a class of udp.c a \<open>t_udp\<close>, so no method
  reads a structure of the other kind or beyond the objects.\<close>

theorem casts_right:
  assumes "blank s0" "sock_open vm env s0 = Some (Inr (), s)" "sock_run vm env fresh s ts s1"
    and "(name, f) \<in> set (sock_funcs vm env fresh)" "f args s1 = Some (r, s2)"
  shows "r \<noteq> Inl cast_error \<and>
    (\<forall>p c. meta s2 p = Some c \<longrightarrow>
       (c \<in> tcp_classes \<longrightarrow> p < length (heap s2) \<and> (\<exists>t. heap s2 ! p = Tcp t)) \<and>
       (c \<in> udp_classes \<longrightarrow> p < length (heap s2) \<and> (\<exists>u. heap s2 ! p = Udp u)))"
proof -
  from assms(2) sock_open_run [OF assms(1), of vm env] have "typed s" by auto
  with sock_run_behaves [OF assms(3)] have "typed s1" by simp
  with call_behaves [OF assms(4) _ assms(5)] have "typed s2" "r \<noteq> Inl cast_error" by blast+
  moreover have "is_tcp u \<Longrightarrow> \<exists>t. u = Tcp t" "\<not> is_tcp u \<Longrightarrow> \<exists>v. u = Udp v" for u
    by (cases u; simp)+
  ultimately show ?thesis unfolding typed_def by blast
qed

text \<open>A server that creates one TCP object, and then closes it.\<close>

definition sample_server :: "sysres list \<Rightarrow> sock_sys" where
  "sample_server as = \<lparr>clock = [(0, 0)], answers = as, trace = [], tm_block = 0, tm_total = 0, tm_start = 0,
     buf_birthday = 0, buf_sent = 0, buf_received = 0, buf_first = 0, buf_last = 0, buf_data = [],
     registry = Map.empty, meta = Map.empty, heap = []\<rparr>"

definition sample_udp :: t_udp where
  "sample_udp = \<lparr>udp_sock = 0, udp_family = 0, udp_block = 0, udp_total = 0, udp_start = 0\<rparr>"

lemma sample_create:
  "\<exists>s1. tcp_create PF_INET (sample_server [ret 5 0, ret 0 0]\<lparr>registry := reg\<rparr>) = Some (Inr [LUserdata 0], s1) \<and>
     trace s1 = [(CSocket 2 1 0, ret 5 0), (CIoctl 5 1, ret 0 0)]"
  by (simp add: tcp_create_def inet_trycreate_def socket_create_def act_bind_def syscall_def sample_server_def ret_def
      Let_def socket_strerror_def io_strerror_def newuserdata_def auxiliar_setclass_def socket_setnonblocking_def set_sock_def
      with_tcp_def zero_tcp_def timeout_init_def buffer_init_def timeout_gettime_def read_clock_def load_tcp_def
      save_object_def set_family_def)


lemma sample_blank: "blank (sample_server as)"
  by (simp add: blank_def sample_server_def)

lemma sample_sock_run:
  obtains s s1 where "sock_open plain_vm plain_env (sample_server [ret 5 0, ret 0 0]) = Some (Inr (), s)"
    "sock_run plain_vm plain_env sample_udp s [] s1"
    "tcp_global_create [] s = Some (Inr [LUserdata 0], s1)"
    "new_calls s s1 = [(CSocket 2 1 0, ret 5 0), (CIoctl 5 1, ret 0 0)]"
proof -
  let ?s0 = "sample_server [ret 5 0, ret 0 0]"
  obtain reg where s: "sock_open plain_vm plain_env ?s0 = Some (Inr (), ?s0\<lparr>registry := reg\<rparr>)"
    using sock_open_run [OF sample_blank] by blast
  obtain s1 where s1: "tcp_create PF_INET (?s0\<lparr>registry := reg\<rparr>) = Some (Inr [LUserdata 0], s1)"
    "trace s1 = [(CSocket 2 1 0, ret 5 0), (CIoctl 5 1, ret 0 0)]"
    using sample_create [of reg] by blast
  have "(''tcp'', tcp_global_create) \<in> set (sock_funcs plain_vm plain_env sample_udp)"
    by (simp add: sock_funcs_def tcp_func_def)
  from sock_run.call [OF sock_run.start this, of "[]"]
  have "sock_run plain_vm plain_env sample_udp (?s0\<lparr>registry := reg\<rparr>) [] s1"
    using s1 by (simp add: tcp_global_create_def)
  with s s1 that show thesis by (simp add: tcp_global_create_def new_calls_def sample_server_def)
qed

theorem descriptors_accounted_witness:
  "\<exists>s s1. sock_run plain_vm plain_env sample_udp s [] s1 \<and> length (new_calls s s1) = 2 \<and> owned (s1 :: sock_sys) = {#5#}"
proof (rule sample_sock_run)
  fix s s1
  assume a: "sock_open plain_vm plain_env (sample_server [ret 5 0, ret 0 0]) = Some (Inr (), s)"
    "sock_run plain_vm plain_env sample_udp s [] s1" "new_calls s s1 = [(CSocket 2 1 0, ret 5 0), (CIoctl 5 1, ret 0 0)]"
  from descriptors_accounted [OF sample_blank a(1,2)] have "owned s1 = {#5#}"
    by (simp add: a(3) ret_def live_def traded_def)
  with a show ?thesis by (intro exI [of _ s] exI [of _ s1]) simp
qed

lemma getfd_returns: "tcp_meth_getfd args s \<noteq> None"
proof -
  obtain d where d: "auxiliar_getgroupudata (lit ''tcp{any}'') args 1 s = Some (Inr d, s)"
    by (simp add: auxiliar_getgroupudata_def)
  then obtain q where "auxiliar_checkgroup (lit ''tcp{any}'') args 1 s = Some (q, s)"
    by (cases d) (auto simp: auxiliar_checkgroup_def Let_def fits_def simp del: lit_simps)
  then show ?thesis
    by (cases q) (auto simp: tcp_meth_getfd_def tcp_group_def with_tcp_def split: userdata.split)
qed

theorem casts_right_witness:
  "\<exists>s1 r s2. tcp_meth_getfd [LUserdata 0] (s1 :: sock_sys) = Some (r, s2) \<and> r \<noteq> Inl cast_error"
proof (rule sample_sock_run)
  fix s s1
  assume a: "sock_open plain_vm plain_env (sample_server [ret 5 0, ret 0 0]) = Some (Inr (), s)"
    "sock_run plain_vm plain_env sample_udp s [] s1"
  obtain r s2 where run: "tcp_meth_getfd [LUserdata 0] s1 = Some (r, s2)" using getfd_returns by fast
  have "(''getfd'', tcp_meth_getfd) \<in> set (sock_funcs plain_vm plain_env sample_udp)"
    by (simp add: sock_funcs_def tcp_methods_def)
  from casts_right [OF sample_blank a this run] run show ?thesis by (intro exI) auto
qed

end
