(* ===== verification/Select.thy ===== *)
theory Select
  imports WSocket
begin

text \<open>
  select.c: waiting for several objects at once. The objects are any Lua values: their \<open>getfd\<close> and
  \<open>dirty\<close> methods, which scripts may define, are the parameter. An \<open>fd_set\<close> is the list of its
  descriptors, without duplicates.
\<close>

abbreviation (input) FD_SETSIZE :: nat where "FD_SETSIZE \<equiv> 64"

text \<open>Looking the method up and calling it; \<open>None\<close> when the object has no such method.\<close>

record 's sel_methods =
  call_getfd :: "lua_value \<Rightarrow> ('s, lua_value option) act"
  call_dirty :: "lua_value \<Rightarrow> ('s, lua_value option) act"


section \<open>Internal functions\<close>

definition select_getfd :: "lua_vm \<Rightarrow> 's sel_methods \<Rightarrow> lua_value \<Rightarrow> ('s, t_socket) act" where
  "select_getfd vm ms obj =
    act_bind (call_getfd ms obj) (\<lambda>r.
      act_return
        (case Option.bind r (value_tonumber vm) of
           Some numfd \<Rightarrow> if numfd \<ge> 0 then of_nat (c_size numfd) else SOCKET_INVALID
         | None \<Rightarrow> SOCKET_INVALID))"

definition select_dirty :: "'s sel_methods \<Rightarrow> lua_value \<Rightarrow> ('s, bool) act" where
  "select_dirty ms obj =
    act_bind (call_dirty ms obj) (\<lambda>r. act_return (case r of Some v \<Rightarrow> value_toboolean v | None \<Rightarrow> False))"

text \<open>The values \<open>tab[1], tab[2], \<dots>\<close> up to the first \<open>nil\<close>.\<close>

fun tab_items :: "lua_value \<Rightarrow> lua_value list" where
  "tab_items (LTable kvs) =
     takeWhile (\<lambda>v. v \<noteq> LNil) (map (\<lambda>i. lua_gettable (LTable kvs) (LNum (of_nat i))) [1..<length kvs + 2])"
| "tab_items _ = []"

definition FD_SET :: "t_socket \<Rightarrow> t_socket list \<Rightarrow> t_socket list" where
  "FD_SET fd xs = (if fd \<in> set xs \<or> length xs \<ge> FD_SETSIZE then xs else xs @ [fd])"

definition FD_CLR :: "t_socket \<Rightarrow> t_socket list \<Rightarrow> t_socket list" where
  "FD_CLR fd xs = filter (\<lambda>x. x \<noteq> fd) xs"

text \<open>The set, the largest descriptor, and \<open>itab\<close>, from descriptors to objects.\<close>

record fd_table =
  fds :: "t_socket list"
  max_fd :: t_socket
  itab :: "t_socket \<rightharpoonup> lua_value"

fun collect_loop ::
  "lua_vm \<Rightarrow> 's sel_methods \<Rightarrow> nat \<Rightarrow> lua_value list \<Rightarrow> nat \<Rightarrow> fd_table \<Rightarrow> ('s, fd_table) act" where
  "collect_loop vm ms tab [] n t = act_return t"
| "collect_loop vm ms tab (obj # objs) n t =
    act_bind (select_getfd vm ms obj) (\<lambda>fd.
      if fd \<noteq> SOCKET_INVALID then
        if n \<ge> FD_SETSIZE then act_error (ArgError tab (lit ''too many sockets''))
        else collect_loop vm ms tab objs (n + 1)
               (t\<lparr>fds := FD_SET fd (fds t),
                  max_fd := (if max_fd t = SOCKET_INVALID \<or> max_fd t < fd then fd else max_fd t),
                  itab := (itab t)(fd \<mapsto> obj)\<rparr>)
      else collect_loop vm ms tab objs n t)"

definition collect_fd ::
  "lua_vm \<Rightarrow> 's sel_methods \<Rightarrow> nat \<Rightarrow> lua_value \<Rightarrow> fd_table \<Rightarrow> ('s, fd_table) act" where
  "collect_fd vm ms tab v t =
    (case v of
       LNil \<Rightarrow> act_return t
     | LTable kvs \<Rightarrow> collect_loop vm ms tab (tab_items v) 0 t
     | _ \<Rightarrow> act_error (TypeError tab (lit ''table'')))"

text \<open>The dirty objects, in order, and the set without their descriptors.\<close>

fun check_loop ::
  "lua_vm \<Rightarrow> 's sel_methods \<Rightarrow> lua_value list \<Rightarrow> lua_value list \<Rightarrow> t_socket list \<Rightarrow> ('s, lua_value list \<times> t_socket list) act" where
  "check_loop vm ms [] dtab rset = act_return (dtab, rset)"
| "check_loop vm ms (obj # objs) dtab rset =
    act_bind (select_getfd vm ms obj) (\<lambda>fd.
      act_bind (if fd \<noteq> SOCKET_INVALID then select_dirty ms obj else act_return False) (\<lambda>d.
        if d then check_loop vm ms objs (dtab @ [obj]) (FD_CLR fd rset) else check_loop vm ms objs dtab rset))"

definition check_dirty ::
  "lua_vm \<Rightarrow> 's sel_methods \<Rightarrow> lua_value \<Rightarrow> t_socket list \<Rightarrow> ('s, lua_value list \<times> t_socket list) act" where
  "check_dirty vm ms v rset = check_loop vm ms (tab_items v) [] rset"

text \<open>The loop over all descriptors below \<open>max_fd\<close>: those in the set come in ascending order. An
  entry that \<open>itab\<close> lacks is \<open>nil\<close>.\<close>

definition return_fd :: "t_socket list \<Rightarrow> t_socket \<Rightarrow> (t_socket \<rightharpoonup> lua_value) \<Rightarrow> lua_value list" where
  "return_fd xs n it =
    map (\<lambda>fd. case it fd of None \<Rightarrow> LNil | Some obj \<Rightarrow> obj) (sort (remdups (filter (\<lambda>fd. fd < n) xs)))"

text \<open>The table with both directions, of the values before the first \<open>nil\<close>. An entry added later is
  found first.\<close>

fun assoc_entries :: "nat \<Rightarrow> lua_value list \<Rightarrow> (lua_value \<times> lua_value) list \<Rightarrow> (lua_value \<times> lua_value) list" where
  "assoc_entries i [] atab = atab"
| "assoc_entries i (v # vs) atab =
    (if v = LNil then atab
     else assoc_entries (i + 1) vs ((v, LNum (of_nat i)) # (LNum (of_nat i), v) # atab))"

definition make_assoc :: "lua_value list \<Rightarrow> lua_value" where
  "make_assoc tab = LTable (assoc_entries 1 tab [])"

text \<open>The timeout is a local variable of the function.\<close>

definition with_local_timeout :: "('m tm_sys_scheme, 'a) act \<Rightarrow> ('m tm_sys_scheme, 'a) act" where
  "with_local_timeout m s =
    (case m s of
       None \<Rightarrow> None
     | Some (r, s') \<Rightarrow> Some (r, s'\<lparr>tm_block := tm_block s, tm_total := tm_total s, tm_start := tm_start s\<rparr>))"

definition stack_arg :: "lua_value list \<Rightarrow> nat \<Rightarrow> lua_value" where
  "stack_arg args n = (case lua_arg args n of None \<Rightarrow> LNil | Some v \<Rightarrow> v)"

definition global_select :: "lua_vm \<Rightarrow> 'm tm_sys_scheme sel_methods \<Rightarrow> lua_value list \<Rightarrow> ('m tm_sys_scheme, lua_value list) act" where
  "global_select vm ms args =
    act_bind (act_lua (luaL_optnumber vm args 3 (- 1))) (\<lambda>t.
    act_bind (collect_fd vm ms 1 (stack_arg args 1) \<lparr>fds = [], max_fd = SOCKET_INVALID, itab = Map.empty\<rparr>) (\<lambda>r.
    act_bind (collect_fd vm ms 2 (stack_arg args 2) (r\<lparr>fds := []\<rparr>)) (\<lambda>w.
    act_bind (check_dirty vm ms (stack_arg args 1) (fds r)) (\<lambda>(dtab, rset).
      let t = (if dtab \<noteq> [] then 0 else t) in
      act_bind
        (with_local_timeout
          (act_bind (timeout_init t (- 1)) (\<lambda>_.
           act_bind timeout_markstart (\<lambda>_. socket_select (max_fd w + 1) rset (fds w) []))))
        (\<lambda>(ret, rset, wset).
          if ret > 0 \<or> dtab \<noteq> [] then
            act_return [make_assoc (dtab @ return_fd rset (max_fd w + 1) (itab w)),
                        make_assoc (return_fd wset (max_fd w + 1) (itab w))]
          else if ret = 0 then act_return [LTable [], LTable [], LStr (lit ''timeout'')]
          else act_error (RunError (lit ''select failed'')))))))"


section \<open>Facts\<close>

text \<open>The loop of \<open>return_fd\<close>, descriptor by descriptor.\<close>

lemma descriptors_below:
  assumes "k \<le> 2 ^ 32"
  shows "sorted (map (of_nat :: nat \<Rightarrow> u32) [0..<k])" "distinct (map (of_nat :: nat \<Rightarrow> u32) [0..<k])"
proof -
  have u: "unat (of_nat i :: u32) = i" if "i < k" for i
    using that assms by (simp add: unat_of_nat)
  then have "inj_on (of_nat :: nat \<Rightarrow> u32) {0..<k}" by (metis atLeastLessThan_iff inj_onI)
  then show "distinct (map (of_nat :: nat \<Rightarrow> u32) [0..<k])" by (simp add: distinct_map)
  show "sorted (map (of_nat :: nat \<Rightarrow> u32) [0..<k])"
    using u by (simp add: sorted_iff_nth_mono word_le_nat_alt)
qed

lemma return_fd_loop:
  "return_fd xs n it =
    map (\<lambda>fd. case it fd of None \<Rightarrow> LNil | Some obj \<Rightarrow> obj)
      (filter (\<lambda>fd. fd \<in> set xs) (map of_nat [0..<unat n]))"
proof -
  let ?l = "filter (\<lambda>fd. fd \<in> set xs) (map of_nat [0..<unat n])"
  have "unat n \<le> 2 ^ 32" using unsigned_less [of n, where ?'a = nat] by simp
  note below = descriptors_below [OF this]
  have "set (map of_nat [0..<unat n]) = {fd. fd < n}"
  proof (intro set_eqI iffI)
    fix fd :: u32 assume "fd \<in> {fd. fd < n}"
    then have "unat fd \<in> set [0..<unat n]" "of_nat (unat fd) = fd" by (simp_all add: word_less_nat_alt)
    then show "fd \<in> set (map of_nat [0..<unat n])" unfolding set_map by (metis image_eqI)
  next
    fix fd :: u32 assume "fd \<in> set (map of_nat [0..<unat n])"
    then show "fd \<in> {fd. fd < n}" by (auto simp: word_less_nat_alt unat_of_nat intro: le_less_trans [OF mod_less_eq_dividend])
  qed
  then have "set ?l = set (sort (remdups (filter (\<lambda>fd. fd < n) xs)))" by auto
  moreover have "sorted ?l" "distinct ?l" using below sorted_filter [of id] by (simp_all only: distinct_filter map_ident id_def list.map_id)
  ultimately have "sort (remdups (filter (\<lambda>fd. fd < n) xs)) = ?l"
    by (intro sorted_distinct_set_unique) simp_all
  then show ?thesis by (simp add: return_fd_def)
qed


text \<open>What \<open>getfd\<close> and \<open>dirty\<close> of the objects in \<open>V\<close> answer in the state \<open>s\<close>: a descriptor of their own
  and a flag, with no effect.\<close>

definition plain_methods ::
  "'s sel_methods \<Rightarrow> (lua_value \<Rightarrow> t_socket) \<Rightarrow> (lua_value \<Rightarrow> bool) \<Rightarrow> lua_value set \<Rightarrow> 's \<Rightarrow> bool" where
  "plain_methods ms fdof isd V s \<longleftrightarrow>
    (\<forall>v \<in> V. call_getfd ms v s = Some (Inr (Some (LNum (of_nat (unat (fdof v))))), s) \<and>
       call_dirty ms v s = Some (Inr (Some (LBool (isd v))), s) \<and>
       fdof v \<noteq> SOCKET_INVALID \<and> v \<noteq> LNil \<and> (\<forall>x. v \<noteq> LNum x)) \<and> inj_on fdof V"

lemma plain_calls:
  assumes "plain_methods ms fdof isd V s" "v \<in> V"
  shows "select_getfd vm ms v s = Some (Inr (fdof v), s)" "select_dirty ms v s = Some (Inr (isd v), s)"
    "fdof v \<noteq> SOCKET_INVALID"
proof -
  have "c_size (of_nat (unat (fdof v))) = unat (fdof v)"
    using unsigned_less [of "fdof v", where ?'a = nat] by (intro c_size_of_nat) simp
  moreover have "(0 :: real) \<le> of_nat (unat (fdof v))" by (rule of_nat_0_le_iff)
  ultimately show "select_getfd vm ms v s = Some (Inr (fdof v), s)" "select_dirty ms v s = Some (Inr (isd v), s)"
    "fdof v \<noteq> SOCKET_INVALID"
    using assms
    by (auto simp: plain_methods_def select_getfd_def select_dirty_def act_bind_def value_toboolean_def)
qed

text \<open>The table after collecting the objects \<open>objs\<close>.\<close>

definition collected :: "(lua_value \<Rightarrow> t_socket) \<Rightarrow> lua_value set \<Rightarrow> fd_table \<Rightarrow> bool" where
  "collected fdof V t \<longleftrightarrow> (\<forall>v \<in> V. itab t (fdof v) = Some v \<and> fdof v \<le> max_fd t \<and> max_fd t \<noteq> SOCKET_INVALID)"

lemma collect_loop_plain:
  assumes "plain_methods ms fdof isd V s"
  shows "set objs \<subseteq> V \<Longrightarrow> S \<subseteq> V \<Longrightarrow> n + length objs \<le> FD_SETSIZE \<Longrightarrow> length (fds t) \<le> n \<Longrightarrow> collected fdof S t \<Longrightarrow>
    \<exists>t'. collect_loop vm ms tab objs n t s = Some (Inr t', s) \<and> set (fds t') = set (fds t) \<union> fdof ` set objs \<and>
      collected fdof (S \<union> set objs) t'"
proof (induction objs arbitrary: n t S)
  case (Cons v objs)
  let ?t = "t\<lparr>fds := FD_SET (fdof v) (fds t),
    max_fd := (if max_fd t = SOCKET_INVALID \<or> max_fd t < fdof v then fdof v else max_fd t), itab := (itab t)(fdof v \<mapsto> v)\<rparr>"
  have v: "v \<in> V" "inj_on fdof V" using Cons.prems(1) assms by (auto simp: plain_methods_def)
  note f = plain_calls [OF assms v(1)]
  have "collected fdof (insert v S) ?t"
    using Cons.prems(2,5) f(3) v unfolding collected_def by (auto dest: inj_onD)
  moreover have "length (fds ?t) \<le> n + 1" using Cons.prems(4) by (simp add: FD_SET_def)
  ultimately obtain t' where "collect_loop vm ms tab objs (n + 1) ?t s = Some (Inr t', s)"
    "set (fds t') = set (fds ?t) \<union> fdof ` set objs" "collected fdof (insert v S \<union> set objs) t'"
    using Cons.IH [of "insert v S" "n + 1" ?t] Cons.prems(1,2,3) v(1) by auto
  moreover have "set (fds ?t) = insert (fdof v) (set (fds t))" using Cons.prems(3,4) by (auto simp: FD_SET_def)
  ultimately show ?case using f Cons.prems(3) by (auto simp: act_bind_def)
qed (simp add: collected_def)

lemma check_loop_plain:
  assumes "plain_methods ms fdof isd V s"
  shows "set objs \<subseteq> V \<Longrightarrow> \<exists>rset'. check_loop vm ms objs dtab rset s = Some (Inr (dtab @ filter isd objs, rset'), s) \<and>
    set rset' = set rset - fdof ` {v \<in> set objs. isd v}"
proof (induction objs arbitrary: dtab rset)
  case (Cons v objs)
  then have "v \<in> V" by simp
  note f = plain_calls [OF assms this]
  show ?case
    using f Cons.IH [of "dtab @ [v]" "FD_CLR (fdof v) rset"] Cons.IH [of dtab rset] Cons.prems
    by (auto simp: act_bind_def FD_CLR_def)
qed simp

lemma assoc_lookup:
  assumes "\<And>x. v \<noteq> LNum x"
  shows "LNil \<notin> set vs \<Longrightarrow> \<forall>u \<in> set vs. \<forall>x. u \<noteq> LNum x \<Longrightarrow>
    (\<exists>x. map_of (assoc_entries i vs atab) v = Some x \<and> x \<noteq> LNil) \<longleftrightarrow> v \<in> set vs \<or> (\<exists>x. map_of atab v = Some x \<and> x \<noteq> LNil)"
  using assms by (induction vs arbitrary: i atab) auto

lemma make_assoc_lookup:
  assumes "\<And>x. v \<noteq> LNum x" "LNil \<notin> set vs" "\<forall>u \<in> set vs. \<forall>x. u \<noteq> LNum x"
  shows "lua_gettable (make_assoc vs) v \<noteq> LNil \<longleftrightarrow> v \<in> set vs"
  using assoc_lookup [OF assms, of 1 "[]"] by (auto simp: make_assoc_def split: option.split)

lemma below_next: "x \<le> m \<Longrightarrow> m \<noteq> - 1 \<Longrightarrow> x < (m :: u32) + 1"
proof -
  assume "x \<le> m" "m \<noteq> - 1"
  then have "unat (1 + m) = Suc (unat m)" by (intro unatSuc) (auto simp: add_eq_0_iff)
  with \<open>x \<le> m\<close> show ?thesis by (simp add: word_less_nat_alt word_le_nat_alt add.commute)
qed

lemma return_fd_set:
  assumes "collected fdof V t" "set xs \<subseteq> fdof ` V" "inj_on fdof V"
  shows "set (return_fd xs (max_fd t + 1) (itab t)) = {v \<in> V. fdof v \<in> set xs}"
proof -
  have "fdof v < max_fd t + 1" "itab t (fdof v) = Some v" if "v \<in> V" for v
    using assms(1) that below_next unfolding collected_def by blast+
  with assms(2) show ?thesis by (force simp: return_fd_def image_iff)
qed


lemma select_waits:
  assumes "clock s = c # cs" "answers s = a # rest" "0 < n"
  shows "\<exists>s'. with_local_timeout (act_bind (timeout_init t (- 1)) (\<lambda>_. act_bind timeout_markstart (\<lambda>_.
      socket_select n xs ys []))) s = Some (Inr (sr_ret a, sr_rfds a, sr_wfds a), s') \<and>
    trace s' = trace s @ [(CSelect xs ys [] (if t < 0 then None else Some (timeval_of t)), a)]"
  using assms word_gt_0 [of n]
  by (auto simp: with_local_timeout_def timeout_init_def timeout_markstart_def timeout_gettime_def read_clock_def
      act_bind_def act_put_def socket_select_def timeout_get_def syscall_def)


text \<open>\<open>select\<close> reports exactly the objects that are ready. When every object has its own descriptor and
  the kernel answers with some of those it was asked about, the call asks about the descriptors
  of the readers that are not dirty and of all writers, waits only if nothing is dirty, and then:
  if the kernel found a descriptor ready, or a reader is dirty, the two tables contain, as keys,
  the readers that are dirty or ready and the writers that are ready; otherwise the answer is a
  timeout, or an error if the call failed.\<close>

lemma select_ready:
  assumes "plain_methods ms fdof isd V s" "V = set (tab_items (LTable kr)) \<union> set (tab_items (LTable kw))" "V \<noteq> {}"
    and "length (tab_items (LTable kr)) \<le> FD_SETSIZE" "length (tab_items (LTable kw)) \<le> FD_SETSIZE"
    and "answers s = a # rest" "clock s \<noteq> []"
    and "set (sr_rfds a) \<subseteq> fdof ` {v \<in> set (tab_items (LTable kr)). \<not> isd v}"
    and "set (sr_wfds a) \<subseteq> fdof ` set (tab_items (LTable kw))"
  shows "\<exists>q s' xs ys tv.
    global_select vm ms [LTable kr, LTable kw, LNum t] s = Some (q, s') \<and>
    trace s' = trace s @ [(CSelect xs ys [] tv, a)] \<and>
    set xs = fdof ` {v \<in> set (tab_items (LTable kr)). \<not> isd v} \<and> set ys = fdof ` set (tab_items (LTable kw)) \<and>
    tv = (if \<exists>v \<in> set (tab_items (LTable kr)). isd v then Some (timeval_of 0) else if t < 0 then None else Some (timeval_of t)) \<and>
    (if 0 < sr_ret a \<or> (\<exists>v \<in> set (tab_items (LTable kr)). isd v)
     then \<exists>R W. q = Inr [R, W] \<and>
       {v \<in> set (tab_items (LTable kr)). lua_gettable R v \<noteq> LNil} =
         {v \<in> set (tab_items (LTable kr)). isd v \<or> fdof v \<in> set (sr_rfds a)} \<and>
       {v \<in> set (tab_items (LTable kw)). lua_gettable W v \<noteq> LNil} =
         {v \<in> set (tab_items (LTable kw)). fdof v \<in> set (sr_wfds a)}
     else q = (if sr_ret a = 0 then Inr [LTable [], LTable [], LStr (lit ''timeout'')]
               else Inl (RunError (lit ''select failed''))))"
proof -
  let ?rs = "tab_items (LTable kr)" and ?ws = "tab_items (LTable kw)"
  have inj: "inj_on fdof V" and obj: "\<forall>v \<in> V. v \<noteq> LNil \<and> (\<forall>x. v \<noteq> LNum x)"
    using assms(1) by (auto simp: plain_methods_def)
  obtain r where r: "collect_loop vm ms 1 ?rs 0 \<lparr>fds = [], max_fd = SOCKET_INVALID, itab = Map.empty\<rparr> s = Some (Inr r, s)"
    "set (fds r) = fdof ` set ?rs" "collected fdof (set ?rs) r"
    using collect_loop_plain [OF assms(1), of ?rs "{}" 0 "\<lparr>fds = [], max_fd = SOCKET_INVALID, itab = Map.empty\<rparr>" vm 1]
      assms(2,4) by (auto simp: collected_def)
  obtain w where w: "collect_loop vm ms 2 ?ws 0 (r\<lparr>fds := []\<rparr>) s = Some (Inr w, s)"
    "set (fds w) = fdof ` set ?ws" "collected fdof V w"
    using collect_loop_plain [OF assms(1), of ?ws "set ?rs" 0 "r\<lparr>fds := []\<rparr>" vm 2] r(3) assms(2,5)
    by (auto simp: collected_def)
  obtain xs where xs: "check_loop vm ms ?rs [] (fds r) s = Some (Inr (filter isd ?rs, xs), s)"
    "set xs = set (fds r) - fdof ` {v \<in> set ?rs. isd v}"
    using check_loop_plain [OF assms(1), of ?rs vm "[]" "fds r"] assms(2) by auto
  obtain v where "v \<in> V" using assms(3) by auto
  then have n: "0 < max_fd w + 1"
    using w(3) below_next [of "fdof v" "max_fd w"] unfolding collected_def by (auto intro: le_less_trans)
  obtain c cs where c: "clock s = c # cs" using assms(7) by (cases "clock s") auto
  let ?t = "if \<exists>v \<in> set ?rs. isd v then 0 else t"
  have dirty: "filter isd ?rs \<noteq> [] \<longleftrightarrow> (\<exists>v \<in> set ?rs. isd v)" by (auto simp: filter_empty_conv)
  obtain s' where s': "with_local_timeout (act_bind (timeout_init ?t (- 1)) (\<lambda>_. act_bind timeout_markstart (\<lambda>_.
      socket_select (max_fd w + 1) xs (fds w) []))) s = Some (Inr (sr_ret a, sr_rfds a, sr_wfds a), s')"
    "trace s' = trace s @ [(CSelect xs (fds w) [] (if ?t < 0 then None else Some (timeval_of ?t)), a)]"
    using select_waits [OF c assms(6) n] by blast
  let ?R = "filter isd ?rs @ return_fd (sr_rfds a) (max_fd w + 1) (itab w)"
  let ?W = "return_fd (sr_wfds a) (max_fd w + 1) (itab w)"
  have R: "set (return_fd (sr_rfds a) (max_fd w + 1) (itab w)) = {v \<in> V. fdof v \<in> set (sr_rfds a)}"
    and W: "set ?W = {v \<in> V. fdof v \<in> set (sr_wfds a)}"
    using return_fd_set [OF w(3) _ inj] assms(2,8,9) by blast+
  let ?q = "if 0 < sr_ret a \<or> (\<exists>v \<in> set ?rs. isd v) then Inr [make_assoc ?R, make_assoc ?W]
    else if sr_ret a = 0 then Inr [LTable [], LTable [], LStr (lit ''timeout'')]
    else Inl (RunError (lit ''select failed''))"
  have run: "global_select vm ms [LTable kr, LTable kw, LNum t] s = Some (?q, s')"
    using r(1) w(1) xs(1) s'(1) dirty
    by (simp add: global_select_def act_bind_def act_lua_def luaL_optnumber_def lua_tonumber_opt_def lua_arg_def stack_arg_def
        collect_fd_def check_dirty_def act_return_def Let_def lua_arg_simps del: tab_items.simps lit_simps split del: if_split)
      (simp split: if_split del: tab_items.simps lit_simps)
  have asked: "set xs = fdof ` {v \<in> set ?rs. \<not> isd v}"
    using r(2) xs(2) inj assms(2) by (auto dest: inj_onD)
  have keys: "lua_gettable (make_assoc vs) v \<noteq> LNil \<longleftrightarrow> v \<in> set vs" if "v \<in> V" "set vs \<subseteq> V" for v vs
    by (rule make_assoc_lookup) (use obj that in blast)+
  have "set ?R \<subseteq> V" "set ?W \<subseteq> V" using R W assms(2) by auto
  note RW = keys [OF _ this(1)] keys [OF _ this(2)]
  have V: "set ?rs \<subseteq> V" "set ?ws \<subseteq> V" using assms(2) by blast+
  have "lua_gettable (make_assoc ?R) v \<noteq> LNil \<longleftrightarrow> isd v \<or> fdof v \<in> set (sr_rfds a)" if "v \<in> set ?rs" for v
    unfolding RW(1) [OF subsetD [OF V(1) that]] using that V(1) by (simp only: set_append set_filter R Un_iff mem_Collect_eq subsetD simp_thms)
  moreover have "lua_gettable (make_assoc ?W) v \<noteq> LNil \<longleftrightarrow> fdof v \<in> set (sr_wfds a)" if "v \<in> set ?ws" for v
    unfolding RW(2) [OF subsetD [OF V(2) that]] using that V(2) by (simp only: W mem_Collect_eq subsetD simp_thms)
  ultimately have tables: "{v \<in> set ?rs. lua_gettable (make_assoc ?R) v \<noteq> LNil} = {v \<in> set ?rs. isd v \<or> fdof v \<in> set (sr_rfds a)}"
    "{v \<in> set ?ws. lua_gettable (make_assoc ?W) v \<noteq> LNil} = {v \<in> set ?ws. fdof v \<in> set (sr_wfds a)}"
    by blast+
  have tv: "(if ?t < 0 then None else Some (timeval_of ?t)) =
    (if \<exists>v \<in> set ?rs. isd v then Some (timeval_of 0) else if t < 0 then None else Some (timeval_of t))" by simp
  show ?thesis
    by (rule exI [of _ ?q], rule exI [of _ s'], rule exI [of _ xs], rule exI [of _ "fds w"], rule exI, intro conjI,
        rule run, rule s'(2) [unfolded tv], rule asked, rule w(2), rule refl)
      (use tables in \<open>auto simp del: lit_simps tab_items.simps\<close>)
qed

end
