(* ===== verification/SelectRuns.thy ===== *)
theory SelectRuns
  imports SockRuns Select
begin

text \<open>
  select on the objects of the library: \<open>getfd\<close> and \<open>dirty\<close> are found through the object's class and
  are the methods of tcp.c and udp.c.
\<close>

definition index_method ::
  "lua_vm \<Rightarrow> inet_env \<Rightarrow> 'm sock_sys_scheme \<Rightarrow> lua_value \<Rightarrow> string \<Rightarrow> 'm meth option" where
  "index_method vm env s v name =
    (case v of
       LUserdata p \<Rightarrow>
         (case meta s p of
            Some c \<Rightarrow>
              if c \<in> tcp_classes then map_of (tcp_methods vm env) name
              else if c \<in> udp_classes then map_of (udp_methods vm env) name
              else None
          | None \<Rightarrow> None)
     | _ \<Rightarrow> None)"

text \<open>The call has one result, \<open>nil\<close> when the method returns none.\<close>

definition call_method ::
  "lua_vm \<Rightarrow> inet_env \<Rightarrow> string \<Rightarrow> lua_value \<Rightarrow> ('m sock_sys_scheme, lua_value option) act" where
  "call_method vm env name v s =
    (case index_method vm env s v name of
       None \<Rightarrow> act_return None s
     | Some f \<Rightarrow> act_bind (f [v]) (\<lambda>rs. act_return (Some (case rs of [] \<Rightarrow> LNil | r # _ \<Rightarrow> r))) s)"

definition sock_methods :: "lua_vm \<Rightarrow> inet_env \<Rightarrow> 'm sock_sys_scheme sel_methods" where
  "sock_methods vm env = \<lparr>call_getfd = call_method vm env ''getfd'', call_dirty = call_method vm env ''dirty''\<rparr>"

definition fd_of :: "'m sock_sys_scheme \<Rightarrow> lua_value \<Rightarrow> t_socket" where
  "fd_of s v = (case v of LUserdata p \<Rightarrow> sock_of (heap s ! p) | _ \<Rightarrow> SOCKET_INVALID)"

text \<open>Only a tcp object can have something buffered.\<close>

definition has_buffered :: "'m sock_sys_scheme \<Rightarrow> lua_value \<Rightarrow> bool" where
  "has_buffered s v =
    (case v of LUserdata p \<Rightarrow> (case heap s ! p of Tcp t \<Rightarrow> tcp_first t < tcp_last t | Udp u \<Rightarrow> False) | _ \<Rightarrow> False)"

text \<open>Objects of registered classes, with open descriptors of their own.\<close>

definition open_sockets :: "'m sock_sys_scheme \<Rightarrow> lua_value set \<Rightarrow> bool" where
  "open_sockets s V \<longleftrightarrow> typed s \<and> inj_on (fd_of s) V \<and>
    (\<forall>v \<in> V. 0 \<le> sint (fd_of s v) \<and>
      (\<exists>p c mt. v = LUserdata p \<and> meta s p = Some c \<and> registry s c = Some mt \<and>
        (c \<in> tcp_classes \<and> in_group ''tcp{any}'' mt \<or> c \<in> udp_classes \<and> in_group ''udp{any}'' mt)))"

lemma classes_disjoint: "c \<in> udp_classes \<Longrightarrow> c \<notin> tcp_classes"
  by (auto simp: tcp_classes_def udp_classes_def)

lemma getgroup_run:
  assumes "meta s p = Some c" "registry s c = Some mt" "in_group grp mt"
  shows "auxiliar_checkgroup (lit grp) [LUserdata p] 1 s = Some (Inr p, s)"
  using assms
  by (auto simp: auxiliar_checkgroup_def auxiliar_getgroupudata_def act_bind_def act_get_def act_return_def in_group_def lua_arg_def
      simp del: lit_simps)

lemma sint_real: "0 \<le> sint x \<Longrightarrow> (of_int (sint x) :: real) = of_nat (unat (x :: u32))"
proof -
  assume "0 \<le> sint x"
  moreover have "sint x < 2 ^ 31" using sint_lt [of x] by simp
  ultimately have "uint x = sint x" unfolding uint_sint by (simp add: take_bit_int_eq_self)
  then show ?thesis by (metis of_int_of_nat_eq uint_nat)
qed

lemma saved_loaded:
  "saved (load_tcp t s) (Tcp t) = Tcp t" "saved (load_udp u s) (Udp u) = Udp u"
  by (simp_all add: load_tcp_def load_udp_def)

lemma save_loaded:
  "p < length (heap s) \<Longrightarrow> heap s ! p = Tcp t \<Longrightarrow> save_object s p (load_tcp t s) = s"
  "p < length (heap s) \<Longrightarrow> heap s ! p = Udp u \<Longrightarrow> save_object s p (load_udp u s) = s"
proof -
  assume a: "p < length (heap s)" "heap s ! p = Tcp t"
  then have "(heap s)[p := Tcp t] = heap s" by (metis list_update_id)
  with a show "save_object s p (load_tcp t s) = s" by (simp add: save_object_def load_tcp_def)
next
  assume a: "p < length (heap s)" "heap s ! p = Udp u"
  then have "(heap s)[p := Udp u] = heap s" by (metis list_update_id)
  with a show "save_object s p (load_udp u s) = s" by (simp add: save_object_def load_udp_def)
qed

lemma tcp_methods_run:
  assumes "meta s p = Some c" "registry s c = Some mt" "in_group ''tcp{any}'' mt" "p < length (heap s)" "heap s ! p = Tcp t"
  shows "tcp_meth_getfd [LUserdata p] s = Some (Inr [LNum (of_int (sint (tcp_sock t)))], s)"
    "tcp_meth_dirty [LUserdata p] s = Some (Inr [LBool (tcp_first t < tcp_last t)], s)"
  using getgroup_run [OF assms(1-3)] assms(4,5) save_loaded(1) [OF assms(4,5)]
  by (simp_all add: tcp_meth_getfd_def tcp_meth_dirty_def tcp_group_def act_bind_def with_tcp_def act_return_def act_get_def
      buffer_isempty_def load_tcp_def not_le del: lit_simps)

lemma udp_methods_run:
  assumes "meta s p = Some c" "registry s c = Some mt" "in_group ''udp{any}'' mt" "p < length (heap s)" "heap s ! p = Udp u"
  shows "udp_meth_getfd [LUserdata p] s = Some (Inr [LNum (of_int (sint (udp_sock u)))], s)"
    "udp_meth_dirty [LUserdata p] s = Some (Inr [LBool False], s)"
  using getgroup_run [OF assms(1-3)] assms(4,5) save_loaded(2) [OF assms(4,5)]
  by (simp_all add: udp_meth_getfd_def udp_meth_dirty_def udp_group_def act_bind_def with_udp_def act_return_def act_get_def
      load_udp_def del: lit_simps)

lemma sock_methods_plain:
  assumes "open_sockets s V"
  shows "plain_methods (sock_methods vm env) (fd_of s) (has_buffered s) V s"
  unfolding plain_methods_def
proof (intro conjI ballI allI)
  show "inj_on (fd_of s) V" using assms by (simp add: open_sockets_def)
next
  fix v assume "v \<in> V"
  with assms obtain p c mt where v: "v = LUserdata p" "meta s p = Some c" "registry s c = Some mt"
    "c \<in> tcp_classes \<and> in_group ''tcp{any}'' mt \<or> c \<in> udp_classes \<and> in_group ''udp{any}'' mt" "0 \<le> sint (fd_of s v)" "typed s"
    unfolding open_sockets_def by blast
  from v(2,6) have p: "p < length (heap s)" "c \<in> tcp_classes \<longrightarrow> is_tcp (heap s ! p)" "c \<in> udp_classes \<longrightarrow> \<not> is_tcp (heap s ! p)"
    unfolding typed_def by blast+
  have "call_getfd (sock_methods vm env) v s = Some (Inr (Some (LNum (of_nat (unat (fd_of s v))))), s) \<and>
    call_dirty (sock_methods vm env) v s = Some (Inr (Some (LBool (has_buffered s v))), s)"
  proof (cases "heap s ! p")
    case (Tcp t)
    with v(4) p(3) have c: "c \<in> tcp_classes" "in_group ''tcp{any}'' mt" by auto
    note run = tcp_methods_run [OF v(2,3) c(2) p(1) Tcp]
    show ?thesis using run sint_real [OF v(5)] v(1,2) c Tcp
      by (simp add: sock_methods_def call_method_def index_method_def tcp_methods_def act_bind_def act_return_def fd_of_def has_buffered_def)
  next
    case (Udp u)
    with v(4) p(2) have c: "c \<in> udp_classes" "in_group ''udp{any}'' mt" by auto
    note run = udp_methods_run [OF v(2,3) c(2) p(1) Udp]
    show ?thesis using run sint_real [OF v(5)] v(1,2) c Udp classes_disjoint [OF c(1)]
      by (simp add: sock_methods_def call_method_def index_method_def udp_methods_def act_bind_def act_return_def fd_of_def has_buffered_def)
  qed
  then show "call_getfd (sock_methods vm env) v s = Some (Inr (Some (LNum (of_nat (unat (fd_of s v))))), s)"
    "call_dirty (sock_methods vm env) v s = Some (Inr (Some (LBool (has_buffered s v))), s)" by blast+
  show "fd_of s v \<noteq> SOCKET_INVALID" using v(5) by auto
  show "v \<noteq> LNil" "v \<noteq> LNum x" for x using v(1) by auto
qed


section \<open>Properties\<close>

text \<open>C7: \<open>select\<close> on tcp and udp objects of any classes reports exactly what is ready. When the objects have
  open descriptors of their own and the kernel answers with some of those it was asked about, the
  call asks about the descriptors of the readers without buffered data and of all writers, and does
  not wait if a reader has buffered data. If the kernel found a descriptor ready or a reader has buffered
  data - also when the kernel found none ready - the two tables contain, as keys, the readers with
  buffered data or a ready descriptor and the writers with a ready descriptor; otherwise the tables
  are empty with "timeout", or an error is raised if the system call failed.\<close>

theorem select_reports:
  assumes "open_sockets s V" "V = set (tab_items (LTable kr)) \<union> set (tab_items (LTable kw))" "V \<noteq> {}"
    and "length (tab_items (LTable kr)) \<le> FD_SETSIZE" "length (tab_items (LTable kw)) \<le> FD_SETSIZE"
    and "answers s = a # rest" "clock s \<noteq> []"
    and "set (sr_rfds a) \<subseteq> fd_of s ` {v \<in> set (tab_items (LTable kr)). \<not> has_buffered s v}"
    and "set (sr_wfds a) \<subseteq> fd_of s ` set (tab_items (LTable kw))"
  shows "\<exists>q s' xs ys tv.
    global_select vm (sock_methods vm env) [LTable kr, LTable kw, LNum t] s = Some (q, s') \<and>
    trace s' = trace s @ [(CSelect xs ys [] tv, a)] \<and>
    set xs = fd_of s ` {v \<in> set (tab_items (LTable kr)). \<not> has_buffered s v} \<and> set ys = fd_of s ` set (tab_items (LTable kw)) \<and>
    tv = (if \<exists>v \<in> set (tab_items (LTable kr)). has_buffered s v then Some (timeval_of 0)
          else if t < 0 then None else Some (timeval_of t)) \<and>
    (if 0 < sr_ret a \<or> (\<exists>v \<in> set (tab_items (LTable kr)). has_buffered s v)
     then \<exists>R W. q = Inr [R, W] \<and>
       {v \<in> set (tab_items (LTable kr)). lua_gettable R v \<noteq> LNil} =
         {v \<in> set (tab_items (LTable kr)). has_buffered s v \<or> fd_of s v \<in> set (sr_rfds a)} \<and>
       {v \<in> set (tab_items (LTable kw)). lua_gettable W v \<noteq> LNil} =
         {v \<in> set (tab_items (LTable kw)). fd_of s v \<in> set (sr_wfds a)}
     else q = (if sr_ret a = 0 then Inr [LTable [], LTable [], LStr (lit ''timeout'')]
               else Inl (RunError (lit ''select failed''))))"
  by (rule select_ready [OF sock_methods_plain [OF assms(1)] assms(2-)])

text \<open>Two clients, the second of them with a byte in its buffer, and the first once more as a writer;
  the kernel finds the first one readable, or nothing within the time.\<close>

definition sample_ready :: "int \<Rightarrow> sysres" where
  "sample_ready n = (ret n 0)\<lparr>sr_rfds := (if n = 0 then [] else [5])\<rparr>"

definition sample_clients :: "int \<Rightarrow> sock_sys" where
  "sample_clients n = (sample_server [sample_ready n])
    \<lparr>registry := [lit ''tcp{client}'' \<mapsto> \<lparr>mt_fields = [lit ''tcp{any}'' \<mapsto> LBool True], mt_index = None\<rparr>],
     meta := (\<lambda>_. None)(0 := Some (lit ''tcp{client}''), 1 := Some (lit ''tcp{client}'')),
     heap := [Tcp (zero_tcp\<lparr>tcp_sock := 5\<rparr>), Tcp (zero_tcp\<lparr>tcp_sock := 6, tcp_last := 1\<rparr>)]\<rparr>"

lemma sample_clients_open: "open_sockets (sample_clients n) {LUserdata 0, LUserdata 1}"
proof -
  have "lit ''udp{any}'' \<noteq> lit ''tcp{any}''" by simp
  then have "groups_ok (registry (sample_clients n))"
    by (simp add: groups_ok_def sample_clients_def in_group_def tcp_classes_def del: lit_simps)
  moreover have "lit ''tcp{client}'' \<in> tcp_classes" "lit ''tcp{client}'' \<notin> udp_classes"
    by (simp_all add: tcp_classes_def udp_classes_def)
  ultimately show ?thesis
    by (simp add: open_sockets_def typed_def sample_clients_def fd_of_def in_group_def nth_Cons' del: lit_simps)
qed

theorem select_reports_witness:
  "(\<exists>R W s' xs ys.
    global_select plain_vm (sock_methods plain_vm plain_env)
      [LTable [(LNum 1, LUserdata 0), (LNum 2, LUserdata 1)], LTable [(LNum 1, LUserdata 0)], LNum 9] (sample_clients 0) =
        Some (Inr [R, W], s') \<and>
    trace s' = [(CSelect xs ys [] (Some (timeval_of 0)), sample_ready 0)] \<and> set xs = {5} \<and> set ys = {5} \<and>
    lua_gettable R (LUserdata 0) = LNil \<and> lua_gettable R (LUserdata 1) \<noteq> LNil \<and>
    lua_gettable W (LUserdata 0) = LNil) \<and>
  (\<exists>R W s' xs ys.
    global_select plain_vm (sock_methods plain_vm plain_env)
      [LTable [(LNum 1, LUserdata 0), (LNum 2, LUserdata 1)], LTable [(LNum 1, LUserdata 0)], LNum 9] (sample_clients 1) =
        Some (Inr [R, W], s') \<and>
    trace s' = [(CSelect xs ys [] (Some (timeval_of 0)), sample_ready 1)] \<and> set xs = {5} \<and> set ys = {5} \<and>
    lua_gettable R (LUserdata 0) \<noteq> LNil \<and> lua_gettable R (LUserdata 1) \<noteq> LNil \<and>
    lua_gettable W (LUserdata 0) = LNil)"
proof -
  have reported: "\<exists>R W s' xs ys.
    global_select plain_vm (sock_methods plain_vm plain_env)
      [LTable [(LNum 1, LUserdata 0), (LNum 2, LUserdata 1)], LTable [(LNum 1, LUserdata 0)], LNum 9] (sample_clients n) =
        Some (Inr [R, W], s') \<and>
    trace s' = [(CSelect xs ys [] (Some (timeval_of 0)), sample_ready n)] \<and> set xs = {5} \<and> set ys = {5} \<and>
    (lua_gettable R (LUserdata 0) \<noteq> LNil \<longleftrightarrow> n = 1) \<and> lua_gettable R (LUserdata 1) \<noteq> LNil \<and>
    lua_gettable W (LUserdata 0) = LNil" if n: "n \<in> {0, 1}" for n
  proof -
    let ?kr = "[(LNum 1, LUserdata 0), (LNum 2, LUserdata 1)]" and ?kw = "[(LNum 1, LUserdata 0)]"
    let ?s = "sample_clients n"
    have items: "tab_items (LTable ?kr) = [LUserdata 0, LUserdata 1]" "tab_items (LTable ?kw) = [LUserdata 0]"
      by (simp_all add: numeral_eq_Suc)
    have sub: "{v \<in> A. P v} = {v \<in> A. Q v} \<longleftrightarrow> (\<forall>v \<in> A. P v = Q v)" for A :: "lua_value set" and P Q by blast
    have s: "answers ?s = [sample_ready n]" "clock ?s \<noteq> []" "trace ?s = []"
      "sr_rfds (sample_ready n) = (if n = 0 then [] else [5])" "sr_wfds (sample_ready n) = []"
      "fd_of ?s (LUserdata 0) = 5" "fd_of ?s (LUserdata 1) = 6"
      "\<not> has_buffered ?s (LUserdata 0)" "has_buffered ?s (LUserdata 1)"
      by (simp_all add: sample_clients_def sample_server_def sample_ready_def ret_def fd_of_def has_buffered_def zero_tcp_def)
    have five: "fd_of ?s ` {v \<in> set [LUserdata 0, LUserdata 1]. \<not> has_buffered ?s v} = {5}"
      "fd_of ?s ` set [LUserdata 0] = {5}"
      using s(6-9) by auto
    have dirty: "\<exists>v \<in> set [LUserdata 0, LUserdata 1]. has_buffered ?s v" using s(9) by simp
    have p: "{LUserdata 0, LUserdata 1} = set (tab_items (LTable ?kr)) \<union> set (tab_items (LTable ?kw))"
      "{LUserdata 0, LUserdata 1} \<noteq> ({} :: lua_value set)"
      "length (tab_items (LTable ?kr)) \<le> FD_SETSIZE" "length (tab_items (LTable ?kw)) \<le> FD_SETSIZE"
      "set (sr_rfds (sample_ready n)) \<subseteq> fd_of ?s ` {v \<in> set (tab_items (LTable ?kr)). \<not> has_buffered ?s v}"
      "set (sr_wfds (sample_ready n)) \<subseteq> fd_of ?s ` set (tab_items (LTable ?kw))"
      unfolding items five s(4,5) by auto
    note run = select_reports [OF sample_clients_open p(1-4) s(1,2) p(5,6), where t = 9 and vm = plain_vm and env = plain_env,
        unfolded items s(3) sub five if_P [OF dirty] if_P [OF disjI2 [OF dirty]]]
    then show ?thesis
      using n
      by (elim exE conjE)
        (rule_tac x = R in exI, rule_tac x = W in exI, rule_tac x = s' in exI, rule_tac x = xs in exI, rule_tac x = ys in exI,
          auto simp: s(4-9) [unfolded One_nat_def])
  qed
  from reported [of 0] reported [of 1] show ?thesis by simp
qed

end
