(* ===== verification/Except.thy ===== *)
theory Except
  imports LuaApi
begin

text \<open>
  except.c: \<open>newtry\<close> and \<open>protect\<close>, which turn the \<open>nil, message\<close> convention into exceptions and
  back. A function value is what calling it does to the state \<open>'s\<close> of the program: \<open>None\<close> when the call
  does not return, else the value it raises or the values it returns. A value that cannot be
  called is a function that raises.
\<close>

type_synonym 's lfun = "lua_value list \<Rightarrow> 's \<Rightarrow> ((lua_value + lua_value list) \<times> 's) option"

text \<open>Calling one function with the results of another, as Lua code does.\<close>

definition lfun_then :: "'s lfun \<Rightarrow> 's lfun \<Rightarrow> 's lfun" where
  "lfun_then f g args s =
    (case f args s of
       None \<Rightarrow> None
     | Some (Inl e, s') \<Rightarrow> Some (Inl e, s')
     | Some (Inr rs, s') \<Rightarrow> g rs s')"


section \<open>Try factory\<close>

text \<open>A table with the value as its field 1; storing \<open>nil\<close> stores nothing.\<close>

definition wrap :: "lua_value \<Rightarrow> lua_value" where
  "wrap v = LTable (if v = LNil then [] else [(LNum 1, v)])"

definition second_value :: "lua_value list \<Rightarrow> lua_value" where
  "second_value args = (case lua_arg args 2 of None \<Rightarrow> LNil | Some v \<Rightarrow> v)"

definition finalize :: "'s lfun \<Rightarrow> 's lfun" where
  "finalize upvalue args s =
    (if \<not> lua_toboolean args 1 then
       case upvalue [] s of
         None \<Rightarrow> None
       | Some (_, s') \<Rightarrow> Some (Inl (wrap (second_value args)), s')
     else Some (Inr args, s))"

definition do_nothing :: "'s lfun" where
  "do_nothing args s = Some (Inr [], s)"

text \<open>The argument is \<open>None\<close> for \<open>nil\<close>.\<close>

definition global_newtry :: "'s lfun option \<Rightarrow> 's lfun" where
  "global_newtry f = finalize (case f of None \<Rightarrow> do_nothing | Some g \<Rightarrow> g)"


section \<open>Protect factory\<close>

text \<open>The two results of a wrapped error, or nothing.\<close>

definition unwrap :: "lua_value \<Rightarrow> lua_value list option" where
  "unwrap e = (case e of LTable kvs \<Rightarrow> Some [LNil, lua_gettable e (LNum 1)] | _ \<Rightarrow> None)"

definition protected' :: "'s lfun \<Rightarrow> 's lfun" where
  "protected' upvalue args s =
    (case upvalue args s of
       None \<Rightarrow> None
     | Some (Inl e, s') \<Rightarrow> (case unwrap e of Some rs \<Rightarrow> Some (Inr rs, s') | None \<Rightarrow> Some (Inl e, s'))
     | Some (Inr rs, s') \<Rightarrow> Some (Inr rs, s'))"

definition global_protect :: "'s lfun \<Rightarrow> 's lfun" where
  "global_protect f = protected' f"

lemma unwrap_wrap: "unwrap (wrap v) = Some [LNil, v]"
  by (simp add: unwrap_def wrap_def)

text \<open>Any table a script raises is taken for a wrapped error.\<close>

lemma protect_takes_tables:
  assumes "f args s = Some (Inl (LTable kvs), s')"
  shows "global_protect f args s = Some (Inr [LNil, lua_gettable (LTable kvs) (LNum 1)], s')"
  using assms by (simp add: global_protect_def protected'_def unwrap_def)


section \<open>Properties\<close>

text \<open>C22: \<open>protect\<close> and \<open>newtry\<close> together are exceptions. In a protected function that passes the
  results of a step \<open>f\<close> through \<open>try\<close> to the rest \<open>k\<close>: when \<open>f\<close> succeeds, \<open>try\<close> is invisible; when its
  first result is false or \<open>nil\<close>, \<open>k\<close> is not reached, the finalizer runs once, whatever becomes of it, and the
  call returns \<open>nil\<close> and the second result; and the value of \<open>f\<close>'s own errors passes through
  unless it is a table.\<close>

theorem protect_try:
  "global_protect (lfun_then f (lfun_then (global_newtry fin) k)) args s =
    (case f args s of
       None \<Rightarrow> None
     | Some (Inl e, s') \<Rightarrow>
         (case e of LTable kvs \<Rightarrow> Some (Inr [LNil, lua_gettable e (LNum 1)], s') | _ \<Rightarrow> Some (Inl e, s'))
     | Some (Inr rs, s') \<Rightarrow>
         if lua_toboolean rs 1 then global_protect k rs s'
         else (case (case fin of None \<Rightarrow> Some (Inr [], s') | Some g \<Rightarrow> g [] s') of
                 None \<Rightarrow> None
               | Some (_, s'') \<Rightarrow> Some (Inr [LNil, if length rs < 2 then LNil else rs ! 1], s'')))"
proof (cases "f args s")
  case (Some r)
  then obtain x s' where r: "f args s = Some (x, s')" by (cases r) auto
  have second: "second_value rs = (if length rs < 2 then LNil else rs ! 1)" for rs
    by (simp add: second_value_def lua_arg_def Suc_le_eq not_less numeral_2_eq_2)
  show ?thesis
  proof (cases x)
    case (Inl e)
    with r show ?thesis
      by (cases e) (simp_all add: global_protect_def protected'_def lfun_then_def unwrap_def)
  next
    case (Inr rs)
    with r show ?thesis
      by (auto simp: global_protect_def protected'_def lfun_then_def global_newtry_def finalize_def do_nothing_def
          second unwrap_wrap split: option.split prod.split)
  qed
qed (simp add: global_protect_def protected'_def lfun_then_def)

end
