(* ===== verification/Luasocket.thy ===== *)
theory Luasocket
  imports SelectRuns Except
begin

text \<open>
  luasocket.c: opening the socket library and its two functions of its own. The namespace table is
  the list of its entries, in the order they are stored.
\<close>

datatype ns_entry = NsFunction | NsValue lua_value | NsTable "string list"

type_synonym namespace = "(string \<times> ns_entry) list"

definition luaL_openlib :: "string list \<Rightarrow> namespace \<Rightarrow> namespace" where
  "luaL_openlib names ns = ns @ map (\<lambda>name. (name, NsFunction)) names"


section \<open>Functions of the namespace\<close>

text \<open>The last values of the stack, as many as \<open>gettop - amount - 1\<close> says in 32 bits. More than the
  stack has are read from below it.\<close>

definition global_skip :: "lua_vm \<Rightarrow> lua_value list \<Rightarrow> lua_value list lua" where
  "global_skip vm args =
    lua_bind (luaL_checknumber vm args 1) (\<lambda>x.
      let amount = c_int x;
          ret = sint (word_of_int (int (length args) - amount - 1) :: 32 word);
          n = nat (if ret \<ge> 0 then ret else 0)
      in if n > length args then Inl (Undefined (lit ''results from below the stack''))
         else Inr (drop (length args - n) args))"

definition global_unload :: "lua_value list \<Rightarrow> ('m sys_scheme, lua_value list) act" where
  "global_unload args = act_bind socket_close (\<lambda>_. act_return [])"


section \<open>Opening the library\<close>

definition socket_func :: "string list" where
  "socket_func = [''skip'', ''__unload'']"

definition base_open :: "('m sys_scheme, namespace) act" where
  "base_open =
    act_bind socket_open (\<lambda>ok.
      if ok \<noteq> 0 then
        act_return (luaL_openlib socket_func [] @ [(''_VERSION'', NsValue (LStr (lit ''LuaSocket 2.1-rc1'')))])
      else act_error (RunError (lit ''unable to initialize library'')))"

definition auxiliar_open :: "namespace \<Rightarrow> namespace" where "auxiliar_open ns = ns"
definition except_open :: "namespace \<Rightarrow> namespace" where "except_open = luaL_openlib [''newtry'', ''protect'']"
definition timeout_open :: "namespace \<Rightarrow> namespace" where "timeout_open = luaL_openlib [''gettime'', ''sleep'']"
definition buffer_open :: "namespace \<Rightarrow> namespace" where "buffer_open ns = ns"

definition inet_open :: "namespace \<Rightarrow> namespace" where
  "inet_open ns =
    ns @ [(''dns'', NsTable [''toip'', ''getaddrinfo'', ''tohostname'', ''getnameinfo'', ''gethostname''])]"

definition select_open :: "namespace \<Rightarrow> namespace" where
  "select_open ns = luaL_openlib [''select''] (ns @ [(''_SETSIZE'', NsValue (LNum (of_nat FD_SETSIZE)))])"

text \<open>The modules in the order of the table \<open>mod\<close>; \<open>tcp_open\<close> and \<open>udp_open\<close> make their classes,
  which raises an error only in a state where they cannot.\<close>

definition luaopen_socket_core :: "lua_vm \<Rightarrow> inet_env \<Rightarrow> t_udp \<Rightarrow> ('m sock_sys_scheme, namespace) act" where
  "luaopen_socket_core vm env fresh =
    act_bind base_open (\<lambda>ns.
      let ns = inet_open (buffer_open (timeout_open (except_open (auxiliar_open ns)))) in
      act_bind (tcp_open vm env) (\<lambda>_.
        let ns = luaL_openlib (map fst (tcp_func vm env :: (string \<times> 'm meth) list)) ns in
        act_bind (udp_open vm env) (\<lambda>_.
          let ns = luaL_openlib (map fst (udp_func fresh :: (string \<times> 'm meth) list)) ns in
          act_return (select_open ns))))"


section \<open>Properties\<close>

lemma sint_of_small: "- (2 ^ 31) \<le> k \<Longrightarrow> k < 2 ^ 31 \<Longrightarrow> sint (word_of_int k :: 32 word) = k"
  by (simp add: sint_sbintrunc' signed_take_bit_int_eq_self)

lemma global_skip_drop:
  assumes "length args < 2 ^ 31" "k < length args" "lua_arg args 1 = Some (LNum (of_nat k))"
  shows "global_skip vm args = Inr (drop (k + 1) args)"
proof -
  have "sint (word_of_int (int (length args) - int k - 1) :: 32 word) = int (length args) - int k - 1"
    using assms(1,2) by (intro sint_of_small) simp_all
  moreover have "c_int (of_nat k) = int k" using assms(1,2) c_int_of_int [of "int k"] by simp
  ultimately show ?thesis using assms(2,3)
    by (simp add: global_skip_def luaL_checknumber_def lua_tonumber_opt_def lua_bind_def Let_def nat_diff_distrib)
qed

text \<open>A negative amount asks for more values than there are.\<close>

lemma global_skip_negative: "global_skip vm [LNum (of_int (- 2))] = Inl (Undefined (lit ''results from below the stack''))"
proof -
  have "sint (word_of_int 2 :: 32 word) = 2" by (rule sint_of_small) simp_all
  then show ?thesis
    using c_int_of_int [of "- 2"]
    by (simp add: global_skip_def luaL_checknumber_def lua_tonumber_opt_def lua_arg_def lua_bind_def Let_def del: of_int_numeral of_int_minus)
qed

text \<open>On a fresh state, and when Winsock grants its version 2.0 or 1.1, opening the core ends in a state \<open>sock_open\<close> leads to,
  with every function in the namespace.\<close>

lemma luaopen_socket_core_opens:
  fixes s0 :: "'m sock_sys_scheme"
  assumes "blank s0" "answers s0 = a # rest" "sr_ret a = 0" "sr_data a = [2, 0] \<or> sr_data a = [1, 1]"
  defines "s1 \<equiv> s0\<lparr>answers := rest, trace := trace s0 @ [(CStartup, a)]\<rparr>"
  shows "\<exists>ns s. luaopen_socket_core vm env fresh s0 = Some (Inr ns, s) \<and> sock_open vm env s1 = Some (Inr (), s) \<and>
    map fst ns = [''skip'', ''__unload'', ''_VERSION'', ''newtry'', ''protect'', ''gettime'', ''sleep'', ''dns'',
      ''tcp'', ''tcp6'', ''connect'', ''udp'', ''udp6'', ''_SETSIZE'', ''select'']"
proof -
  have "blank s1" using assms(1) by (simp add: s1_def blank_def)
  then obtain reg where run: "sock_open vm env s1 = Some (Inr (), s1\<lparr>registry := reg\<rparr>)"
    using sock_open_run by metis
  then obtain s2 where s2: "tcp_open vm env s1 = Some (Inr (), s2)" "udp_open vm env s2 = Some (Inr (), s1\<lparr>registry := reg\<rparr>)"
    by (auto simp: sock_open_def act_bind_Some_iff)
  have "base_open s0 = Some (Inr (luaL_openlib socket_func [] @ [(''_VERSION'', NsValue (LStr (lit ''LuaSocket 2.1-rc1'')))]), s1)"
    using assms(2-4) by (auto simp: base_open_def socket_open_def syscall_def act_bind_def act_return_def s1_def simp del: lit_simps)
  with run s2 show ?thesis
    by (simp add: luaopen_socket_core_def act_bind_def act_return_def Let_def luaL_openlib_def socket_func_def auxiliar_open_def
        except_open_def timeout_open_def buffer_open_def inet_open_def select_open_def tcp_func_def udp_func_def del: lit_simps)
qed

end
