(* ===== verification/SocketScripts.thy ===== *)
theory SocketScripts
  imports Luasocket
begin

text \<open>
  socket_scripts.c: the Lua modules of the socket library, as byte arrays that are put where
  \<open>require\<close> looks for them, and the three calls with which GameServer.cpp opens the libraries. Tables
  have identities here, as they are stored into each other. The arrays (LuaJIT byte code, which a
  tool wrote into the file) and what \<open>luaL_loadbuffer\<close> makes of them are arguments. \<open>require\<close> and
  \<open>luaL_openlib\<close> with a name do what the manual of Lua 5.1 says.
\<close>


section \<open>Tables and the stack\<close>

text \<open>A \<open>LibChunk\<close> is the function of a loaded chunk, with its bytes and its name.\<close>

datatype lib_value = LibTable nat | LibEntry ns_entry | LibChunk bytes string | LibText bytes

record lib_state =
  lib_tables :: "(string \<rightharpoonup> lib_value) list"
  lib_globals :: nat
  lib_loaded :: nat
  lib_preload :: nat
  lib_stack :: "lib_value option list"

definition lib_push :: "lib_value option \<Rightarrow> lib_state \<Rightarrow> lib_state" where
  "lib_push v st = st\<lparr>lib_stack := v # lib_stack st\<rparr>"

text \<open>The stack has its top first: index \<open>-i\<close> of the code is entry \<open>i - 1\<close>.\<close>

definition table_at :: "nat \<Rightarrow> lib_state \<Rightarrow> nat lua" where
  "table_at i st =
    (if i > length (lib_stack st) then Inl (Undefined (lit ''an index below the stack''))
     else case lib_stack st ! (i - 1) of
            Some (LibTable t) \<Rightarrow> Inr t
          | _ \<Rightarrow> Inl (RunError (lit ''attempt to index a value that is no table'')))"

definition set_entry :: "nat \<Rightarrow> string \<Rightarrow> lib_value option \<Rightarrow> lib_state \<Rightarrow> lib_state" where
  "set_entry t key v st = st\<lparr>lib_tables := (lib_tables st)[t := (lib_tables st ! t)(key := v)]\<rparr>"

definition lua_getglobal :: "string \<Rightarrow> lib_state \<Rightarrow> lib_state" where
  "lua_getglobal name st = lib_push ((lib_tables st ! lib_globals st) name) st"

definition lua_getfield :: "nat \<Rightarrow> string \<Rightarrow> lib_state \<Rightarrow> lib_state lua" where
  "lua_getfield i key st = lua_bind (table_at i st) (\<lambda>t. Inr (lib_push ((lib_tables st ! t) key) st))"

definition lua_setfield :: "nat \<Rightarrow> string \<Rightarrow> lib_state \<Rightarrow> lib_state lua" where
  "lua_setfield i key st =
    lua_bind (table_at i st) (\<lambda>t.
      Inr ((set_entry t key (hd (lib_stack st)) st)\<lparr>lib_stack := tl (lib_stack st)\<rparr>))"

definition lua_pop :: "nat \<Rightarrow> lib_state \<Rightarrow> lib_state" where
  "lua_pop n st = st\<lparr>lib_stack := drop n (lib_stack st)\<rparr>"

text \<open>\<open>load\<close> says which arrays do not load, with the message that is left in place of a function.\<close>

type_synonym loader = "bytes \<Rightarrow> string \<Rightarrow> bytes option"

definition luaL_loadbuffer :: "loader \<Rightarrow> bytes \<Rightarrow> string \<Rightarrow> lib_state \<Rightarrow> lib_state" where
  "luaL_loadbuffer load code chunkname st =
    lib_push (Some (case load code chunkname of None \<Rightarrow> LibChunk code chunkname | Some msg \<Rightarrow> LibText msg)) st"


section \<open>The modules\<close>

text \<open>The arrays of the file, by their names in it.\<close>

record script_arrays =
  lua_m_ltn12 :: bytes
  lua_m_mime :: bytes
  lua_m_socket_ftp :: bytes
  lua_m_socket_headers :: bytes
  lua_m_socket_http :: bytes
  lua_m_socket_mbox :: bytes
  lua_m_socket_smtp :: bytes
  lua_m_socket_tp :: bytes
  lua_m_socket_url :: bytes
  lua_m_socket :: bytes

type_synonym script_opener = "loader \<Rightarrow> script_arrays \<Rightarrow> lib_state \<Rightarrow> lib_state"

definition luaopen_lua_m_ltn12 :: script_opener where
  "luaopen_lua_m_ltn12 load arr = luaL_loadbuffer load (lua_m_ltn12 arr) ''ltn12''"

definition luaopen_lua_m_mime :: script_opener where
  "luaopen_lua_m_mime load arr = luaL_loadbuffer load (lua_m_mime arr) ''mime''"

definition luaopen_lua_m_socket_ftp :: script_opener where
  "luaopen_lua_m_socket_ftp load arr = luaL_loadbuffer load (lua_m_socket_ftp arr) ''socket/ftp''"

definition luaopen_lua_m_socket_headers :: script_opener where
  "luaopen_lua_m_socket_headers load arr = luaL_loadbuffer load (lua_m_socket_headers arr) ''socket/headers''"

definition luaopen_lua_m_socket_http :: script_opener where
  "luaopen_lua_m_socket_http load arr = luaL_loadbuffer load (lua_m_socket_http arr) ''socket/http''"

definition luaopen_lua_m_socket_mbox :: script_opener where
  "luaopen_lua_m_socket_mbox load arr = luaL_loadbuffer load (lua_m_socket_mbox arr) ''socket/mbox''"

definition luaopen_lua_m_socket_smtp :: script_opener where
  "luaopen_lua_m_socket_smtp load arr = luaL_loadbuffer load (lua_m_socket_smtp arr) ''socket/smtp''"

definition luaopen_lua_m_socket_tp :: script_opener where
  "luaopen_lua_m_socket_tp load arr = luaL_loadbuffer load (lua_m_socket_tp arr) ''socket/tp''"

definition luaopen_lua_m_socket_url :: script_opener where
  "luaopen_lua_m_socket_url load arr = luaL_loadbuffer load (lua_m_socket_url arr) ''socket/url''"

definition luaopen_lua_m_socket :: script_opener where
  "luaopen_lua_m_socket load arr = luaL_loadbuffer load (lua_m_socket arr) ''socket''"

definition socket_scripts_modules :: "(string \<times> script_opener) list" where
  "socket_scripts_modules =
    [(''ltn12'', luaopen_lua_m_ltn12),
     (''mime'', luaopen_lua_m_mime),
     (''socket.ftp'', luaopen_lua_m_socket_ftp),
     (''socket.headers'', luaopen_lua_m_socket_headers),
     (''socket.http'', luaopen_lua_m_socket_http),
     (''socket.mbox'', luaopen_lua_m_socket_mbox),
     (''socket.smtp'', luaopen_lua_m_socket_smtp),
     (''socket.tp'', luaopen_lua_m_socket_tp),
     (''socket.url'', luaopen_lua_m_socket_url),
     (''socket'', luaopen_lua_m_socket)]"

fun scripts_loop :: "loader \<Rightarrow> script_arrays \<Rightarrow> (string \<times> script_opener) list \<Rightarrow> lib_state \<Rightarrow> lib_state lua" where
  "scripts_loop load arr [] st = Inr st"
| "scripts_loop load arr ((name, func) # lib) st =
    lua_bind (lua_setfield 2 name (func load arr st)) (scripts_loop load arr lib)"

definition luaopen_socket_scripts :: "loader \<Rightarrow> script_arrays \<Rightarrow> lib_state \<Rightarrow> lib_state lua" where
  "luaopen_socket_scripts load arr st =
    lua_bind (lua_getfield 1 ''preload'' (lua_getglobal ''package'' st)) (\<lambda>st.
      lua_bind (scripts_loop load arr socket_scripts_modules st) (\<lambda>st. Inr (lua_pop 2 st)))"


section \<open>Opening the libraries\<close>

text \<open>\<open>luaL_openlib\<close> with a name: the table is that in \<open>package.loaded\<close>, else that of the global variable,
  else a new one in both places.\<close>

definition library_table :: "string \<Rightarrow> lib_state \<Rightarrow> (nat \<times> lib_state) lua" where
  "library_table name st =
    (case (lib_tables st ! lib_loaded st) name of
       Some (LibTable t) \<Rightarrow> Inr (t, st)
     | _ \<Rightarrow>
       (case (lib_tables st ! lib_globals st) name of
          Some (LibTable t) \<Rightarrow> Inr (t, set_entry (lib_loaded st) name (Some (LibTable t)) st)
        | Some _ \<Rightarrow> Inl (RunError (lit ''name conflict for module''))
        | None \<Rightarrow>
            (let t = length (lib_tables st);
                 v = Some (LibTable t);
                 st = st\<lparr>lib_tables := lib_tables st @ [Map.empty]\<rparr>
             in Inr (t, set_entry (lib_loaded st) name v (set_entry (lib_globals st) name v st)))))"

text \<open>The library with its entries, which stays on the stack.\<close>

definition publish :: "string \<Rightarrow> namespace \<Rightarrow> lib_state \<Rightarrow> lib_state lua" where
  "publish name ns st =
    lua_bind (library_table name st) (\<lambda>(t, st).
      Inr (lib_push (Some (LibTable t)) (fold (\<lambda>(key, e). set_entry t key (Some (LibEntry e))) ns st)))"

definition mime_func :: "string list" where
  "mime_func = [''dot'', ''b64'', ''eol'', ''qp'', ''qpwrp'', ''unb64'', ''unqp'', ''wrp'']"

text \<open>The tables that \<open>qpsetup\<close> and \<open>b64setup\<close> fill are constants of Mime_Qp and Mime_B64.\<close>

definition luaopen_mime_core :: "lib_state \<Rightarrow> lib_state lua" where
  "luaopen_mime_core =
    publish ''mime'' (luaL_openlib mime_func [] @ [(''_VERSION'', NsValue (LStr (lit ''MIME 1.0.3-rc1'')))])"

text \<open>The calls of \<open>tmain\<close>; \<open>ns\<close> is the namespace \<open>luaopen_socket_core\<close> has made.\<close>

definition open_libraries :: "loader \<Rightarrow> script_arrays \<Rightarrow> namespace \<Rightarrow> lib_state \<Rightarrow> lib_state lua" where
  "open_libraries load arr ns st =
    lua_bind (publish ''socket'' ns st) (\<lambda>st.
      lua_bind (luaopen_mime_core st) (luaopen_socket_scripts load arr))"

text \<open>What \<open>require\<close> does: return a value that is already there, run a function from
  \<open>package.preload\<close>, or search elsewhere. No entry of these tables is \<open>false\<close>.\<close>

datatype required = Already lib_value | Runs bytes string | Elsewhere

definition lua_require :: "string \<Rightarrow> lib_state \<Rightarrow> required" where
  "lua_require name st =
    (case (lib_tables st ! lib_loaded st) name of
       Some v \<Rightarrow> Already v
     | None \<Rightarrow> (case (lib_tables st ! lib_preload st) name of Some (LibChunk code chunkname) \<Rightarrow> Runs code chunkname | _ \<Rightarrow> Elsewhere))"


section \<open>Properties\<close>

definition module_code :: "script_arrays \<Rightarrow> (string \<times> bytes) list" where
  "module_code arr =
    [(''ltn12'', lua_m_ltn12 arr), (''mime'', lua_m_mime arr), (''socket.ftp'', lua_m_socket_ftp arr),
     (''socket.headers'', lua_m_socket_headers arr), (''socket.http'', lua_m_socket_http arr),
     (''socket.mbox'', lua_m_socket_mbox arr), (''socket.smtp'', lua_m_socket_smtp arr),
     (''socket.tp'', lua_m_socket_tp arr), (''socket.url'', lua_m_socket_url arr), (''socket'', lua_m_socket arr)]"

definition chunk_name :: "string \<Rightarrow> string" where
  "chunk_name name = map (\<lambda>c. if c = CHR ''.'' then CHR ''/'' else c) name"

text \<open>The state after \<open>luaL_openlibs\<close>, as far as it matters here.\<close>

definition lib_ready :: "lib_state \<Rightarrow> bool" where
  "lib_ready st \<longleftrightarrow>
    (\<exists>pk. distinct [lib_globals st, lib_loaded st, lib_preload st, pk] \<and>
      (\<forall>t \<in> {lib_globals st, lib_loaded st, lib_preload st, pk}. t < length (lib_tables st)) \<and>
      (lib_tables st ! lib_globals st) ''package'' = Some (LibTable pk) \<and>
      (lib_tables st ! pk) ''preload'' = Some (LibTable (lib_preload st))) \<and>
    (\<forall>name \<in> {''socket'', ''mime''}. (lib_tables st ! lib_globals st) name = None \<and> (lib_tables st ! lib_loaded st) name = None)"

lemma set_entry_fields [simp]:
  "lib_globals (set_entry t k v st) = lib_globals st" "lib_loaded (set_entry t k v st) = lib_loaded st"
  "lib_preload (set_entry t k v st) = lib_preload st" "lib_stack (set_entry t k v st) = lib_stack st"
  "length (lib_tables (set_entry t k v st)) = length (lib_tables st)"
  by (simp_all add: set_entry_def)

lemma lib_push_fields [simp]:
  "lib_globals (lib_push v st) = lib_globals st" "lib_tables (lib_push v st) = lib_tables st"
  by (simp_all add: lib_push_def)

lemma set_entries:
  "t < length (lib_tables st) \<Longrightarrow>
    fold (\<lambda>(key, e). set_entry t key (Some (LibEntry e))) ns st =
    st\<lparr>lib_tables := (lib_tables st)[t := lib_tables st ! t ++ map_of (rev (map (apsnd LibEntry) ns))]\<rparr>"
proof (induction ns arbitrary: st)
  case (Cons x ns)
  then show ?case
    by (cases x) (auto simp: set_entry_def map_add_def fun_eq_iff split: option.split
        intro!: arg_cong [where f = "\<lambda>m. st\<lparr>lib_tables := (lib_tables st)[t := m]\<rparr>"])
qed simp

text \<open>A library that is not there yet becomes a new table, in both places.\<close>

lemma publish_new:
  assumes "(lib_tables st ! lib_loaded st) name = None" "(lib_tables st ! lib_globals st) name = None"
    "lib_globals st < length (lib_tables st)" "lib_loaded st < length (lib_tables st)" "lib_globals st \<noteq> lib_loaded st"
  shows "publish name ns st = Inr (st\<lparr>
    lib_tables := (lib_tables st)[lib_globals st := (lib_tables st ! lib_globals st)(name \<mapsto> LibTable (length (lib_tables st))),
        lib_loaded st := (lib_tables st ! lib_loaded st)(name \<mapsto> LibTable (length (lib_tables st)))] @
      [map_of (rev (map (apsnd LibEntry) ns))],
    lib_stack := Some (LibTable (length (lib_tables st))) # lib_stack st\<rparr>)"
  using assms
  by (simp add: publish_def library_table_def Let_def set_entries lib_push_def set_entry_def nth_append list_update_append)

lemma scripts_loop_stores:
  assumes "\<forall>(name, func) \<in> set lib. \<forall>st. func load arr st = lib_push (val name) st"
    "lib_stack st = Some (LibTable p) # rest" "p < length (lib_tables st)"
  shows "scripts_loop load arr lib st =
    Inr (st\<lparr>lib_tables := (lib_tables st)[p := (\<lambda>k. if k \<in> fst ` set lib then val k else (lib_tables st ! p) k)]\<rparr>)"
  using assms
proof (induction lib arbitrary: st)
  case (Cons x lib)
  obtain name func where x: "x = (name, func)" by (cases x)
  let ?st = "st\<lparr>lib_tables := (lib_tables st)[p := (lib_tables st ! p)(name := val name)]\<rparr>"
  have "lua_setfield 2 name (func load arr st) = Inr ?st"
    using Cons.prems x by (simp add: lua_setfield_def table_at_def lib_push_def set_entry_def)
  moreover have "scripts_loop load arr lib ?st = Inr (?st\<lparr>lib_tables := (lib_tables ?st)[p :=
      (\<lambda>k. if k \<in> fst ` set lib then val k else (lib_tables ?st ! p) k)]\<rparr>)"
    using Cons.prems by (intro Cons.IH) auto
  moreover have "(\<lambda>k. if k \<in> fst ` set lib then val k else ((lib_tables st ! p)(name := val name)) k) =
      (\<lambda>k. if k \<in> fst ` set (x # lib) then val k else (lib_tables st ! p) k)"
    by (auto simp: x)
  moreover have "lib_tables ?st ! p = (lib_tables st ! p)(name := val name)" using Cons.prems(3) by simp
  ultimately show ?case by (simp only: x scripts_loop.simps lua_bind_simps) simp
qed simp

definition opened_value :: "loader \<Rightarrow> script_arrays \<Rightarrow> string \<Rightarrow> lib_value option" where
  "opened_value load arr name =
    map_option (\<lambda>code. case load code (chunk_name name) of None \<Rightarrow> LibChunk code (chunk_name name) | Some msg \<Rightarrow> LibText msg)
      (map_of (module_code arr) name)"

lemmas script_openers =
  luaopen_lua_m_ltn12_def luaopen_lua_m_mime_def luaopen_lua_m_socket_ftp_def luaopen_lua_m_socket_headers_def
  luaopen_lua_m_socket_http_def luaopen_lua_m_socket_mbox_def luaopen_lua_m_socket_smtp_def luaopen_lua_m_socket_tp_def
  luaopen_lua_m_socket_url_def luaopen_lua_m_socket_def

lemma openers_push:
  "\<forall>(name, func) \<in> set socket_scripts_modules. \<forall>st. func load arr st = lib_push (opened_value load arr name) st"
  by (simp add: socket_scripts_modules_def script_openers luaL_loadbuffer_def opened_value_def module_code_def chunk_name_def
      cong: option.case_cong)

lemma module_names: "fst ` set socket_scripts_modules = fst ` set (module_code arr)"
  by (simp add: socket_scripts_modules_def module_code_def)

lemma distinct_modules: "distinct (map fst (module_code arr))"
  by (simp add: module_code_def)

lemma opened_value_code:
  "(name, code) \<in> set (module_code arr) \<Longrightarrow> load code (chunk_name name) = None \<Longrightarrow>
    opened_value load arr name = Some (LibChunk code (chunk_name name))"
  using map_of_is_SomeI [OF distinct_modules] by (simp add: opened_value_def)

lemma luaopen_socket_scripts_stores:
  assumes "(lib_tables st ! lib_globals st) ''package'' = Some (LibTable pk)"
    "(lib_tables st ! pk) ''preload'' = Some (LibTable p)" "p < length (lib_tables st)"
  shows "luaopen_socket_scripts load arr st =
    Inr (st\<lparr>lib_tables := (lib_tables st)[p :=
      (\<lambda>k. if k \<in> fst ` set (module_code arr) then opened_value load arr k else (lib_tables st ! p) k)]\<rparr>)"
proof -
  let ?st = "lib_push (Some (LibTable p)) (lib_push (Some (LibTable pk)) st)"
  have "lua_getfield 1 ''preload'' (lua_getglobal ''package'' st) = Inr ?st"
    using assms(1,2) by (simp add: lua_getfield_def lua_getglobal_def table_at_def lib_push_def)
  with scripts_loop_stores [OF openers_push, of ?st p "Some (LibTable pk) # lib_stack st" load arr] assms(3)
  show ?thesis by (simp add: luaopen_socket_scripts_def lib_push_def lua_pop_def module_names [of arr] cong: if_cong)
qed

lemma core_names:
  assumes "luaopen_socket_core vm env fresh s = Some (Inr ns, s')"
  shows "map fst ns = [''skip'', ''__unload'', ''_VERSION'', ''newtry'', ''protect'', ''gettime'', ''sleep'', ''dns'',
    ''tcp'', ''tcp6'', ''connect'', ''udp'', ''udp6'', ''_SETSIZE'', ''select'']"
  using assms
  by (auto simp: luaopen_socket_core_def act_bind_Some_iff base_open_def Let_def luaL_openlib_def socket_func_def auxiliar_open_def
      except_open_def timeout_open_def buffer_open_def inet_open_def select_open_def tcp_func_def udp_func_def
      split: if_splits simp del: lit_simps)

lemma open_libraries_tables:
  assumes "lib_ready st"
  defines "n \<equiv> length (lib_tables st)"
  obtains st' where "open_libraries load arr ns st = Inr st'"
    "lib_loaded st' = lib_loaded st" "lib_preload st' = lib_preload st"
    "lib_tables st' ! lib_loaded st = (lib_tables st ! lib_loaded st)(''socket'' \<mapsto> LibTable n, ''mime'' \<mapsto> LibTable (Suc n))"
    "lib_tables st' ! lib_preload st =
      (\<lambda>k. if k \<in> fst ` set (module_code arr) then opened_value load arr k else (lib_tables st ! lib_preload st) k)"
    "lib_tables st' ! n = map_of (rev (map (apsnd LibEntry) ns))"
    "dom (lib_tables st' ! Suc n) = set (''_VERSION'' # mime_func)"
proof -
  obtain pk where pk: "distinct [lib_globals st, lib_loaded st, lib_preload st, pk]"
    "\<forall>t \<in> {lib_globals st, lib_loaded st, lib_preload st, pk}. t < n"
    "(lib_tables st ! lib_globals st) ''package'' = Some (LibTable pk)"
    "(lib_tables st ! pk) ''preload'' = Some (LibTable (lib_preload st))"
    "\<forall>name \<in> {''socket'', ''mime''}. (lib_tables st ! lib_globals st) name = None \<and> (lib_tables st ! lib_loaded st) name = None"
    using assms(1) unfolding n_def lib_ready_def by blast
  let ?mime = "luaL_openlib mime_func [] @ [(''_VERSION'', NsValue (LStr (lit ''MIME 1.0.3-rc1'')))]"
  obtain st1 where s1: "publish ''socket'' ns st = Inr st1"
      "lib_globals st1 = lib_globals st" "lib_loaded st1 = lib_loaded st" "lib_preload st1 = lib_preload st"
      "lib_tables st1 = (lib_tables st)[lib_globals st := (lib_tables st ! lib_globals st)(''socket'' \<mapsto> LibTable n),
        lib_loaded st := (lib_tables st ! lib_loaded st)(''socket'' \<mapsto> LibTable n)] @ [map_of (rev (map (apsnd LibEntry) ns))]"
    using publish_new [of st "''socket''" ns] pk(1,2,5) by (auto simp: n_def)
  obtain st2 where s2: "luaopen_mime_core st1 = Inr st2"
      "lib_globals st2 = lib_globals st" "lib_loaded st2 = lib_loaded st" "lib_preload st2 = lib_preload st"
      "lib_tables st2 = (lib_tables st1)[lib_globals st := (lib_tables st1 ! lib_globals st)(''mime'' \<mapsto> LibTable (Suc n)),
        lib_loaded st := (lib_tables st1 ! lib_loaded st)(''mime'' \<mapsto> LibTable (Suc n))] @ [map_of (rev (map (apsnd LibEntry) ?mime))]"
    using publish_new [of st1 "''mime''" ?mime] pk(1,2,5)
    by (auto simp: luaopen_mime_core_def s1(2-) nth_append n_def simp del: lit_simps)
  have "(lib_tables st2 ! lib_globals st2) ''package'' = Some (LibTable pk)"
    "(lib_tables st2 ! pk) ''preload'' = Some (LibTable (lib_preload st))"
    "lib_preload st < length (lib_tables st2)"
    using pk by (auto simp: s1(5) s2(2,5) nth_append n_def)
  note stores = luaopen_socket_scripts_stores [OF this, of load arr]
  show thesis
  proof (rule that)
    show "open_libraries load arr ns st = Inr (st2\<lparr>lib_tables := (lib_tables st2)[lib_preload st :=
        (\<lambda>k. if k \<in> fst ` set (module_code arr) then opened_value load arr k else (lib_tables st2 ! lib_preload st) k)]\<rparr>)"
      by (simp add: open_libraries_def s1(1) s2(1) stores)
  qed (use pk(1,2) in \<open>auto simp: s1(2-) s2(2-) nth_append n_def luaL_openlib_def mime_func_def fun_eq_iff\<close>)
qed

text \<open>C30: the C parts of the socket library shadow its Lua parts. After \<open>tmain\<close> has opened the libraries every
  script is in \<open>package.preload\<close> under its module's name, and \<open>require\<close> runs its chunk, unless the name is
  already loaded (what the chunk then does is not said: the chunk of socket.http reads fields of \<open>socket.sinkt\<close>, which
  only the shadowed script of "socket" makes, and fails); but the C tables have been stored as "socket" and "mime", so \<open>require\<close> answers with
  them: the scripts of these names, which would add "try", "bind" and the others, never run. The names
  "socket.core" and "mime.core", under which these scripts ask for the C parts, are not registered.\<close>

theorem core_shadows_scripts:
  assumes "lib_ready st" "luaopen_socket_core vm env fresh s = Some (Inr ns, s')"
    "\<forall>(name, code) \<in> set (module_code arr). load code (chunk_name name) = None"
  shows "\<exists>st' core mime. open_libraries load arr ns st = Inr st' \<and>
    lua_require ''socket'' st' = Already (LibTable core) \<and> dom (lib_tables st' ! core) = set (map fst ns) \<and>
    (lib_tables st' ! core) ''try'' = None \<and> (lib_tables st' ! core) ''bind'' = None \<and>
    lua_require ''mime'' st' = Already (LibTable mime) \<and> dom (lib_tables st' ! mime) = set (''_VERSION'' # mime_func) \<and>
    (\<forall>(name, code) \<in> set (module_code arr).
      (lib_tables st' ! lib_preload st') name = Some (LibChunk code (chunk_name name)) \<and>
      (name \<notin> {''socket'', ''mime''} \<longrightarrow> (lib_tables st ! lib_loaded st) name = None \<longrightarrow>
        lua_require name st' = Runs code (chunk_name name))) \<and>
    (\<forall>name. name \<in> {''socket.core'', ''mime.core''} \<longrightarrow> lua_require name st' = lua_require name st)"
proof -
  let ?n = "length (lib_tables st)"
  obtain st' where st': "open_libraries load arr ns st = Inr st'"
    "lib_loaded st' = lib_loaded st" "lib_preload st' = lib_preload st"
    "lib_tables st' ! lib_loaded st = (lib_tables st ! lib_loaded st)(''socket'' \<mapsto> LibTable ?n, ''mime'' \<mapsto> LibTable (Suc ?n))"
    "lib_tables st' ! lib_preload st =
      (\<lambda>k. if k \<in> fst ` set (module_code arr) then opened_value load arr k else (lib_tables st ! lib_preload st) k)"
    "lib_tables st' ! ?n = map_of (rev (map (apsnd LibEntry) ns))"
    "dom (lib_tables st' ! Suc ?n) = set (''_VERSION'' # mime_func)"
    by (rule open_libraries_tables [OF assms(1), of load arr ns]) (rule that)
  have core: "dom (lib_tables st' ! ?n) = set (map fst ns)" by (force simp: st'(6) dom_map_of_conv_image_fst)
  then have no: "''try'' \<notin> dom (lib_tables st' ! ?n)" "''bind'' \<notin> dom (lib_tables st' ! ?n)"
    unfolding core core_names [OF assms(2)] by simp_all
  have stored: "(lib_tables st' ! lib_preload st) name = Some (LibChunk code (chunk_name name))"
    if "(name, code) \<in> set (module_code arr)" for name code
    using that assms(3) opened_value_code [OF that] by (force simp: st'(5))
  then have runs: "lua_require name st' = Runs code (chunk_name name)"
    if "(name, code) \<in> set (module_code arr)" "name \<notin> {''socket'', ''mime''}" "(lib_tables st ! lib_loaded st) name = None"
    for name code
    using that(2,3) stored [OF that(1)] unfolding lua_require_def st'(2-4) by simp
  have same: "lua_require name st' = lua_require name st" if "name \<in> {''socket.core'', ''mime.core''}" for name
  proof -
    have "name \<notin> fst ` set (module_code arr)" "name \<notin> {''socket'', ''mime''}" using that by (auto simp: module_code_def)
    then show ?thesis unfolding lua_require_def st'(2-5) by simp
  qed
  have all: "\<forall>(name, code) \<in> set (module_code arr).
      (lib_tables st' ! lib_preload st') name = Some (LibChunk code (chunk_name name)) \<and>
      (name \<notin> {''socket'', ''mime''} \<longrightarrow> (lib_tables st ! lib_loaded st) name = None \<longrightarrow>
        lua_require name st' = Runs code (chunk_name name))"
    using stored runs unfolding st'(3) by blast
  have "lua_require ''socket'' st' = Already (LibTable ?n)" "lua_require ''mime'' st' = Already (LibTable (Suc ?n))"
    by (simp_all add: lua_require_def st'(2-4))
  note facts = st'(1) this(1) core no [unfolded domIff not_not] this(2) st'(7) all
  show ?thesis
    by (rule exI [of _ st'], rule exI [of _ ?n], rule exI [of _ "Suc ?n"]) (intro conjI allI impI facts same)
qed


section \<open>Witness\<close>

definition sample_libs :: lib_state where
  "sample_libs =
    \<lparr>lib_tables = [[''package'' \<mapsto> LibTable 2], Map.empty, [''preload'' \<mapsto> LibTable 3], Map.empty],
     lib_globals = 0, lib_loaded = 1, lib_preload = 3, lib_stack = []\<rparr>"

definition sample_arrays :: script_arrays where
  "sample_arrays =
    \<lparr>lua_m_ltn12 = [27], lua_m_mime = [27], lua_m_socket_ftp = [27], lua_m_socket_headers = [27], lua_m_socket_http = [27, 76],
     lua_m_socket_mbox = [27], lua_m_socket_smtp = [27], lua_m_socket_tp = [27], lua_m_socket_url = [27], lua_m_socket = [27, 74]\<rparr>"

lemma sample_core_opens:
  obtains ns s where "luaopen_socket_core plain_vm plain_env sample_udp (sample_server [(ret 0 0)\<lparr>sr_data := [2, 0]\<rparr>]) = Some (Inr ns, s)"
proof -
  let ?a = "(ret 0 0)\<lparr>sr_data := [2, 0]\<rparr>"
  have "answers (sample_server [?a]) = ?a # []" "sr_ret ?a = 0" "sr_data ?a = [2, 0] \<or> sr_data ?a = [1, 1]"
    by (simp_all add: sample_server_def ret_def)
  from luaopen_socket_core_opens [OF sample_blank this, of plain_vm plain_env sample_udp] that show thesis by blast
qed

theorem core_shadows_scripts_witness:
  "\<exists>ns st' core. open_libraries (\<lambda>_ _. None) sample_arrays ns sample_libs = Inr st' \<and>
    lua_require ''socket'' st' = Already (LibTable core) \<and> (lib_tables st' ! core) ''try'' = None \<and>
    lua_require ''socket.http'' st' = Runs [27, 76] ''socket/http'' \<and> lua_require ''socket.core'' st' = Elsewhere"
proof -
  obtain ns s where core: "luaopen_socket_core plain_vm plain_env sample_udp (sample_server [(ret 0 0)\<lparr>sr_data := [2, 0]\<rparr>]) = Some (Inr ns, s)"
    by (rule sample_core_opens)
  have ready: "lib_ready sample_libs" by (auto simp: lib_ready_def sample_libs_def)
  have loads: "\<forall>(name, code) \<in> set (module_code sample_arrays). (\<lambda>_ _. None) code (chunk_name name) = None" by simp
  obtain st' t where st': "open_libraries (\<lambda>_ _. None) sample_arrays ns sample_libs = Inr st'"
    "lua_require ''socket'' st' = Already (LibTable t)" "(lib_tables st' ! t) ''try'' = None"
    "\<forall>(name, code) \<in> set (module_code sample_arrays).
      (lib_tables st' ! lib_preload st') name = Some (LibChunk code (chunk_name name)) \<and>
      (name \<notin> {''socket'', ''mime''} \<longrightarrow> (lib_tables sample_libs ! lib_loaded sample_libs) name = None \<longrightarrow>
        lua_require name st' = Runs code (chunk_name name))"
    "\<forall>name. name \<in> {''socket.core'', ''mime.core''} \<longrightarrow> lua_require name st' = lua_require name sample_libs"
    using core_shadows_scripts [OF ready core loads] by (elim exE conjE) (rule that)
  have "lua_require ''socket.core'' sample_libs = Elsewhere" by (simp add: lua_require_def sample_libs_def)
  with st'(5) [rule_format, of "''socket.core''"] have missing: "lua_require ''socket.core'' st' = Elsewhere" by simp
  have "(''socket.http'', [27, 76]) \<in> set (module_code sample_arrays)" "chunk_name ''socket.http'' = ''socket/http''"
    "(lib_tables sample_libs ! lib_loaded sample_libs) ''socket.http'' = None"
    by (simp_all add: module_code_def sample_arrays_def chunk_name_def sample_libs_def)
  with bspec [OF st'(4) this(1)] have "lua_require ''socket.http'' st' = Runs [27, 76] ''socket/http''" by simp
  with st'(1-3) missing show ?thesis by blast
qed

end
