(* ===== verification/Usocket.thy ===== *)
theory Usocket
  imports Buffer
begin

text \<open>
  usocket.c, the socket layer of POSIX systems: the second implementation of socket.h beside
  wsocket.c, and of the driver contract \<open>stream_io\<close>, once over \<open>send\<close> and \<open>recv\<close>, once over \<open>write\<close> and
  \<open>read\<close>. It waits with \<open>poll\<close> (\<open>SOCKET_SELECT\<close> is not defined) and repeats calls a signal has
  interrupted. Numbers are those of Linux; a descriptor is an \<open>int\<close>, here its 32-bit word. The
  readings of the clock stay in the form of Timeout, which has every moment \<open>gettimeofday\<close> can
  report (\<open>filetime_of_timeval\<close>).
\<close>


section \<open>Constants\<close>

abbreviation (input) EINTR :: int where "EINTR \<equiv> 4"
abbreviation (input) EAGAIN :: int where "EAGAIN \<equiv> 11"
abbreviation (input) EACCES :: int where "EACCES \<equiv> 13"
abbreviation (input) EPIPE :: int where "EPIPE \<equiv> 32"
abbreviation (input) EADDRINUSE :: int where "EADDRINUSE \<equiv> 98"
abbreviation (input) ECONNABORTED :: int where "ECONNABORTED \<equiv> 103"
abbreviation (input) ECONNRESET :: int where "ECONNRESET \<equiv> 104"
abbreviation (input) EISCONN :: int where "EISCONN \<equiv> 106"
abbreviation (input) ETIMEDOUT :: int where "ETIMEDOUT \<equiv> 110"
abbreviation (input) ECONNREFUSED :: int where "ECONNREFUSED \<equiv> 111"
abbreviation (input) EINPROGRESS :: int where "EINPROGRESS \<equiv> 115"
abbreviation (input) F_GETFL :: int where "F_GETFL \<equiv> 3"
abbreviation (input) F_SETFL :: int where "F_SETFL \<equiv> 4"
abbreviation (input) SIGPIPE :: int where "SIGPIPE \<equiv> 13"
abbreviation (input) SIG_IGN :: int where "SIG_IGN \<equiv> 1"

definition O_NONBLOCK :: u32 where
  "O_NONBLOCK = 2048"

text \<open>The texts of the C library: \<open>strerror\<close>, \<open>hstrerror\<close> and \<open>gai_strerror\<close>.\<close>

record posix_env =
  strerror :: "int \<Rightarrow> bytes"
  hstrerror :: "int \<Rightarrow> bytes"
  gai_strerror :: "int \<Rightarrow> bytes"


section \<open>The clock\<close>

text \<open>The POSIX half of timeout.c: a \<open>struct timeval\<close> in seconds.\<close>

definition timeval_seconds :: "int \<times> int \<Rightarrow> real" where
  "timeval_seconds v = (case v of (tv_sec, tv_usec) \<Rightarrow> of_int tv_sec + of_int tv_usec / 10 ^ 6)"

lemma filetime_of_timeval:
  assumes "- 11644473600 \<le> sec" "sec < 2 ^ 32" "0 \<le> usec" "usec < 10 ^ 6"
  shows "\<exists>ft. filetime_seconds ft = timeval_seconds (sec, usec)"
proof -
  define x where "x = nat ((sec + 11644473600) * 10 ^ 7 + usec * 10)"
  have x: "int x = (sec + 11644473600) * 10 ^ 7 + usec * 10" using assms by (simp add: x_def)
  then have "int x < 2 ^ 64" using assms by simp
  then have "x < 2 ^ 64" by simp
  then have hi: "x div 2 ^ 32 < 2 ^ 32" by (simp add: less_mult_imp_div_less)
  have split: "real x = real (x mod 2 ^ 32) + real (x div 2 ^ 32) * 2 ^ 32"
  proof -
    have "real x = real (x mod 2 ^ 32 + x div 2 ^ 32 * 2 ^ 32)" by (simp only: mod_div_mult_eq)
    then show ?thesis by (simp only: of_nat_add of_nat_mult of_nat_power of_nat_numeral)
  qed
  have u: "unat (of_nat (x mod 2 ^ 32) :: u32) = x mod 2 ^ 32" "unat (of_nat (x div 2 ^ 32) :: u32) = x div 2 ^ 32"
    using hi by (simp_all add: unat_of_nat)
  have "real x = (of_int sec + 11644473600) * 10 ^ 7 + of_int usec * 10"
    using arg_cong [OF x, of "of_int :: int \<Rightarrow> real"] by simp
  then have "filetime_seconds (of_nat (x mod 2 ^ 32), of_nat (x div 2 ^ 32)) = timeval_seconds (sec, usec)"
    using split unfolding filetime_seconds_def timeval_seconds_def Let_def prod.case u by (simp add: field_simps)
  then show ?thesis by blast
qed

text \<open>\<open>nanosleep\<close> fails when a signal interrupts it; what is left it writes as two \<open>long\<close>s.\<close>

function nanosleep_loop :: "int \<Rightarrow> int \<Rightarrow> 'm sys_scheme \<Rightarrow> ((lua_error + unit) \<times> 'm sys_scheme) option" where
  "nanosleep_loop tv_sec tv_nsec s =
    (case syscall (CNanosleep tv_sec tv_nsec) s of
       Some (Inr r, s1) \<Rightarrow>
         if sr_ret r \<noteq> 0
         then nanosleep_loop (int_of_bytes (take 4 (sr_data r))) (int_of_bytes (take 4 (drop 4 (sr_data r)))) s1
         else Some (Inr (), s1)
     | _ \<Rightarrow> None)"
  by pat_completeness auto
termination
  by (relation "measure (\<lambda>(tv_sec, tv_nsec, s). length (answers s))") (auto simp: syscall_Some)

declare nanosleep_loop.simps [simp del]

definition timespec_of :: "real \<Rightarrow> int \<times> int" where
  "timespec_of n =
    (let n = (if n < 0 then 0 else n);
         n = (if n > 2147483647 then 2147483647 else n);
         tv_sec = c_int n;
         n = n - of_int tv_sec;
         tv_nsec = c_int (n * 1000000000);
         tv_nsec = (if tv_nsec \<ge> 1000000000 then 999999999 else tv_nsec)
     in (tv_sec, tv_nsec))"

definition posix_lua_sleep :: "lua_vm \<Rightarrow> lua_value list \<Rightarrow> ('m sys_scheme, lua_value list) act" where
  "posix_lua_sleep vm args =
    act_bind (act_lua (luaL_checknumber vm args 1)) (\<lambda>n.
      case timespec_of n of (tv_sec, tv_nsec) \<Rightarrow>
        act_bind (nanosleep_loop tv_sec tv_nsec) (\<lambda>_. act_return []))"

text \<open>The time asked for is the number, rounded down to nanoseconds, up to \<open>INT_MAX\<close> seconds.\<close>

lemma timespec_of_range:
  assumes "timespec_of n = (sec, nsec)"
  shows "0 \<le> sec \<and> 0 \<le> nsec \<and> nsec < 1000000000 \<and>
    (0 \<le> n \<and> n \<le> 2147483647 \<longrightarrow> of_int sec + of_int nsec / 10 ^ 9 \<le> n \<and> n < of_int sec + (of_int nsec + 1) / 10 ^ 9)"
proof -
  define m where "m = (let n = (if n < 0 then 0 else n) in if n > 2147483647 then 2147483647 else n)"
  have m: "0 \<le> m" "m \<le> 2147483647" "0 \<le> n \<and> n \<le> 2147483647 \<longrightarrow> m = n" by (auto simp: m_def Let_def)
  then have s: "c_int m = \<lfloor>m\<rfloor>" by (simp add: c_int_def trunc_real_def Let_def floor_less_iff le_floor_iff)
  define f where "f = (m - of_int (c_int m)) * 1000000000"
  have "of_int \<lfloor>m\<rfloor> \<le> m" "m - of_int \<lfloor>m\<rfloor> < 1" by linarith+
  then have f: "0 \<le> f" "f < 1 * 1000000000" unfolding f_def s by (auto simp del: mult_1 intro: mult_strict_right_mono)
  then have "c_int f = \<lfloor>f\<rfloor>" "\<lfloor>f\<rfloor> < 1000000000" by (simp_all add: c_int_def trunc_real_def Let_def floor_less_iff le_floor_iff)
  moreover have "timespec_of n = (c_int m, if c_int f \<ge> 1000000000 then 999999999 else c_int f)"
    by (simp only: timespec_of_def m_def f_def Let_def)
  ultimately have r: "sec = \<lfloor>m\<rfloor>" "nsec = \<lfloor>f\<rfloor>" using assms s by simp_all
  have "of_int \<lfloor>f\<rfloor> \<le> f" "f < of_int \<lfloor>f\<rfloor> + 1" by linarith+
  then have "of_int sec + of_int nsec / 10 ^ 9 \<le> m" "m < of_int sec + (of_int nsec + 1) / 10 ^ 9"
    unfolding r f_def s by (simp_all add: field_simps)
  with m f r \<open>\<lfloor>f\<rfloor> < 1000000000\<close> show ?thesis by auto
qed


section \<open>Waiting\<close>

text \<open>\<open>POLLIN\<close> is 1, \<open>POLLOUT\<close> 4, \<open>POLLERR\<close> 8.\<close>

definition poll_events :: "waitfd \<Rightarrow> nat" where
  "poll_events sw = (case sw of WAITFD_R \<Rightarrow> 1 | WAITFD_W \<Rightarrow> 4 | WAITFD_C \<Rightarrow> 5)"

text \<open>What \<open>poll\<close> writes to \<open>pfd.revents\<close>, a \<open>short\<close>.\<close>

definition revents :: "sysres \<Rightarrow> nat" where
  "revents r = le_val (take 2 (sr_data r))"

function poll_loop ::
  "t_socket \<Rightarrow> nat \<Rightarrow> 'm tm_sys_scheme \<Rightarrow> ((lua_error + sysres) \<times> 'm tm_sys_scheme) option" where
  "poll_loop fd events s =
    (case timeout_getretry s of
       Some (Inr t, s1) \<Rightarrow>
         (case syscall (CPoll fd events (poll_ms t)) s1 of
            Some (Inr r, s2) \<Rightarrow>
              if sr_ret r = - 1 \<and> sr_err r = EINTR then poll_loop fd events s2 else Some (Inr r, s2)
          | _ \<Rightarrow> None)
     | _ \<Rightarrow> None)"
  by pat_completeness auto
termination
  by (relation "measure (\<lambda>(fd, events, s). length (answers s))")
    (auto simp: syscall_Some elim!: timeout_getretry_Some dest!: went_length)

declare poll_loop.simps [simp del]

definition usocket_waitfd :: "t_socket \<Rightarrow> waitfd \<Rightarrow> ('m tm_sys_scheme, int) act" where
  "usocket_waitfd ps sw s =
    (if timeout_iszero s then act_return IO_TIMEOUT s
     else act_bind (poll_loop ps (poll_events sw)) (\<lambda>r.
       act_return
         (if sr_ret r = - 1 then sr_err r
          else if sr_ret r = 0 then IO_TIMEOUT
          else if sw = WAITFD_C \<and> revents r AND 9 \<noteq> 0 then IO_CLOSED
          else IO_DONE)) s)"

text \<open>Calls that only wait.\<close>

fun is_poll :: "call \<Rightarrow> bool" where
  "is_poll (CPoll k events ms) \<longleftrightarrow> True"
| "is_poll _ \<longleftrightarrow> False"

lemma is_poll_iff: "is_poll c \<longleftrightarrow> (\<exists>k events ms. c = CPoll k events ms)"
  by (cases c) auto

lemma poll_loop_run:
  "poll_loop fd events s = Some (r, s') \<Longrightarrow>
    \<exists>a cs. r = Inr a \<and> went s s' cs \<and> cs \<noteq> [] \<and> (\<forall>x \<in> set cs. is_poll (fst x)) \<and>
      \<not> (sr_ret a = - 1 \<and> sr_err a = EINTR)"
proof (induction s rule: measure_induct_rule [where f = "\<lambda>s. length (answers s)"])
  case (less s)
  from less.prems obtain t s1 a s2 where t: "timeout_getretry s = Some (Inr t, s1)"
    and c: "syscall (CPoll fd events (poll_ms t)) s1 = Some (Inr a, s2)"
    by (subst (asm) poll_loop.simps) (auto split: option.splits sum.splits)
  let ?c = "CPoll fd events (poll_ms t)"
  from t have w: "went s s1 []" by (rule timeout_getretry_Some)
  from t have "wait_ok s1 ?c"
    by (rule timeout_getretry_Some) (auto simp: wait_ok_def went_def poll_ms_def c_int_def)
  with c have "went s1 s2 [(?c, a)]" using syscall_went by fastforce
  from went_trans [OF w this] have s2: "went s s2 [(?c, a)]" by simp
  show ?case
  proof (cases "sr_ret a = - 1 \<and> sr_err a = EINTR")
    case True
    with less.prems t c have "poll_loop fd events s2 = Some (r, s')" by (subst (asm) poll_loop.simps) simp
    with less.IH [of s2] went_length [OF s2] obtain b cs where
      "r = Inr b" "went s2 s' cs" "\<forall>x \<in> set cs. is_poll (fst x)" "\<not> (sr_ret b = - 1 \<and> sr_err b = EINTR)"
      by auto
    with went_trans [OF s2] show ?thesis by (intro exI [of _ b] exI [of _ "(?c, a) # cs"]) simp
  next
    case False
    with less.prems t c have "r = Inr a" "s' = s2" by (subst (asm) poll_loop.simps; force)+
    with s2 False show ?thesis by (intro exI [of _ a] exI [of _ "[(?c, a)]"]) simp
  qed
qed

lemma usocket_waitfd_run:
  assumes "usocket_waitfd ps sw s = Some (r, s')"
  obtains err cs where "r = Inr err" "went s s' cs" "\<forall>x \<in> set cs. is_poll (fst x)" "err \<noteq> EINTR"
    "tm_block s = 0 \<Longrightarrow> err = IO_TIMEOUT \<and> cs = []"
proof (cases "timeout_iszero s")
  case True
  with assms that [of IO_TIMEOUT "[]"] show thesis by (simp add: usocket_waitfd_def)
next
  case False
  with assms obtain q where "poll_loop ps (poll_events sw) s = Some (q, s')"
    and r: "\<And>a. q = Inr a \<Longrightarrow> \<not> (sr_ret a = - 1 \<and> sr_err a = EINTR) \<Longrightarrow> \<exists>err. r = Inr err \<and> err \<noteq> EINTR"
    by (auto simp: usocket_waitfd_def act_bind_Some_iff)
  from poll_loop_run [OF this(1)] r that False show thesis
    by (auto simp: timeout_iszero_def)
qed


section \<open>The retry loop\<close>

text \<open>
  The body of \<open>accept\<close> and of the transfers: like that of the Winsock layer, but an interrupted call
  is made again at once. \<open>finished\<close> decides on the results that need no look at the error, or turn it
  into another; \<open>again\<close> on the errors to wait out.
\<close>

function uretry_loop ::
  "t_socket \<Rightarrow> call \<Rightarrow> waitfd \<Rightarrow> (sysres \<Rightarrow> (int \<times> 'r) option) \<Rightarrow> (int \<Rightarrow> bool) \<Rightarrow> 'r \<Rightarrow>
   'm tm_sys_scheme \<Rightarrow> ((lua_error + int \<times> 'r) \<times> 'm tm_sys_scheme) option" where
  "uretry_loop ps c sw finished again fail s =
    (case syscall c s of
       Some (Inr r, s1) \<Rightarrow>
         (case finished r of
            Some result \<Rightarrow> Some (Inr result, s1)
          | None \<Rightarrow>
              if sr_err r = EINTR then uretry_loop ps c sw finished again fail s1
              else if \<not> again (sr_err r) then Some (Inr (sr_err r, fail), s1)
              else (case usocket_waitfd ps sw s1 of
                      Some (Inr err, s2) \<Rightarrow>
                        if err \<noteq> IO_DONE then Some (Inr (err, fail), s2)
                        else uretry_loop ps c sw finished again fail s2
                    | _ \<Rightarrow> None))
     | _ \<Rightarrow> None)"
  by pat_completeness auto
termination
  by (relation "measure (\<lambda>(ps, c, sw, finished, again, fail, s). length (answers s))")
    (auto simp: syscall_Some elim!: usocket_waitfd_run dest!: went_length)

declare uretry_loop.simps [simp del]

text \<open>The calls of a loop before its last: attempts that decided nothing, and waits.\<close>

definition idle :: "call \<Rightarrow> (sysres \<Rightarrow> (int \<times> 'r) option) \<Rightarrow> (call \<times> sysres) list \<Rightarrow> bool" where
  "idle c finished cs \<longleftrightarrow> (\<forall>x \<in> set cs. is_poll (fst x) \<or> fst x = c \<and> finished (snd x) = None)"

lemma idle_simps [simp]: "idle c finished []"
  "idle c finished (x # cs) \<longleftrightarrow> (is_poll (fst x) \<or> fst x = c \<and> finished (snd x) = None) \<and> idle c finished cs"
  "idle c finished (cs @ ds) \<longleftrightarrow> idle c finished cs \<and> idle c finished ds"
  by (auto simp: idle_def)

lemma idle_polls: "\<forall>x \<in> set cs. is_poll (fst x) \<Longrightarrow> idle c finished cs"
  by (auto simp: idle_def)

definition uloop_end ::
  "call \<Rightarrow> (sysres \<Rightarrow> (int \<times> 'r) option) \<Rightarrow> 'r \<Rightarrow> int \<Rightarrow> 'r \<Rightarrow> (call \<times> sysres) list \<Rightarrow> bool" where
  "uloop_end c finished fail err x cs \<longleftrightarrow>
    x = fail \<and> err \<noteq> EINTR \<and> idle c finished cs \<and>
      (err \<noteq> IO_DONE \<or> (\<exists>a. (c, a) \<in> set cs \<and> finished a = None \<and> sr_err a = err)) \<or>
    (\<exists>a pre. cs = pre @ [(c, a)] \<and> idle c finished pre \<and> finished a = Some (err, x))"

lemma uloop_end_Cons:
  "idle c finished pre \<Longrightarrow> uloop_end c finished fail err x cs \<Longrightarrow> uloop_end c finished fail err x (pre @ cs)"
  unfolding uloop_end_def by (elim disjE exE conjE) (auto simp del: append_assoc simp: append_assoc [symmetric])

lemma uretry_loop_run:
  fixes s :: "'m tm_sys_scheme"
  assumes "uretry_loop ps c sw finished again fail s = Some (r, s')" "\<forall>s :: 'm tm_sys_scheme. wait_ok s c"
  shows "\<exists>err x cs. r = Inr (err, x) \<and> went s s' cs \<and> cs \<noteq> [] \<and> uloop_end c finished fail err x cs"
  using assms(1)
proof (induction s rule: measure_induct_rule [where f = "\<lambda>s. length (answers s)"])
  case (less s)
  from less.prems obtain a s1 where c: "syscall c s = Some (Inr a, s1)"
    by (subst (asm) uretry_loop.simps) (auto split: option.splits sum.splits)
  then have s1: "went s s1 [(c, a)]" using syscall_went [OF c spec [OF assms(2)]] by simp
  have later: ?case if "uretry_loop ps c sw finished again fail s2 = Some (r, s')"
    "went s s2 ((c, a) # ws)" "finished a = None" "\<forall>x \<in> set ws. is_poll (fst x)" for s2 ws
  proof -
    from went_length [OF that(2)] less.IH [of s2] that(1) obtain err x cs where
      "r = Inr (err, x)" "went s2 s' cs" "uloop_end c finished fail err x cs" by auto
    moreover have "idle c finished ((c, a) # ws)" using that(3) idle_polls [OF that(4)] by simp
    ultimately have "uloop_end c finished fail err x (((c, a) # ws) @ cs)" by (blast intro: uloop_end_Cons)
    with went_trans [OF that(2) \<open>went s2 s' cs\<close>] \<open>r = Inr (err, x)\<close> show ?thesis
      by (intro exI [of _ err] exI [of _ x] exI [of _ "((c, a) # ws) @ cs"]) simp
  qed
  consider (fin) res where "finished a = Some res" | (intr) "finished a = None" "sr_err a = EINTR"
    | (stop) "finished a = None" "sr_err a \<noteq> EINTR" "\<not> again (sr_err a)"
    | (wait) "finished a = None" "sr_err a \<noteq> EINTR" "again (sr_err a)" by (cases "finished a") auto
  then show ?case
  proof cases
    case fin
    with less.prems c have "r = Inr res" "s' = s1" by (subst (asm) uretry_loop.simps; simp)+
    with s1 fin show ?thesis by (cases res) (force simp: uloop_end_def)
  next
    case intr
    with less.prems c have "uretry_loop ps c sw finished again fail s1 = Some (r, s')"
      by (subst (asm) uretry_loop.simps) simp
    with later [of s1 "[]"] s1 intr show ?thesis by simp
  next
    case stop
    with less.prems c have "r = Inr (sr_err a, fail)" "s' = s1" by (subst (asm) uretry_loop.simps; simp)+
    with s1 stop show ?thesis by (force simp: uloop_end_def)
  next
    case wait
    with less.prems c obtain q s2 where w: "usocket_waitfd ps sw s1 = Some (q, s2)"
      by (subst (asm) uretry_loop.simps) (auto split: option.splits)
    then obtain err ws where ws: "q = Inr err" "went s1 s2 ws" "\<forall>x \<in> set ws. is_poll (fst x)" "err \<noteq> EINTR"
      by (rule usocket_waitfd_run)
    have s2: "went s s2 ((c, a) # ws)" using went_trans [OF s1 ws(2)] by simp
    show ?thesis
    proof (cases "err = IO_DONE")
      case False
      with less.prems c wait w ws(1) have "r = Inr (err, fail)" "s' = s2"
        by (subst (asm) uretry_loop.simps; simp)+
      with s2 False wait(1) ws(3,4) show ?thesis
        by (intro exI [of _ err] exI [of _ fail] exI [of _ "(c, a) # ws"]) (auto simp: uloop_end_def intro: idle_polls)
    next
      case True
      with less.prems c wait w ws(1) have "uretry_loop ps c sw finished again fail s2 = Some (r, s')"
        by (subst (asm) uretry_loop.simps) simp
      with later [of s2 ws] s2 wait(1) ws(3) show ?thesis by simp
    qed
  qed
qed


section \<open>Module and descriptors\<close>

definition usocket_open :: "('m sys_scheme, int) act" where
  "usocket_open = act_bind (syscall (CSignal SIGPIPE SIG_IGN)) (\<lambda>_. act_return 1)"

definition usocket_close :: "('m sys_scheme, int) act" where
  "usocket_close = act_return 1"

text \<open>The flags go back as they came, also when \<open>F_GETFL\<close> has failed.\<close>

definition usocket_setblocking :: "t_socket \<Rightarrow> ('m sys_scheme, unit) act" where
  "usocket_setblocking ps =
    act_bind (syscall (CFcntl ps F_GETFL 0)) (\<lambda>r.
      let flags = (of_int (sr_ret r) :: u32) AND NOT O_NONBLOCK in
      act_bind (syscall (CFcntl ps F_SETFL (sint flags))) (\<lambda>_. act_return ()))"

definition usocket_setnonblocking :: "t_socket \<Rightarrow> ('m sys_scheme, unit) act" where
  "usocket_setnonblocking ps =
    act_bind (syscall (CFcntl ps F_GETFL 0)) (\<lambda>r.
      let flags = (of_int (sr_ret r) :: u32) OR O_NONBLOCK in
      act_bind (syscall (CFcntl ps F_SETFL (sint flags))) (\<lambda>_. act_return ()))"

definition usocket_destroy :: "t_socket \<Rightarrow> ('m sys_scheme, t_socket) act" where
  "usocket_destroy ps =
    (if ps \<noteq> SOCKET_INVALID then
       act_bind (usocket_setblocking ps) (\<lambda>_.
       act_bind (syscall (CClose ps)) (\<lambda>_. act_return SOCKET_INVALID))
     else act_return ps)"

function uselect_loop ::
  "t_socket list \<Rightarrow> t_socket list \<Rightarrow> t_socket list \<Rightarrow> 'm tm_sys_scheme \<Rightarrow>
   ((lua_error + int \<times> t_socket list \<times> t_socket list) \<times> 'm tm_sys_scheme) option" where
  "uselect_loop rfds wfds efds s =
    (case timeout_getretry s of
       Some (Inr t, s1) \<Rightarrow>
         (case syscall (CSelect rfds wfds efds (if t \<ge> 0 then Some (timeval_of t) else None)) s1 of
            Some (Inr r, s2) \<Rightarrow>
              if sr_ret r < 0 \<and> sr_err r = EINTR then uselect_loop rfds wfds efds s2
              else Some (Inr (sr_ret r, sr_rfds r, sr_wfds r), s2)
          | _ \<Rightarrow> None)
     | _ \<Rightarrow> None)"
  by pat_completeness auto
termination
  by (relation "measure (\<lambda>(rfds, wfds, efds, s). length (answers s))")
    (auto simp: syscall_Some elim!: timeout_getretry_Some dest!: went_length)

declare uselect_loop.simps [simp del]

text \<open>The number of the highest descriptor plus one only bounds the sets.\<close>

definition usocket_select ::
  "t_socket \<Rightarrow> t_socket list \<Rightarrow> t_socket list \<Rightarrow> t_socket list \<Rightarrow>
   ('m tm_sys_scheme, int \<times> t_socket list \<times> t_socket list) act" where
  "usocket_select n rfds wfds efds = uselect_loop rfds wfds efds"

definition usocket_create :: "int \<Rightarrow> int \<Rightarrow> int \<Rightarrow> ('m sys_scheme, int \<times> t_socket) act" where
  "usocket_create domain type protocol =
    act_bind (syscall (CSocket domain type protocol)) (\<lambda>r.
      let ps = of_int (sr_ret r) :: t_socket in
      act_return (if ps \<noteq> SOCKET_INVALID then IO_DONE else sr_err r, ps))"

definition usocket_bind :: "t_socket \<Rightarrow> bytes \<Rightarrow> ('m sys_scheme, int) act" where
  "usocket_bind ps addr =
    act_bind (usocket_setblocking ps) (\<lambda>_.
    act_bind (syscall (CBind ps addr)) (\<lambda>r.
      let err = (if sr_ret r < 0 then sr_err r else IO_DONE) in
      act_bind (usocket_setnonblocking ps) (\<lambda>_. act_return err)))"

definition usocket_listen :: "t_socket \<Rightarrow> int \<Rightarrow> ('m sys_scheme, int) act" where
  "usocket_listen ps backlog =
    act_bind (usocket_setblocking ps) (\<lambda>_.
    act_bind (syscall (CListen ps backlog)) (\<lambda>r.
      let err = (if sr_ret r \<noteq> 0 then sr_err r else IO_DONE) in
      act_bind (usocket_setnonblocking ps) (\<lambda>_. act_return err)))"

definition usocket_shutdown :: "t_socket \<Rightarrow> int \<Rightarrow> ('m sys_scheme, unit) act" where
  "usocket_shutdown ps how =
    act_bind (usocket_setblocking ps) (\<lambda>_.
    act_bind (syscall (CShutdown ps how)) (\<lambda>_. usocket_setnonblocking ps))"


section \<open>Connecting\<close>

text \<open>\<open>Inl\<close> is the error connecting stopped with.\<close>

function connect_loop_u ::
  "t_socket \<Rightarrow> bytes \<Rightarrow> 'm sys_scheme \<Rightarrow> ((lua_error + (int + unit)) \<times> 'm sys_scheme) option" where
  "connect_loop_u ps addr s =
    (case syscall (CConnect ps addr) s of
       Some (Inr r, s1) \<Rightarrow>
         if sr_ret r = 0 then Some (Inr (Inr ()), s1)
         else if sr_err r = EINTR then connect_loop_u ps addr s1
         else Some (Inr (Inl (sr_err r)), s1)
     | _ \<Rightarrow> None)"
  by pat_completeness auto
termination
  by (relation "measure (\<lambda>(ps, addr, s). length (answers s))") (auto simp: syscall_Some)

declare connect_loop_u.simps [simp del]

definition usocket_connect :: "t_socket \<Rightarrow> bytes \<Rightarrow> ('m tm_sys_scheme, int) act" where
  "usocket_connect ps addr =
    (if ps = SOCKET_INVALID then act_return IO_CLOSED
     else
       act_bind (connect_loop_u ps addr) (\<lambda>res.
         case res of
           Inr _ \<Rightarrow> act_return IO_DONE
         | Inl err \<Rightarrow>
             if err \<noteq> EINPROGRESS \<and> err \<noteq> EAGAIN then act_return err
             else
               act_bind (act_get timeout_iszero) (\<lambda>zero.
                 if zero then act_return IO_TIMEOUT
                 else
                   act_bind (usocket_waitfd ps WAITFD_C) (\<lambda>err.
                     if err = IO_CLOSED then
                       act_bind (syscall (CRecv ps 0)) (\<lambda>q.
                         act_return (if sr_ret q = 0 then IO_DONE else sr_err q))
                     else act_return err))))"


section \<open>Transfers\<close>

definition usocket_accept :: "t_socket \<Rightarrow> ('m tm_sys_scheme, int \<times> t_socket) act" where
  "usocket_accept ps =
    (if ps = SOCKET_INVALID then act_return (IO_CLOSED, SOCKET_INVALID)
     else uretry_loop ps (CAccept ps) WAITFD_R
       (\<lambda>r. let pa = of_int (sr_ret r) in if pa \<noteq> SOCKET_INVALID then Some (IO_DONE, pa) else None)
       (\<lambda>err. err = EAGAIN \<or> err = ECONNABORTED) SOCKET_INVALID)"

text \<open>The two decisions all senders and all receivers share.\<close>

definition put_result :: "sysres \<Rightarrow> (int \<times> nat) option" where
  "put_result r =
    (let put = sr_ret r in
     if put \<ge> 0 then Some (IO_DONE, nat put)
     else if sr_err r = EPIPE then Some (IO_CLOSED, 0)
     else None)"

definition taken_result :: "sysres \<Rightarrow> (int \<times> bytes) option" where
  "taken_result r =
    (let taken = sr_ret r in
     if taken > 0 then Some (IO_DONE, take (nat taken) (sr_data r))
     else if taken = 0 then Some (IO_CLOSED, [])
     else None)"

definition usocket_send :: "t_socket \<Rightarrow> bytes \<Rightarrow> ('m tm_sys_scheme, int \<times> nat) act" where
  "usocket_send ps data =
    (if ps = SOCKET_INVALID then act_return (IO_CLOSED, 0)
     else uretry_loop ps (CSend ps data) WAITFD_W put_result (\<lambda>err. err = EAGAIN) 0)"

definition usocket_sendto :: "t_socket \<Rightarrow> bytes \<Rightarrow> bytes \<Rightarrow> ('m tm_sys_scheme, int \<times> nat) act" where
  "usocket_sendto ps data addr =
    (if ps = SOCKET_INVALID then act_return (IO_CLOSED, 0)
     else uretry_loop ps (CSendto ps data addr) WAITFD_W put_result (\<lambda>err. err = EAGAIN) 0)"

definition usocket_recv :: "t_socket \<Rightarrow> nat \<Rightarrow> ('m tm_sys_scheme, int \<times> bytes) act" where
  "usocket_recv ps count =
    (if ps = SOCKET_INVALID then act_return (IO_CLOSED, [])
     else uretry_loop ps (CRecv ps count) WAITFD_R taken_result (\<lambda>err. err = EAGAIN) [])"

definition usocket_recvfrom :: "t_socket \<Rightarrow> nat \<Rightarrow> ('m tm_sys_scheme, int \<times> bytes \<times> bytes) act" where
  "usocket_recvfrom ps count =
    (if ps = SOCKET_INVALID then act_return (IO_CLOSED, [], [])
     else uretry_loop ps (CRecvfrom ps count) WAITFD_R
       (\<lambda>r. let taken = sr_ret r in
          if taken > 0 then Some (IO_DONE, take (nat taken) (sr_data r), sr_addr r)
          else if taken = 0 then Some (IO_CLOSED, [], sr_addr r) else None)
       (\<lambda>err. err = EAGAIN) ([], []))"

definition usocket_write :: "t_socket \<Rightarrow> bytes \<Rightarrow> ('m tm_sys_scheme, int \<times> nat) act" where
  "usocket_write ps data =
    (if ps = SOCKET_INVALID then act_return (IO_CLOSED, 0)
     else uretry_loop ps (CWrite ps data) WAITFD_W put_result (\<lambda>err. err = EAGAIN) 0)"

definition usocket_read :: "t_socket \<Rightarrow> nat \<Rightarrow> ('m tm_sys_scheme, int \<times> bytes) act" where
  "usocket_read ps count =
    (if ps = SOCKET_INVALID then act_return (IO_CLOSED, [])
     else uretry_loop ps (CRead ps count) WAITFD_R taken_result (\<lambda>err. err = EAGAIN) [])"


section \<open>Name service and error messages\<close>

text \<open>A resolver call that fails leaves \<open>h_errno\<close>, here its \<open>sr_ret\<close>, and \<open>errno\<close>.\<close>

definition resolver_error :: "sysres \<Rightarrow> int" where
  "resolver_error r =
    (if sr_host r \<noteq> None then IO_DONE
     else if sr_ret r \<noteq> 0 then sr_ret r
     else if sr_err r \<noteq> 0 then sr_err r
     else IO_UNKNOWN)"

definition usocket_gethostbyaddr :: "bytes \<Rightarrow> ('m sys_scheme, int \<times> hostent option) act" where
  "usocket_gethostbyaddr addr =
    act_bind (syscall (CGethostbyaddr addr)) (\<lambda>r. act_return (resolver_error r, sr_host r))"

definition usocket_gethostbyname :: "bytes \<Rightarrow> ('m sys_scheme, int \<times> hostent option) act" where
  "usocket_gethostbyname addr =
    act_bind (syscall (CGethostbyname addr)) (\<lambda>r. act_return (resolver_error r, sr_host r))"

definition usocket_hoststrerror :: "posix_env \<Rightarrow> int \<Rightarrow> bytes option" where
  "usocket_hoststrerror env err =
    (if err \<le> 0 then io_strerror err
     else if err = 1 then Some (lit ''host not found'')
     else Some (hstrerror env err))"

definition usocket_strerror :: "posix_env \<Rightarrow> int \<Rightarrow> bytes option" where
  "usocket_strerror env err =
    (if err \<le> 0 then io_strerror err
     else if err = EADDRINUSE then Some (lit ''address already in use'')
     else if err = EISCONN then Some (lit ''already connected'')
     else if err = EACCES then Some (lit ''permission denied'')
     else if err = ECONNREFUSED then Some (lit ''connection refused'')
     else if err = ECONNABORTED then Some (lit ''closed'')
     else if err = ECONNRESET then Some (lit ''closed'')
     else if err = ETIMEDOUT then Some (lit ''timeout'')
     else Some (strerror env err))"

definition usocket_ioerror :: "posix_env \<Rightarrow> t_socket \<Rightarrow> int \<Rightarrow> bytes option" where
  "usocket_ioerror env ps err = usocket_strerror env err"

text \<open>The codes of netdb.h, which does not define \<open>EAI_BADHINTS\<close> and \<open>EAI_PROTOCOL\<close>. The last code
  stands for whatever \<open>errno\<close> says.\<close>

definition usocket_gaistrerror :: "posix_env \<Rightarrow> int \<Rightarrow> int \<Rightarrow> bytes option" where
  "usocket_gaistrerror env errno err =
    (if err = 0 then None
     else if err = - 3 then Some (lit ''temporary failure in name resolution'')
     else if err = - 1 then Some (lit ''invalid value for ai_flags'')
     else if err = - 4 then Some (lit ''non-recoverable failure in name resolution'')
     else if err = - 6 then Some (lit ''ai_family not supported'')
     else if err = - 10 then Some (lit ''memory allocation failure'')
     else if err = - 2 then Some (lit ''host or service not provided, or not known'')
     else if err = - 12 then Some (lit ''argument buffer overflow'')
     else if err = - 8 then Some (lit ''service not supported for socket type'')
     else if err = - 7 then Some (lit ''ai_socktype not supported'')
     else if err = - 11 then Some (strerror env errno)
     else Some (gai_strerror env err))"


section \<open>The two drivers\<close>

text \<open>Sockets use \<open>send\<close> and \<open>recv\<close>, serial lines \<open>write\<close> and \<open>read\<close>.\<close>

definition usocket_io :: "posix_env \<Rightarrow> t_socket \<Rightarrow> 'm tm_sys_scheme t_io" where
  "usocket_io env ps = io_init (usocket_send ps) (usocket_recv ps) (usocket_ioerror env ps)"

definition userial_io :: "posix_env \<Rightarrow> t_socket \<Rightarrow> 'm tm_sys_scheme t_io" where
  "userial_io env ps = io_init (usocket_write ps) (usocket_read ps) (usocket_ioerror env ps)"

lemma usocket_strerror_None: "usocket_strerror env err = None \<longleftrightarrow> err = IO_DONE"
  by (auto simp: usocket_strerror_def io_strerror_def)

lemma wait_ok_posix [simp]: "wait_ok s (CWrite k d)" "wait_ok s (CRead k n)"
  by (simp_all add: wait_ok_def)

lemma quiet_Cons: "quiet (x # cs) \<longleftrightarrow> quiet [x] \<and> quiet cs"
  using quiet_append [of "[x]" cs] by simp

lemma idle_quiet: "idle c finished cs \<Longrightarrow> (\<And>a. finished a = None \<Longrightarrow> quiet [(c, a)]) \<Longrightarrow> quiet cs"
proof (induction cs)
  case (Cons x cs)
  then have "quiet [x]" by (cases x) (auto simp: is_poll_iff quiet_def)
  moreover have "quiet cs" using Cons by simp
  ultimately show ?case by (rule quiet_Cons [THEN iffD2, OF conjI])
qed (simp add: quiet_def)

lemma put_result_run:
  assumes "uretry_loop ps c sw put_result again 0 s = Some (r, s')" "c = CSend ps d \<or> c = CWrite ps d"
  shows "\<exists>err n cs. r = Inr (err, n) \<and> went s s' cs \<and>
    (d \<noteq> [] \<longrightarrow> list_all call_ok cs \<longrightarrow>
      n \<le> length d \<and> accepted cs = take n d \<and> delivered cs = [] \<and> (err = IO_DONE \<longleftrightarrow> 0 < n))"
proof -
  have "\<forall>s :: 'a tm_sys_scheme. wait_ok s c" using assms(2) by auto
  from uretry_loop_run [OF assms(1) this] obtain err n cs where r: "r = Inr (err, n)" "went s s' cs"
    and e: "uloop_end c put_result 0 err n cs" by blast
  have q: "quiet [(c, a)]" if "put_result a = None" for a
    using assms(2) that by (auto simp: quiet_def put_result_def Let_def split: if_splits)
  have "n \<le> length d \<and> accepted cs = take n d \<and> delivered cs = [] \<and> (err = IO_DONE \<longleftrightarrow> 0 < n)"
    if ok: "d \<noteq> []" "list_all call_ok cs"
    using e unfolding uloop_end_def
  proof (elim disjE conjE exE)
    fix a pre assume a: "cs = pre @ [(c, a)]" "idle c put_result pre" "put_result a = Some (err, n)"
    with idle_quiet [OF a(2) q] ok assms(2) show ?thesis
      by (auto simp: quiet_def put_result_def Let_def send_ok_def split: if_splits)
  next
    fix a assume a: "n = 0" "err \<noteq> EINTR" "idle c put_result cs" "(c, a) \<in> set cs" "put_result a = None" "sr_err a = err"
    with ok assms(2) have "err \<noteq> IO_DONE"
      by (fastforce simp: list_all_iff put_result_def Let_def send_ok_def split: if_splits)
    with idle_quiet [OF a(3) q] a(1) show ?thesis by (simp add: quiet_def)
  qed (use idle_quiet [OF _ q] in \<open>auto simp: quiet_def\<close>)
  with r show ?thesis by blast
qed

lemma taken_result_run:
  assumes "uretry_loop ps c sw taken_result again [] s = Some (r, s')" "c = CRecv ps k \<or> c = CRead ps k"
  shows "\<exists>err bs cs. r = Inr (err, bs) \<and> went s s' cs \<and>
    (0 < k \<longrightarrow> list_all call_ok cs \<longrightarrow>
      length bs \<le> k \<and> delivered cs = bs \<and> accepted cs = [] \<and> (err = IO_DONE \<longleftrightarrow> bs \<noteq> []))"
proof -
  have "\<forall>s :: 'a tm_sys_scheme. wait_ok s c" using assms(2) by auto
  from uretry_loop_run [OF assms(1) this] obtain err bs cs where r: "r = Inr (err, bs)" "went s s' cs"
    and e: "uloop_end c taken_result [] err bs cs" by blast
  have q: "quiet [(c, a)]" if "taken_result a = None" for a
    using assms(2) that by (auto simp: quiet_def taken_result_def Let_def split: if_splits)
  have "length bs \<le> k \<and> delivered cs = bs \<and> accepted cs = [] \<and> (err = IO_DONE \<longleftrightarrow> bs \<noteq> [])"
    if ok: "list_all call_ok cs"
    using e unfolding uloop_end_def
  proof (elim disjE conjE exE)
    fix a pre assume a: "cs = pre @ [(c, a)]" "idle c taken_result pre" "taken_result a = Some (err, bs)"
    with idle_quiet [OF a(2) q] ok assms(2) show ?thesis
      by (auto simp: quiet_def taken_result_def Let_def recv_ok_def split: if_splits)
  next
    fix a assume a: "bs = []" "err \<noteq> EINTR" "idle c taken_result cs" "(c, a) \<in> set cs" "taken_result a = None" "sr_err a = err"
    with ok assms(2) have "err \<noteq> IO_DONE"
      by (fastforce simp: list_all_iff taken_result_def Let_def recv_ok_def split: if_splits)
    with idle_quiet [OF a(3) q] a(1) show ?thesis by (simp add: quiet_def)
  qed (use idle_quiet [OF _ q] in \<open>auto simp: quiet_def\<close>)
  with r show ?thesis by blast
qed

lemma usocket_senders:
  assumes "usocket_send ps d s = Some (r, s') \<or> usocket_write ps d s = Some (r, s')"
  shows "\<exists>err n cs. r = Inr (err, n) \<and> went s s' cs \<and> (err = IO_DONE \<longrightarrow> cs \<noteq> []) \<and>
    (d \<noteq> [] \<longrightarrow> list_all call_ok cs \<longrightarrow>
      n \<le> length d \<and> accepted cs = take n d \<and> delivered cs = [] \<and> (err = IO_DONE \<longleftrightarrow> 0 < n))"
proof (cases "ps = SOCKET_INVALID")
  case True
  with assms show ?thesis by (auto simp: usocket_send_def usocket_write_def intro!: exI [of _ "[]"])
next
  case False
  with assms obtain c where c: "c = CSend ps d \<or> c = CWrite ps d"
    "uretry_loop ps c WAITFD_W put_result (\<lambda>err. err = EAGAIN) 0 s = Some (r, s')"
    by (auto simp: usocket_send_def usocket_write_def)
  then have "\<forall>s :: 'a tm_sys_scheme. wait_ok s c" by auto
  with uretry_loop_run [OF c(2)] put_result_run [OF c(2,1)] show ?thesis
    by (elim exE conjE, fastforce simp: went_def dest: ran_unique)
qed

lemma usocket_receivers:
  assumes "usocket_recv ps k s = Some (r, s') \<or> usocket_read ps k s = Some (r, s')"
  shows "\<exists>err bs cs. r = Inr (err, bs) \<and> went s s' cs \<and> (err = IO_DONE \<longrightarrow> cs \<noteq> []) \<and>
    (0 < k \<longrightarrow> list_all call_ok cs \<longrightarrow>
      length bs \<le> k \<and> delivered cs = bs \<and> accepted cs = [] \<and> (err = IO_DONE \<longleftrightarrow> bs \<noteq> []))"
proof (cases "ps = SOCKET_INVALID")
  case True
  with assms show ?thesis by (auto simp: usocket_recv_def usocket_read_def intro!: exI [of _ "[]"])
next
  case False
  with assms obtain c where c: "c = CRecv ps k \<or> c = CRead ps k"
    "uretry_loop ps c WAITFD_R taken_result (\<lambda>err. err = EAGAIN) [] s = Some (r, s')"
    by (auto simp: usocket_recv_def usocket_read_def)
  then have "\<forall>s :: 'a tm_sys_scheme. wait_ok s c" by auto
  with uretry_loop_run [OF c(2)] taken_result_run [OF c(2,1)] show ?thesis
    by (elim exE conjE, fastforce simp: went_def dest: ran_unique)
qed


text \<open>Any of the senders with any of the receivers keeps the contract.\<close>

lemma posix_stream:
  assumes "snd_fun \<in> {usocket_send ps, usocket_write ps}" "rcv_fun \<in> {usocket_recv ps, usocket_read ps}"
  shows "buf_stream (io_init snd_fun rcv_fun (usocket_ioerror env ps))"
proof unfold_locales
  let ?io = "io_init snd_fun rcv_fun (usocket_ioerror env ps)"
  show "io_error ?io err = None \<longleftrightarrow> err = IO_DONE" for err
    by (simp add: io_init_def usocket_ioerror_def usocket_strerror_None)
  show "length (answers s') < length (answers s)" if "io_send ?io d s = Some (Inr (IO_DONE, n), s')" for d n s s'
    using usocket_senders [of ps d s "Inr (IO_DONE, n)" s'] assms that by (auto simp: io_init_def dest!: went_length)
  show "length (answers s') < length (answers s)" if "io_recv ?io k s = Some (Inr (IO_DONE, bs), s')" for k bs s s'
    using usocket_receivers [of ps k s "Inr (IO_DONE, bs)" s'] assms that by (auto simp: io_init_def dest!: went_length)
  show "\<exists>err n cs. r = Inr (err, n) \<and> went s s' cs \<and> (d \<noteq> [] \<longrightarrow> list_all call_ok cs \<longrightarrow>
      n \<le> length d \<and> accepted cs = take n d \<and> delivered cs = [] \<and> (err = IO_DONE \<longleftrightarrow> 0 < n))"
    if "io_send ?io d s = Some (r, s')" for d s r s'
    using usocket_senders [of ps d s r s'] assms that by (auto simp: io_init_def)
  show "\<exists>err bs cs. q = Inr (err, bs) \<and> went s s' cs \<and> (0 < k \<longrightarrow> list_all call_ok cs \<longrightarrow>
      length bs \<le> k \<and> delivered cs = bs \<and> accepted cs = [] \<and> (err = IO_DONE \<longleftrightarrow> bs \<noteq> []))"
    if "io_recv ?io k s = Some (q, s')" for k s q s'
    using usocket_receivers [of ps k s q s'] assms that by (auto simp: io_init_def)
qed

interpretation usocket_buffer: buf_stream "usocket_io env ps" for env ps
  unfolding usocket_io_def by (rule posix_stream) simp_all

interpretation userial_buffer: buf_stream "userial_io env ps" for env ps
  unfolding userial_io_def by (rule posix_stream) simp_all


section \<open>Errors and limits\<close>

text \<open>No function of a socket reports an interrupted call.\<close>

lemma uretry_loop_not_interrupted:
  fixes s :: "'m tm_sys_scheme"
  assumes "uretry_loop ps c sw finished again fail s = Some (Inr (err, x), s')" "\<forall>s :: 'm tm_sys_scheme. wait_ok s c"
    "\<And>a y. finished a \<noteq> Some (EINTR, y)"
  shows "err \<noteq> EINTR"
  using uretry_loop_run [OF assms(1,2)] assms(3) by (auto simp: uloop_end_def)

lemma transfers_not_interrupted:
  "usocket_send ps d s = Some (Inr (err, n), s') \<or> usocket_write ps d s = Some (Inr (err, n), s') \<Longrightarrow> err \<noteq> EINTR"
  "usocket_recv ps k s = Some (Inr (err, bs), s') \<or> usocket_read ps k s = Some (Inr (err, bs), s') \<Longrightarrow> err \<noteq> EINTR"
  "usocket_accept ps s = Some (Inr (err, pa), s') \<Longrightarrow> err \<noteq> EINTR"
  unfolding usocket_send_def usocket_write_def usocket_recv_def usocket_read_def usocket_accept_def
  by (auto simp: put_result_def taken_result_def Let_def split: if_splits dest!: uretry_loop_not_interrupted)

text \<open>With a block limit of \<open>2 ^ 31\<close> milliseconds or more left, the cast to \<open>int\<close> makes the time negative,
  and the wait has no limit at all.\<close>

lemma poll_ms_overflow: "2147483648 \<le> t * 1000 \<Longrightarrow> poll_ms t = - 1"
  by (simp add: poll_ms_def c_int_def trunc_real_def Let_def le_floor_iff)

lemma long_wait_unlimited:
  assumes "0 < tm_block s" "tm_total s < 0" "clock s = ft # ts" "answers s = a # as"
    "2147483648 \<le> (tm_block s - (filetime_seconds ft - tm_start s)) * 1000" "sr_err a \<noteq> EINTR"
  shows "\<exists>r s'. usocket_waitfd ps sw s = Some (r, s') \<and> new_calls s s' = [(CPoll ps (poll_events sw) (- 1), a)]"
proof -
  let ?t = "max (tm_block s - filetime_seconds ft + tm_start s) 0"
  have "poll_ms ?t = - 1" by (rule poll_ms_overflow) (use assms(5) in \<open>simp add: algebra_simps max_def\<close>)
  moreover have "timeout_getretry s = Some (Inr ?t, s\<lparr>clock := ts\<rparr>)"
    using assms(1-3) by (simp add: timeout_getretry_def timeout_gettime_def act_bind_def read_clock_def Let_def)
  ultimately show ?thesis
    using assms(1,4,6) by (simp add: usocket_waitfd_def timeout_iszero_def act_bind_def poll_loop.simps syscall_def new_calls_def)
qed

end
