(* ===== verification/Unix.thy ===== *)
theory Unix
  imports Usocket Options
begin

text \<open>
  unix.c and serial.c: objects for Unix domain sockets and serial lines, which share the structure
  \<open>t_unix\<close> of unix.h. An object's \<open>io\<close> is set when it is created: \<open>send\<close> and \<open>recv\<close> for a socket, \<open>write\<close>
  and \<open>read\<close> for a serial line. The objects live in a heap of their own, like those of Objects.
\<close>

datatype io_kind = Socket_io | Serial_io

record t_unix =
  un_sock :: t_socket
  un_io :: io_kind
  un_block :: real
  un_total :: real
  un_start :: real
  un_birthday :: real
  un_sent :: u32
  un_received :: u32
  un_first :: nat
  un_last :: nat
  un_data :: bytes

record unix_sys = aux_sys +
  unix_heap :: "t_unix list"

type_synonym ('m) umeth = "lua_value list \<Rightarrow> ('m unix_sys_scheme, lua_value list) act"


section \<open>Working on an object\<close>

definition load_unix :: "t_unix \<Rightarrow> 'm unix_sys_scheme \<Rightarrow> 'm unix_sys_scheme" where
  "load_unix u s = s\<lparr>tm_block := un_block u, tm_total := un_total u, tm_start := un_start u,
     buf_birthday := un_birthday u, buf_sent := un_sent u, buf_received := un_received u,
     buf_first := un_first u, buf_last := un_last u, buf_data := un_data u\<rparr>"

definition saved_unix :: "'m unix_sys_scheme \<Rightarrow> t_unix \<Rightarrow> t_unix" where
  "saved_unix s u = u\<lparr>un_block := tm_block s, un_total := tm_total s, un_start := tm_start s,
     un_birthday := buf_birthday s, un_sent := buf_sent s, un_received := buf_received s,
     un_first := buf_first s, un_last := buf_last s, un_data := buf_data s\<rparr>"

text \<open>The object at \<open>p\<close> takes the fields; those of \<open>s0\<close>, of the function's caller, come back.\<close>

definition save_unix :: "'m unix_sys_scheme \<Rightarrow> nat \<Rightarrow> 'm unix_sys_scheme \<Rightarrow> 'm unix_sys_scheme" where
  "save_unix s0 p s = s\<lparr>tm_block := tm_block s0, tm_total := tm_total s0, tm_start := tm_start s0,
     buf_birthday := buf_birthday s0, buf_sent := buf_sent s0, buf_received := buf_received s0,
     buf_first := buf_first s0, buf_last := buf_last s0, buf_data := buf_data s0,
     unix_heap := (unix_heap s)[p := saved_unix s (unix_heap s ! p)]\<rparr>"

definition with_unix :: "nat \<Rightarrow> (t_unix \<Rightarrow> ('m unix_sys_scheme, 'a) act) \<Rightarrow> ('m unix_sys_scheme, 'a) act" where
  "with_unix p f s =
    (if p < length (unix_heap s) then
       (case f (unix_heap s ! p) (load_unix (unix_heap s ! p) s) of
          None \<Rightarrow> None
        | Some (r, s') \<Rightarrow> Some (r, save_unix s p s'))
     else Some (Inl (Undefined (lit ''cast'')), s))"

text \<open>\<open>fresh\<close> is what the new memory holds; \<open>tm.start\<close> keeps it.\<close>

definition new_unix :: "t_unix \<Rightarrow> ('m unix_sys_scheme, nat) act" where
  "new_unix fresh s =
    Some (Inr (length (unix_heap s)),
      s\<lparr>unix_heap := unix_heap s @ [fresh], meta := (meta s)(length (unix_heap s) := None)\<rparr>)"

definition put_unix :: "nat \<Rightarrow> (t_unix \<Rightarrow> t_unix) \<Rightarrow> ('m unix_sys_scheme, unit) act" where
  "put_unix p f = act_put (\<lambda>s. s\<lparr>unix_heap := (unix_heap s)[p := f (unix_heap s ! p)]\<rparr>)"

definition set_unix_sock :: "nat \<Rightarrow> t_socket \<Rightarrow> ('m unix_sys_scheme, unit) act" where
  "set_unix_sock p ps = put_unix p (\<lambda>u. u\<lparr>un_sock := ps\<rparr>)"

text \<open>The lines that end every creation: the class, \<open>socket_setnonblocking\<close>, \<open>sock\<close>, \<open>io_init\<close>,
  \<open>timeout_init\<close>, \<open>buffer_init\<close>, and the new object as the result.\<close>

definition init_unix :: "string \<Rightarrow> io_kind \<Rightarrow> t_socket \<Rightarrow> nat \<Rightarrow> ('m unix_sys_scheme, lua_value list) act" where
  "init_unix cls kind sock p =
    act_bind (auxiliar_setclass (lit cls) p) (\<lambda>_.
    act_bind (usocket_setnonblocking sock) (\<lambda>_.
    act_bind (put_unix p (\<lambda>u. u\<lparr>un_sock := sock, un_io := kind\<rparr>)) (\<lambda>_.
    act_bind (with_unix p (\<lambda>_. act_bind (timeout_init (- 1) (- 1)) (\<lambda>_. buffer_init))) (\<lambda>_.
      act_return [LUserdata p]))))"

definition unix_io :: "posix_env \<Rightarrow> t_unix \<Rightarrow> 'm tm_sys_scheme t_io" where
  "unix_io env u =
    (case un_io u of Socket_io \<Rightarrow> usocket_io env (un_sock u) | Serial_io \<Rightarrow> userial_io env (un_sock u))"

definition unix_class :: "string \<Rightarrow> (nat \<Rightarrow> t_unix \<Rightarrow> 'm umeth) \<Rightarrow> 'm umeth" where
  "unix_class cls f args = act_bind (auxiliar_checkclass (lit cls) args 1) (\<lambda>p. with_unix p (\<lambda>u. f p u args))"

definition unix_group :: "string \<Rightarrow> (nat \<Rightarrow> t_unix \<Rightarrow> 'm umeth) \<Rightarrow> 'm umeth" where
  "unix_group grp f args = act_bind (auxiliar_checkgroup (lit grp) args 1) (\<lambda>p. with_unix p (\<lambda>u. f p u args))"

text \<open>\<open>nil\<close> and the error, or 1.\<close>

definition unix_reply :: "bytes option \<Rightarrow> lua_value list" where
  "unix_reply err = (case err of None \<Rightarrow> [LNum 1] | Some e \<Rightarrow> [LNil, LStr e])"


section \<open>Methods of unix.c\<close>

definition unix_meth_send :: "lua_vm \<Rightarrow> posix_env \<Rightarrow> 'm umeth" where
  "unix_meth_send vm env = unix_class ''unix{client}'' (\<lambda>p un args. buffer_meth_send vm (unix_io env un) args)"

definition unix_meth_receive :: "lua_vm \<Rightarrow> posix_env \<Rightarrow> 'm umeth" where
  "unix_meth_receive vm env = unix_class ''unix{client}'' (\<lambda>p un args. buffer_meth_receive vm (unix_io env un) args)"

definition unix_meth_getstats :: "'m umeth" where
  "unix_meth_getstats = unix_class ''unix{client}'' (\<lambda>p un args. buffer_meth_getstats)"

definition unix_meth_setstats :: "lua_vm \<Rightarrow> 'm umeth" where
  "unix_meth_setstats vm = unix_class ''unix{client}'' (\<lambda>p un args. buffer_meth_setstats vm args)"

text \<open>The option handlers of options.c with the numbers of Linux, where \<open>struct linger\<close> is two \<open>int\<close>s.\<close>

definition posix_set_keepalive :: "'m sys_scheme opt_func" where
  "posix_set_keepalive vm ienv args ps = opt_setboolean args ps 1 9"

definition posix_set_reuseaddr :: "'m sys_scheme opt_func" where
  "posix_set_reuseaddr vm ienv args ps = opt_setboolean args ps 1 2"

definition posix_set_linger :: "'m sys_scheme opt_func" where
  "posix_set_linger vm ienv args ps =
    act_bind (act_lua (table_arg args)) (\<lambda>t.
      case lua_gettable t (LStr (lit ''on'')) of
        LBool on \<Rightarrow>
          (case value_tonumber vm (lua_gettable t (LStr (lit ''timeout''))) of
             None \<Rightarrow> act_error (ArgError 3 (lit ''number '' @ quoted ''timeout'' @ lit '' field expected''))
           | Some x \<Rightarrow> opt_set ps 1 13 (le_bytes 4 (if on then 1 else 0) @ le_bytes 4 (c_ushort x)))
      | _ \<Rightarrow> act_error (ArgError 3 (lit ''boolean '' @ quoted ''on'' @ lit '' field expected'')))"

definition unix_optset :: "(bytes \<times> 'm sys_scheme opt_func) list" where
  "unix_optset =
    [(lit ''keepalive'', posix_set_keepalive),
     (lit ''reuseaddr'', posix_set_reuseaddr),
     (lit ''linger'', posix_set_linger)]"

definition unix_meth_setoption :: "lua_vm \<Rightarrow> inet_env \<Rightarrow> 'm umeth" where
  "unix_meth_setoption vm ienv =
    unix_group ''unix{any}'' (\<lambda>p un args. opt_meth_setoption unix_optset vm ienv args (un_sock un))"

definition unix_meth_getfd :: "'m umeth" where
  "unix_meth_getfd = unix_group ''unix{any}'' (\<lambda>p un args. act_return [LNum (of_int (sint (un_sock un)))])"

definition unix_meth_setfd :: "lua_vm \<Rightarrow> 'm umeth" where
  "unix_meth_setfd vm = unix_group ''unix{any}'' (\<lambda>p un args.
    act_bind (act_lua (luaL_checknumber vm args 2)) (\<lambda>x.
    act_bind (set_unix_sock p (of_int (c_int x))) (\<lambda>_. act_return [])))"

definition unix_meth_dirty :: "'m umeth" where
  "unix_meth_dirty = unix_group ''unix{any}'' (\<lambda>p un args. act_get (\<lambda>s. [LBool (\<not> buffer_isempty s)]))"

definition unix_meth_accept :: "posix_env \<Rightarrow> t_unix \<Rightarrow> 'm umeth" where
  "unix_meth_accept env fresh = unix_class ''unix{server}'' (\<lambda>p server args.
    act_bind timeout_markstart (\<lambda>_.
    act_bind (usocket_accept (un_sock server)) (\<lambda>(err, sock).
      if err = IO_DONE then act_bind (new_unix fresh) (init_unix ''unix{client}'' Socket_io sock)
      else act_return [LNil, push_error (usocket_strerror env err)])))"

text \<open>\<open>struct sockaddr_un\<close> without the terminating zero: \<open>AF_UNIX\<close>, then up to 108 bytes of path.\<close>

definition sockaddr_un :: "bytes \<Rightarrow> bytes" where
  "sockaddr_un path = le_bytes 2 1 @ path"

text \<open>The result and the object's descriptor, which a failed call has closed.\<close>

definition unix_trybind :: "posix_env \<Rightarrow> t_socket \<Rightarrow> bytes \<Rightarrow> ('m unix_sys_scheme, bytes option \<times> t_socket) act" where
  "unix_trybind env sock path =
    (if length path \<ge> 108 then act_return (Some (lit ''path too long''), sock)
     else
       act_bind (usocket_bind sock (sockaddr_un path)) (\<lambda>err.
       act_bind (if err \<noteq> IO_DONE then usocket_destroy sock else act_return sock) (\<lambda>sock.
         act_return (usocket_strerror env err, sock))))"

definition unix_meth_bind :: "lua_vm \<Rightarrow> posix_env \<Rightarrow> 'm umeth" where
  "unix_meth_bind vm env = unix_class ''unix{master}'' (\<lambda>p un args.
    act_bind (act_lua (luaL_checkstring vm args 2)) (\<lambda>path.
    act_bind (unix_trybind env (un_sock un) path) (\<lambda>(err, sock).
    act_bind (set_unix_sock p sock) (\<lambda>_. act_return (unix_reply err)))))"

definition unix_tryconnect :: "posix_env \<Rightarrow> t_socket \<Rightarrow> bytes \<Rightarrow> ('m unix_sys_scheme, bytes option \<times> t_socket) act" where
  "unix_tryconnect env sock path =
    (if length path \<ge> 108 then act_return (Some (lit ''path too long''), sock)
     else
       act_bind timeout_markstart (\<lambda>_.
       act_bind (usocket_connect sock (sockaddr_un path)) (\<lambda>err.
       act_bind (if err \<noteq> IO_DONE then usocket_destroy sock else act_return sock) (\<lambda>sock.
         act_return (usocket_strerror env err, sock)))))"

definition unix_meth_connect :: "lua_vm \<Rightarrow> posix_env \<Rightarrow> 'm umeth" where
  "unix_meth_connect vm env = unix_class ''unix{master}'' (\<lambda>p un args.
    act_bind (act_lua (luaL_checkstring vm args 2)) (\<lambda>path.
    act_bind (unix_tryconnect env (un_sock un) path) (\<lambda>(err, sock).
    act_bind (set_unix_sock p sock) (\<lambda>_.
      case err of
        Some e \<Rightarrow> act_return (unix_reply err)
      | None \<Rightarrow>
          act_bind (auxiliar_setclass (lit ''unix{client}'') p) (\<lambda>_. act_return (unix_reply err))))))"

definition unix_meth_close :: "'m umeth" where
  "unix_meth_close = unix_group ''unix{any}'' (\<lambda>p un args.
    act_bind (usocket_destroy (un_sock un)) (\<lambda>ps.
    act_bind (set_unix_sock p ps) (\<lambda>_. act_return [LNum 1])))"

definition unix_meth_listen :: "lua_vm \<Rightarrow> posix_env \<Rightarrow> 'm umeth" where
  "unix_meth_listen vm env = unix_class ''unix{master}'' (\<lambda>p un args.
    act_bind (act_lua (luaL_optnumber vm args 2 32)) (\<lambda>backlog.
    act_bind (usocket_listen (un_sock un) (c_int backlog)) (\<lambda>err.
      if err \<noteq> IO_DONE then act_return [LNil, push_error (usocket_strerror env err)]
      else act_bind (auxiliar_setclass (lit ''unix{server}'') p) (\<lambda>_. act_return [LNum 1]))))"

definition unix_meth_shutdown :: "lua_vm \<Rightarrow> 'm umeth" where
  "unix_meth_shutdown vm = unix_class ''unix{client}'' (\<lambda>p un args.
    act_bind (act_lua (luaL_checkoption vm args 2 ''both'' [''receive'', ''send'', ''both''])) (\<lambda>how.
    act_bind (usocket_shutdown (un_sock un) (int how)) (\<lambda>_. act_return [LNum 1])))"

definition unix_meth_settimeout :: "lua_vm \<Rightarrow> 'm umeth" where
  "unix_meth_settimeout vm = unix_group ''unix{any}'' (\<lambda>p un args. timeout_meth_settimeout vm args)"

definition unix_methods :: "lua_vm \<Rightarrow> posix_env \<Rightarrow> inet_env \<Rightarrow> t_unix \<Rightarrow> (string \<times> 'm umeth) list" where
  "unix_methods vm env ienv fresh =
    [(''__gc'', unix_meth_close),
     (''__tostring'', auxiliar_tostring vm),
     (''accept'', unix_meth_accept env fresh),
     (''bind'', unix_meth_bind vm env),
     (''close'', unix_meth_close),
     (''connect'', unix_meth_connect vm env),
     (''dirty'', unix_meth_dirty),
     (''getfd'', unix_meth_getfd),
     (''getstats'', unix_meth_getstats),
     (''setstats'', unix_meth_setstats vm),
     (''listen'', unix_meth_listen vm env),
     (''receive'', unix_meth_receive vm env),
     (''send'', unix_meth_send vm env),
     (''setfd'', unix_meth_setfd vm),
     (''setoption'', unix_meth_setoption vm ienv),
     (''setpeername'', unix_meth_connect vm env),
     (''setsockname'', unix_meth_bind vm env),
     (''settimeout'', unix_meth_settimeout vm),
     (''shutdown'', unix_meth_shutdown vm)]"

definition unix_global_create :: "posix_env \<Rightarrow> t_unix \<Rightarrow> 'm umeth" where
  "unix_global_create env fresh args =
    act_bind (usocket_create 1 1 0) (\<lambda>(err, sock).
      if err = IO_DONE then act_bind (new_unix fresh) (init_unix ''unix{master}'' Socket_io sock)
      else act_return [LNil, push_error (usocket_strerror env err)])"

text \<open>The functions of a class are numbered by their place in its table.\<close>

definition unix_reg :: "(string \<times> 'm umeth) list \<Rightarrow> (bytes \<times> lua_value) list" where
  "unix_reg fs = map (\<lambda>(i, nf). (lit (fst nf), LFunction i)) (enumerate 0 fs)"

definition unix_open :: "lua_vm \<Rightarrow> posix_env \<Rightarrow> inet_env \<Rightarrow> t_unix \<Rightarrow> ('m unix_sys_scheme, unit) act" where
  "unix_open vm env ienv fresh =
    (let methods = unix_reg (unix_methods vm env ienv fresh :: (string \<times> 'm umeth) list) in
    act_bind (auxiliar_newclass (lit ''unix{master}'') methods) (\<lambda>_.
    act_bind (auxiliar_newclass (lit ''unix{client}'') methods) (\<lambda>_.
    act_bind (auxiliar_newclass (lit ''unix{server}'') methods) (\<lambda>_.
    act_bind (auxiliar_add2group (lit ''unix{master}'') (lit ''unix{any}'')) (\<lambda>_.
    act_bind (auxiliar_add2group (lit ''unix{client}'') (lit ''unix{any}'')) (\<lambda>_.
    auxiliar_add2group (lit ''unix{server}'') (lit ''unix{any}'')))))))"


section \<open>Methods of serial.c\<close>

definition serial_meth_send :: "lua_vm \<Rightarrow> posix_env \<Rightarrow> 'm umeth" where
  "serial_meth_send vm env = unix_class ''serial{client}'' (\<lambda>p un args. buffer_meth_send vm (unix_io env un) args)"

definition serial_meth_receive :: "lua_vm \<Rightarrow> posix_env \<Rightarrow> 'm umeth" where
  "serial_meth_receive vm env = unix_class ''serial{client}'' (\<lambda>p un args. buffer_meth_receive vm (unix_io env un) args)"

definition serial_meth_getstats :: "'m umeth" where
  "serial_meth_getstats = unix_class ''serial{client}'' (\<lambda>p un args. buffer_meth_getstats)"

definition serial_meth_setstats :: "lua_vm \<Rightarrow> 'm umeth" where
  "serial_meth_setstats vm = unix_class ''serial{client}'' (\<lambda>p un args. buffer_meth_setstats vm args)"

definition serial_meth_getfd :: "'m umeth" where
  "serial_meth_getfd = unix_group ''serial{any}'' (\<lambda>p un args. act_return [LNum (of_int (sint (un_sock un)))])"

definition serial_meth_setfd :: "lua_vm \<Rightarrow> 'm umeth" where
  "serial_meth_setfd vm = unix_group ''serial{any}'' (\<lambda>p un args.
    act_bind (act_lua (luaL_checknumber vm args 2)) (\<lambda>x.
    act_bind (set_unix_sock p (of_int (c_int x))) (\<lambda>_. act_return [])))"

definition serial_meth_dirty :: "'m umeth" where
  "serial_meth_dirty = unix_group ''serial{any}'' (\<lambda>p un args. act_get (\<lambda>s. [LBool (\<not> buffer_isempty s)]))"

definition serial_meth_close :: "'m umeth" where
  "serial_meth_close = unix_group ''serial{any}'' (\<lambda>p un args.
    act_bind (usocket_destroy (un_sock un)) (\<lambda>ps.
    act_bind (set_unix_sock p ps) (\<lambda>_. act_return [LNum 1])))"

definition serial_meth_settimeout :: "lua_vm \<Rightarrow> 'm umeth" where
  "serial_meth_settimeout vm = unix_group ''serial{any}'' (\<lambda>p un args. timeout_meth_settimeout vm args)"

definition serial_methods :: "lua_vm \<Rightarrow> posix_env \<Rightarrow> (string \<times> 'm umeth) list" where
  "serial_methods vm env =
    [(''__gc'', serial_meth_close),
     (''__tostring'', auxiliar_tostring vm),
     (''close'', serial_meth_close),
     (''dirty'', serial_meth_dirty),
     (''getfd'', serial_meth_getfd),
     (''getstats'', serial_meth_getstats),
     (''setstats'', serial_meth_setstats vm),
     (''receive'', serial_meth_receive vm env),
     (''send'', serial_meth_send vm env),
     (''setfd'', serial_meth_setfd vm),
     (''settimeout'', serial_meth_settimeout vm)]"

text \<open>\<open>O_NOCTTY|O_RDWR\<close> is \<open>0x102\<close>. When the device does not open, the new userdata stays without a
  class.\<close>

definition serial_global_create :: "lua_vm \<Rightarrow> posix_env \<Rightarrow> t_unix \<Rightarrow> 'm umeth" where
  "serial_global_create vm env fresh args =
    act_bind (act_lua (luaL_checkstring vm args 1)) (\<lambda>path.
    act_bind (new_unix fresh) (\<lambda>un.
    act_bind (syscall (COpen path 0x102)) (\<lambda>r.
      let sock = of_int (sr_ret r) :: t_socket in
      if sint sock < 0 then
        act_return [LNil, push_error (usocket_strerror env (sr_err r)), LNum (of_int (sr_err r))]
      else init_unix ''serial{client}'' Serial_io sock un)))"

definition serial_open :: "lua_vm \<Rightarrow> posix_env \<Rightarrow> ('m unix_sys_scheme, unit) act" where
  "serial_open vm env =
    (let methods = unix_reg (serial_methods vm env :: (string \<times> 'm umeth) list) in
    act_bind (auxiliar_newclass (lit ''serial{client}'') methods) (\<lambda>_.
    auxiliar_add2group (lit ''serial{client}'') (lit ''serial{any}'')))"

end
