(* ===== verification/UnixRuns.thy ===== *)
theory UnixRuns
  imports Unix SockRuns
begin

text \<open>
  Runs of the functions of unix.c and serial.c, in any order and with any arguments, with the two
  invariants of SockRuns: the class of an object tells which functions its \<open>io\<close> has, and every
  descriptor is in one object until it is closed. An object counts from the moment it has a class:
  what the memory of a serial object held before its device is open is no descriptor of it.
\<close>


section \<open>POSIX steps that touch no descriptor, and those that do\<close>

lemma hand_getretry [hand_intros]: "hand e P timeout_getretry (\<lambda>_. P)"
  unfolding timeout_getretry_def [abs_def] Let_def
  by (intro hand_intros hand_bind [OF hand_timeouts(1)] hand_state [where m = "\<lambda>s. act_bind timeout_gettime (_ s)"]
      hand_state [where m = "\<lambda>s. act_return (_ s)"] refl)

lemma idle_no_descriptor:
  assumes "idle c finished cs" "\<And>a. finished a = None \<Longrightarrow> created1 (c, a) = {#} \<and> closed1 (c, a) = {#}"
  shows "created cs = {#} \<and> closed cs = {#}"
  using assms(1)
proof (induction cs)
  case (Cons x cs)
  moreover have "created1 x = {#} \<and> closed1 x = {#}"
    using Cons.prems assms(2) by (cases x) (auto simp: is_poll_iff)
  ultimately show ?case by simp
qed simp

lemma went_buf_more: "went s s' cs \<Longrightarrow> buf_sys.more s' = buf_sys.more s"
  using went_more [of s s' cs] by (cases s; cases s') simp

lemma polls_no_descriptor: "\<forall>x \<in> set cs. is_poll (fst x) \<Longrightarrow> created cs = {#} \<and> closed cs = {#}"
  by (induction cs) (auto simp: is_poll_iff)

lemma hand_uwaitfd [hand_intros]: "hand e P (usocket_waitfd ps sw) (\<lambda>_. P)"
  unfolding hand_def
  by (intro allI impI, erule usocket_waitfd_run)
    (auto simp: went_def went_buf_more polls_no_descriptor intro!: went_buf_more)

lemma hand_uretry_loop:
  fixes c :: call
  assumes fin: "\<And>r x. finished r = Some x \<Longrightarrow> P + created1 (c, r) = Q x + closed1 (c, r)"
    and go: "\<And>r. finished r = None \<Longrightarrow> created1 (c, r) = {#} \<and> closed1 (c, r) = {#}"
    and give: "\<And>err. Q (err, fail) = P" and ok: "\<forall>s :: 'm buf_sys_scheme. wait_ok s c"
  shows "hand e P (uretry_loop ps c sw finished again fail :: ('m buf_sys_scheme, _) act) Q"
  unfolding hand_def
proof (intro allI impI)
  fix s :: "'m buf_sys_scheme" and r s' assume run: "uretry_loop ps c sw finished again fail s = Some (r, s')"
  from uretry_loop_run [OF run ok] obtain err x cs where
    r: "r = Inr (err, x)" "went s s' cs" and e: "uloop_end c finished fail err x cs" by blast
  have nd: "created xs = {#} \<and> closed xs = {#}" if "idle c finished xs" for xs
    using idle_no_descriptor [OF that go] .
  have "P + created cs = Q (err, x) + closed cs"
    using e unfolding uloop_end_def
  proof (elim disjE conjE exE)
    fix a pre assume a: "cs = pre @ [(c, a)]" "idle c finished pre" "finished a = Some (err, x)"
    from nd [OF a(2)] fin [OF a(3)] show ?thesis by (simp add: a(1))
  qed (use nd give in auto)
  with r show "buf_sys.more s' = buf_sys.more s \<and>
      (\<exists>cs. ran s s' cs \<and> P + created cs = (case r of Inl x \<Rightarrow> {#} | Inr x \<Rightarrow> Q x) + closed cs \<and> outcome e r)"
    by (intro conjI exI [of _ cs]) (simp_all add: went_buf_more went_ran)
qed

lemma hand_ublocking [hand_intros]:
  "hand e P (usocket_setblocking ps) (\<lambda>_. P)" "hand e P (usocket_setnonblocking ps) (\<lambda>_. P)"
  unfolding usocket_setblocking_def usocket_setnonblocking_def by - ((rule hand_bind | rule hand_intros | simp)+)

lemma hand_connect_loop_u [hand_intros]: "hand e P (connect_loop_u ps addr) (\<lambda>_. P)"
  unfolding hand_def
proof (intro allI impI)
  fix s s' :: "'a buf_sys_scheme" and r assume "connect_loop_u ps addr s = Some (r, s')"
  then show "buf_sys.more s' = buf_sys.more s \<and>
      (\<exists>cs. ran s s' cs \<and> P + created cs = (case r of Inl x \<Rightarrow> {#} | Inr x \<Rightarrow> P) + closed cs \<and> outcome e r)"
  proof (induction s rule: measure_induct_rule [where f = "\<lambda>s. length (answers s)"])
    case (less s)
    from less.prems obtain a s1 where c: "syscall (CConnect ps addr) s = Some (Inr a, s1)"
      by (subst (asm) connect_loop_u.simps) (auto split: option.splits sum.splits)
    then have s1: "ran s s1 [(CConnect ps addr, a)]" "buf_sys.more s1 = buf_sys.more s"
      "length (answers s1) < length (answers s)" by (auto simp: syscall_Some ran_def)
    show ?case
    proof (cases "sr_ret a \<noteq> 0 \<and> sr_err a = EINTR")
      case True
      with less.prems c have "connect_loop_u ps addr s1 = Some (r, s')" by (subst (asm) connect_loop_u.simps) simp
      from less.IH [OF s1(3) this] obtain cs where cs: "ran s1 s' cs" "buf_sys.more s' = buf_sys.more s1"
        "P + created cs = (case r of Inl x \<Rightarrow> {#} | Inr x \<Rightarrow> P) + closed cs" "outcome e r" by blast
      with ran_trans [OF s1(1) cs(1)] s1(2) show ?thesis
        by (intro conjI exI [of _ "(CConnect ps addr, a) # cs"]) simp_all
    next
      case False
      with less.prems c have "\<exists>x. r = Inr x" "s' = s1"
        by (subst (asm) connect_loop_u.simps; auto split: if_splits)+
      with s1 show ?thesis by (intro conjI exI [of _ "[(CConnect ps addr, a)]"]) auto
    qed
  qed
qed

lemma hand_sum [hand_intros]:
  "(\<And>y. x = Inl y \<Longrightarrow> hand e P (f y) Q) \<Longrightarrow> (\<And>y. x = Inr y \<Longrightarrow> hand e P (g y) Q) \<Longrightarrow>
    hand e P (case x of Inl y \<Rightarrow> f y | Inr y \<Rightarrow> g y) Q"
  by (cases x) auto

lemma hand_usocket_neutral [hand_intros]:
  "hand e P (usocket_shutdown ps how) (\<lambda>_. P)" "hand e P (usocket_connect ps addr) (\<lambda>_. P)"
  "hand e P (usocket_bind ps addr) (\<lambda>_. P)" "hand e P (usocket_listen ps backlog) (\<lambda>_. P)"
  unfolding usocket_shutdown_def usocket_connect_def usocket_bind_def usocket_listen_def
  by - ((rule hand_bind | rule hand_intros | simp)+)

lemma hand_usocket_transfers [hand_intros]:
  "hand e P (usocket_send ps d) (\<lambda>_. P)" "hand e P (usocket_write ps d) (\<lambda>_. P)"
  "hand e P (usocket_recv ps k) (\<lambda>_. P)" "hand e P (usocket_read ps k) (\<lambda>_. P)"
  unfolding usocket_send_def usocket_write_def usocket_recv_def usocket_read_def
  by - ((rule hand_if hand_return hand_uretry_loop | simp)+)

lemma hand_uaccept: "hand e P (usocket_accept ps) (\<lambda>(err, pa). P + got_sock err pa)"
  unfolding usocket_accept_def
  by (intro hand_if hand_uretry_loop hand_return) (auto simp: Let_def got_sock_def split: if_splits)

lemma hand_ucreate: "hand e P (usocket_create d t p) (\<lambda>(err, ps). P + got_sock err ps)"
  unfolding usocket_create_def Let_def
  by (rule hand_bind [OF hand_syscall [where Q = "\<lambda>r. P + live (of_int (sr_ret r))"]])
    (auto simp: got_sock_def intro: hand_intros)

lemma hand_udestroy: "hand e (P + live ps) (usocket_destroy ps) (\<lambda>ps'. P + live ps')"
  unfolding usocket_destroy_def
  by (intro hand_if hand_bind [OF hand_ublocking(1)]
      hand_bind [OF hand_syscall [where Q = "\<lambda>_. P"]] hand_return) (auto simp: live_def)

interpretation unix_calm: calm_driver "unix_io env u" for env u
  by unfold_locales
    (simp_all add: unix_io_def usocket_io_def userial_io_def io_init_def hand_usocket_transfers split: io_kind.split)


section \<open>Objects\<close>

definition unix_classes :: "bytes set" where
  "unix_classes = {lit ''unix{master}'', lit ''unix{client}'', lit ''unix{server}''}"

definition class_kind :: "bytes \<Rightarrow> io_kind option" where
  "class_kind c =
    (if c \<in> unix_classes then Some Socket_io else if c = lit ''serial{client}'' then Some Serial_io else None)"

definition registry_ok :: "(bytes \<rightharpoonup> metatable) \<Rightarrow> bool" where
  "registry_ok reg \<longleftrightarrow> (\<forall>c mt. reg c = Some mt \<longrightarrow>
     (in_group ''unix{any}'' mt \<longrightarrow> c \<in> unix_classes) \<and> (in_group ''serial{any}'' mt \<longrightarrow> c = lit ''serial{client}''))"

text \<open>Every class there is says which functions the \<open>io\<close> of its objects has.\<close>

definition unix_typed :: "'m unix_sys_scheme \<Rightarrow> bool" where
  "unix_typed s \<longleftrightarrow> registry_ok (registry s) \<and> dom class_kind \<subseteq> dom (registry s) \<and>
     (\<forall>p c. meta s p = Some c \<longrightarrow> p < length (unix_heap s) \<and> class_kind c = Some (un_io (unix_heap s ! p)))"

definition held :: "'m unix_sys_scheme \<Rightarrow> nat \<Rightarrow> t_socket multiset" where
  "held s p = (if meta s p = None then {#} else live (un_sock (unix_heap s ! p)))"

definition unix_owned :: "'m unix_sys_scheme \<Rightarrow> t_socket multiset" where
  "unix_owned s = sum_list (map (held s) [0..<length (unix_heap s)])"

definition unix_account :: "'m unix_sys_scheme \<Rightarrow> 'm unix_sys_scheme \<Rightarrow> bool" where
  "unix_account s s' \<longleftrightarrow> (\<exists>cs. ran s s' cs \<and> unix_owned s + created cs = unix_owned s' + closed cs)"

lemma unix_account_refl [simp]: "unix_account s s"
  by (auto simp: unix_account_def intro!: exI [of _ "[]"])

lemma balance_trans:
  fixes a :: "'a multiset"
  assumes "a + c1 = b + d1" "b + c2 = e + d2"
  shows "a + (c1 + c2) = e + (d1 + d2)"
proof -
  have "a + (c1 + c2) = d1 + (b + c2)" unfolding add.assoc [symmetric] assms(1) by (simp only: ac_simps)
  then show ?thesis unfolding assms(2) by (simp only: ac_simps)
qed

lemma unix_account_trans: "unix_account s s1 \<Longrightarrow> unix_account s1 s2 \<Longrightarrow> unix_account s s2"
  unfolding unix_account_def
proof (elim exE conjE)
  fix cs ds assume *: "ran s s1 cs" "unix_owned s + created cs = unix_owned s1 + closed cs"
    "ran s1 s2 ds" "unix_owned s1 + created ds = unix_owned s2 + closed ds"
  from balance_trans [OF *(2,4)] have "unix_owned s + created (cs @ ds) = unix_owned s2 + closed (cs @ ds)"
    unfolding created_simps(3) closed_simps(3) .
  with ran_trans [OF *(1,3)] show "\<exists>cs. ran s s2 cs \<and> unix_owned s + created cs = unix_owned s2 + closed cs" by blast
qed

lemma unix_fields_of_more:
  fixes s s' :: "'m unix_sys_scheme"
  assumes "buf_sys.more s' = buf_sys.more s"
  shows "registry s' = registry s" "meta s' = meta s" "unix_heap s' = unix_heap s" "unix_owned s' = unix_owned s"
    "unix_typed s' = unix_typed s"
proof -
  show f: "registry s' = registry s" "meta s' = meta s" "unix_heap s' = unix_heap s"
    using assms by (cases s; cases s'; simp)+
  then show "unix_owned s' = unix_owned s" "unix_typed s' = unix_typed s"
    by (simp_all add: unix_owned_def held_def [abs_def] unix_typed_def cong: if_cong)
qed

text \<open>What changing one object does to what they all hold.\<close>

lemma unix_owned_change:
  assumes "p < length (unix_heap s)" "length (unix_heap s') = length (unix_heap s)"
    "\<And>q. q \<noteq> p \<Longrightarrow> held s' q = held s q"
  shows "unix_owned s' + held s p = unix_owned s + held s' p"
proof -
  have "map (held s') [0..<length (unix_heap s)] = (map (held s) [0..<length (unix_heap s)])[p := held s' p]"
    using assms(1,3) by (intro nth_equalityI) (simp_all add: nth_list_update)
  then show ?thesis
    using sum_list_update_add [of p "map (held s) [0..<length (unix_heap s)]" "held s' p"] assms(1,2)
    by (simp add: unix_owned_def)
qed

text \<open>A method works on the object at \<open>p\<close>, of this kind and with this descriptor.\<close>

definition at_work :: "nat \<Rightarrow> io_kind \<Rightarrow> t_socket \<Rightarrow> 'm unix_sys_scheme \<Rightarrow> bool" where
  "at_work p kd k s \<longleftrightarrow> unix_typed s \<and> meta s p \<noteq> None \<and> p < length (unix_heap s) \<and>
     un_io (unix_heap s ! p) = kd \<and> un_sock (unix_heap s ! p) = k"

definition sound :: "nat \<Rightarrow> io_kind \<Rightarrow> t_socket \<Rightarrow> ('m unix_sys_scheme, 'a) act \<Rightarrow> bool" where
  "sound p kd k m \<longleftrightarrow> (\<forall>s r s'. at_work p kd k s \<longrightarrow> m s = Some (r, s') \<longrightarrow>
     unix_account s s' \<and> (\<exists>k'. at_work p kd k' s'))"

lemma sound_return: "sound p kd k (act_return x)"
  by (auto simp: sound_def)

lemma sound_get: "sound p kd k (act_get f)"
  by (auto simp: sound_def)

lemma sound_hand:
  fixes m :: "('m unix_sys_scheme, 'a) act"
  assumes "hand True {#} m (\<lambda>_. {#})"
  shows "sound p kd k m"
  unfolding sound_def
proof (intro allI impI)
  fix s r s' assume w: "at_work p kd k s" and run: "m s = Some (r, s')"
  from assms run obtain cs where cs: "ran s s' cs" "created cs = closed cs" "buf_sys.more s' = buf_sys.more s"
    unfolding hand_def by (cases r) fastforce+
  with w unix_fields_of_more [OF cs(3)] show "unix_account s s' \<and> (\<exists>k'. at_work p kd k' s')"
    by (auto simp: unix_account_def at_work_def)
qed

lemma sound_hand_bind:
  fixes m :: "('m unix_sys_scheme, 'a) act"
  assumes "hand True {#} m (\<lambda>_. {#})" "\<And>x. sound p kd k (f x)"
  shows "sound p kd k (act_bind m f)"
  unfolding sound_def
proof (intro allI impI)
  fix s r s' assume w: "at_work p kd k s" and run: "act_bind m f s = Some (r, s')"
  from run obtain q s1 where m: "m s = Some (q, s1)" by (auto simp: act_bind_Some_iff)
  with assms(1) obtain cs where cs: "ran s s1 cs" "created cs = closed cs" "buf_sys.more s1 = buf_sys.more s"
    unfolding hand_def by (cases q) fastforce+
  with w unix_fields_of_more [OF cs(3)] have 1: "unix_account s s1" "at_work p kd k s1"
    by (auto simp: unix_account_def at_work_def)
  show "unix_account s s' \<and> (\<exists>k'. at_work p kd k' s')"
  proof (cases q)
    case (Inr x)
    with run m have "f x s1 = Some (r, s')" by simp
    with assms(2) 1(2) have "unix_account s1 s' \<and> (\<exists>k'. at_work p kd k' s')" unfolding sound_def by blast
    with 1(1) show ?thesis by (blast intro: unix_account_trans)
  qed (use run m 1 in auto)
qed

text \<open>A call that trades the descriptor in hand for another, which then goes into the object.\<close>

lemma sound_replace:
  fixes m :: "('m unix_sys_scheme, 'x) act"
  assumes "hand False (live k) m (\<lambda>x. live (g x))" "\<And>x k'. sound p kd k' (f x)"
  shows "sound p kd k (act_bind m (\<lambda>x. act_bind (set_unix_sock p (g x)) (\<lambda>_. f x)))"
  unfolding sound_def
proof (intro allI impI)
  fix s r s' assume w: "at_work p kd k s" and run: "act_bind m (\<lambda>x. act_bind (set_unix_sock p (g x)) (\<lambda>_. f x)) s = Some (r, s')"
  from run obtain q s1 where m: "m s = Some (q, s1)" by (auto simp: act_bind_Some_iff)
  with assms(1) obtain x cs where *: "q = Inr x" "buf_sys.more s1 = buf_sys.more s" "ran s s1 cs"
    "live k + created cs = live (g x) + closed cs" unfolding hand_def by fastforce
  note f = unix_fields_of_more [OF *(2)]
  define s2 where "s2 = s1\<lparr>unix_heap := (unix_heap s1)[p := (unix_heap s1 ! p)\<lparr>un_sock := g x\<rparr>]\<rparr>"
  from run m *(1) have rest: "f x s2 = Some (r, s')"
    by (simp add: set_unix_sock_def put_unix_def s2_def)
  have h: "held s p = live k" "held s2 p = live (g x)" using w by (auto simp: held_def s2_def f at_work_def)
  have "unix_owned s2 + live k = unix_owned s + live (g x)"
    using unix_owned_change [of p s s2] w unfolding h by (simp add: s2_def f held_def at_work_def)
  then have "unix_owned s + created cs + live (g x) = unix_owned s2 + closed cs + live (g x)"
    using *(4) by (metis add.assoc add.commute)
  moreover have "ran s s2 cs" using *(3) by (simp add: s2_def ran_def)
  moreover have typed: "unix_typed s2"
    using w by (auto simp: at_work_def unix_typed_def s2_def f nth_list_update)
  moreover have "at_work p kd (g x) s2" using w typed by (auto simp: at_work_def s2_def f)
  ultimately have "unix_account s s2" "at_work p kd (g x) s2" by (auto simp: unix_account_def)
  with rest assms(2) show "unix_account s s' \<and> (\<exists>k'. at_work p kd k' s')"
    unfolding sound_def by (blast intro: unix_account_trans)
qed

lemma sound_replace_pair:
  fixes m :: "('m unix_sys_scheme, 'x \<times> t_socket) act"
  assumes "hand False (live k) m (\<lambda>x. live (snd x))" "\<And>x k'. sound p kd k' (f x)"
  shows "sound p kd k (act_bind m (\<lambda>(x, ps). act_bind (set_unix_sock p ps) (\<lambda>_. f x)))"
  using sound_replace [where g = snd and f = "\<lambda>x. f (fst x)", OF assms] by (simp add: case_prod_unfold)

lemma sound_setclass:
  assumes "class_kind c = Some kd"
  shows "sound p kd k (act_bind (auxiliar_setclass c p) (\<lambda>_. act_return y))"
  unfolding sound_def
proof (intro allI impI)
  fix s :: "'m unix_sys_scheme" and r s'
  assume w: "at_work p kd k s" and run: "act_bind (auxiliar_setclass c p) (\<lambda>_. act_return y) s = Some (r, s')"
  with assms have "registry s c \<noteq> None" by (auto simp: at_work_def unix_typed_def)
  with run have s': "s' = s\<lparr>meta := (meta s)(p \<mapsto> c)\<rparr>" by (auto simp: auxiliar_setclass_def)
  have "held s' = held s" using w by (auto simp: fun_eq_iff held_def s' at_work_def)
  with w assms show "unix_account s s' \<and> (\<exists>k'. at_work p kd k' s')"
    by (auto simp: unix_account_def unix_owned_def at_work_def unix_typed_def s' ran_def intro!: exI [of _ "[]"])
qed

lemma sound_if: "(b \<Longrightarrow> sound p kd k m) \<Longrightarrow> (\<not> b \<Longrightarrow> sound p kd k n) \<Longrightarrow> sound p kd k (if b then m else n)"
  by simp

lemma sound_option:
  "(x = None \<Longrightarrow> sound p kd k m) \<Longrightarrow> (\<And>y. x = Some y \<Longrightarrow> sound p kd k (f y)) \<Longrightarrow>
    sound p kd k (case x of None \<Rightarrow> m | Some y \<Rightarrow> f y)"
  by (cases x) auto


section \<open>From the object to the method\<close>

definition unix_behaves :: "('m unix_sys_scheme, 'a) act \<Rightarrow> bool" where
  "unix_behaves m \<longleftrightarrow> (\<forall>s r s'. unix_typed s \<longrightarrow> m s = Some (r, s') \<longrightarrow> unix_typed s' \<and> unix_account s s')"

lemma at_work_load: "at_work p kd k (load_unix u s) = at_work p kd k s" "unix_account (load_unix u s) s' = unix_account s s'"
  by (simp_all add: load_unix_def at_work_def unix_typed_def unix_account_def unix_owned_def held_def [abs_def] ran_def
      cong: if_cong)

lemma saved_unix_simps [simp]: "un_sock (saved_unix s u) = un_sock u" "un_io (saved_unix s u) = un_io u"
  by (simp_all add: saved_unix_def)

lemma save_unix_keeps:
  assumes "p < length (unix_heap s)"
  shows "unix_typed (save_unix s0 p s) = unix_typed s" "unix_owned (save_unix s0 p s) = unix_owned s"
    "ran s1 (save_unix s0 p s) cs = ran s1 s cs"
proof -
  have h: "un_sock (unix_heap (save_unix s0 p s) ! q) = un_sock (unix_heap s ! q)"
    "un_io (unix_heap (save_unix s0 p s) ! q) = un_io (unix_heap s ! q)" for q
    using assms by (simp_all add: save_unix_def nth_list_update)
  show "unix_typed (save_unix s0 p s) = unix_typed s"
    unfolding unix_typed_def h by (simp add: save_unix_def)
  show "unix_owned (save_unix s0 p s) = unix_owned s"
    unfolding unix_owned_def held_def [abs_def] h by (simp add: save_unix_def cong: if_cong)
qed (simp add: save_unix_def ran_def)

lemma with_unix_sound:
  assumes "\<And>u. un_io u = kd \<Longrightarrow> sound p kd (un_sock u) (f u)" "unix_typed s" "meta s p = Some c" "class_kind c = Some kd"
    "with_unix p f s = Some (r, s')"
  shows "unix_typed s' \<and> unix_account s s'"
proof -
  let ?u = "unix_heap s ! p"
  from assms(2-4) have p: "p < length (unix_heap s)" "un_io ?u = kd" by (auto simp: unix_typed_def)
  with assms(5) obtain s1 where run: "f ?u (load_unix ?u s) = Some (r, s1)" and s': "s' = save_unix s p s1"
    by (auto simp: with_unix_def split: option.splits)
  have "at_work p kd (un_sock ?u) (load_unix ?u s)" unfolding at_work_load using assms(2,3) p by (simp add: at_work_def)
  with assms(1) [OF p(2)] run have "unix_account (load_unix ?u s) s1" "\<exists>k'. at_work p kd k' s1"
    unfolding sound_def by blast+
  then show ?thesis
    unfolding at_work_load s' by (auto simp: unix_account_def at_work_def save_unix_keeps)
qed

lemma behaves_unix_class:
  assumes "class_kind (lit cls) = Some kd" "\<And>p u. un_io u = kd \<Longrightarrow> sound p kd (un_sock u) (f p u args)"
  shows "unix_behaves (unix_class cls f args)"
  unfolding unix_behaves_def unix_class_def
proof (intro allI impI)
  fix s r s' assume t: "unix_typed s"
    and run: "act_bind (auxiliar_checkclass (lit cls) args 1) (\<lambda>p. with_unix p (\<lambda>u. f p u args)) s = Some (r, s')"
  from run obtain q where c: "auxiliar_checkclass (lit cls) args 1 s = Some (q, s)"
    by (auto simp: act_bind_Some_iff dest: checkclass_cases)
  show "unix_typed s' \<and> unix_account s s'"
  proof (cases q)
    case (Inr p)
    with run c checkclass_cases [OF c] have "meta s p = Some (lit cls)" "with_unix p (\<lambda>u. f p u args) s = Some (r, s')" by simp_all
    with with_unix_sound [OF assms(2) t _ assms(1)] show ?thesis by blast
  qed (use run c t in simp)
qed

lemma behaves_unix_group:
  assumes "grp = ''unix{any}'' \<and> kd = Socket_io \<or> grp = ''serial{any}'' \<and> kd = Serial_io"
    "\<And>p u. un_io u = kd \<Longrightarrow> sound p kd (un_sock u) (f p u args)"
  shows "unix_behaves (unix_group grp f args)"
  unfolding unix_behaves_def unix_group_def
proof (intro allI impI)
  fix s r s' assume t: "unix_typed s"
    and run: "act_bind (auxiliar_checkgroup (lit grp) args 1) (\<lambda>p. with_unix p (\<lambda>u. f p u args)) s = Some (r, s')"
  from run obtain q where c: "auxiliar_checkgroup (lit grp) args 1 s = Some (q, s)"
    by (auto simp: act_bind_Some_iff dest: checkgroup_cases)
  show "unix_typed s' \<and> unix_account s s'"
  proof (cases q)
    case (Inr p)
    with checkgroup_cases [OF c] obtain cl mt where m: "meta s p = Some cl" "registry s cl = Some mt" "in_group grp mt"
      by (auto simp: in_group_def)
    with t assms(1) have "cl \<in> unix_classes \<and> kd = Socket_io \<or> cl = lit ''serial{client}'' \<and> kd = Serial_io"
      unfolding unix_typed_def registry_ok_def by blast
    then have "class_kind cl = Some kd" by (auto simp: class_kind_def unix_classes_def)
    from with_unix_sound [OF assms(2) t m(1) this] run c Inr show ?thesis by auto
  qed (use run c t in simp)
qed


section \<open>New objects\<close>

lemma with_unix_hand:
  fixes m :: "('m unix_sys_scheme, unit) act"
  assumes "hand False {#} m (\<lambda>_. {#})" "with_unix p (\<lambda>_. m) s = Some (r, s')" "p < length (unix_heap s)"
  obtains cs u where "r = Inr ()" "ran s s' cs" "created cs = closed cs" "registry s' = registry s" "meta s' = meta s"
    "unix_heap s' = (unix_heap s)[p := u]" "un_sock u = un_sock (unix_heap s ! p)" "un_io u = un_io (unix_heap s ! p)"
proof -
  from assms(2,3) obtain s1 where run: "m (load_unix (unix_heap s ! p) s) = Some (r, s1)" and s': "s' = save_unix s p s1"
    by (auto simp: with_unix_def split: option.splits)
  with assms(1) obtain cs where cs: "ran (load_unix (unix_heap s ! p) s) s1 cs" "created cs = closed cs" "r = Inr ()"
    "buf_sys.more s1 = buf_sys.more (load_unix (unix_heap s ! p) s)" unfolding hand_def by fastforce
  with unix_fields_of_more [OF cs(4)] show thesis
    by (intro that [of cs "saved_unix s1 (unix_heap s ! p)"]) (simp_all add: s' save_unix_def load_unix_def ran_def)
qed

lemma init_unix_run:
  assumes "init_unix cls kd sock n s = Some (r, s')" "unix_typed s" "n < length (unix_heap s)" "meta s n = None"
    and cls: "class_kind (lit cls) = Some kd"
  obtains cs u where "ran s s' cs" "created cs = closed cs" "registry s' = registry s"
    "meta s' = (meta s)(n \<mapsto> lit cls)" "unix_heap s' = (unix_heap s)[n := u]" "un_sock u = sock" "un_io u = kd"
proof -
  from assms(2) cls have reg: "registry s (lit cls) \<noteq> None" by (auto simp: unix_typed_def)
  define s1 where "s1 = s\<lparr>meta := (meta s)(n \<mapsto> lit cls)\<rparr>"
  have 1: "auxiliar_setclass (lit cls) n s = Some (Inr (), s1)" using reg by (auto simp: auxiliar_setclass_def s1_def)
  from assms(1) 1 obtain q s2 where 2: "usocket_setnonblocking sock s1 = Some (q, s2)"
    by (auto simp: init_unix_def act_bind_Some_iff simp del: lit_simps)
  from hand_ublocking(2) [of False "{#}" sock, unfolded hand_def] 2 obtain cs where
    cs: "ran s1 s2 cs" "created cs = closed cs" "buf_sys.more s2 = buf_sys.more s1" "q = Inr ()" by fastforce
  note f = unix_fields_of_more [OF cs(3)]
  define s3 where "s3 = s2\<lparr>unix_heap := (unix_heap s2)[n := (unix_heap s2 ! n)\<lparr>un_sock := sock, un_io := kd\<rparr>]\<rparr>"
  from assms(1) 1 2 cs(4) obtain q' s4 where 4: "with_unix n (\<lambda>_. act_bind (timeout_init (- 1) (- 1)) (\<lambda>_. buffer_init)) s3 = Some (q', s4)"
    and s': "s4 = s'"
    by (auto simp: init_unix_def act_bind_Some_iff put_unix_def s3_def simp del: lit_simps)
  have n: "n < length (unix_heap s3)" using assms(3) by (simp add: s3_def f s1_def)
  have h: "hand False {#} (act_bind (timeout_init (- 1) (- 1)) (\<lambda>_. buffer_init)) (\<lambda>_. {#})"
    by (rule hand_bind) (rule hand_intros)+
  show thesis
  proof (rule with_unix_hand [OF h 4 n])
    fix ds u
    assume u: "ran s3 s4 ds" "created ds = closed ds" "registry s4 = registry s3" "meta s4 = meta s3"
      "unix_heap s4 = (unix_heap s3)[n := u]" "un_sock u = un_sock (unix_heap s3 ! n)" "un_io u = un_io (unix_heap s3 ! n)"
    have "ran s s3 cs" using cs(1) by (simp add: s3_def s1_def ran_def)
    from ran_trans [OF this u(1)] cs(2) u(2-) n show thesis
      by (intro that [of "cs @ ds" u]) (simp_all add: s' [symmetric] s3_def f s1_def)
  qed
qed


lemma new_unix_run:
  assumes "new_unix fresh s = Some (r, s')" "unix_typed s"
  shows "r = Inr (length (unix_heap s))" "unix_typed s'" "unix_owned s' = unix_owned s" "ran s s' []"
    "meta s' (length (unix_heap s)) = None" "length (unix_heap s') = Suc (length (unix_heap s))"
    "at_work p kd k s \<Longrightarrow> at_work p kd k s'"
proof -
  let ?n = "length (unix_heap s)"
  from assms(2) have none: "meta s ?n = None" by (cases "meta s ?n") (auto simp: unix_typed_def)
  with assms(1) have s': "s' = s\<lparr>unix_heap := unix_heap s @ [fresh], meta := meta s\<rparr>" and r: "r = Inr ?n"
    by (auto simp: new_unix_def fun_upd_idem)
  show "r = Inr ?n" by (rule r)
  show "ran s s' []" "meta s' ?n = None" "length (unix_heap s') = Suc ?n" using none by (simp_all add: s' ran_def)
  show typed: "unix_typed s'" using assms(2) by (fastforce simp: unix_typed_def s' nth_append)
  have "map (held s') [0..<?n] = map (held s) [0..<?n]" by (simp add: held_def s' nth_append cong: if_cong)
  moreover have "held s' ?n = {#}" using none by (simp add: held_def s')
  ultimately show "unix_owned s' = unix_owned s"
    unfolding unix_owned_def \<open>length (unix_heap s') = Suc ?n\<close> by (simp del: map_eq_conv)
  show "at_work p kd k s'" if "at_work p kd k s" using that typed by (auto simp: at_work_def s' nth_append)
qed

lemma init_unix_effect:
  assumes "init_unix cls kd sock n s = Some (r, s')" "unix_typed s" "n < length (unix_heap s)" "meta s n = None"
    "class_kind (lit cls) = Some kd"
  shows "unix_typed s'" "\<exists>cs. ran s s' cs \<and> created cs = closed cs" "unix_owned s' = unix_owned s + live sock"
    "at_work p kd' k s \<Longrightarrow> at_work p kd' k s'"
proof -
  have "unix_typed s' \<and> (\<exists>cs. ran s s' cs \<and> created cs = closed cs) \<and> unix_owned s' = unix_owned s + live sock \<and>
      (at_work p kd' k s \<longrightarrow> at_work p kd' k s')"
    using assms
  proof (rule init_unix_run)
    fix cs u
    assume u: "ran s s' cs" "created cs = closed cs" "registry s' = registry s" "meta s' = (meta s)(n \<mapsto> lit cls)"
      "unix_heap s' = (unix_heap s)[n := u]" "un_sock u = sock" "un_io u = kd"
    have typed: "unix_typed s'"
      using assms(2,3,5) unfolding unix_typed_def u(3-5) by (auto simp: nth_list_update u(7) simp del: lit_simps)
    have "unix_owned s' + held s n = unix_owned s + held s' n"
      by (rule unix_owned_change) (use assms(3) in \<open>auto simp: u(4,5) held_def\<close>)
    moreover have "held s n = {#}" "held s' n = live sock" using assms(3,4) by (simp_all add: held_def u(4-6))
    ultimately show ?thesis
      using u(1,2) typed assms(4) by (auto simp: at_work_def u(4,5) nth_list_update)
  qed
  then show "unix_typed s'" "\<exists>cs. ran s s' cs \<and> created cs = closed cs" "unix_owned s' = unix_owned s + live sock"
    "at_work p kd' k s \<Longrightarrow> at_work p kd' k s'" by blast+
qed

text \<open>A call that may bring a descriptor, which then goes into a new object.\<close>

definition spawn_unix :: "string \<Rightarrow> t_unix \<Rightarrow> (int \<Rightarrow> lua_value list) \<Rightarrow> int \<times> t_socket \<Rightarrow> ('m unix_sys_scheme, lua_value list) act" where
  "spawn_unix cls fresh reply = (\<lambda>(err, sock).
     if err = IO_DONE then act_bind (new_unix fresh) (init_unix cls Socket_io sock) else act_return (reply err))"

lemma spawn_unix_run:
  fixes m :: "('m unix_sys_scheme, int \<times> t_socket) act"
  assumes "hand False {#} m (\<lambda>(err, sock). got_sock err sock)" "class_kind (lit cls) = Some Socket_io"
    "act_bind m (spawn_unix cls fresh reply) s = Some (r, s')" "unix_typed s"
  shows "unix_typed s' \<and> unix_account s s' \<and> (at_work p kd k s \<longrightarrow> at_work p kd k s')"
proof -
  from assms(3) obtain q s1 where m: "m s = Some (q, s1)" by (auto simp: act_bind_Some_iff)
  with assms(1) obtain err sock cs where cs: "q = Inr (err, sock)" "ran s s1 cs"
    "created cs = got_sock err sock + closed cs" "buf_sys.more s1 = buf_sys.more s" unfolding hand_def by fastforce
  note f = unix_fields_of_more [OF cs(4)]
  from assms(3) m cs(1) have run: "spawn_unix cls fresh reply (err, sock) s1 = Some (r, s')" by simp
  have w1: "at_work p kd k s1 = at_work p kd k s" by (simp add: at_work_def f)
  show ?thesis
  proof (cases "err = IO_DONE")
    case False
    with run cs f assms(4) w1 show ?thesis by (auto simp: spawn_unix_def unix_account_def got_sock_def)
  next
    case True
    with run obtain q2 s2 where new: "new_unix fresh s1 = Some (q2, s2)"
      by (auto simp: spawn_unix_def act_bind_Some_iff)
    have t1: "unix_typed s1" using f assms(4) by simp
    note n = new_unix_run [OF new t1]
    from run True new n(1) have init: "init_unix cls Socket_io sock (length (unix_heap s1)) s2 = Some (r, s')"
      by (simp add: spawn_unix_def)
    have lt: "length (unix_heap s1) < length (unix_heap s2)" using n(6) by simp
    note i = init_unix_effect [OF init n(2) lt n(5) assms(2)]
    from i(2) obtain ds where ds: "ran s2 s' ds" "created ds = closed ds" by blast
    from ran_trans [OF ran_trans [OF cs(2) n(4)] ds(1)] have "ran s s' (cs @ ds)" by simp
    moreover have "unix_owned s + created (cs @ ds) = unix_owned s' + closed (cs @ ds)"
      using cs(3) ds(2) i(3) n(3) f(4) True by (simp add: got_sock_def ac_simps)
    ultimately show ?thesis using i(1,4) n(7) w1 by (auto simp: unix_account_def)
  qed
qed

lemma sound_spawn:
  fixes m :: "('m unix_sys_scheme, int \<times> t_socket) act"
  assumes "hand False {#} m (\<lambda>(err, sock). got_sock err sock)" "class_kind (lit cls) = Some Socket_io"
  shows "sound p kd k (act_bind m (spawn_unix cls fresh reply))"
  unfolding sound_def using spawn_unix_run [OF assms] by (fastforce simp: at_work_def)

lemma behaves_spawn_unix:
  fixes m :: "('m unix_sys_scheme, int \<times> t_socket) act"
  assumes "hand False {#} m (\<lambda>(err, sock). got_sock err sock)" "class_kind (lit cls) = Some Socket_io"
  shows "unix_behaves (act_bind m (spawn_unix cls fresh reply))"
  unfolding unix_behaves_def using spawn_unix_run [OF assms] by blast


section \<open>The functions of unix.c and serial.c\<close>

lemma class_kinds [simp]:
  "class_kind (lit ''unix{master}'') = Some Socket_io" "class_kind (lit ''unix{client}'') = Some Socket_io"
  "class_kind (lit ''unix{server}'') = Some Socket_io" "class_kind (lit ''serial{client}'') = Some Serial_io"
  by (simp_all add: class_kind_def unix_classes_def)

lemmas unix_class_rules =
  behaves_unix_class [where kd = Socket_io, OF class_kinds(1)] behaves_unix_class [where kd = Socket_io, OF class_kinds(2)]
  behaves_unix_class [where kd = Socket_io, OF class_kinds(3)] behaves_unix_class [where kd = Serial_io, OF class_kinds(4)]
  behaves_unix_group [where kd = Socket_io and grp = "''unix{any}''", simplified]
  behaves_unix_group [where kd = Serial_io and grp = "''serial{any}''", simplified]

lemma behaves_unix_streams:
  "unix_behaves (unix_meth_send vm env args)" "unix_behaves (unix_meth_receive vm env args)"
  "unix_behaves (unix_meth_getstats args)" "unix_behaves (unix_meth_setstats vm args)"
  "unix_behaves (unix_meth_settimeout vm args)"
  "unix_behaves (serial_meth_send vm env args)" "unix_behaves (serial_meth_receive vm env args)"
  "unix_behaves (serial_meth_getstats args)" "unix_behaves (serial_meth_setstats vm args)"
  "unix_behaves (serial_meth_settimeout vm args)"
  unfolding unix_meth_send_def unix_meth_receive_def unix_meth_getstats_def unix_meth_setstats_def unix_meth_settimeout_def
    serial_meth_send_def serial_meth_receive_def serial_meth_getstats_def serial_meth_setstats_def serial_meth_settimeout_def
  by - ((rule unix_class_rules sound_hand unix_calm.hand_buffer_methods hand_stats hand_timeout_methods)+)

lemma behaves_unix_plain:
  "unix_behaves (unix_meth_getfd args)" "unix_behaves (unix_meth_dirty args)"
  "unix_behaves (serial_meth_getfd args)" "unix_behaves (serial_meth_dirty args)"
  unfolding unix_meth_getfd_def unix_meth_dirty_def serial_meth_getfd_def serial_meth_dirty_def
  by - ((rule unix_class_rules sound_return sound_get)+)

lemma hand_posix_options:
  "map_of unix_optset name = Some f \<Longrightarrow> hand True {#} (f vm ienv args ps) (\<lambda>_. {#})"
proof -
  have "hand True {#} (posix_set_keepalive vm ienv args ps) (\<lambda>_. {#})"
    "hand True {#} (posix_set_reuseaddr vm ienv args ps) (\<lambda>_. {#})" "hand True {#} (posix_set_linger vm ienv args ps) (\<lambda>_. {#})"
    unfolding posix_set_keepalive_def posix_set_reuseaddr_def posix_set_linger_def
    by - ((rule hand_bind | rule hand_intros | simp)+)
  then show "map_of unix_optset name = Some f \<Longrightarrow> hand True {#} (f vm ienv args ps) (\<lambda>_. {#})"
    by (auto simp: unix_optset_def simp del: lit_simps split: if_splits)
qed

lemma behaves_unix_setoption: "unix_behaves (unix_meth_setoption vm ienv args)"
  unfolding unix_meth_setoption_def
  by (rule unix_class_rules sound_hand hand_options hand_posix_options)+

lemma behaves_unix_accept: "unix_behaves (unix_meth_accept env fresh args)"
  unfolding unix_meth_accept_def
proof (rule unix_class_rules)
  fix p u
  show "sound p Socket_io (un_sock u) (act_bind timeout_markstart (\<lambda>_. act_bind (usocket_accept (un_sock u))
      (\<lambda>(err, sock). if err = IO_DONE then act_bind (new_unix fresh) (init_unix ''unix{client}'' Socket_io sock)
         else act_return [LNil, push_error (usocket_strerror env err)])))"
    by (rule sound_hand_bind [OF hand_timeouts(3)], rule sound_spawn [unfolded spawn_unix_def])
      (use hand_uaccept [of False "{#}"] in \<open>simp_all del: lit_simps\<close>)
qed

lemma behaves_unix_create: "unix_behaves (unix_global_create env fresh args)"
  unfolding unix_global_create_def
  by (rule behaves_spawn_unix [unfolded spawn_unix_def]) (use hand_ucreate [of False "{#}"] in \<open>simp_all del: lit_simps\<close>)

text \<open>What \<open>bind\<close> and \<open>connect\<close> leave in hand: the descriptor, or nothing after an error.\<close>

lemma hand_close_on_error:
  "hand False (live k) (if b then usocket_destroy k else act_return k) (\<lambda>k'. live k')"
  by (intro hand_if hand_return) (use hand_udestroy [of False "{#}" k] in simp_all)

lemma hand_unix_trybind: "hand False (live k) (unix_trybind env k path) (\<lambda>x. live (snd x))"
  unfolding unix_trybind_def
  by (rule hand_if, rule hand_return, simp, rule hand_bind [OF hand_usocket_neutral(3)],
      rule hand_bind [OF hand_close_on_error], rule hand_return) simp

lemma hand_unix_tryconnect: "hand False (live k) (unix_tryconnect env k path) (\<lambda>x. live (snd x))"
  unfolding unix_tryconnect_def
  by (rule hand_if, rule hand_return, simp, rule hand_bind [OF hand_timeouts(3)], rule hand_bind [OF hand_usocket_neutral(2)],
      rule hand_bind [OF hand_close_on_error], rule hand_return) simp

lemmas hand_check = hand_lua [OF check_no_cast(2)] hand_lua [OF check_no_cast(6)] hand_lua [OF check_no_cast(9)]

lemma behaves_unix_bind: "unix_behaves (unix_meth_bind vm env args)"
  unfolding unix_meth_bind_def
  by (rule unix_class_rules, rule sound_hand_bind [OF hand_check(1)],
      rule sound_replace_pair [OF hand_unix_trybind], rule sound_return)

lemma behaves_unix_connect: "unix_behaves (unix_meth_connect vm env args)"
  unfolding unix_meth_connect_def
  by (rule unix_class_rules, rule sound_hand_bind [OF hand_check(1)],
      rule sound_replace_pair [OF hand_unix_tryconnect], rule sound_option)
    (rule sound_setclass sound_return class_kinds)+

lemma destroy_in_hand_u: "hand False (live k) (usocket_destroy k) (\<lambda>x. live x)"
  using hand_udestroy [of False "{#}" k] by simp

lemma behaves_unix_close: "unix_behaves (unix_meth_close args)" "unix_behaves (serial_meth_close args)"
  unfolding unix_meth_close_def serial_meth_close_def
  by - ((rule unix_class_rules sound_replace destroy_in_hand_u sound_return)+)

lemma behaves_unix_states: "unix_behaves (unix_meth_listen vm env args)" "unix_behaves (unix_meth_shutdown vm args)"
proof -
  show "unix_behaves (unix_meth_listen vm env args)"
    unfolding unix_meth_listen_def
    by (rule unix_class_rules, rule sound_hand_bind [OF hand_check(2)], rule sound_hand_bind [OF hand_usocket_neutral(4)],
        rule sound_if, rule sound_return, rule sound_setclass, rule class_kinds)
  show "unix_behaves (unix_meth_shutdown vm args)"
    unfolding unix_meth_shutdown_def
    by (rule unix_class_rules, rule sound_hand_bind [OF hand_check(3)], rule sound_hand_bind [OF hand_usocket_neutral(1)],
        rule sound_return)
qed

lemma behaves_unix_tostring: "unix_behaves (auxiliar_tostring vm args)"
  by (auto simp: unix_behaves_def auxiliar_tostring_def Let_def split: option.splits lua_value.splits)

lemma behaves_serial_create: "unix_behaves (serial_global_create vm env fresh args)"
  unfolding unix_behaves_def
proof (intro allI impI)
  fix s :: "'a unix_sys_scheme" and r s'
  assume t: "unix_typed s" and run: "serial_global_create vm env fresh args s = Some (r, s')"
  show "unix_typed s' \<and> unix_account s s'"
  proof (cases "luaL_checkstring vm args 1")
    case (Inl e)
    with run t show ?thesis by (simp add: serial_global_create_def act_bind_def)
  next
    case (Inr path)
    obtain q s1 where new: "new_unix fresh s = Some (q, s1)" by (simp add: new_unix_def)
    note n = new_unix_run [OF new t]
    from run Inr new n(1) obtain a rs where a: "answers s1 = a # rs"
      by (auto simp: serial_global_create_def act_bind_Some_iff syscall_Some)
    define s2 where "s2 = s1\<lparr>answers := rs, trace := trace s1 @ [(COpen path 0x102, a)]\<rparr>"
    have open_run: "ran s1 s2 [(COpen path 0x102, a)]" "buf_sys.more s2 = buf_sys.more s1"
      by (simp_all add: s2_def ran_def a)
    note f = unix_fields_of_more [OF open_run(2)]
    let ?sock = "of_int (sr_ret a) :: t_socket"
    have sys: "syscall (COpen path 0x102) s1 = Some (Inr a, s2)" by (simp add: syscall_def a s2_def)
    have ran2: "ran s s2 [(COpen path 0x102, a)]" using ran_trans [OF n(4) open_run(1)] by simp
    show ?thesis
    proof (cases "sint ?sock < 0")
      case True
      with run Inr new n(1) sys have "s' = s2" by (simp add: serial_global_create_def)
      with n(2,3) f ran2 True show ?thesis
        by (auto simp: unix_account_def intro!: exI [of _ "[(COpen path 0x102, a)]"])
    next
      case False
      with run Inr new n(1) sys have init: "init_unix ''serial{client}'' Serial_io ?sock (length (unix_heap s)) s2 = Some (r, s')"
        by (simp add: serial_global_create_def Let_def)
      have "unix_typed s2" "length (unix_heap s) < length (unix_heap s2)" "meta s2 (length (unix_heap s)) = None"
        using n f by simp_all
      note i = init_unix_effect [OF init this class_kinds(4)]
      from i(2) obtain ds where ds: "ran s2 s' ds" "created ds = closed ds" by blast
      have "?sock \<noteq> SOCKET_INVALID" using False by (intro notI) simp
      then have "unix_owned s + created ((COpen path 0x102, a) # ds) = unix_owned s' + closed ((COpen path 0x102, a) # ds)"
        using i(3) n(3) f(4) ds(2) False by (simp add: Let_def live_def ac_simps)
      with ran_trans [OF ran2 ds(1)] i(1) show ?thesis
        by (auto simp: unix_account_def simp del: created_simps(2) closed_simps(2))
    qed
  qed
qed


section \<open>Runs\<close>

definition unix_funcs :: "lua_vm \<Rightarrow> posix_env \<Rightarrow> inet_env \<Rightarrow> t_unix \<Rightarrow> (string \<times> 'm umeth) list" where
  "unix_funcs vm env ienv fresh =
    unix_methods vm env ienv fresh @ serial_methods vm env @
    [(''unix'', unix_global_create env fresh), (''serial'', serial_global_create vm env fresh)]"

lemma unix_funcs_behave:
  "(name, f) \<in> set (unix_funcs vm env ienv fresh) \<Longrightarrow> name \<noteq> ''setfd'' \<Longrightarrow> unix_behaves (f args)"
  unfolding unix_funcs_def unix_methods_def serial_methods_def
  by (auto simp: behaves_unix_streams behaves_unix_plain behaves_unix_setoption behaves_unix_accept behaves_unix_create
      behaves_unix_bind behaves_unix_connect behaves_unix_close behaves_unix_states behaves_unix_tostring
      behaves_serial_create)

text \<open>\<open>setfd\<close> puts a number in the place of the object's descriptor, without a system call: the new
  number and the old one.\<close>

definition unix_trade :: "lua_vm \<Rightarrow> lua_value list \<Rightarrow> 'm unix_sys_scheme \<Rightarrow> t_socket \<times> t_socket" where
  "unix_trade vm args s =
    (case luaL_checknumber vm args 2 of Inr x \<Rightarrow> of_int (c_int x) | Inl _ \<Rightarrow> SOCKET_INVALID,
     case lua_arg args 1 of Some (LUserdata p) \<Rightarrow> un_sock (unix_heap s ! p) | _ \<Rightarrow> SOCKET_INVALID)"

text \<open>Any functions with any arguments, in memory with any contents. The list has what successful
  calls of \<open>setfd\<close> have traded.\<close>

inductive unix_run ::
  "lua_vm \<Rightarrow> posix_env \<Rightarrow> inet_env \<Rightarrow> 'm unix_sys_scheme \<Rightarrow> (t_socket \<times> t_socket) list \<Rightarrow> 'm unix_sys_scheme \<Rightarrow> bool"
  for vm env ienv where
  start: "unix_run vm env ienv s [] s"
| call: "unix_run vm env ienv s ts s1 \<Longrightarrow> (name, f) \<in> set (unix_funcs vm env ienv fresh) \<Longrightarrow> f args s1 = Some (r, s2) \<Longrightarrow>
    unix_run vm env ienv s (ts @ (if name = ''setfd'' \<and> \<not> isl r then [unix_trade vm args s1] else [])) s2"

definition unix_balanced :: "'m unix_sys_scheme \<Rightarrow> (t_socket \<times> t_socket) list \<Rightarrow> 'm unix_sys_scheme \<Rightarrow> bool" where
  "unix_balanced s ts s' \<longleftrightarrow>
    (\<exists>cs. ran s s' cs \<and> unix_owned s + created cs + fst (traded ts) = unix_owned s' + closed cs + snd (traded ts))"

lemma unix_balanced_account: "unix_balanced s [] s' \<longleftrightarrow> unix_account s s'"
  by (simp add: unix_balanced_def unix_account_def traded_def)

lemma unix_balanced_trans:
  assumes "unix_balanced s ts s1" "unix_balanced s1 us s2"
  shows "unix_balanced s (ts @ us) s2"
proof -
  from assms obtain cs ds where
    *: "ran s s1 cs" "unix_owned s + created cs + fst (traded ts) = unix_owned s1 + closed cs + snd (traded ts)"
    "ran s1 s2 ds" "unix_owned s1 + created ds + fst (traded us) = unix_owned s2 + closed ds + snd (traded us)"
    unfolding unix_balanced_def by blast
  have "unix_owned s + created (cs @ ds) + fst (traded (ts @ us)) =
      (unix_owned s + created cs + fst (traded ts)) + created ds + fst (traded us)"
    by (simp add: traded_def ac_simps)
  also have "\<dots> = closed cs + snd (traded ts) + (unix_owned s1 + created ds + fst (traded us))"
    unfolding *(2) by (simp add: ac_simps)
  also have "\<dots> = unix_owned s2 + closed (cs @ ds) + snd (traded (ts @ us))"
    unfolding *(4) by (simp add: traded_def ac_simps)
  finally show ?thesis using ran_trans [OF *(1,3)] unfolding unix_balanced_def by blast
qed

text \<open>\<open>setfd\<close> on the object it finds.\<close>

lemma setfd_unix:
  assumes "unix_typed s" "meta s p = Some c" "lua_arg args 1 = Some (LUserdata p)"
    and run: "with_unix p (\<lambda>u. act_bind (act_lua (luaL_checknumber vm args 2))
        (\<lambda>x. act_bind (set_unix_sock p (of_int (c_int x))) (\<lambda>_. act_return []))) s = Some (r, s')"
  shows "unix_typed s' \<and> unix_balanced s (if isl r then [] else [unix_trade vm args s]) s'"
proof -
  let ?u = "unix_heap s ! p" and ?l = "load_unix (unix_heap s ! p) s"
  from assms(1,2) have p: "p < length (unix_heap s)" by (auto simp: unix_typed_def)
  from run p obtain s1 where
    step: "act_bind (act_lua (luaL_checknumber vm args 2))
        (\<lambda>x. act_bind (set_unix_sock p (of_int (c_int x))) (\<lambda>_. act_return [])) ?l = Some (r, s1)" and
    s': "s' = save_unix s p s1"
    by (auto simp: with_unix_def split: option.splits)
  have l: "unix_typed ?l" "unix_owned ?l = unix_owned s" "meta ?l = meta s" "unix_heap ?l = unix_heap s" "ran s ?l []"
    using assms(1) by (simp_all add: load_unix_def unix_typed_def unix_owned_def held_def [abs_def] ran_def cong: if_cong)
  show ?thesis
  proof (cases "luaL_checknumber vm args 2")
    case (Inl e)
    with step have s1: "r = Inl e" "s1 = ?l" by simp_all
    have "p < length (unix_heap s1)" using p l(4) s1 by simp
    from save_unix_keeps [OF this, of s] l s1 show ?thesis
      unfolding s' by (auto simp: unix_balanced_account unix_account_def intro!: exI [of _ "[]"])
  next
    case (Inr x)
    let ?k = "of_int (c_int x) :: t_socket"
    from Inr step have r: "r = Inr []" and s1: "s1 = ?l\<lparr>unix_heap := (unix_heap s)[p := ?u\<lparr>un_sock := ?k\<rparr>]\<rparr>"
      by (auto simp: set_unix_sock_def put_unix_def l(4))
    have "p < length (unix_heap s1)" using p s1 by simp
    note saved = save_unix_keeps [OF this, of s]
    have "unix_typed s1" using l(1) p by (auto simp: unix_typed_def s1 l(3,4) nth_list_update)
    moreover have "unix_owned s1 + live (un_sock ?u) = unix_owned s + live ?k"
      using unix_owned_change [of p ?l s1] p l(2) assms(2) by (simp add: s1 l(3,4) held_def)
    moreover have "ran s s1 []" using l(5) by (simp add: s1 ran_def)
    moreover have "unix_trade vm args s = (?k, un_sock ?u)" using assms(3) by (simp add: unix_trade_def Inr)
    ultimately show ?thesis
      using saved r unfolding s' by (auto simp: unix_balanced_def traded_def intro!: exI [of _ "[]"])
  qed
qed

lemma setfd_unix_group:
  assumes "unix_typed s"
    and run: "unix_group grp (\<lambda>p un args. act_bind (act_lua (luaL_checknumber vm args 2))
        (\<lambda>x. act_bind (set_unix_sock p (of_int (c_int x))) (\<lambda>_. act_return []))) args s = Some (r, s')"
  shows "unix_typed s' \<and> unix_balanced s (if isl r then [] else [unix_trade vm args s]) s'"
proof -
  from run obtain q where c: "auxiliar_checkgroup (lit grp) args 1 s = Some (q, s)"
    by (auto simp: unix_group_def act_bind_Some_iff dest: checkgroup_cases)
  show ?thesis
  proof (cases q)
    case (Inl e)
    with run c have "r = Inl e" "s' = s" by (simp_all add: unix_group_def)
    with assms(1) show ?thesis by (simp add: unix_balanced_account)
  next
    case (Inr p)
    with checkgroup_cases [OF c] obtain cl where m: "meta s p = Some cl" "lua_arg args 1 = Some (LUserdata p)" by auto
    from run c Inr show ?thesis by (intro setfd_unix [OF assms(1) m]) (simp add: unix_group_def)
  qed
qed

lemma unix_call_behaves:
  assumes "(name, f) \<in> set (unix_funcs vm env ienv fresh)" "unix_typed s" "f args s = Some (r, s')"
  shows "unix_typed s' \<and> unix_balanced s (if name = ''setfd'' \<and> \<not> isl r then [unix_trade vm args s] else []) s'"
proof (cases "name = ''setfd''")
  case False
  with unix_funcs_behave [OF assms(1) False, of args] assms(2,3) show ?thesis
    by (simp add: unix_behaves_def unix_balanced_account)
next
  case True
  with assms(1) have "f = unix_meth_setfd vm \<or> f = serial_meth_setfd vm"
    by (auto simp: unix_funcs_def unix_methods_def serial_methods_def)
  then have "unix_typed s' \<and> unix_balanced s (if isl r then [] else [unix_trade vm args s]) s'"
    using setfd_unix_group [OF assms(2)] assms(3) unfolding unix_meth_setfd_def serial_meth_setfd_def by blast
  with True show ?thesis by (cases r) simp_all
qed

lemma unix_run_behaves:
  "unix_run vm env ienv s ts s' \<Longrightarrow> unix_typed s \<Longrightarrow> unix_typed s' \<and> unix_balanced s ts s'"
proof (induction rule: unix_run.induct)
  case (start s)
  then show ?case by (simp add: unix_balanced_account)
next
  case (call s ts s1 name f fresh args r s2)
  then have s1: "unix_typed s1" "unix_balanced s ts s1" by blast+
  from unix_call_behaves [OF call.hyps(2) s1(1) call.hyps(3)] unix_balanced_trans [OF s1(2)] show ?case by blast
qed

definition posix_open :: "lua_vm \<Rightarrow> posix_env \<Rightarrow> inet_env \<Rightarrow> t_unix \<Rightarrow> ('m unix_sys_scheme, unit) act" where
  "posix_open vm env ienv fresh = act_bind (unix_open vm env ienv fresh) (\<lambda>_. serial_open vm env)"

definition unix_blank :: "'m unix_sys_scheme \<Rightarrow> bool" where
  "unix_blank s \<longleftrightarrow> registry s = Map.empty \<and> meta s = Map.empty \<and> unix_heap s = []"

text \<open>A step of opening that adds the classes from \<open>C\<close> to \<open>D\<close> to the registry.\<close>

definition enrols :: "bytes set \<Rightarrow> bytes set \<Rightarrow> ('m unix_sys_scheme, 'a) act \<Rightarrow> bool" where
  "enrols C D m \<longleftrightarrow> (\<forall>s. C \<subseteq> dom (registry s) \<longrightarrow> registry_ok (registry s) \<longrightarrow>
     (\<exists>x reg. m s = Some (Inr x, s\<lparr>registry := reg\<rparr>) \<and> D \<subseteq> dom reg \<and> registry_ok reg))"

lemma enrols_bind:
  fixes m :: "('m unix_sys_scheme, 'a) act"
  assumes "enrols C D m" "\<And>x. enrols D E (f x)"
  shows "enrols C E (act_bind m f)"
  unfolding enrols_def
proof (intro allI impI)
  fix s :: "'m unix_sys_scheme" assume "C \<subseteq> dom (registry s)" "registry_ok (registry s)"
  with assms(1) obtain x reg where 1: "m s = Some (Inr x, s\<lparr>registry := reg\<rparr>)" "D \<subseteq> dom reg" "registry_ok reg"
    unfolding enrols_def by blast
  with assms(2) [of x, unfolded enrols_def, rule_format, of "s\<lparr>registry := reg\<rparr>"]
  show "\<exists>x reg. act_bind m f s = Some (Inr x, s\<lparr>registry := reg\<rparr>) \<and> E \<subseteq> dom reg \<and> registry_ok reg"
    by auto
qed

lemma in_group_unix_methods:
  "grp \<in> {''unix{any}'', ''serial{any}''} \<Longrightarrow> in_group grp (fold add_method ms mt) = in_group grp mt"
proof (induction ms arbitrary: mt)
  case (Cons m ms)
  have "in_group grp (add_method m mt) = in_group grp mt"
    using Cons.prems by (cases m) (auto simp: in_group_def add_method_def)
  with Cons show ?case by simp
qed simp

lemma enrols_newclass: "enrols C (insert c C) (auxiliar_newclass c ms)"
  unfolding enrols_def
proof (intro allI impI)
  fix s :: "'a unix_sys_scheme" assume C: "C \<subseteq> dom (registry s)" "registry_ok (registry s)"
  obtain mt where run: "auxiliar_newclass c ms s = Some (Inr (), s\<lparr>registry := (registry s)(c \<mapsto> fold add_method ms mt)\<rparr>)"
    and mt: "mt_fields mt = (case registry s c of None \<Rightarrow> Map.empty | Some m \<Rightarrow> mt_fields m)"
    by (cases "registry s c") (auto simp: auxiliar_newclass_def Let_def)
  have "registry_ok ((registry s)(c \<mapsto> fold add_method ms mt))"
    using C(2) mt by (cases "registry s c") (auto simp: registry_ok_def in_group_unix_methods, simp_all add: in_group_def)
  with C(1) show "\<exists>x reg. auxiliar_newclass c ms s = Some (Inr x, s\<lparr>registry := reg\<rparr>) \<and> insert c C \<subseteq> dom reg \<and> registry_ok reg"
    unfolding run by fastforce
qed

lemma enrols_add2group:
  assumes "c \<in> C" "g = lit ''unix{any}'' \<longrightarrow> c \<in> unix_classes" "g = lit ''serial{any}'' \<longrightarrow> c = lit ''serial{client}''"
  shows "enrols C C (auxiliar_add2group c g)"
  unfolding enrols_def
proof (intro allI impI)
  fix s :: "'a unix_sys_scheme" assume C: "C \<subseteq> dom (registry s)" "registry_ok (registry s)"
  with assms(1) obtain mt where mt: "registry s c = Some mt" by blast
  let ?reg = "(registry s)(c \<mapsto> mt\<lparr>mt_fields := (mt_fields mt)(g \<mapsto> LBool True)\<rparr>)"
  have run: "auxiliar_add2group c g s = Some (Inr (), s\<lparr>registry := ?reg\<rparr>)" by (simp add: auxiliar_add2group_def mt)
  have "registry_ok ?reg"
    using C(2) assms(2,3) mt by (auto simp: registry_ok_def in_group_def simp del: lit_simps)
  with C(1) run show "\<exists>x reg. auxiliar_add2group c g s = Some (Inr x, s\<lparr>registry := reg\<rparr>) \<and> C \<subseteq> dom reg \<and> registry_ok reg"
    by fastforce
qed

lemma enrols_posix_open:
  "enrols {} {lit ''serial{client}'', lit ''unix{server}'', lit ''unix{client}'', lit ''unix{master}''} (posix_open vm env ienv fresh)"
  unfolding posix_open_def unix_open_def serial_open_def Let_def act_bind_assoc_fun
  by (rule enrols_bind enrols_newclass enrols_add2group | (simp add: unix_classes_def; fail))+

lemma posix_open_run:
  assumes "unix_blank s0"
  obtains reg where "posix_open vm env ienv fresh s0 = Some (Inr (), s0\<lparr>registry := reg\<rparr>)"
    "unix_typed (s0\<lparr>registry := reg\<rparr>)" "unix_owned (s0\<lparr>registry := reg\<rparr>) = {#}"
proof -
  have "registry_ok (registry s0)" using assms by (simp add: unix_blank_def registry_ok_def)
  with enrols_posix_open [of vm env ienv fresh] obtain x reg where
    "posix_open vm env ienv fresh s0 = Some (Inr x, s0\<lparr>registry := reg\<rparr>)" "registry_ok reg"
    "{lit ''serial{client}'', lit ''unix{server}'', lit ''unix{client}'', lit ''unix{master}''} \<subseteq> dom reg"
    unfolding enrols_def by (auto simp del: lit_simps)
  moreover have "dom class_kind = {lit ''serial{client}'', lit ''unix{server}'', lit ''unix{client}'', lit ''unix{master}''}"
    by (auto simp: class_kind_def unix_classes_def dom_def simp del: lit_simps split: if_splits)
  ultimately show thesis
    using assms by (intro that [of reg]) (auto simp: unix_blank_def unix_typed_def unix_owned_def simp del: lit_simps)
qed


section \<open>Properties\<close>

text \<open>C18: no descriptor of a Unix socket or a serial line is lost or closed twice, but through \<open>setfd\<close>. Along any
  run of calls of the functions of unix.c and serial.c, failing ones included and whatever new memory contains:
  the descriptors the kernel handed out and the numbers \<open>setfd\<close> put into objects are those the objects hold, those
  that were closed, and those \<open>setfd\<close> overwrote, each counted once. So in a run without \<open>setfd\<close> every descriptor is
  in one object until it is closed, once; and when every object has been closed, so has every descriptor.\<close>

theorem unix_descriptors_accounted:
  assumes "unix_blank s0" "posix_open vm env ienv fresh s0 = Some (Inr (), s)" "unix_run vm env ienv s ts s1"
  shows "created (new_calls s s1) + fst (traded ts) = unix_owned s1 + closed (new_calls s s1) + snd (traded ts) \<and>
    (ts = [] \<longrightarrow> created (new_calls s s1) = unix_owned s1 + closed (new_calls s s1)) \<and>
    (ts = [] \<longrightarrow> (\<forall>p. meta s1 p \<noteq> None \<longrightarrow> un_sock (unix_heap s1 ! p) = SOCKET_INVALID) \<longrightarrow>
      created (new_calls s s1) = closed (new_calls s s1))"
proof -
  from assms(2) posix_open_run [OF assms(1), of vm env ienv fresh] have s: "unix_typed s" "unix_owned s = {#}" by auto
  with unix_run_behaves [OF assms(3)] obtain cs where
    "ran s s1 cs" "created cs + fst (traded ts) = unix_owned s1 + closed cs + snd (traded ts)"
    by (auto simp: unix_balanced_def)
  moreover have "unix_owned s1 = {#}" if "\<forall>p. meta s1 p \<noteq> None \<longrightarrow> un_sock (unix_heap s1 ! p) = SOCKET_INVALID"
  proof -
    have "held s1 = (\<lambda>_. {#})" using that by (auto simp: held_def fun_eq_iff)
    then show ?thesis by (simp add: unix_owned_def)
  qed
  ultimately show ?thesis by (auto simp: new_calls_ran traded_def)
qed

text \<open>The functions an object's \<open>io\<close> has are those of its class, in every state a run reaches.\<close>

lemma unix_kinds_right:
  assumes "unix_blank s0" "posix_open vm env ienv fresh s0 = Some (Inr (), s)" "unix_run vm env ienv s ts s1" "meta s1 p = Some c"
  shows "p < length (unix_heap s1) \<and> class_kind c = Some (un_io (unix_heap s1 ! p))"
proof -
  from assms(2) posix_open_run [OF assms(1), of vm env ienv fresh] have "unix_typed s" by auto
  with unix_run_behaves [OF assms(3)] assms(4) show ?thesis unfolding unix_typed_def by blast
qed

text \<open>The buffer of an object in the heap.\<close>

definition unread_unix :: "t_unix \<Rightarrow> bytes" where
  "unread_unix u = take (un_last u - un_first u) (drop (un_first u) (un_data u))"

definition unix_buffer_ok :: "t_unix \<Rightarrow> bool" where
  "unix_buffer_ok u \<longleftrightarrow> un_first u \<le> un_last u \<and> un_last u \<le> BUF_SIZE \<and> length (un_data u) = BUF_SIZE"

lemma unread_load_unix [simp]: "unread (load_unix u s) = unread_unix u" "buffer_inv (load_unix u s) = unix_buffer_ok u"
  by (simp_all add: unread_def unread_unix_def load_unix_def buffer_inv_def unix_buffer_ok_def)

lemma unread_saved_unix [simp]: "unread_unix (saved_unix s u) = unread s" "unix_buffer_ok (saved_unix s u) = buffer_inv s"
  by (simp_all add: unread_def unread_unix_def saved_unix_def buffer_inv_def unix_buffer_ok_def)

interpretation unix_driver: buf_stream "unix_io env u" for env u
  unfolding unix_io_def
  by (cases "un_io u") (simp_all add: usocket_buffer.buf_stream_axioms userial_buffer.buf_stream_axioms)

text \<open>C19: receive("*l") on a Unix or serial object takes one line off the object's stream, the bytes its
  buffer holds followed by those the kernel delivers: up to and including the LF, the result
  without any CR; with an error, everything that came so far. What follows stays in the object.\<close>

theorem unix_receive_line:
  assumes "unix_meth_receive vm env [LUserdata p, LNil, LStr part] s = Some (r, s') \<and> cls = ''unix{client}'' \<or>
      serial_meth_receive vm env [LUserdata p, LNil, LStr part] s = Some (r, s') \<and> cls = ''serial{client}''"
    "meta s p = Some (lit cls)" "p < length (unix_heap s)" "unix_buffer_ok (unix_heap s ! p)" "list_all call_ok (new_calls s s')"
  shows "\<exists>l. 10 \<notin> set l \<and> unix_buffer_ok (unix_heap s' ! p) \<and>
    (r = Inr [LStr (part @ filter (\<lambda>x. x \<noteq> 13) l), LNil, LNil] \<and>
       l @ [10] @ unread_unix (unix_heap s' ! p) = unread_unix (unix_heap s ! p) @ delivered (new_calls s s') \<or>
     (\<exists>m. r = Inr [LNil, LStr m, LStr (part @ filter (\<lambda>x. x \<noteq> 13) l)] \<and>
       l = unread_unix (unix_heap s ! p) @ delivered (new_calls s s') \<and> unread_unix (unix_heap s' ! p) = []))"
proof -
  let ?u = "unix_heap s ! p" and ?args = "[LUserdata p, LNil, LStr part]"
  have "auxiliar_checkclass (lit cls) ?args 1 s = Some (Inr p, s)"
    using assms(2) by (simp add: auxiliar_checkclass_def auxiliar_getclassudata_def lua_arg_def del: lit_simps)
  with assms(1,3) obtain s1 where run: "buffer_meth_receive vm (unix_io env ?u) ?args (load_unix ?u s) = Some (r, s1)"
    and s': "s' = save_unix s p s1"
    by (auto simp: unix_meth_receive_def serial_meth_receive_def unix_class_def with_unix_def simp del: lit_simps
        split: option.splits)
  have "buf_sys.more s1 = buf_sys.more (load_unix ?u s)"
    using unix_calm.hand_buffer_methods(2) [of vm env ?u ?args] run unfolding hand_def by blast
  from unix_fields_of_more(3) [OF this] have h: "unix_heap s1 = unix_heap s" by (simp add: load_unix_def)
  have "new_calls (load_unix ?u s) s1 = new_calls s s'" by (simp add: new_calls_def s' load_unix_def save_unix_def)
  moreover have "unix_heap s' ! p = saved_unix s1 ?u" using assms(3) by (simp add: s' save_unix_def h)
  ultimately show ?thesis
    using unix_driver.meth_receive_line [OF run] assms(4,5) by simp
qed


text \<open>A failed attempt has closed the descriptor.\<close>

lemma tryconnect_fails:
  assumes "unix_tryconnect env k path s = Some (Inr (Some e, k'), s')" "length path < 108"
  shows "k' = SOCKET_INVALID"
  using assms
  by (auto simp: unix_tryconnect_def act_bind_Some_iff usocket_destroy_def usocket_strerror_def io_strerror_def split: if_splits)

lemma tryconnect_closed:
  assumes "length path < 108" "clock s = ft # ts"
  shows "unix_tryconnect env SOCKET_INVALID path s =
    Some (Inr (Some (lit ''closed''), SOCKET_INVALID), s\<lparr>clock := ts, tm_start := filetime_seconds ft\<rparr>)"
  using assms
  by (simp add: unix_tryconnect_def timeout_markstart_def timeout_gettime_def read_clock_def act_bind_def usocket_connect_def
      usocket_destroy_def usocket_strerror_def io_strerror_def)

lemma meth_connect_run:
  assumes "meta s p = Some (lit ''unix{master}'')" "p < length (unix_heap s)"
  shows "unix_meth_connect vm env [LUserdata p, LStr path] s =
    (case unix_tryconnect env (un_sock (unix_heap s ! p)) (c_str path) (load_unix (unix_heap s ! p) s) of
       None \<Rightarrow> None
     | Some (Inl x, s1) \<Rightarrow> Some (Inl x, save_unix s p s1)
     | Some (Inr (err, k), s1) \<Rightarrow>
         (let s2 = s1\<lparr>unix_heap := (unix_heap s1)[p := (unix_heap s1 ! p)\<lparr>un_sock := k\<rparr>]\<rparr>;
              s3 = (case err of
                      Some e \<Rightarrow> s2
                    | None \<Rightarrow> s2\<lparr>meta := (meta s2)(p := if registry s2 (lit ''unix{client}'') = None then None
                                                        else Some (lit ''unix{client}''))\<rparr>)
          in Some (Inr (unix_reply err), save_unix s p s3)))"
proof -
  have 1: "auxiliar_checkclass (lit ''unix{master}'') [LUserdata p, LStr path] 1 s = Some (Inr p, s)"
    using assms(1) by (simp add: auxiliar_checkclass_def auxiliar_getclassudata_def lua_arg_def del: lit_simps)
  have 2: "luaL_checkstring vm [LUserdata p, LStr path] 2 = Inr (c_str path)" by (simp add: lua_arg_simps)
  show ?thesis
    using assms(2) 1 2
    by (auto simp: unix_meth_connect_def unix_class_def with_unix_def act_bind_def set_unix_sock_def put_unix_def
        auxiliar_setclass_def Let_def simp del: lit_simps split: option.split sum.split)
qed

text \<open>One attempt after the other on the same object, with the results of all of them; none when an
  attempt raises an error.\<close>

fun connects :: "lua_vm \<Rightarrow> posix_env \<Rightarrow> nat \<Rightarrow> bytes list \<Rightarrow> 'm unix_sys_scheme \<Rightarrow> (lua_value list list \<times> 'm unix_sys_scheme) option" where
  "connects vm env p [] s = Some ([], s)"
| "connects vm env p (path # paths) s =
    (case unix_meth_connect vm env [LUserdata p, LStr path] s of
       Some (Inr xs, s1) \<Rightarrow>
         (case connects vm env p paths s1 of Some (yss, s2) \<Rightarrow> Some (xs # yss, s2) | None \<Rightarrow> None)
     | _ \<Rightarrow> None)"

text \<open>What an attempt on a closed master answers, without a system call.\<close>

definition refusal :: "bytes \<Rightarrow> lua_value list" where
  "refusal path = [LNil, LStr (if length (c_str path) < 108 then lit ''closed'' else lit ''path too long'')]"

lemma tryconnect_too_long:
  "\<not> length path < 108 \<Longrightarrow> unix_tryconnect env k path s = Some (Inr (Some (lit ''path too long''), k), s)"
  by (simp add: unix_tryconnect_def)

lemma connect_closed:
  assumes "meta s p = Some (lit ''unix{master}'')" "p < length (unix_heap s)" "un_sock (unix_heap s ! p) = SOCKET_INVALID"
    "clock s = ft # ts"
  obtains s' ts' where "unix_meth_connect vm env [LUserdata p, LStr path] s = Some (Inr (refusal path), s')"
    "trace s' = trace s" "meta s' = meta s" "p < length (unix_heap s')" "un_sock (unix_heap s' ! p) = SOCKET_INVALID"
    "clock s' = ts' @ ts"
proof (cases "length (c_str path) < 108")
  case True
  have clk: "clock (load_unix (unix_heap s ! p) s) = ft # ts" using assms(4) by (simp add: load_unix_def)
  show thesis
    by (rule that [where ts' = "[]"], subst meth_connect_run [OF assms(1,2)], subst assms(3),
        subst tryconnect_closed [OF True clk])
      (simp add: Let_def unix_reply_def refusal_def True del: lit_simps,
        use assms(2,3) in \<open>simp_all add: save_unix_def load_unix_def\<close>)
next
  case False
  show thesis
    by (rule that [where ts' = "[ft]"], subst meth_connect_run [OF assms(1,2)], subst tryconnect_too_long [OF False])
      (simp add: Let_def unix_reply_def refusal_def False del: lit_simps,
        use assms(2-4) in \<open>simp_all add: save_unix_def load_unix_def\<close>)
qed

lemma connects_closed:
  assumes "meta s p = Some (lit ''unix{master}'')" "p < length (unix_heap s)" "un_sock (unix_heap s ! p) = SOCKET_INVALID"
    "length paths \<le> length (clock s)"
  shows "\<exists>s'. connects vm env p paths s = Some (map refusal paths, s') \<and> new_calls s s' = []"
  using assms
proof (induction paths arbitrary: s)
  case Nil
  then show ?case by (simp add: new_calls_def)
next
  case (Cons path paths)
  then obtain ft ts where clk: "clock s = ft # ts" "length paths \<le> length ts" by (cases "clock s") auto
  obtain s1 ts' where one: "unix_meth_connect vm env [LUserdata p, LStr path] s = Some (Inr (refusal path), s1)"
    "trace s1 = trace s" "meta s1 = meta s" "p < length (unix_heap s1)" "un_sock (unix_heap s1 ! p) = SOCKET_INVALID"
    "clock s1 = ts' @ ts"
    by (rule connect_closed [OF Cons.prems(1-3) clk(1)])
  from one(3) Cons.prems(1) have "meta s1 p = Some (lit ''unix{master}'')" by simp
  from Cons.IH [OF this one(4,5)] clk(2) one(6) obtain s2 where
    "connects vm env p paths s1 = Some (map refusal paths, s2)" "new_calls s1 s2 = []" by fastforce
  with one(1,2) show ?case by (auto simp: new_calls_def)
qed

text \<open>C29: a connection attempt of a Unix master that fails leaves the object a master. If the path
  does not fit the address, the answer is "path too long", no call was made and the object keeps its
  descriptor. In every other case, a time limit that runs out included, the object's descriptor, if it
  had one, was closed, once; and however many attempts follow, with whatever paths, they answer
  "closed" ("path too long" if the path is) without a system call.\<close>

theorem failed_connect_closes:
  assumes "unix_meth_connect vm env [LUserdata p, LStr path] s = Some (Inr [LNil, LStr e], s')"
    "meta s p = Some (lit ''unix{master}'')" "p < length (unix_heap s)" "un_sock (unix_heap s ! p) = k"
  shows "meta s' p = Some (lit ''unix{master}'') \<and>
    (if length (c_str path) \<ge> 108
     then e = lit ''path too long'' \<and> new_calls s s' = [] \<and> un_sock (unix_heap s' ! p) = k
     else closed (new_calls s s') = created (new_calls s s') + live k \<and> un_sock (unix_heap s' ! p) = SOCKET_INVALID \<and>
       (\<forall>paths. length paths \<le> length (clock s') \<longrightarrow>
          (\<exists>s''. connects vm env p paths s' = Some (map refusal paths, s'') \<and> new_calls s' s'' = [])))"
proof -
  let ?u = "unix_heap s ! p"
  from assms(1) obtain err k' s1 where att: "unix_tryconnect env k (c_str path) (load_unix ?u s) = Some (Inr (err, k'), s1)"
    and reply: "unix_reply err = [LNil, LStr e]"
    unfolding meth_connect_run [OF assms(2,3)] assms(4) by (auto simp: Let_def split: option.splits sum.splits)
  then have err: "err = Some e" by (cases err) (auto simp: unix_reply_def)
  from hand_unix_tryconnect [of k env "c_str path", unfolded hand_def] att obtain cs where
    cs: "ran (load_unix ?u s) s1 cs" "live k + created cs = live k' + closed cs" "buf_sys.more s1 = buf_sys.more (load_unix ?u s)"
    by fastforce
  note f = unix_fields_of_more [OF cs(3)]
  have h: "unix_heap s1 = unix_heap s" "meta s1 = meta s" by (simp_all add: f load_unix_def)
  from assms(1) att have s': "s' = save_unix s p (s1\<lparr>unix_heap := (unix_heap s1)[p := (unix_heap s1 ! p)\<lparr>un_sock := k'\<rparr>]\<rparr>)"
    unfolding meth_connect_run [OF assms(2,3)] assms(4) by (simp add: err Let_def)
  have calls: "new_calls s s' = cs"
    using cs(1) by (intro new_calls_ran) (simp add: s' ran_def load_unix_def save_unix_def)
  have o: "un_sock (unix_heap s' ! p) = k'" "meta s' p = Some (lit ''unix{master}'')" "p < length (unix_heap s')"
    using assms(2,3) by (simp_all add: s' save_unix_def h)
  show ?thesis
  proof (cases "length (c_str path) < 108")
    case False
    with att err have "e = lit ''path too long''" "k' = k" "s1 = load_unix ?u s"
      by (auto simp: tryconnect_too_long simp del: lit_simps)
    moreover from this cs(1) have "cs = []" by (simp add: ran_def)
    ultimately show ?thesis using False o calls by (simp del: lit_simps)
  next
    case True
    with tryconnect_fails att err have k': "k' = SOCKET_INVALID" by blast
    from connects_closed [OF o(2,3)] o(1) k' have
      "\<forall>paths. length paths \<le> length (clock s') \<longrightarrow>
         (\<exists>s''. connects vm env p paths s' = Some (map refusal paths, s'') \<and> new_calls s' s'' = [])" by blast
    with True calls cs(2) o k' show ?thesis by (simp add: add.commute del: lit_simps)
  qed
qed


section \<open>Examples\<close>

definition sample_unix :: "t_socket \<Rightarrow> bytes \<Rightarrow> t_unix" where
  "sample_unix k d = \<lparr>un_sock = k, un_io = Socket_io, un_block = - 1, un_total = - 1, un_start = 0, un_birthday = 0,
     un_sent = 0, un_received = 0, un_first = 0, un_last = length d, un_data = memcpy_at (replicate BUF_SIZE 0) 0 d\<rparr>"

definition plain_posix :: posix_env where
  "plain_posix = \<lparr>strerror = (\<lambda>_. []), hstrerror = (\<lambda>_. []), gai_strerror = (\<lambda>_. [])\<rparr>"

text \<open>A process whose objects are of this class.\<close>

definition sample_host :: "bytes option \<Rightarrow> t_unix list \<Rightarrow> sysres list \<Rightarrow> unix_sys" where
  "sample_host cls us as = \<lparr>clock = [(0, 0), (0, 0)], answers = as, trace = [], tm_block = 0, tm_total = 0, tm_start = 0,
     buf_birthday = 0, buf_sent = 0, buf_received = 0, buf_first = 0, buf_last = 0, buf_data = [],
     registry = Map.empty, meta = (\<lambda>p. if p < length us then cls else None), unix_heap = us\<rparr>"

lemma sample_host_blank: "unix_blank (sample_host cls [] as)"
  by (simp add: unix_blank_def sample_host_def)

lemma sample_unix_create:
  "\<exists>s1. unix_global_create plain_posix (sample_unix 0 []) [] (sample_host None [] [ret 5 0, ret 2 0, ret 0 0]\<lparr>registry := reg\<rparr>) =
       Some (Inr [LUserdata 0], s1) \<and>
     trace s1 = [(CSocket 1 1 0, ret 5 0), (CFcntl 5 3 0, ret 2 0), (CFcntl 5 4 2050, ret 0 0)]"
  by (simp add: unix_global_create_def usocket_create_def act_bind_def syscall_def sample_host_def ret_def Let_def
      new_unix_def init_unix_def auxiliar_setclass_def usocket_setnonblocking_def O_NONBLOCK_def put_unix_def with_unix_def
      timeout_init_def buffer_init_def timeout_gettime_def read_clock_def load_unix_def save_unix_def)

theorem unix_descriptors_accounted_witness:
  "\<exists>s s1. unix_run plain_vm plain_posix plain_env s [] s1 \<and> length (new_calls s s1) = 3 \<and> unix_owned (s1 :: unix_sys) = {#5#}"
proof -
  let ?s0 = "sample_host None [] [ret 5 0, ret 2 0, ret 0 0]" and ?f = "sample_unix 0 []"
  obtain reg where s: "posix_open plain_vm plain_posix plain_env ?f ?s0 = Some (Inr (), ?s0\<lparr>registry := reg\<rparr>)"
    using posix_open_run [OF sample_host_blank] by blast
  obtain s1 where s1: "unix_global_create plain_posix ?f [] (?s0\<lparr>registry := reg\<rparr>) = Some (Inr [LUserdata 0], s1)"
    "trace s1 = [(CSocket 1 1 0, ret 5 0), (CFcntl 5 3 0, ret 2 0), (CFcntl 5 4 2050, ret 0 0)]"
    using sample_unix_create [of reg] by blast
  have "(''unix'', unix_global_create plain_posix ?f) \<in> set (unix_funcs plain_vm plain_posix plain_env ?f)"
    by (simp add: unix_funcs_def)
  from unix_run.call [OF unix_run.start this, of "[]"] s1
  have run: "unix_run plain_vm plain_posix plain_env (?s0\<lparr>registry := reg\<rparr>) [] s1" by simp
  have calls: "new_calls (?s0\<lparr>registry := reg\<rparr>) s1 =
      [(CSocket 1 1 0, ret 5 0), (CFcntl 5 3 0, ret 2 0), (CFcntl 5 4 2050, ret 0 0)]"
    using s1(2) by (simp add: new_calls_def sample_host_def)
  have "unix_owned s1 = {#5#}"
    using unix_descriptors_accounted [OF sample_host_blank s run] unfolding calls by (simp add: ret_def live_def traded_def)
  with run calls show ?thesis by (intro exI [of _ "?s0\<lparr>registry := reg\<rparr>"] exI [of _ s1]) simp
qed

lemma sample_receive:
  "\<exists>s'. unix_meth_receive plain_vm plain_posix [LUserdata 0, LNil, LStr [1]]
       (sample_host (Some (lit ''unix{client}'')) [sample_unix 5 [104]] [ret (- 1) EINTR, got [105, 13, 10, 33]]) =
     Some (Inr [LStr [1, 104, 105], LNil, LNil], s') \<and>
   new_calls (sample_host (Some (lit ''unix{client}'')) [sample_unix 5 [104]] [ret (- 1) EINTR, got [105, 13, 10, 33]]) s' =
     [(CRecv 5 8192, ret (- 1) EINTR), (CRecv 5 8192, got [105, 13, 10, 33])]"
  by (simp add: unix_meth_receive_def unix_class_def auxiliar_checkclass_def auxiliar_getclassudata_def lua_arg_def
      sample_host_def sample_unix_def act_bind_def with_unix_def receive_line_eq recvline.simps buffer_get_def unix_io_def
      usocket_io_def io_init_def load_unix_def save_unix_def buffer_isempty_def buffer_skip_def usocket_recv_def
      uretry_loop.simps taken_result_def syscall_def got_def ret_def memcpy_at_def Let_def receive_reply_def line_scan_eq
      new_calls_def)

theorem unix_receive_line_witness:
  "\<exists>s'. unix_meth_receive plain_vm plain_posix [LUserdata 0, LNil, LStr [1]]
       (sample_host (Some (lit ''unix{client}'')) [sample_unix 5 [104]] [ret (- 1) EINTR, got [105, 13, 10, 33]]) =
     Some (Inr [LStr [1, 104, 105], LNil, LNil], s') \<and>
   (\<exists>l. 10 \<notin> set l \<and> l @ [10] @ unread_unix (unix_heap s' ! 0) = [104, 105, 13, 10, 33])"
proof -
  let ?s = "sample_host (Some (lit ''unix{client}'')) [sample_unix 5 [104]] [ret (- 1) EINTR, got [105, 13, 10, 33]]"
  obtain s' where run: "unix_meth_receive plain_vm plain_posix [LUserdata 0, LNil, LStr [1]] ?s =
      Some (Inr [LStr [1, 104, 105], LNil, LNil], s')"
    "new_calls ?s s' = [(CRecv 5 8192, ret (- 1) EINTR), (CRecv 5 8192, got [105, 13, 10, 33])]"
    using sample_receive by blast
  have ok: "list_all call_ok (new_calls ?s s')" unfolding run(2) by (simp add: recv_ok_def got_def ret_def)
  have o: "meta ?s 0 = Some (lit ''unix{client}'')" "0 < length (unix_heap ?s)" "unix_buffer_ok (unix_heap ?s ! 0)"
    "unread_unix (unix_heap ?s ! 0) = [104]"
    by (simp_all add: sample_host_def sample_unix_def unix_buffer_ok_def unread_unix_def memcpy_at_def)
  have "\<exists>l. 10 \<notin> set l \<and> l @ [10] @ unread_unix (unix_heap s' ! 0) = [104, 105, 13, 10, 33]"
    using unix_receive_line [OF _ o(1-3) ok] run(1) unfolding run(2) o(4) by (fastforce simp: got_def ret_def)
  with run(1) show ?thesis by blast
qed

lemma sample_unix_connect:
  "\<exists>s'. unix_meth_connect plain_vm plain_posix [LUserdata 0, LStr [47]]
       (sample_host (Some (lit ''unix{master}'')) [sample_unix 5 []] [ret (- 1) 111, ret 2050 0, ret 0 0, ret 0 0]) =
     Some (Inr [LNil, LStr (lit ''connection refused'')], s') \<and> length (clock s') = 1"
  by (simp add: meth_connect_run sample_host_def sample_unix_def load_unix_def unix_tryconnect_def c_str_def
      timeout_markstart_def timeout_gettime_def read_clock_def act_bind_def usocket_connect_def connect_loop_u.simps
      syscall_def ret_def usocket_destroy_def usocket_setblocking_def usocket_strerror_def unix_reply_def save_unix_def Let_def)

theorem failed_connect_closes_witness:
  "\<exists>s' s''. un_sock (unix_heap s' ! 0) = SOCKET_INVALID \<and>
     connects plain_vm plain_posix 0 [[47]] (s' :: unix_sys) = Some ([[LNil, LStr (lit ''closed'')]], s'')"
proof -
  let ?s = "sample_host (Some (lit ''unix{master}'')) [sample_unix 5 []] [ret (- 1) 111, ret 2050 0, ret 0 0, ret 0 0]"
  obtain s' where run: "unix_meth_connect plain_vm plain_posix [LUserdata 0, LStr [47]] ?s =
      Some (Inr [LNil, LStr (lit ''connection refused'')], s')" "length (clock s') = 1"
    using sample_unix_connect by blast
  have o: "meta ?s 0 = Some (lit ''unix{master}'')" "0 < length (unix_heap ?s)" "un_sock (unix_heap ?s ! 0) = 5"
    by (simp_all add: sample_host_def sample_unix_def)
  have short: "length (c_str [47]) < 108" by (simp add: c_str_def)
  then have "refusal [47] = [LNil, LStr (lit ''closed'')]" by (simp add: refusal_def del: lit_simps)
  moreover have "length [[47 :: 8 word]] \<le> length (clock s')" using run(2) by simp
  ultimately show ?thesis
    using failed_connect_closes [OF run(1) o] short by (metis (no_types, lifting) linorder_not_less list.simps(8,9))
qed

end
