(* ===== verification/Spec2Isabelle.thy ===== *)
theory Spec2Isabelle
  imports Md5_Rfc Mime_B64 Mime_Qp Lpack Buffer Utils GsProps LinkedList UthashMore SocketScripts UnixRuns
begin

text \<open>
  A model of the game server in src/GameServer/GameServer and of what is proved about it. The
  server (GameServer.cpp) runs libuv's event loop: it accepts clients, connects to other servers,
  sends what arrives to Lua scripts (LuaScript.cpp), and executes for them what they ask for:
  sending, closing, SQL jobs on a worker thread, MD5, code page conversion. Its connections are
  in hash tables (uthash.h). The scripts also have three C libraries: lpack.c, and from luasocket/ the
  MIME filters and the blocking sockets. The build is the 32-bit Windows one: \<open>int\<close>, \<open>long\<close> and \<open>size_t\<close> have 32 bits.
  The socket library also has a POSIX half (usocket.c, unix.c, serial.c), which this build leaves out; it is
  modelled beside the Windows one, on the same driver interface.


  \<^bold>\<open>The theories\<close>

  Shared:
  \<^item> Prelude: bytes, buffers (\<open>memcpy_at\<close>), little endian, C strings, the named theorem collections.
  \<^item> LuaApi: Lua values, argument checks, C conversions of a \<open>lua_Number\<close>. LuaJIT's coercions and its limit on
    the length of strings are the parameter \<open>lua_vm\<close>.
  \<^item> Sys: Winsock, the POSIX calls and the clock as scripts of answers, and the sequencing \<open>act\<close> of functions over them.

  The server:
  \<^item> Uthash (uthash.h): the table over lists of handles; the locale \<open>registry\<close> is the contract of a
    table of elements with keys, interpreted on the macros. UthashSort: \<open>HASH_SRT\<close> on pointers.
    UthashMore: the macros the server does not use, with the iteration that survives deletions, and
    \<open>HASH_SELECT\<close> on the order and on the buckets.
  \<^item> LinkedList (linked_list.h): the ring macros on pointers.
  \<^item> Utils (utils.cpp): \<open>myatof\<close>, \<open>myatoi\<close>, the log and its buffers.
  \<^item> Sql (\<open>work_cb\<close>, \<open>after_work_cb\<close>): a job over scripted MySQL answers and the table for Lua.
  \<^item> GsEnv: globals, heap and surroundings; GameServer: every callback and Lua function, \<open>tmain\<close>, the
    events and the runs \<open>server_run\<close>. GsInv: the invariant, with the locale \<open>host\<close> for what the
    server needs of the scripts, interpreted on \<open>lua_pcall\<close>. GsRuns: the invariant along runs.
    GsProps: single operations.
  \<^item> Md5 (md5.c) and Md5_Rfc: the context with its buffer, against a reference from RFC 1321.

  The libraries of the scripts:
  \<^item> Lpack (lpack.c): \<open>pack\<close> and \<open>unpack\<close>, loop over loop as in the code.
  \<^item> Filters: the locales \<open>byte_filter\<close> and \<open>carry_filter\<close>, contracts of the chunked filters; Mime_Text,
    Mime_B64, Mime_Qp (mime.c): the filters and their interpretations.
  \<^item> Timeout (timeout.c), Io (luasocket_io.c, the driver interface with the locale \<open>stream_io\<close>), WSocket
    (wsocket.c, which interprets it), Buffer (luasocket_buffer.c, over any driver, in the locale
    \<open>buf_stream\<close>; in its extension \<open>ending_stream\<close>, that a receive returns).
  \<^item> Auxiliar (auxiliar.c): classes, groups and checked casts. Inet (inet.c), Options (options.c). Winsock's
    \<open>inet_ntoa\<close> is a field of their parameter \<open>inet_env\<close>.
  \<^item> Objects: the userdata \<open>t_tcp\<close> and \<open>t_udp\<close> in a heap. Tcp (tcp.c), Udp (udp.c): their methods.
  \<^item> Ownership: what each function does with the descriptors, with the locale \<open>calm_driver\<close> for a
    driver that neither makes nor closes any. SockRuns: the runs of the socket functions.
  \<^item> Select (select.c) over any objects, SelectRuns over those of Tcp and Udp.
  \<^item> Except (except.c), Luasocket (luasocket.c), SocketScripts (socket_scripts.c: the Lua modules in
    \<open>package.preload\<close>, and how \<open>tmain\<close> opens the libraries).
  \<^item> Usocket (usocket.c and the POSIX clock of timeout.c): the second driver, which interprets
    \<open>stream_io\<close> and \<open>buf_stream\<close> again. Unix (unix.c, serial.c): the local stream and serial objects.
    UnixRuns: their runs, with the account of their descriptors.


  \<^bold>\<open>How code is modelled\<close>

  A C function is a function on the state it works on. A \<open>longjmp\<close> out of it, a failed \<open>ASSERT\<close>, a use
  of freed memory and other undefined behaviour are values of \<open>lua_error\<close>; a call that never
  returns, because the script of answers ends while it is blocked, is \<open>None\<close>. Words that may wrap are
  words or written with their modulus; a \<open>double\<close> is the real it stands for. Loops over data
  are recursive. Loops that depend on the surroundings recurse on the script or are partial
  functions, \<open>None\<close> while they wait; that the receiving ones return is a property of its own.
  Loops over pointers are partial functions too, and that they end is proved.
  A function of the server that a coroutine calls takes its arguments from the coroutine's stack, except where
  the code reads them through the main state \<open>g_luaHandel\<close>, which has another frame (\<open>caller\<close> and
  \<open>main_frame\<close> in GsEnv).
  Scripts whose calls into the server and back nest are bounded by a depth \<open>n\<close>
  (\<open>lua_pcall n\<close>), and the statements hold for every \<open>n\<close>; a deeper call has no result. All
  statements about runs quantify over the answers of the surroundings and over what the scripts do.


  \<^bold>\<open>What is proved\<close>

  \<^item> The server: the scripts are told of every session its life, exactly once and in order; the session table
    answers for exactly the existing connections; no freed structure is used - in runs in which no
    connection to another server breaks. Where one breaks, the code frees a structure libuv still
    holds, which is proved too.
  \<^item> The socket objects: through any calls of any socket functions no userdata is ever cast to the wrong
    type, and every descriptor has one owner or was closed once, up to the numbers a script exchanges with
    \<open>setfd\<close>, which are accounted for one by one. \<open>select\<close> reports exactly the objects that are ready or
    have buffered data. The local stream and serial objects have the same account.
  \<^item> Data structures: the hash table refines a map, the ring a list; the merge sort ends with a sorted,
    stable, doubly linked chain.
  \<^item> Algorithms against references: MD5, Base64, quoted-printable (rules 1 to 4 of RFC 2045 6.7; \<open>qp\<close> leaves the
    lengths of lines to \<open>qpwrp\<close>), dot stuffing, line ends and line lengths over any chunks, \<open>pack\<close> and \<open>unpack\<close>,
    addresses, numbers.
  \<^item> Streams: what \<open>receive\<close> and \<open>send\<close> return is what the kernel delivered and accepted, with time limits; a
    \<open>receive\<close> returns at the latest when the stream or the time ends; the total limit is not one per operation.
  \<^item> Errors: where arguments, names, messages or cells overflow buffers or are read out of bounds (\<open>unpack\<close> only
    from a start before the string), and how \<open>protect\<close> and \<open>newtry\<close> turn errors into results; that the C
    parts of the socket library shadow two of its scripts.


  \<^bold>\<open>Not modelled\<close>

  \<^item> libuv, the MySQL client, Winsock and LuaJIT are not in the repository, except for headers: their
    answers are scripts or parameters. Rounding, infinities and NaN of \<open>double\<close> are left out.
  \<^item> The bytes of the arrays in socket_scripts.c, which a tool wrote: LuaJIT byte code, an argument here.
  \<^item> The variants the sources leave out by default: \<open>socket_waitfd\<close> over \<open>select\<close> in usocket.c
    (\<open>SOCKET_SELECT\<close>) and \<open>LUASOCKET_DEBUG\<close>. Numbers of the POSIX calls and errors are those of Linux.
  \<^item> The debugging checks of uthash.h (\<open>HASH_FSCK\<close>, \<open>HASH_EMIT_KEY\<close>), which are empty in this build.
  \<^item> Lua's garbage collector: objects stay in the heap, and \<open>__gc\<close> is a method that may be called
    whenever a run likes.
  \<^item> Threads: the SQL job runs at once as an event of its own, and \<open>ctrlHandler\<close> is an event, although Windows
    calls it on another thread.
\<close>

end
